(* ===== verification/Cb_Prelude.thy ===== *)
theory Cb_Prelude
  imports Complex_Main "HOL-Library.AList" "HOL-Library.Char_ord"
begin

text \<open>
  What the components share: the collections of rewrite rules the component proofs are
  carried by, the value type of the JSON library with its accessors, the contract of a
  component that is a state machine, and generic facts on lists and option values.
\<close>

named_theorems cb_defs \<open>operations of the components, unfolded in the proofs\<close>
named_theorems cb_splits \<open>case splits of the components' enumerations\<close>

section \<open>Bytes and JSON values\<close>

text \<open>
  \<^verbatim>\<open>std::string\<close> and \<^verbatim>\<open>std::string_view\<close> are byte sequences: \<open>string\<close> is a list of
  8-bit characters. \<open>json\<close> is the value type of \<^verbatim>\<open>base::Value\<close>: a dictionary is kept as an
  association list, and the accessors return nothing on a missing key and on a value of
  another type, as \<^verbatim>\<open>base::DictValue\<close> documents. The reader and the writer of JSON text
  are not part of the repository: they are arguments of the definitions that use them.
\<close>

datatype json =
    JNone
  | JBool bool
  | JInt int
  | JDouble rat
  | JString string
  | JList "json list"
  | JDict "(string \<times> json) list"

type_synonym json_dict = "(string \<times> json) list"

definition Find :: "json_dict \<Rightarrow> string \<Rightarrow> json option" where
  "Find d k = map_of d k"

definition GetIfString :: "json \<Rightarrow> string option" where
  "GetIfString v = (case v of JString s \<Rightarrow> Some s | _ \<Rightarrow> None)"

definition GetIfInt :: "json \<Rightarrow> int option" where
  "GetIfInt v = (case v of JInt i \<Rightarrow> Some i | _ \<Rightarrow> None)"

definition GetIfList :: "json \<Rightarrow> json list option" where
  "GetIfList v = (case v of JList l \<Rightarrow> Some l | _ \<Rightarrow> None)"

definition GetIfDict :: "json \<Rightarrow> json_dict option" where
  "GetIfDict v = (case v of JDict d \<Rightarrow> Some d | _ \<Rightarrow> None)"

definition FindString :: "json_dict \<Rightarrow> string \<Rightarrow> string option" where
  "FindString d k = Option.bind (Find d k) GetIfString"

definition FindInt :: "json_dict \<Rightarrow> string \<Rightarrow> int option" where
  "FindInt d k = Option.bind (Find d k) GetIfInt"

text \<open>\<^verbatim>\<open>FindDouble\<close> also reads an integer.\<close>

definition GetIfDouble :: "json \<Rightarrow> rat option" where
  "GetIfDouble v = (case v of JInt i \<Rightarrow> Some (of_int i) | JDouble r \<Rightarrow> Some r | _ \<Rightarrow> None)"

definition FindDouble :: "json_dict \<Rightarrow> string \<Rightarrow> rat option" where
  "FindDouble d k = Option.bind (Find d k) GetIfDouble"

definition FindList :: "json_dict \<Rightarrow> string \<Rightarrow> json list option" where
  "FindList d k = Option.bind (Find d k) GetIfList"

definition GetIfBool :: "json \<Rightarrow> bool option" where
  "GetIfBool v = (case v of JBool b \<Rightarrow> Some b | _ \<Rightarrow> None)"

definition FindBool :: "json_dict \<Rightarrow> string \<Rightarrow> bool option" where
  "FindBool d k = Option.bind (Find d k) GetIfBool"

definition FindDict :: "json_dict \<Rightarrow> string \<Rightarrow> json_dict option" where
  "FindDict d k = Option.bind (Find d k) GetIfDict"

definition DictSet :: "string \<Rightarrow> json \<Rightarrow> json_dict \<Rightarrow> json_dict" where
  "DictSet k v d = AList.update k v d"

lemma Find_Nil [simp]: "Find [] k = None"
  by (simp add: Find_def)

lemma Find_Cons [simp]: "Find ((k', v) # d) k = (if k = k' then Some v else Find d k)"
  by (simp add: Find_def)

lemma Find_DictSet [simp]: "Find (DictSet k' v d) k = (if k = k' then Some v else Find d k)"
  by (simp add: Find_def DictSet_def update_conv)

lemma FindString_DictSet [simp]:
  "FindString (DictSet k' v d) k = (if k = k' then GetIfString v else FindString d k)"
  by (simp add: FindString_def)

lemma FindInt_DictSet [simp]:
  "FindInt (DictSet k' v d) k = (if k = k' then GetIfInt v else FindInt d k)"
  by (simp add: FindInt_def)

lemma FindString_Nil [simp]: "FindString [] k = None"
  by (simp add: FindString_def)

lemma FindInt_Nil [simp]: "FindInt [] k = None"
  by (simp add: FindInt_def)

lemma FindString_Cons [simp]:
  "FindString ((k', v) # d) k = (if k = k' then GetIfString v else FindString d k)"
  by (simp add: FindString_def)

lemma FindInt_Cons [simp]:
  "FindInt ((k', v) # d) k = (if k = k' then GetIfInt v else FindInt d k)"
  by (simp add: FindInt_def)

lemma GetIf_simps [simp]:
  "GetIfString (JString s) = Some s"
  "GetIfInt (JInt i) = Some i"
  "GetIfList (JList l) = Some l"
  "GetIfDict (JDict d) = Some d"
  by (simp_all add: GetIfString_def GetIfInt_def GetIfList_def GetIfDict_def)

lemma GetIfString_eq_Some [simp]: "GetIfString v = Some s \<longleftrightarrow> v = JString s"
  by (cases v) (auto simp: GetIfString_def)

text \<open>A reader gives back the value a writer wrote.\<close>

definition reads_back :: "(json \<Rightarrow> 't option) \<Rightarrow> ('t \<Rightarrow> json option) \<Rightarrow> json \<Rightarrow> bool" where
  "reads_back wr rd v \<longleftrightarrow>
     (case wr v of None \<Rightarrow> True | Some t \<Rightarrow> rd t = Some v)"

lemma reads_backD: "reads_back wr rd v \<Longrightarrow> wr v = Some t \<Longrightarrow> rd t = Some v"
  by (simp add: reads_back_def)

text \<open>\<^verbatim>\<open>base::ToLowerASCII\<close> on one character.\<close>

definition ToLowerASCII :: "char \<Rightarrow> char" where
  "ToLowerASCII c = (if CHR ''A'' \<le> c \<and> c \<le> CHR ''Z'' then char_of ((of_char c :: nat) + 32) else c)"

text \<open>
  Decoding of a JSON object into a struct of the Go programs: a key is matched whatever its case and the
  last match counts, a missing or null field keeps its zero value, and a value of another type is an error.
\<close>

definition go_field :: "json_dict \<Rightarrow> string \<Rightarrow> json option" where
  "go_field d k = map_of (rev (map (\<lambda>(k', v). (map ToLowerASCII k', v)) d)) k"

definition go_string :: "json_dict \<Rightarrow> string \<Rightarrow> string option" where
  "go_string d k =
     (case go_field d k of None \<Rightarrow> Some [] | Some JNone \<Rightarrow> Some [] | Some (JString s) \<Rightarrow> Some s | _ \<Rightarrow> None)"

definition go_int :: "json_dict \<Rightarrow> string \<Rightarrow> int option" where
  "go_int d k =
     (case go_field d k of
        None \<Rightarrow> Some 0
      | Some JNone \<Rightarrow> Some 0
      | Some (JInt i) \<Rightarrow> if - (2 ^ 63) \<le> i \<and> i < 2 ^ 63 then Some i else None
      | _ \<Rightarrow> None)"

section \<open>Decimal numbers\<close>

fun digits_of :: "nat \<Rightarrow> string" where
  "digits_of n =
     (if n < 10 then [char_of (48 + n)] else digits_of (n div 10) @ [char_of (48 + n mod 10)])"

declare digits_of.simps [simp del]

text \<open>\<^verbatim>\<open>base::NumberToString\<close> and \<^verbatim>\<open>std::to_string\<close>.\<close>

definition NumberToString :: "int \<Rightarrow> string" where
  "NumberToString i = (if i < 0 then CHR ''-'' # digits_of (nat (- i)) else digits_of (nat i))"

section \<open>Components as state machines\<close>

text \<open>
  The contract of a component whose operations are the steps of a machine: the invariant
  holds in the initial states and every step keeps it. What a client gets from it is that
  the invariant holds after every sequence of steps.
\<close>

locale invariant_machine =
  fixes initial :: "'s \<Rightarrow> bool"
    and step :: "'e \<Rightarrow> 's \<Rightarrow> 's"
    and invar :: "'s \<Rightarrow> bool"
  assumes invar_initial: "initial s \<Longrightarrow> invar s"
    and invar_step: "invar s \<Longrightarrow> invar (step e s)"
begin

lemma invar_run: "invar s \<Longrightarrow> invar (fold step es s)"
  by (induction es arbitrary: s) (auto intro: invar_step)

lemma invar_reached: "initial s \<Longrightarrow> invar (fold step es s)"
  by (blast intro: invar_initial invar_run)

end

text \<open>
  A machine with a set of states that no step leaves.
\<close>

locale absorbing_machine =
  fixes step :: "'e \<Rightarrow> 's \<Rightarrow> 's"
    and absorbed :: "'s \<Rightarrow> bool"
  assumes absorbed_step: "absorbed s \<Longrightarrow> absorbed (step e s)"
begin

lemma absorbed_run: "absorbed s \<Longrightarrow> absorbed (fold step es s)"
  by (induction es arbitrary: s) (auto intro: absorbed_step)

end

section \<open>Lists\<close>

lemma count_list_append_single:
  "count_list (xs @ [y]) x = count_list xs x + (if x = y then 1 else 0)"
  by simp

lemma take_append_exact [simp]: "n = length xs \<Longrightarrow> take n (xs @ ys) = xs"
  by simp

lemma drop_append_exact [simp]: "n = length xs \<Longrightarrow> drop n (xs @ ys) = ys"
  by simp


lemma list_all_take: "list_all P xs \<Longrightarrow> list_all P (take n xs)"
  by (auto simp: list_all_iff dest: in_set_takeD)

end
