(* ===== verification/Cb_Wire_Envelope.thy ===== *)
theory Cb_Wire_Envelope
  imports Cb_Prelude
begin

text \<open>
  The signaling codec, \<^verbatim>\<open>capture/signaling/cb_wire_envelope.{h,cc}\<close>: the tags and the
  roles, the typed payloads, \<^verbatim>\<open>Encode\<close> and \<^verbatim>\<open>Decode\<close> with the canonical and the portal
  dialect. The JSON writer and reader are arguments (\<open>wr\<close>, \<open>rd\<close>); the text they
  work on is a type variable.
\<close>

datatype EnvelopeType =
    kOffer
  | kAnswer
  | kIce
  | kBye
  | kRequestRenegotiate
  | kProbeResult
  | kSessionUnhealthy
  | kPeerAbsent

datatype PeerRole = kBrowser | kClient

record SdpPayload =
  sdp_type :: string
  sdp :: string

record IceCandidatePayload =
  is_end_of_candidates :: bool
  candidate :: string
  sdp_mid :: "string option"
  sdp_m_line_index :: "int option"
  username_fragment :: "string option"

datatype EnvelopeData =
    Monostate
  | Sdp SdpPayload
  | IceCandidate IceCandidatePayload
  | ProbeResult json_dict

record Envelope =
  env_type :: EnvelopeType
  env_from :: PeerRole
  env_data :: EnvelopeData

definition default_ice :: IceCandidatePayload where
  "default_ice = \<lparr>is_end_of_candidates = False, candidate = [], sdp_mid = None,
     sdp_m_line_index = None, username_fragment = None\<rparr>"

section \<open>Tags and roles\<close>

definition TagFromString :: "string \<Rightarrow> EnvelopeType option" where
  "TagFromString tag =
     (if tag = ''offer'' then Some kOffer
      else if tag = ''answer'' then Some kAnswer
      else if tag = ''ice'' then Some kIce
      else if tag = ''bye'' then Some kBye
      else if tag = ''request_renegotiate'' then Some kRequestRenegotiate
      else if tag = ''probe_result'' then Some kProbeResult
      else if tag = ''session_unhealthy'' then Some kSessionUnhealthy
      else if tag = ''peer_absent'' then Some kPeerAbsent
      else None)"

definition PortalTagFromString :: "string \<Rightarrow> EnvelopeType option" where
  "PortalTagFromString tag =
     (if tag = ''sdp_offer'' then Some kOffer
      else if tag = ''sdp_answer'' then Some kAnswer
      else if tag = ''ice_candidate'' then Some kIce
      else None)"

fun TagToString :: "EnvelopeType \<Rightarrow> string" where
  "TagToString kOffer = ''offer''"
| "TagToString kAnswer = ''answer''"
| "TagToString kIce = ''ice''"
| "TagToString kBye = ''bye''"
| "TagToString kRequestRenegotiate = ''request_renegotiate''"
| "TagToString kProbeResult = ''probe_result''"
| "TagToString kSessionUnhealthy = ''session_unhealthy''"
| "TagToString kPeerAbsent = ''peer_absent''"

definition RoleFromString :: "string \<Rightarrow> PeerRole option" where
  "RoleFromString role =
     (if role = ''browser'' then Some kBrowser
      else if role = ''client'' then Some kClient
      else None)"

fun RoleToString :: "PeerRole \<Rightarrow> string" where
  "RoleToString kBrowser = ''browser''"
| "RoleToString kClient = ''client''"

section \<open>Encode\<close>

text \<open>
  \<^verbatim>\<open>EncodedData\<close> has a flag for an invariant violation and one for an omitted field; the
  value is only rd when the first is set and the second is not.
\<close>

record EncodedData =
  ed_ok :: bool
  omit_field :: bool
  data_value :: json

definition default_encoded :: EncodedData where
  "default_encoded = \<lparr>ed_ok = False, omit_field = False, data_value = JNone\<rparr>"

definition SetOptString :: "string \<Rightarrow> string option \<Rightarrow> json_dict \<Rightarrow> json_dict" where
  "SetOptString k v d = (case v of None \<Rightarrow> d | Some s \<Rightarrow> DictSet k (JString s) d)"

definition SetOptInt :: "string \<Rightarrow> int option \<Rightarrow> json_dict \<Rightarrow> json_dict" where
  "SetOptInt k v d = (case v of None \<Rightarrow> d | Some i \<Rightarrow> DictSet k (JInt i) d)"

fun EncodeData :: "EnvelopeType \<Rightarrow> EnvelopeData \<Rightarrow> EncodedData" where
  "EncodeData type data =
     (let out = default_encoded in
      case type of
        kOffer \<Rightarrow> (case data of
            Sdp p \<Rightarrow> out\<lparr>ed_ok := True,
              data_value := JDict (DictSet ''sdp'' (JString (sdp p))
                                    (DictSet ''type'' (JString (sdp_type p)) []))\<rparr>
          | _ \<Rightarrow> out)
      | kAnswer \<Rightarrow> (case data of
            Sdp p \<Rightarrow> out\<lparr>ed_ok := True,
              data_value := JDict (DictSet ''sdp'' (JString (sdp p))
                                    (DictSet ''type'' (JString (sdp_type p)) []))\<rparr>
          | _ \<Rightarrow> out)
      | kIce \<Rightarrow> (case data of
            IceCandidate ice \<Rightarrow>
              (if is_end_of_candidates ice then out\<lparr>ed_ok := True, data_value := JNone\<rparr>
               else out\<lparr>ed_ok := True,
                 data_value := JDict
                   (SetOptString ''usernameFragment'' (username_fragment ice)
                     (SetOptInt ''sdpMLineIndex'' (sdp_m_line_index ice)
                       (SetOptString ''sdpMid'' (sdp_mid ice)
                         (DictSet ''candidate'' (JString (candidate ice)) []))))\<rparr>)
          | _ \<Rightarrow> out)
      | kBye \<Rightarrow> (case data of Monostate \<Rightarrow> out\<lparr>ed_ok := True, omit_field := True\<rparr> | _ \<Rightarrow> out)
      | kSessionUnhealthy \<Rightarrow>
          (case data of Monostate \<Rightarrow> out\<lparr>ed_ok := True, omit_field := True\<rparr> | _ \<Rightarrow> out)
      | kPeerAbsent \<Rightarrow>
          (case data of Monostate \<Rightarrow> out\<lparr>ed_ok := True, omit_field := True\<rparr> | _ \<Rightarrow> out)
      | kRequestRenegotiate \<Rightarrow>
          (case data of Monostate \<Rightarrow> out\<lparr>ed_ok := True, data_value := JNone\<rparr> | _ \<Rightarrow> out)
      | kProbeResult \<Rightarrow>
          (case data of ProbeResult raw \<Rightarrow> out\<lparr>ed_ok := True, data_value := JDict raw\<rparr>
           | _ \<Rightarrow> out))"

definition envelope_dict :: "Envelope \<Rightarrow> EncodedData \<Rightarrow> json_dict" where
  "envelope_dict env ed =
     (let d = DictSet ''from'' (JString (RoleToString (env_from env)))
                (DictSet ''type'' (JString (TagToString (env_type env))) [])
      in if \<not> omit_field ed then DictSet ''data'' (data_value ed) d else d)"

definition Encode :: "(json \<Rightarrow> 't option) \<Rightarrow> Envelope \<Rightarrow> 't option" where
  "Encode wr env =
     (let ed = EncodeData (env_type env) (env_data env) in
      if \<not> ed_ok ed then None else wr (JDict (envelope_dict env ed)))"

section \<open>Decode\<close>

definition DecodeIceDict :: "json_dict \<Rightarrow> string \<Rightarrow> IceCandidatePayload" where
  "DecodeIceDict d c =
     \<lparr>is_end_of_candidates = (c = []), candidate = c,
      sdp_mid = FindString d ''sdpMid'', sdp_m_line_index = FindInt d ''sdpMLineIndex'',
      username_fragment = FindString d ''usernameFragment''\<rparr>"

fun DecodeData :: "EnvelopeType \<Rightarrow> json option \<Rightarrow> EnvelopeData option" where
  "DecodeData type data =
     (case type of
        kOffer \<Rightarrow> (case data of
            Some (JDict d) \<Rightarrow> (case (FindString d ''type'', FindString d ''sdp'') of
                (Some st, Some s) \<Rightarrow>
                  (if st \<noteq> TagToString type then None
                   else Some (Sdp \<lparr>sdp_type = st, sdp = s\<rparr>))
              | _ \<Rightarrow> None)
          | _ \<Rightarrow> None)
      | kAnswer \<Rightarrow> (case data of
            Some (JDict d) \<Rightarrow> (case (FindString d ''type'', FindString d ''sdp'') of
                (Some st, Some s) \<Rightarrow>
                  (if st \<noteq> TagToString type then None
                   else Some (Sdp \<lparr>sdp_type = st, sdp = s\<rparr>))
              | _ \<Rightarrow> None)
          | _ \<Rightarrow> None)
      | kIce \<Rightarrow> (case data of
            None \<Rightarrow> None
          | Some JNone \<Rightarrow> Some (IceCandidate (default_ice\<lparr>is_end_of_candidates := True\<rparr>))
          | Some (JDict d) \<Rightarrow> (case FindString d ''candidate'' of
                None \<Rightarrow> None
              | Some c \<Rightarrow> Some (IceCandidate (DecodeIceDict d c)))
          | _ \<Rightarrow> None)
      | kBye \<Rightarrow> (case data of None \<Rightarrow> Some Monostate | Some _ \<Rightarrow> None)
      | kRequestRenegotiate \<Rightarrow>
          (case data of None \<Rightarrow> Some Monostate | Some JNone \<Rightarrow> Some Monostate | _ \<Rightarrow> None)
      | kProbeResult \<Rightarrow> (case data of Some (JDict d) \<Rightarrow> Some (ProbeResult d) | _ \<Rightarrow> None)
      | kSessionUnhealthy \<Rightarrow> (case data of None \<Rightarrow> Some Monostate | Some _ \<Rightarrow> None)
      | kPeerAbsent \<Rightarrow> (case data of None \<Rightarrow> Some Monostate | Some _ \<Rightarrow> None))"

definition DecodePortal :: "json_dict \<Rightarrow> EnvelopeType \<Rightarrow> Envelope option" where
  "DecodePortal dict portal_type =
     (case portal_type of
        kOffer \<Rightarrow> (case FindString dict ''sdp'' of
            None \<Rightarrow> None
          | Some s \<Rightarrow> Some \<lparr>env_type = portal_type, env_from = kClient,
              env_data = Sdp \<lparr>sdp_type = TagToString portal_type, sdp = s\<rparr>\<rparr>)
      | kAnswer \<Rightarrow> (case FindString dict ''sdp'' of
            None \<Rightarrow> None
          | Some s \<Rightarrow> Some \<lparr>env_type = portal_type, env_from = kClient,
              env_data = Sdp \<lparr>sdp_type = TagToString portal_type, sdp = s\<rparr>\<rparr>)
      | kIce \<Rightarrow> (case FindString dict ''candidate'' of
            None \<Rightarrow> Some \<lparr>env_type = portal_type, env_from = kClient,
              env_data = IceCandidate (default_ice\<lparr>is_end_of_candidates := True\<rparr>)\<rparr>
          | Some c \<Rightarrow> Some \<lparr>env_type = portal_type, env_from = kClient,
              env_data = IceCandidate (DecodeIceDict dict c)\<rparr>)
      | _ \<Rightarrow> None)"

definition DecodeCanonical :: "json_dict \<Rightarrow> EnvelopeType \<Rightarrow> Envelope option" where
  "DecodeCanonical dict type =
     (case FindString dict ''from'' of
        None \<Rightarrow> None
      | Some from_str \<Rightarrow> (case RoleFromString from_str of
          None \<Rightarrow> None
        | Some from_role \<Rightarrow> (case DecodeData type (Find dict ''data'') of
            None \<Rightarrow> None
          | Some payload \<Rightarrow>
              Some \<lparr>env_type = type, env_from = from_role, env_data = payload\<rparr>)))"

definition Decode :: "('t \<Rightarrow> json option) \<Rightarrow> 't \<Rightarrow> Envelope option" where
  "Decode rd text =
     (case rd text of
        Some (JDict dict) \<Rightarrow> (case FindString dict ''type'' of
            None \<Rightarrow> None
          | Some type_str \<Rightarrow> (case TagFromString type_str of
              Some type \<Rightarrow> DecodeCanonical dict type
            | None \<Rightarrow> (case PortalTagFromString type_str of
                None \<Rightarrow> None
              | Some portal_type \<Rightarrow> DecodePortal dict portal_type)))
      | _ \<Rightarrow> None)"

definition MakeIceEndOfCandidates :: "PeerRole \<Rightarrow> Envelope" where
  "MakeIceEndOfCandidates role =
     \<lparr>env_type = kIce, env_from = role,
      env_data = IceCandidate (default_ice\<lparr>is_end_of_candidates := True\<rparr>)\<rparr>"

section \<open>Payloads that match their tag\<close>

fun payload_matches :: "EnvelopeType \<Rightarrow> EnvelopeData \<Rightarrow> bool" where
  "payload_matches kOffer (Sdp _) = True"
| "payload_matches kAnswer (Sdp _) = True"
| "payload_matches kIce (IceCandidate _) = True"
| "payload_matches kProbeResult (ProbeResult _) = True"
| "payload_matches kBye Monostate = True"
| "payload_matches kRequestRenegotiate Monostate = True"
| "payload_matches kSessionUnhealthy Monostate = True"
| "payload_matches kPeerAbsent Monostate = True"
| "payload_matches _ _ = False"

text \<open>The redundant copy of the tag inside an SDP payload equals the tag.\<close>

definition sdp_type_agrees :: "Envelope \<Rightarrow> bool" where
  "sdp_type_agrees e \<longleftrightarrow>
     (case env_data e of Sdp p \<Rightarrow> sdp_type p = TagToString (env_type e) | _ \<Rightarrow> True)"

text \<open>
  What the receiver of a candidate sees: an end-of-candidates marker carries nothing else,
  and a candidate with an empty string is the marker.
\<close>

definition normalise_ice :: "IceCandidatePayload \<Rightarrow> IceCandidatePayload" where
  "normalise_ice p =
     (if is_end_of_candidates p then default_ice\<lparr>is_end_of_candidates := True\<rparr>
      else p\<lparr>is_end_of_candidates := (candidate p = [])\<rparr>)"

definition normalise :: "Envelope \<Rightarrow> Envelope" where
  "normalise e =
     (case env_data e of IceCandidate p \<Rightarrow> e\<lparr>env_data := IceCandidate (normalise_ice p)\<rparr>
      | _ \<Rightarrow> e)"

lemma TagFromString_TagToString [simp]: "TagFromString (TagToString t) = Some t"
  by (cases t) (simp_all add: TagFromString_def)

lemma TagFromString_Some: "TagFromString s = Some t \<longleftrightarrow> s = TagToString t"
  by (cases t) (auto simp: TagFromString_def)

lemma RoleFromString_RoleToString [simp]: "RoleFromString (RoleToString r) = Some r"
  by (cases r) (simp_all add: RoleFromString_def)

lemma RoleFromString_Some: "RoleFromString s = Some r \<longleftrightarrow> s = RoleToString r"
  by (cases r) (auto simp: RoleFromString_def)

lemma PortalTagFromString_Some_not_canonical:
  "PortalTagFromString s = Some t \<Longrightarrow> TagFromString s = None"
  by (auto simp: PortalTagFromString_def TagFromString_def split: if_splits)

lemma ed_ok_EncodeData [simp]: "ed_ok (EncodeData t d) \<longleftrightarrow> payload_matches t d"
  by (cases t; cases d) (simp_all add: default_encoded_def Let_def)

lemma FindString_SetOptString [simp]:
  "FindString (SetOptString k' v d) k = (if k = k' \<and> v \<noteq> None then v else FindString d k)"
  by (cases v) (simp_all add: SetOptString_def)

lemma FindInt_SetOptString [simp]:
  "FindInt (SetOptString k' v d) k = (if k = k' \<and> v \<noteq> None then None else FindInt d k)"
  by (cases v) (simp_all add: SetOptString_def GetIfInt_def)

lemma FindString_SetOptInt [simp]:
  "FindString (SetOptInt k' v d) k = (if k = k' \<and> v \<noteq> None then None else FindString d k)"
  by (cases v) (simp_all add: SetOptInt_def GetIfString_def)

lemma FindInt_SetOptInt [simp]:
  "FindInt (SetOptInt k' v d) k = (if k = k' \<and> v \<noteq> None then v else FindInt d k)"
  by (cases v) (simp_all add: SetOptInt_def)

lemma envelope_dict_fields [simp]:
  "FindString (envelope_dict e ed) ''type'' = Some (TagToString (env_type e))"
  "FindString (envelope_dict e ed) ''from'' = Some (RoleToString (env_from e))"
  "Find (envelope_dict e ed) ''data'' = (if omit_field ed then None else Some (data_value ed))"
  by (simp_all add: envelope_dict_def Let_def)

text \<open>What the receiver makes of the \<open>data\<close> field the sender builds.\<close>

lemma DecodeData_EncodeData:
  assumes "payload_matches (env_type e) (env_data e)" and "sdp_type_agrees e"
  shows "DecodeData (env_type e)
           (if omit_field (EncodeData (env_type e) (env_data e)) then None
            else Some (data_value (EncodeData (env_type e) (env_data e))))
         = Some (env_data (normalise e))"
  using assms
  by (cases "env_type e"; cases "env_data e")
     (auto simp: default_encoded_def sdp_type_agrees_def normalise_def normalise_ice_def
       DecodeIceDict_def)

lemma normalise_frame [simp]:
  "env_type (normalise e) = env_type e" "env_from (normalise e) = env_from e"
  by (simp_all add: normalise_def split: EnvelopeData.split)

lemma Decode_envelope_dict:
  assumes "payload_matches (env_type e) (env_data e)" and "sdp_type_agrees e"
    and "rd t = Some (JDict (envelope_dict e (EncodeData (env_type e) (env_data e))))"
  shows "Decode rd t = Some (normalise e)"
  using DecodeData_EncodeData [OF assms(1,2)] assms(3)
  by (simp add: Decode_def DecodeCanonical_def del: EncodeData.simps DecodeData.simps)

lemma decodes_what_it_encodes:
  assumes "sdp_type_agrees e" and "\<And>v. reads_back wr rd v" and "Encode wr e = Some t"
  shows "Decode rd t = Some (normalise e)"
proof -
  let ?v = "JDict (envelope_dict e (EncodeData (env_type e) (env_data e)))"
  have "payload_matches (env_type e) (env_data e)" and "wr ?v = Some t"
    using assms(3) by (auto simp: Encode_def Let_def simp del: EncodeData.simps split: if_splits)
  moreover have "rd t = Some ?v"
    using assms(2) [of ?v] \<open>wr ?v = Some t\<close> by (simp add: reads_back_def del: EncodeData.simps)
  ultimately show ?thesis using assms(1) by (intro Decode_envelope_dict)
qed

lemma DecodeData_matches: "DecodeData t v = Some d \<Longrightarrow> payload_matches t d"
  by (cases t) (auto split: option.splits json.splits if_splits)

lemma DecodeData_sdp: "DecodeData t v = Some (Sdp p) \<Longrightarrow> sdp_type p = TagToString t"
  by (cases t) (auto split: option.splits json.splits if_splits)

lemma DecodePortal_matches:
  "DecodePortal d t = Some e \<Longrightarrow>
     env_type e = t \<and> env_from e = kClient \<and> payload_matches (env_type e) (env_data e)
     \<and> sdp_type_agrees e"
  by (auto simp: DecodePortal_def sdp_type_agrees_def split: EnvelopeType.splits option.splits)

section \<open>Properties\<close>

text \<open>
  C20. Round trip: an envelope whose payload matches its tag and that the encoder wrote is
  decoded to the same envelope, an end-of-candidates marker being normalised (it carries
  no other field, and an empty candidate string is the marker).
\<close>

theorem Encode_Decode_roundtrip:
  assumes "payload_matches (env_type e) (env_data e)" and "sdp_type_agrees e"
    and "reads_back wr rd (JDict (envelope_dict e (EncodeData (env_type e) (env_data e))))"
    and "Encode wr e = Some t"
  shows "Decode rd t = Some (normalise e)"
proof -
  let ?d = "JDict (envelope_dict e (EncodeData (env_type e) (env_data e)))"
  from assms(1,4) have "wr ?d = Some t"
    by (simp add: Encode_def Let_def del: EncodeData.simps)
  with assms(3) have "rd t = Some ?d"
    by (simp add: reads_back_def)
  with assms(1,2) show ?thesis by (rule Decode_envelope_dict)
qed

theorem Encode_Decode_roundtrip_witness:
  "Decode Some (JDict [(''type'', JString ''ice''), (''from'', JString ''browser''),
      (''data'', JDict [(''candidate'', JString ''c''), (''sdpMLineIndex'', JInt 0)])])
   = Some \<lparr>env_type = kIce, env_from = kBrowser,
       env_data = IceCandidate \<lparr>is_end_of_candidates = False, candidate = ''c'', sdp_mid = None,
         sdp_m_line_index = Some 0, username_fragment = None\<rparr>\<rparr>"
  using Encode_Decode_roundtrip [where wr = Some and rd = Some and
      e = "\<lparr>env_type = kIce, env_from = kBrowser,
       env_data = IceCandidate \<lparr>is_end_of_candidates = False, candidate = ''c'', sdp_mid = None,
         sdp_m_line_index = Some 0, username_fragment = None\<rparr>\<rparr>"]
  by (simp add: sdp_type_agrees_def reads_back_def Encode_def envelope_dict_def normalise_def
      normalise_ice_def default_encoded_def SetOptString_def SetOptInt_def DictSet_def)

text \<open>
  C30. Only the pinned tags decode, with the payload their tag asks for: the accepted frame
  is a dictionary whose tag is the canonical tag of the result and whose \<open>from\<close> is a known
  role, or one of the three portal tags, which are read as coming from the client.
\<close>

theorem Decode_accept_list:
  assumes "Decode rd t = Some e"
  shows "payload_matches (env_type e) (env_data e) \<and> sdp_type_agrees e \<and>
    (\<exists>d tag. rd t = Some (JDict d) \<and> FindString d ''type'' = Some tag \<and>
       (tag = TagToString (env_type e) \<and>
          FindString d ''from'' = Some (RoleToString (env_from e)) \<and>
          (env_type e \<in> {kBye, kSessionUnhealthy, kPeerAbsent} \<longrightarrow> Find d ''data'' = None)
        \<or> PortalTagFromString tag = Some (env_type e) \<and> env_from e = kClient))"
proof -
  from assms obtain d tag where
    d: "rd t = Some (JDict d)" and tag: "FindString d ''type'' = Some tag"
    by (auto simp: Decode_def split: option.splits json.splits)
  show ?thesis
  proof (cases "TagFromString tag")
    case (Some type)
    with assms d tag obtain from_role payload where
      f: "FindString d ''from'' = Some (RoleToString from_role)" and
      p: "DecodeData type (Find d ''data'') = Some payload" and
      e: "e = \<lparr>env_type = type, env_from = from_role, env_data = payload\<rparr>"
      by (auto simp: Decode_def DecodeCanonical_def RoleFromString_Some
          split: option.splits simp del: DecodeData.simps)
    have "type \<in> {kBye, kSessionUnhealthy, kPeerAbsent} \<longrightarrow> Find d ''data'' = None"
      using p by (auto split: option.splits)
    moreover have "sdp_type_agrees e"
      using p e by (auto simp: sdp_type_agrees_def split: EnvelopeData.split
          dest: DecodeData_sdp simp del: DecodeData.simps)
    ultimately show ?thesis
      using Some d tag f e DecodeData_matches [OF p] by (simp add: TagFromString_Some)
  next
    case None
    with assms d tag obtain pt where
      pt: "PortalTagFromString tag = Some pt" and "DecodePortal d pt = Some e"
      by (auto simp: Decode_def split: option.splits)
    with DecodePortal_matches d tag show ?thesis by blast
  qed
qed

theorem Decode_accept_list_witness:
  "payload_matches kIce (IceCandidate (default_ice\<lparr>is_end_of_candidates := True\<rparr>)) \<and>
   Decode Some (JDict [(''type'', JString ''ice_candidate'')])
     = Some (MakeIceEndOfCandidates kClient)"
  using Decode_accept_list [where rd = Some and t = "JDict [(''type'', JString ''ice_candidate'')]"
      and e = "MakeIceEndOfCandidates kClient"]
  by (simp add: MakeIceEndOfCandidates_def Decode_def DecodePortal_def TagFromString_def
      PortalTagFromString_def)

fun canonical_of_portal :: "EnvelopeType \<Rightarrow> json_dict \<Rightarrow> json_dict" where
  "canonical_of_portal t d =
     [(''type'', JString (TagToString t)), (''from'', JString ''client''),
      (''data'',
        case t of
          kIce \<Rightarrow> (if FindString d ''candidate'' = None then JNone else JDict d)
        | _ \<Rightarrow> JDict ((''type'', JString (TagToString t)) # d))]"

text \<open>
  The two dialects agree: a portal frame decodes to what the canonical frame with the
  same payload, sent by the client, decodes to.
\<close>

theorem portal_dialect_agrees:
  assumes "PortalTagFromString tag = Some t" and "FindString d ''type'' = Some tag"
  shows "Decode Some (JDict d) = Decode Some (JDict (canonical_of_portal t d))"
  using assms PortalTagFromString_Some_not_canonical [OF assms(1)]
  by (auto simp: Decode_def DecodeCanonical_def DecodePortal_def PortalTagFromString_def
      TagFromString_def RoleFromString_def split: if_splits option.splits)

theorem portal_dialect_agrees_witness:
  "Decode Some (JDict [(''type'', JString ''sdp_answer''), (''sdp'', JString ''v=0'')])
   = Decode Some (JDict (canonical_of_portal kAnswer
       [(''type'', JString ''sdp_answer''), (''sdp'', JString ''v=0'')]))"
  by (rule portal_dialect_agrees [where tag = "''sdp_answer''"])
     (simp_all add: PortalTagFromString_def)

end
