(* ===== verification/Cb_Transport.thy ===== *)
theory Cb_Transport
  imports Cb_Wire_Envelope
begin

text \<open>
  The transport interface, \<^verbatim>\<open>capture/signaling/cb_signaling_transport.h\<close>: one operation, \<open>Send\<close>,
  with the contract its comment states. The WebSocket client and the reconnect supervisor
  implement it and interpret the locale in their theories; what a user of the interface
  may rely on is proved here once.
\<close>

text \<open>The sender an implementation must stamp.\<close>

definition stamp :: "Envelope \<Rightarrow> Envelope" where
  "stamp e = e\<lparr>env_from := kBrowser\<rparr>"

lemma stamp_keeps [simp]:
  "env_type (stamp e) = env_type e" "env_data (stamp e) = env_data e" "env_from (stamp e) = kBrowser"
  "sdp_type_agrees (stamp e) = sdp_type_agrees e"
  by (simp_all add: stamp_def sdp_type_agrees_def split: EnvelopeData.split)

text \<open>A sequence of sends, each with the fate of its pipe write, and the results.\<close>

fun send_all :: "(bool \<Rightarrow> Envelope \<Rightarrow> 's \<Rightarrow> bool \<times> 's) \<Rightarrow> (bool \<times> Envelope) list \<Rightarrow> 's
    \<Rightarrow> bool list \<times> 's" where
  "send_all send [] s = ([], s)"
| "send_all send ((ok, e) # es) s =
     (let (r, s1) = send ok e s; (rs, s2) = send_all send es s1 in (r # rs, s2))"

definition accepted :: "bool list \<Rightarrow> (bool \<times> Envelope) list \<Rightarrow> Envelope list" where
  "accepted rs es = map (snd \<circ> snd) (filter fst (zip rs es))"

lemma accepted_simps [simp]:
  "accepted [] [] = []"
  "accepted (r # rs) (x # es) = (if r then [snd x] else []) @ accepted rs es"
  by (simp_all add: accepted_def)

locale signaling_transport =
  fixes send :: "bool \<Rightarrow> Envelope \<Rightarrow> 's \<Rightarrow> bool \<times> 's"
    and ready :: "'s \<Rightarrow> bool"
    and on_wire :: "'s \<Rightarrow> 't list"
    and wr :: "json \<Rightarrow> 't option"
  assumes not_ready: "\<not> ready s \<Longrightarrow> send ok e s = (False, s)"
    and sends: "send ok e s = (True, s') \<Longrightarrow>
      \<exists>f. Encode wr (stamp e) = Some f \<and> on_wire s' = on_wire s @ [f]"
    and refuses: "send ok e s = (False, s') \<Longrightarrow> on_wire s' = on_wire s"
begin

lemma wire_log:
  "on_wire (snd (send_all send es s)) =
     on_wire s @ map (\<lambda>e. the (Encode wr (stamp e))) (accepted (fst (send_all send es s)) es)
   \<and> list_all (\<lambda>e. Encode wr (stamp e) \<noteq> None) (accepted (fst (send_all send es s)) es)"
proof (induction es arbitrary: s)
  case (Cons x es)
  obtain ok e where x: "x = (ok, e)" by (cases x)
  obtain r s1 where step: "send ok e s = (r, s1)" by (cases "send ok e s")
  obtain rs s2 where rest: "send_all send es s1 = (rs, s2)" by (cases "send_all send es s1")
  from Cons.IH [of s1] show ?case
    using step rest sends [of ok e s s1] refuses [of ok e s s1] x by (cases r) auto
qed (simp add: accepted_def)

text \<open>
  What the peer reads off the wire: in order, exactly the envelopes that were accepted, each
  with the browser as its sender.
\<close>

lemma peer_reads_accepted:
  assumes "\<And>v. reads_back wr rd v" and "list_all (sdp_type_agrees \<circ> snd) es"
  shows "map (Decode rd) (drop (length (on_wire s)) (on_wire (snd (send_all send es s))))
    = map (\<lambda>e. Some (normalise (stamp e))) (accepted (fst (send_all send es s)) es)"
proof -
  let ?acc = "accepted (fst (send_all send es s)) es"
  have "Decode rd (the (Encode wr (stamp e))) = Some (normalise (stamp e))" if e: "e \<in> set ?acc" for e
  proof -
    have "sdp_type_agrees (stamp e)"
      using e assms(2) by (auto simp: accepted_def list_all_iff dest!: set_zip_rightD)
    moreover obtain f where f: "Encode wr (stamp e) = Some f"
      using e wire_log [of es s] by (auto simp: list_all_iff)
    ultimately show ?thesis using decodes_what_it_encodes [OF _ _ f] assms(1) by simp
  qed
  then show ?thesis using wire_log [of es s] by simp
qed

end

end
