(* ===== verification/Cb_Ws_Client.thy ===== *)
theory Cb_Ws_Client
  imports Cb_Transport "HOL-Library.Word"
begin

text \<open>
  The signaling WebSocket client, \<^verbatim>\<open>capture/signaling/cb_signaling_ws_client.{h,cc}\<close>: the
  dial URL and its environment variables, the connection state machine, and the
  reassembly of inbound messages from announced frames and piped bytes. The network
  service is outside: its calls on the client are the operations below, and the client's
  calls on it and on the observer are recorded in \<open>ws_out\<close> in the order they are made.
\<close>

unbundle bit_operations_syntax

section \<open>Configuration and dial URL\<close>

record WsClientConfig =
  host :: string
  session_id :: string
  token :: string
  use_tls :: bool

definition is_alnum :: "char \<Rightarrow> bool" where
  "is_alnum c \<longleftrightarrow>
     (CHR ''a'' \<le> c \<and> c \<le> CHR ''z'') \<or> (CHR ''A'' \<le> c \<and> c \<le> CHR ''Z'')
     \<or> (CHR ''0'' \<le> c \<and> c \<le> CHR ''9'')"

definition kHex :: string where
  "kHex = ''0123456789ABCDEF''"

definition percent_escape :: "char \<Rightarrow> string" where
  "percent_escape c = [CHR ''%'', kHex ! (of_char c div 16), kHex ! (of_char c mod 16)]"

definition safe_path :: "char \<Rightarrow> bool" where
  "safe_path c \<longleftrightarrow> is_alnum c \<or> c \<in> set '':-_.~''"

definition safe_query :: "char \<Rightarrow> bool" where
  "safe_query c \<longleftrightarrow> is_alnum c \<or> c \<in> set ''-_.~''"

fun PercentEncodePathSegment :: "string \<Rightarrow> string" where
  "PercentEncodePathSegment [] = []"
| "PercentEncodePathSegment (c # cs) =
     (if safe_path c then [c] else percent_escape c) @ PercentEncodePathSegment cs"

fun PercentEncodeQueryValue :: "string \<Rightarrow> string" where
  "PercentEncodeQueryValue [] = []"
| "PercentEncodeQueryValue (c # cs) =
     (if safe_query c then [c] else percent_escape c) @ PercentEncodeQueryValue cs"

definition BuildUrl :: "WsClientConfig \<Rightarrow> string" where
  "BuildUrl cfg =
     (if host cfg = [] \<or> session_id cfg = [] then []
      else (if use_tls cfg then ''wss://'' else ''ws://'') @ host cfg
        @ ''/api/webrtc/signaling/'' @ PercentEncodePathSegment (session_id cfg)
        @ ''?role=browser''
        @ (if token cfg \<noteq> [] then ''&token='' @ PercentEncodeQueryValue (token cfg) else []))"

definition EqualsCaseInsensitiveASCII :: "string \<Rightarrow> string \<Rightarrow> bool" where
  "EqualsCaseInsensitiveASCII a b \<longleftrightarrow> map ToLowerASCII a = map ToLowerASCII b"

type_synonym env_vars = "string \<Rightarrow> string option"

definition ReadEnv :: "env_vars \<Rightarrow> string \<Rightarrow> string" where
  "ReadEnv env name = (case env name of None \<Rightarrow> [] | Some v \<Rightarrow> v)"

definition LoadConfigFromEnv :: "env_vars \<Rightarrow> WsClientConfig option" where
  "LoadConfigFromEnv env =
     (let tls = ReadEnv env ''WEBRTC_SIGNALING_TLS'';
          cfg = \<lparr>host = ReadEnv env ''WEBRTC_SIGNALING_HOST'',
                 session_id = ReadEnv env ''WEBRTC_SIGNALING_SESSION_ID'',
                 token = ReadEnv env ''WEBRTC_SIGNALING_TOKEN'',
                 use_tls = (\<not> (tls = ''0'' \<or> EqualsCaseInsensitiveASCII tls ''false''
                                \<or> EqualsCaseInsensitiveASCII tls ''no''))\<rparr>
      in if host cfg = [] \<or> session_id cfg = [] then None else Some cfg)"

section \<open>State\<close>

datatype WsState = Ws_kIdle | Ws_kConnecting | Ws_kOpen | Ws_kClosing | Ws_kClosed

datatype WebSocketMessageType = CONTINUATION | TEXT | BINARY

record InboundFrame =
  fr_fin :: bool
  fr_type :: WebSocketMessageType
  data_length :: nat

text \<open>Calls on the network service and on the observer.\<close>

datatype ws_call =
    Net_CreateWebSocket string
  | Net_StartReceiving
  | Net_StartClosingHandshake
  | Net_SendMessage nat
  | Net_WriteData string
  | Obs_OnConnected
  | Obs_OnEnvelope Envelope
  | Obs_OnClosed "16 word" string
  | Obs_OnError string

text \<open>
  The inbound data pipe: the buffers that successive two-phase reads hand out, and what a
  read finds when there is none (the pipe waits, its producer is gone, or it is broken).
\<close>

datatype pipe_end = Pipe_Waits | Pipe_PeerClosed | Pipe_Broken

datatype begin_read = Read_Ok string | Read_ShouldWait | Read_FailedPrecondition | Read_Error

record WsClient =
  ws_config :: WsClientConfig
  ws_state :: WsState
  remote_bound :: bool
  readable_valid :: bool
  writable_valid :: bool
  pending_frames :: "InboundFrame list"
  inbound_message :: string
  receiving_message :: bool
  pipe :: "string list"
  pipe_end :: pipe_end
  ws_out :: "ws_call list"

definition new_ws_client :: "WsClientConfig \<Rightarrow> WsClient" where
  "new_ws_client cfg =
     \<lparr>ws_config = cfg, ws_state = Ws_kIdle, remote_bound = False, readable_valid = False,
      writable_valid = False, pending_frames = [], inbound_message = [],
      receiving_message = False, pipe = [], pipe_end = Pipe_Waits, ws_out = []\<rparr>"

definition call :: "ws_call \<Rightarrow> WsClient \<Rightarrow> WsClient" where
  "call c s = s\<lparr>ws_out := ws_out s @ [c]\<rparr>"

definition BeginReadData :: "WsClient \<Rightarrow> begin_read" where
  "BeginReadData s =
     (case pipe s of
        b # _ \<Rightarrow> Read_Ok b
      | [] \<Rightarrow> (case pipe_end s of
          Pipe_Waits \<Rightarrow> Read_ShouldWait
        | Pipe_PeerClosed \<Rightarrow> Read_FailedPrecondition
        | Pipe_Broken \<Rightarrow> Read_Error))"

definition EndReadData :: "nat \<Rightarrow> WsClient \<Rightarrow> WsClient" where
  "EndReadData n s =
     (case pipe s of
        [] \<Rightarrow> s
      | b # bs \<Rightarrow> s\<lparr>pipe := (if n < length b then drop n b # bs else bs)\<rparr>)"

section \<open>Connection\<close>

definition drop_channel :: "WsClient \<Rightarrow> WsClient" where
  "drop_channel s =
     s\<lparr>ws_state := Ws_kClosed, remote_bound := False, readable_valid := False,
       writable_valid := False, pending_frames := [], inbound_message := [],
       receiving_message := False\<rparr>"

definition FailWithError :: "string \<Rightarrow> WsClient \<Rightarrow> WsClient" where
  "FailWithError reason s =
     (if ws_state s = Ws_kClosed then s else call (Obs_OnError reason) (drop_channel s))"

definition Connect :: "(string \<Rightarrow> bool) \<Rightarrow> WsClient \<Rightarrow> WsClient" where
  "Connect valid_url s =
     (if ws_state s \<noteq> Ws_kIdle then s
      else let url = BuildUrl (ws_config s) in
        if url = [] then FailWithError ''config produced empty URL'' s
        else if \<not> valid_url url then FailWithError ''config produced invalid URL'' s
        else call (Net_CreateWebSocket url) (s\<lparr>ws_state := Ws_kConnecting\<rparr>))"

definition Disconnect :: "WsClient \<Rightarrow> WsClient" where
  "Disconnect s =
     (if ws_state s \<in> {Ws_kClosing, Ws_kClosed, Ws_kIdle} then s
      else let s1 = s\<lparr>ws_state := Ws_kClosing\<rparr> in
        if remote_bound s1 then call Net_StartClosingHandshake s1 else s1)"

definition OnFailure :: "string \<Rightarrow> int \<Rightarrow> int \<Rightarrow> WsClient \<Rightarrow> WsClient" where
  "OnFailure message net_error response_code s =
     FailWithError (''handshake failed: '' @ message @ '' net_error='' @ NumberToString net_error
       @ '' response='' @ NumberToString response_code) s"

definition OnConnectionEstablished :: "WsClient \<Rightarrow> WsClient" where
  "OnConnectionEstablished s =
     (if ws_state s \<noteq> Ws_kConnecting then s
      else call Obs_OnConnected
        (call Net_StartReceiving
          (s\<lparr>ws_state := Ws_kOpen, remote_bound := True, readable_valid := True,
             writable_valid := True\<rparr>)))"

definition OnDropChannel :: "bool \<Rightarrow> 16 word \<Rightarrow> string \<Rightarrow> WsClient \<Rightarrow> WsClient" where
  "OnDropChannel was_clean code reason s =
     (let prev = ws_state s; s1 = drop_channel s in
      if prev = Ws_kIdle \<or> prev = Ws_kClosed then s1
      else if was_clean \<or> prev = Ws_kClosing then call (Obs_OnClosed code reason) s1
      else call (Obs_OnError (''channel dropped unexpectedly: code=''
             @ NumberToString (uint code) @ '' reason='' @ reason)) s1)"

definition OnClosingHandshake :: "WsClient \<Rightarrow> WsClient" where
  "OnClosingHandshake s =
     (if ws_state s = Ws_kOpen then s\<lparr>ws_state := Ws_kClosing\<rparr> else s)"

section \<open>Outbound\<close>

text \<open>\<open>write_ok\<close>: the pipe took the whole payload.\<close>

definition WriteTextFrame :: "bool \<Rightarrow> string \<Rightarrow> WsClient \<Rightarrow> bool \<times> WsClient" where
  "WriteTextFrame write_ok payload s =
     (if \<not> remote_bound s \<or> \<not> writable_valid s then (False, s)
      else let s1 = call (Net_SendMessage (length payload)) s in
        if \<not> write_ok then (False, FailWithError ''writable pipe error during WriteData'' s1)
        else (True, call (Net_WriteData payload) s1))"

definition Send :: "(json \<Rightarrow> string option) \<Rightarrow> bool \<Rightarrow> Envelope \<Rightarrow> WsClient \<Rightarrow> bool \<times> WsClient" where
  "Send wr write_ok envelope s =
     (if ws_state s \<noteq> Ws_kOpen then (False, s)
      else let to_send = envelope\<lparr>env_from := kBrowser\<rparr> in
        case Encode wr to_send of
          None \<Rightarrow>
            (False, FailWithError ''R1 Encode() rejected envelope (variant/tag mismatch)'' s)
        | Some encoded \<Rightarrow> WriteTextFrame write_ok encoded s)"

definition SendText :: "bool \<Rightarrow> string \<Rightarrow> WsClient \<Rightarrow> bool \<times> WsClient" where
  "SendText write_ok text s =
     (if ws_state s \<noteq> Ws_kOpen then (False, s) else WriteTextFrame write_ok text s)"

section \<open>Inbound\<close>

text \<open>
  \<open>rd\<close> is the JSON reader, and \<open>react e\<close> says whether the observer calls
  \<^verbatim>\<open>Disconnect()\<close> from inside \<^verbatim>\<open>OnEnvelope(e)\<close>.
\<close>

definition FinishFrame :: "(string \<Rightarrow> json option) \<Rightarrow> (Envelope \<Rightarrow> bool) \<Rightarrow> bool \<Rightarrow> WsClient \<Rightarrow> WsClient" where
  "FinishFrame rd react fin s =
     (if \<not> fin then s
      else let env = Decode rd (inbound_message s); s1 = s\<lparr>inbound_message := []\<rparr> in
        case env of
          None \<Rightarrow> FailWithError ''R1 Decode() rejected inbound frame'' s1
        | Some e \<Rightarrow> let s2 = call (Obs_OnEnvelope e) s1 in
            if react e then Disconnect s2 else s2)"

lemma FinishFrame_measure:
  "length (pending_frames (FinishFrame rd react fin s)) \<le> length (pending_frames s)"
  "pipe (FinishFrame rd react fin s) = pipe s"
  by (auto simp: FinishFrame_def FailWithError_def drop_channel_def call_def Disconnect_def
      Let_def split: option.splits)

function (sequential) ConsumePendingFrames ::
  "(string \<Rightarrow> json option) \<Rightarrow> (Envelope \<Rightarrow> bool) \<Rightarrow> WsClient \<Rightarrow> WsClient" where
  "ConsumePendingFrames rd react s =
     (if ws_state s \<noteq> Ws_kOpen \<or> \<not> readable_valid s then s
      else case pending_frames s of
        [] \<Rightarrow> s
      | frame # rest \<Rightarrow>
          if data_length frame = 0 then
            ConsumePendingFrames rd react
              (FinishFrame rd react (fr_fin frame) (s\<lparr>pending_frames := rest\<rparr>))
          else case BeginReadData s of
            Read_ShouldWait \<Rightarrow> s
          | Read_FailedPrecondition \<Rightarrow> s
          | Read_Error \<Rightarrow> FailWithError ''readable pipe error during BeginReadData'' s
          | Read_Ok buffer \<Rightarrow>
              if data_length frame \<le> length buffer then
                ConsumePendingFrames rd react
                  (FinishFrame rd react (fr_fin frame)
                    ((EndReadData (data_length frame)
                      (s\<lparr>inbound_message := inbound_message s @ take (data_length frame) buffer\<rparr>))
                     \<lparr>pending_frames := rest\<rparr>))
              else
                ConsumePendingFrames rd react
                  ((EndReadData (length buffer)
                     (s\<lparr>inbound_message := inbound_message s @ buffer\<rparr>))
                   \<lparr>pending_frames :=
                      frame\<lparr>data_length := data_length frame - length buffer\<rparr> # rest\<rparr>))"
  by pat_completeness auto

termination
proof (relation "measure (\<lambda>(rd, react, s). length (pending_frames s) + length (pipe s))",
    goal_cases)
  case (2 rd react s frame rest)
  then show ?case
    using FinishFrame_measure [of rd react "fr_fin frame" "s\<lparr>pending_frames := rest\<rparr>"]
    by simp
next
  case (3 rd react s frame rest buffer)
  let ?s1 = "EndReadData (data_length frame)
    (s\<lparr>inbound_message := inbound_message s @ take (data_length frame) buffer\<rparr>)"
  have "length (pipe ?s1) \<le> length (pipe s)"
    by (simp add: EndReadData_def split: list.splits)
  with 3 show ?case
    using FinishFrame_measure [of rd react "fr_fin frame" "?s1\<lparr>pending_frames := rest\<rparr>"]
    by simp
next
  case (4 rd react s frame rest buffer)
  then show ?case
    by (auto simp: BeginReadData_def EndReadData_def split: list.splits pipe_end.splits)
qed simp

declare ConsumePendingFrames.simps [simp del]

definition OnDataFrame ::
  "(string \<Rightarrow> json option) \<Rightarrow> (Envelope \<Rightarrow> bool) \<Rightarrow> bool \<Rightarrow> WebSocketMessageType \<Rightarrow> nat
    \<Rightarrow> WsClient \<Rightarrow> WsClient" where
  "OnDataFrame rd react fin type data_len s =
     (if ws_state s \<noteq> Ws_kOpen then s
      else if type \<noteq> TEXT \<and> type \<noteq> CONTINUATION then
        FailWithError ''unexpected non-text frame on signaling channel'' s
      else let is_text = (type = TEXT) in
        if is_text = receiving_message s then
          FailWithError (if is_text then ''TEXT frame while a message is still open''
                         else ''CONTINUATION frame with no message open'') s
        else ConsumePendingFrames rd react
          (s\<lparr>receiving_message := (\<not> fin),
             pending_frames := pending_frames s
               @ [\<lparr>fr_fin = fin, fr_type = type, data_length = data_len\<rparr>]\<rparr>))"

definition OnReadable ::
  "(string \<Rightarrow> json option) \<Rightarrow> (Envelope \<Rightarrow> bool) \<Rightarrow> bool \<Rightarrow> WsClient \<Rightarrow> WsClient" where
  "OnReadable rd react result_ok s =
     (if ws_state s \<noteq> Ws_kOpen \<or> \<not> readable_valid s then s
      else if \<not> result_ok then FailWithError ''readable pipe watcher signalled error'' s
      else ConsumePendingFrames rd react s)"

section \<open>Percent encoding\<close>

definition hex_value :: "char \<Rightarrow> nat" where
  "hex_value c = (if c \<le> CHR ''9'' then of_char c - 48 else of_char c - 55)"

text \<open>What the receiver of the URL does with an encoded component.\<close>

fun percent_decode :: "string \<Rightarrow> string" where
  "percent_decode [] = []"
| "percent_decode (c # cs) =
     (if c = CHR ''%'' then
        (case cs of
           h # l # rest \<Rightarrow> char_of (16 * hex_value h + hex_value l) # percent_decode rest
         | _ \<Rightarrow> c # cs)
      else c # percent_decode cs)"

lemma hex_value_kHex: "n < 16 \<Longrightarrow> hex_value (kHex ! n) = n"
proof -
  have "list_all (\<lambda>k. hex_value (kHex ! k) = k) [0..<16]"
    by (simp add: kHex_def hex_value_def upt_rec)
  then show "n < 16 \<Longrightarrow> hex_value (kHex ! n) = n" by (simp add: list_all_iff)
qed

lemma kHex_nth: "n < 16 \<Longrightarrow> kHex ! n \<in> set kHex"
  by (rule nth_mem) (simp add: kHex_def)

lemma nibble_bounds: "(of_char c :: nat) div 16 < 16" "(of_char c :: nat) mod 16 < 16"
  by (simp_all add: less_mult_imp_div_less)

lemma percent_decode_escape [simp]:
  "percent_decode (percent_escape c @ cs) = c # percent_decode cs"
  by (simp add: percent_escape_def hex_value_kHex nibble_bounds mult.commute)

lemma safe_not_percent: "safe_path c \<Longrightarrow> c \<noteq> CHR ''%''" "safe_query c \<Longrightarrow> c \<noteq> CHR ''%''"
  by (auto simp: safe_path_def safe_query_def is_alnum_def)

lemma percent_decode_path [simp]: "percent_decode (PercentEncodePathSegment s) = s"
  by (induction s) (auto dest: safe_not_percent)

lemma percent_decode_query [simp]: "percent_decode (PercentEncodeQueryValue s) = s"
  by (induction s) (auto dest: safe_not_percent)

lemma escape_chars: "set (percent_escape c) \<subseteq> insert CHR ''%'' (set kHex)"
  using kHex_nth nibble_bounds by (auto simp: percent_escape_def)

lemma encode_path_chars: "set (PercentEncodePathSegment s) \<inter> set ''/?#&= '' = {}"
proof (induction s)
  case (Cons c s)
  have "set (percent_escape c) \<inter> set ''/?#&= '' = {}"
    using escape_chars [of c] by (auto simp: kHex_def)
  moreover have "safe_path c \<Longrightarrow> c \<notin> set ''/?#&= ''"
    by (auto simp: safe_path_def is_alnum_def)
  ultimately show ?case using Cons.IH by auto
qed simp

lemma prefix_before_mark:
  assumes "xs @ m # ys = xs' @ m # ys'" and "m \<notin> set xs" and "m \<notin> set xs'"
  shows "xs = xs' \<and> ys = ys'"
  using assms by (auto simp: append_eq_append_conv2 Cons_eq_append_conv append_eq_Cons_conv)

section \<open>Reassembly\<close>

text \<open>
  The abstract reassembly: the announced frames cut the byte stream at their lengths, and
  a message is the concatenation of the frames up to the one with the \<open>fin\<close> bit. The
  result is the messages, the unfinished message and the bytes left over.
\<close>

fun reassemble :: "InboundFrame list \<Rightarrow> string \<Rightarrow> string \<Rightarrow> string list \<times> string \<times> string" where
  "reassemble [] acc bytes = ([], acc, bytes)"
| "reassemble (f # fs) acc bytes =
     (let msg = acc @ take (data_length f) bytes; bytes' = drop (data_length f) bytes in
      if fr_fin f then
        (let (ms, a, r) = reassemble fs [] bytes' in (msg # ms, a, r))
      else reassemble fs msg bytes')"

definition announced :: "InboundFrame list \<Rightarrow> nat" where
  "announced fs = sum_list (map data_length fs)"

lemma announced_simps [simp]:
  "announced [] = 0" "announced (f # fs) = data_length f + announced fs"
  "announced (fs @ gs) = announced fs + announced gs"
  by (simp_all add: announced_def)

lemma reassemble_partial:
  assumes "length b \<le> data_length f"
  shows "reassemble (f # fs) acc (b @ bytes)
       = reassemble (f\<lparr>data_length := data_length f - length b\<rparr> # fs) (acc @ b) bytes"
  using assms by simp

lemma reassemble_zero:
  "data_length f = 0 \<Longrightarrow> reassemble (f # fs) acc bytes =
     (if fr_fin f then (let (ms, a, r) = reassemble fs [] bytes in (acc # ms, a, r))
      else reassemble fs acc bytes)"
  by simp

definition delivers :: "(string \<Rightarrow> json option) \<Rightarrow> (Envelope \<Rightarrow> bool) \<Rightarrow> string \<Rightarrow> bool" where
  "delivers rd react m \<longleftrightarrow> (case Decode rd m of None \<Rightarrow> False | Some e \<Rightarrow> \<not> react e)"

definition delivery :: "(string \<Rightarrow> json option) \<Rightarrow> string \<Rightarrow> ws_call" where
  "delivery rd m = Obs_OnEnvelope (the (Decode rd m))"

definition receiving_open :: "WsClient \<Rightarrow> bool" where
  "receiving_open s \<longleftrightarrow> ws_state s = Ws_kOpen \<and> readable_valid s \<and> pipe_end s = Pipe_Waits"

lemma FinishFrame_delivers:
  assumes "delivers rd react (inbound_message s)"
  shows "FinishFrame rd react True s =
    call (delivery rd (inbound_message s)) (s\<lparr>inbound_message := []\<rparr>)"
  using assms by (auto simp: delivers_def delivery_def FinishFrame_def Let_def split: option.splits)

lemma FinishFrame_open [simp]: "FinishFrame rd react False s = s"
  by (simp add: FinishFrame_def)

text \<open>
  One drain: it delivers a prefix of the messages the bytes contain and leaves a state
  from which the rest is delivered, whatever frames \<open>gs\<close> and bytes \<open>later\<close> follow. It
  stops when no announced frame is left, or when the pipe is empty.
\<close>

definition remaining ::
  "InboundFrame list \<Rightarrow> string \<Rightarrow> WsClient \<Rightarrow> string list \<times> string \<times> string" where
  "remaining gs later s =
     reassemble (pending_frames s @ gs) (inbound_message s) (concat (pipe s) @ later)"

definition drains_to ::
  "(string \<Rightarrow> json option) \<Rightarrow> InboundFrame list \<Rightarrow> string \<Rightarrow> WsClient \<Rightarrow> WsClient \<Rightarrow> bool" where
  "drains_to rd gs later s s' \<longleftrightarrow>
     receiving_open s' \<and> receiving_message s' = receiving_message s \<and>
     announced (pending_frames s) + length (concat (pipe s'))
       = announced (pending_frames s') + length (concat (pipe s)) \<and>
     (\<exists>ms. remaining gs later s = apfst ((@) ms) (remaining gs later s') \<and>
           ws_out s' = ws_out s @ map (delivery rd) ms)"

lemma apfst_append: "apfst ((@) xs) (apfst ((@) ys) p) = apfst ((@) (xs @ ys)) p"
  by (cases p) simp

lemma apfst_Nil [simp]: "apfst ((@) []) p = p"
  by (cases p) simp

lemma drains_to_refl: "receiving_open s \<Longrightarrow> drains_to rd gs later s s"
  unfolding drains_to_def by (auto intro: exI [of _ "[]"])

lemma drains_to_trans:
  assumes "drains_to rd gs later s1 s2" and "drains_to rd gs later s2 s3"
  shows "drains_to rd gs later s1 s3"
proof -
  from assms(1) obtain ms1 where
    1: "remaining gs later s1 = apfst ((@) ms1) (remaining gs later s2)"
    and out1: "ws_out s2 = ws_out s1 @ map (delivery rd) ms1"
    unfolding drains_to_def by blast
  from assms(2) obtain ms2 where
    2: "remaining gs later s2 = apfst ((@) ms2) (remaining gs later s3)"
    and out2: "ws_out s3 = ws_out s2 @ map (delivery rd) ms2"
    unfolding drains_to_def by blast
  have "remaining gs later s1 = apfst ((@) (ms1 @ ms2)) (remaining gs later s3)"
    using 1 2 by (simp add: apfst_append)
  moreover have "ws_out s3 = ws_out s1 @ map (delivery rd) (ms1 @ ms2)"
    using out1 out2 by simp
  ultimately have "\<exists>ms. remaining gs later s1 = apfst ((@) ms) (remaining gs later s3) \<and>
      ws_out s3 = ws_out s1 @ map (delivery rd) ms" by blast
  then show ?thesis using assms unfolding drains_to_def by auto
qed

lemma drains_to_delivers:
  assumes "drains_to rd gs later s s'" and "list_all P (fst (remaining gs later s))"
  shows "list_all P (fst (remaining gs later s'))"
  using assms unfolding drains_to_def by auto

text \<open>The three ways the loop goes round.\<close>

lemma drain_empty_frame:
  assumes "receiving_open s" and "pending_frames s = f # fs" and "data_length f = 0"
    and "list_all (delivers rd react) (fst (remaining gs later s))"
  shows "drains_to rd gs later s (FinishFrame rd react (fr_fin f) (s\<lparr>pending_frames := fs\<rparr>))"
proof (cases "fr_fin f")
  case True
  let ?s1 = "s\<lparr>pending_frames := fs\<rparr>"
  have "delivers rd react (inbound_message ?s1)"
    using assms True by (auto simp: remaining_def Let_def split: prod.splits)
  then have "FinishFrame rd react True ?s1
    = call (delivery rd (inbound_message s)) (?s1\<lparr>inbound_message := []\<rparr>)"
    by (simp add: FinishFrame_delivers)
  with True assms show ?thesis
    by (auto simp: drains_to_def remaining_def receiving_open_def call_def Let_def
        split: prod.splits intro!: exI [of _ "[inbound_message s]"])
next
  case False
  with assms show ?thesis
    by (auto simp: drains_to_def remaining_def receiving_open_def intro!: exI [of _ "[]"])
qed

lemma drain_whole_frame:
  assumes "receiving_open s" and "pending_frames s = f # fs" and "pipe s = b # bs"
    and "data_length f \<le> length b"
    and "list_all (delivers rd react) (fst (remaining gs later s))"
  shows "drains_to rd gs later s
    (FinishFrame rd react (fr_fin f)
      ((EndReadData (data_length f)
         (s\<lparr>inbound_message := inbound_message s @ take (data_length f) b\<rparr>))
       \<lparr>pending_frames := fs\<rparr>))"
proof -
  let ?msg = "inbound_message s @ take (data_length f) b"
  let ?s1 = "(EndReadData (data_length f) (s\<lparr>inbound_message := ?msg\<rparr>))\<lparr>pending_frames := fs\<rparr>"
  have pipe1: "concat (pipe ?s1) = drop (data_length f) b @ concat bs"
    using assms(3,4) by (simp add: EndReadData_def)
  have frame1: "inbound_message ?s1 = ?msg" "ws_out ?s1 = ws_out s" "ws_state ?s1 = ws_state s"
    "readable_valid ?s1 = readable_valid s" "pipe_end ?s1 = pipe_end s"
    "receiving_message ?s1 = receiving_message s"
    using assms(3) by (simp_all add: EndReadData_def)
  have rem: "remaining gs later s =
    (if fr_fin f then apfst ((@) [?msg]) (remaining gs later (?s1\<lparr>inbound_message := []\<rparr>))
     else remaining gs later ?s1)"
    using assms(2,3,4) frame1 pipe1 by (auto simp: remaining_def Let_def split: prod.splits)
  show ?thesis
  proof (cases "fr_fin f")
    case True
    have "delivers rd react (inbound_message ?s1)"
      using assms(5) rem True frame1 by simp
    then have fin: "FinishFrame rd react True ?s1
        = call (delivery rd ?msg) (?s1\<lparr>inbound_message := []\<rparr>)"
      using frame1 by (simp add: FinishFrame_delivers)
    have "remaining gs later (FinishFrame rd react True ?s1)
        = remaining gs later (?s1\<lparr>inbound_message := []\<rparr>)"
      by (simp add: fin remaining_def call_def)
    then show ?thesis
      using True rem assms(1,2,3,4) frame1 pipe1
      by (auto simp: drains_to_def fin receiving_open_def call_def intro!: exI [of _ "[?msg]"])
  next
    case False
    then show ?thesis
      using rem assms(1,2,3,4) frame1 pipe1
      by (auto simp: drains_to_def receiving_open_def intro!: exI [of _ "[]"])
  qed
qed

lemma drain_part_frame:
  assumes "receiving_open s" and "pending_frames s = f # fs" and "pipe s = b # bs"
    and "length b < data_length f"
  shows "drains_to rd gs later s
    ((EndReadData (length b) (s\<lparr>inbound_message := inbound_message s @ b\<rparr>))
     \<lparr>pending_frames := f\<lparr>data_length := data_length f - length b\<rparr> # fs\<rparr>)"
  using assms
  by (auto simp: drains_to_def remaining_def receiving_open_def EndReadData_def
      intro!: exI [of _ "[]"])

text \<open>When the loop stops by itself: nothing announced is left, or the next byte is missing.\<close>

definition stopped :: "WsClient \<Rightarrow> bool" where
  "stopped s = (case pending_frames s of [] \<Rightarrow> True | f # _ \<Rightarrow> 0 < data_length f \<and> pipe s = [])"

lemma ConsumePendingFrames_drains:
  assumes "receiving_open s"
    and "list_all (delivers rd react) (fst (remaining gs later s))"
  shows "drains_to rd gs later s (ConsumePendingFrames rd react s)
    \<and> stopped (ConsumePendingFrames rd react s)"
  using assms
proof (induction rd react s rule: ConsumePendingFrames.induct)
  case (1 rd react s)
  let ?C = "ConsumePendingFrames rd react"
  note open_s = 1(4) and ok = 1(5)
  have guard: "\<not> (ws_state s \<noteq> Ws_kOpen \<or> \<not> readable_valid s)"
    using open_s by (simp add: receiving_open_def)
  have onwards: "drains_to rd gs later s (?C s) \<and> stopped (?C s)"
    if eq: "?C s = ?C s1" and step: "drains_to rd gs later s s1"
      and IH: "receiving_open s1 \<Longrightarrow> list_all (delivers rd react) (fst (remaining gs later s1))
        \<Longrightarrow> drains_to rd gs later s1 (?C s1) \<and> stopped (?C s1)" for s1
  proof -
    have "receiving_open s1" using step by (simp add: drains_to_def)
    then show ?thesis
      using IH drains_to_delivers [OF step ok] drains_to_trans [OF step] by (simp add: eq)
  qed
  show ?case
  proof (cases "pending_frames s")
    case Nil
    then have "?C s = s" using guard by (simp add: ConsumePendingFrames.simps)
    with Nil open_s show ?thesis by (simp add: drains_to_refl stopped_def)
  next
    case (Cons f fs)
    show ?thesis
    proof (cases "data_length f = 0")
      case True
      show ?thesis
        by (rule onwards [OF _ drain_empty_frame [OF open_s Cons True ok]])
          (use guard Cons True 1(1) [OF guard Cons True] in
            \<open>simp_all add: ConsumePendingFrames.simps [of rd react s]\<close>)
    next
      case nonempty: False
      show ?thesis
      proof (cases "pipe s")
        case Nil
        then have "BeginReadData s = Read_ShouldWait"
          using open_s by (simp add: BeginReadData_def receiving_open_def)
        then have "?C s = s" using guard Cons nonempty by (simp add: ConsumePendingFrames.simps)
        with Cons Nil nonempty open_s show ?thesis by (simp add: drains_to_refl stopped_def)
      next
        case (Cons b bs)
        note fs = \<open>pending_frames s = f # fs\<close>
        have buf: "BeginReadData s = Read_Ok b" using Cons by (simp add: BeginReadData_def)
        show ?thesis
        proof (cases "data_length f \<le> length b")
          case True
          show ?thesis
            by (rule onwards [OF _ drain_whole_frame [OF open_s fs Cons True ok]])
              (use guard fs nonempty buf True 1(2) [OF guard fs nonempty buf True] in
                \<open>simp_all add: ConsumePendingFrames.simps [of rd react s]\<close>)
        next
          case False
          then have short: "length b < data_length f" by simp
          show ?thesis
            by (rule onwards [OF _ drain_part_frame [OF open_s fs Cons short]])
              (use guard fs nonempty buf False 1(3) [OF guard fs nonempty buf False] in
                \<open>simp_all add: ConsumePendingFrames.simps [of rd react s]\<close>)
        qed
      qed
    qed
  qed
qed

section \<open>Arrivals\<close>

text \<open>
  What the network process does to an open channel: it announces frames, puts buffers
  into the pipe, and (if a watcher were armed on the pipe) reports it readable.
\<close>

datatype arrival = Arr_Frame bool WebSocketMessageType nat | Arr_Bytes string | Arr_Readable

fun arrive ::
  "(string \<Rightarrow> json option) \<Rightarrow> (Envelope \<Rightarrow> bool) \<Rightarrow> arrival \<Rightarrow> WsClient \<Rightarrow> WsClient" where
  "arrive rd react (Arr_Frame fin type len) s = OnDataFrame rd react fin type len s"
| "arrive rd react (Arr_Bytes b) s = s\<lparr>pipe := pipe s @ [b]\<rparr>"
| "arrive rd react Arr_Readable s = OnReadable rd react True s"

fun frames_of :: "arrival list \<Rightarrow> InboundFrame list" where
  "frames_of [] = []"
| "frames_of (Arr_Frame fin type len # es) =
     \<lparr>fr_fin = fin, fr_type = type, data_length = len\<rparr> # frames_of es"
| "frames_of (_ # es) = frames_of es"

fun bytes_of :: "arrival list \<Rightarrow> string" where
  "bytes_of [] = []"
| "bytes_of (Arr_Bytes b # es) = b @ bytes_of es"
| "bytes_of (_ # es) = bytes_of es"

text \<open>RFC 6455 framing: a message is one TEXT frame and then CONTINUATION frames up to the fin.\<close>

fun legal :: "bool \<Rightarrow> arrival list \<Rightarrow> bool" where
  "legal r [] = True"
| "legal r (Arr_Frame fin type len # es) =
     (type = (if r then CONTINUATION else TEXT) \<and> legal (\<not> fin) es)"
| "legal r (_ # es) = legal r es"

lemma run_arrivals:
  assumes "receiving_open s" and "legal (receiving_message s) es"
    and "list_all (delivers rd react) (fst (remaining (frames_of es @ gs) (bytes_of es @ later) s))"
    and "s' = fold (arrive rd react) es s"
  shows "receiving_open s' \<and>
    announced (pending_frames s) + announced (frames_of es) + length (concat (pipe s'))
      = announced (pending_frames s') + length (concat (pipe s)) + length (bytes_of es) \<and>
    (\<exists>ms. remaining (frames_of es @ gs) (bytes_of es @ later) s
             = apfst ((@) ms) (remaining gs later s') \<and>
           ws_out s' = ws_out s @ map (delivery rd) ms)"
  using assms
proof (induction es arbitrary: s)
  case Nil
  then show ?case by (auto intro: exI [of _ "[]"])
next
  case (Cons e es)
  let ?gs = "frames_of es @ gs" and ?later = "bytes_of es @ later"
  let ?s1 = "arrive rd react e s"
  obtain t where t: "receiving_open t" "ws_out t = ws_out s"
    "remaining (frames_of (e # es) @ gs) (bytes_of (e # es) @ later) s = remaining ?gs ?later t"
    "announced (pending_frames s) + announced (frames_of (e # es)) + length (concat (pipe t))
       + length (bytes_of es) =
     announced (pending_frames t) + announced (frames_of es) + length (concat (pipe s))
       + length (bytes_of (e # es))"
    "legal (receiving_message t) es"
    "?s1 = t \<or> ?s1 = ConsumePendingFrames rd react t"
  proof (cases e)
    case (Arr_Frame fin type len)
    then show ?thesis using Cons.prems(1,2)
      by (intro that [of "s\<lparr>receiving_message := \<not> fin, pending_frames := pending_frames s
            @ [\<lparr>fr_fin = fin, fr_type = type, data_length = len\<rparr>]\<rparr>"])
        (auto simp: receiving_open_def remaining_def OnDataFrame_def split: if_splits)
  next
    case (Arr_Bytes b)
    then show ?thesis using Cons.prems(1,2)
      by (intro that [of "s\<lparr>pipe := pipe s @ [b]\<rparr>"])
        (auto simp: receiving_open_def remaining_def)
  next
    case Arr_Readable
    then show ?thesis using Cons.prems(1,2)
      by (intro that [of s]) (auto simp: receiving_open_def OnReadable_def)
  qed
  have ok: "list_all (delivers rd react) (fst (remaining ?gs ?later t))"
    using Cons.prems(3) t(3) by simp
  have step: "drains_to rd ?gs ?later t ?s1"
    using t(6) drains_to_refl [OF t(1)] ConsumePendingFrames_drains [OF t(1) ok] by auto
  obtain ms where ms: "remaining ?gs ?later t = apfst ((@) ms) (remaining ?gs ?later ?s1)"
    "ws_out ?s1 = ws_out t @ map (delivery rd) ms"
    using step unfolding drains_to_def by blast
  have later: "receiving_open s' \<and>
    announced (pending_frames ?s1) + announced (frames_of es) + length (concat (pipe s'))
      = announced (pending_frames s') + length (concat (pipe ?s1)) + length (bytes_of es) \<and>
    (\<exists>ms'. remaining ?gs ?later ?s1 = apfst ((@) ms') (remaining gs later s') \<and>
           ws_out s' = ws_out ?s1 @ map (delivery rd) ms')"
    using step t(5) Cons.prems(4) drains_to_delivers [OF step ok]
    by (intro Cons.IH) (auto simp: drains_to_def)
  then obtain ms' where ms': "remaining ?gs ?later ?s1 = apfst ((@) ms') (remaining gs later s')"
    "ws_out s' = ws_out ?s1 @ map (delivery rd) ms'" by blast
  have "remaining (frames_of (e # es) @ gs) (bytes_of (e # es) @ later) s
      = apfst ((@) (ms @ ms')) (remaining gs later s')"
    using t(3) ms(1) ms'(1) by (simp add: apfst_append)
  moreover have "ws_out s' = ws_out s @ map (delivery rd) (ms @ ms')"
    using t(2) ms(2) ms'(2) by simp
  ultimately show ?case using later t(4) step by (auto simp: drains_to_def)
qed

section \<open>The client as a transport\<close>

fun written :: "ws_call list \<Rightarrow> string list" where
  "written [] = []"
| "written (Net_WriteData payload # cs) = payload # written cs"
| "written (_ # cs) = written cs"

lemma written_append [simp]: "written (cs @ ds) = written cs @ written ds"
  by (induction cs rule: written.induct) simp_all

lemma Send_accepts:
  assumes "Send wr ok e s = (True, s')"
  shows "ws_state s = Ws_kOpen \<and> (\<exists>payload. Encode wr (stamp e) = Some payload
    \<and> ws_out s' = ws_out s @ [Net_SendMessage (length payload), Net_WriteData payload])"
  using assms
  by (auto simp: Send_def WriteTextFrame_def FailWithError_def drop_channel_def call_def stamp_def
      Let_def split: option.splits if_splits)

lemma Send_refuses:
  assumes "Send wr ok e s = (False, s')"
  shows "\<exists>cs. ws_out s' = ws_out s @ cs \<and> written cs = []"
  using assms
  by (auto simp: Send_def WriteTextFrame_def FailWithError_def drop_channel_def call_def Let_def
      split: option.splits if_splits)

interpretation ws_transport: signaling_transport "Send wr" "\<lambda>s. ws_state s = Ws_kOpen"
  "written \<circ> ws_out" wr for wr
proof
  fix s s' ok e
  show "ws_state s \<noteq> Ws_kOpen \<Longrightarrow> Send wr ok e s = (False, s)" by (simp add: Send_def)
  show "Send wr ok e s = (True, s') \<Longrightarrow>
      \<exists>f. Encode wr (stamp e) = Some f \<and> (written \<circ> ws_out) s' = (written \<circ> ws_out) s @ [f]"
    using Send_accepts by fastforce
  show "Send wr ok e s = (False, s') \<Longrightarrow> (written \<circ> ws_out) s' = (written \<circ> ws_out) s"
    using Send_refuses by fastforce
qed

section \<open>The client as a machine\<close>

datatype ws_event =
    Ev_Connect
  | Ev_Disconnect
  | Ev_Send Envelope bool
  | Ev_SendText string bool
  | Ev_OnFailure string int int
  | Ev_OnConnectionEstablished
  | Ev_OnDropChannel bool "16 word" string
  | Ev_OnClosingHandshake
  | Ev_Arrival arrival
  | Ev_ReadableError
  | Ev_PipeEnd pipe_end

record ws_world =
  w_valid_url :: "string \<Rightarrow> bool"
  w_write :: "json \<Rightarrow> string option"
  w_read :: "string \<Rightarrow> json option"
  w_react :: "Envelope \<Rightarrow> bool"

fun ws_step :: "ws_world \<Rightarrow> ws_event \<Rightarrow> WsClient \<Rightarrow> WsClient" where
  "ws_step w Ev_Connect s = Connect (w_valid_url w) s"
| "ws_step w Ev_Disconnect s = Disconnect s"
| "ws_step w (Ev_Send e ok) s = snd (Send (w_write w) ok e s)"
| "ws_step w (Ev_SendText t ok) s = snd (SendText ok t s)"
| "ws_step w (Ev_OnFailure m n r) s = OnFailure m n r s"
| "ws_step w Ev_OnConnectionEstablished s = OnConnectionEstablished s"
| "ws_step w (Ev_OnDropChannel c code r) s = OnDropChannel c code r s"
| "ws_step w Ev_OnClosingHandshake s = OnClosingHandshake s"
| "ws_step w (Ev_Arrival a) s = arrive (w_read w) (w_react w) a s"
| "ws_step w Ev_ReadableError s = OnReadable (w_read w) (w_react w) False s"
| "ws_step w (Ev_PipeEnd p) s = s\<lparr>pipe_end := p\<rparr>"

text \<open>
  What the observer may see: nothing, or \<open>OnConnected\<close> and then envelopes, and after
  either at most one of \<open>OnClosed\<close> and \<open>OnError\<close>, which is the last call.
\<close>

datatype obs_phase = Ph_New | Ph_Live | Ph_Dead | Ph_Bad

fun obs_next :: "ws_call \<Rightarrow> obs_phase \<Rightarrow> obs_phase" where
  "obs_next Obs_OnConnected p = (if p = Ph_New then Ph_Live else Ph_Bad)"
| "obs_next (Obs_OnEnvelope e) p = (if p = Ph_Live then Ph_Live else Ph_Bad)"
| "obs_next (Obs_OnClosed c r) p = (if p \<in> {Ph_New, Ph_Live} then Ph_Dead else Ph_Bad)"
| "obs_next (Obs_OnError r) p = (if p \<in> {Ph_New, Ph_Live} then Ph_Dead else Ph_Bad)"
| "obs_next _ p = p"

definition obs_phase_of :: "ws_call list \<Rightarrow> obs_phase" where
  "obs_phase_of cs = fold obs_next cs Ph_New"

lemma obs_phase_of_append [simp]: "obs_phase_of (cs @ ds) = fold obs_next ds (obs_phase_of cs)"
  by (simp add: obs_phase_of_def)

definition ws_invar :: "WsClient \<Rightarrow> bool" where
  "ws_invar s \<longleftrightarrow>
     (case ws_state s of
        Ws_kIdle \<Rightarrow> obs_phase_of (ws_out s) = Ph_New \<and> \<not> remote_bound s
      | Ws_kConnecting \<Rightarrow> obs_phase_of (ws_out s) = Ph_New \<and> \<not> remote_bound s
      | Ws_kOpen \<Rightarrow> obs_phase_of (ws_out s) = Ph_Live \<and> remote_bound s \<and> readable_valid s
          \<and> writable_valid s
      | Ws_kClosing \<Rightarrow> obs_phase_of (ws_out s) = (if remote_bound s then Ph_Live else Ph_New)
      | Ws_kClosed \<Rightarrow> obs_phase_of (ws_out s) \<in> {Ph_New, Ph_Dead} \<and> \<not> remote_bound s
          \<and> \<not> readable_valid s \<and> \<not> writable_valid s \<and> pending_frames s = [])"

lemmas ws_ops = Connect_def Disconnect_def Send_def SendText_def WriteTextFrame_def OnFailure_def
  OnConnectionEstablished_def OnDropChannel_def OnClosingHandshake_def FailWithError_def
  drop_channel_def call_def Let_def

lemma EndReadData_pipe:
  "EndReadData n (s\<lparr>inbound_message := m\<rparr>) = s\<lparr>inbound_message := m, pipe := pipe (EndReadData n s)\<rparr>"
  by (cases s) (simp add: EndReadData_def split: list.split)

lemma ConsumePendingFrames_preserves:
  assumes "P s"
    and "\<And>s fin. P s \<Longrightarrow> ws_state s = Ws_kOpen \<Longrightarrow> P (FinishFrame rd react fin s)"
    and "\<And>s r. P s \<Longrightarrow> P (FailWithError r s)"
    and "\<And>s fs m p. P s \<Longrightarrow> ws_state s = Ws_kOpen
          \<Longrightarrow> P (s\<lparr>inbound_message := m, pipe := p, pending_frames := fs\<rparr>)"
  shows "P (ConsumePendingFrames rd react s)"
  using assms
proof (induction rd react s rule: ConsumePendingFrames.induct)
  case (1 rd react s)
  have upd: "P (s\<lparr>inbound_message := m, pipe := p, pending_frames := fs\<rparr>)"
    if "ws_state s = Ws_kOpen" for fs m p using 1(4,7) that by simp
  have upd_frames: "P (s\<lparr>pending_frames := fs\<rparr>)" if "ws_state s = Ws_kOpen" for fs
    using upd [OF that, where fs = fs and m = "inbound_message s" and p = "pipe s"] by simp
  have upd_read: "P ((EndReadData n (s\<lparr>inbound_message := m\<rparr>))\<lparr>pending_frames := fs\<rparr>)"
    if "ws_state s = Ws_kOpen" for n m fs
    using upd [OF that, where fs = fs and m = m and p = "pipe (EndReadData n s)"]
    by (simp add: EndReadData_pipe)
  have EndRead_state: "ws_state (EndReadData n t) = ws_state t" for n t
    by (simp add: EndReadData_def split: list.split)
  show ?case
    by (subst ConsumePendingFrames.simps)
      (use 1 upd_frames upd_read in
        \<open>auto simp: EndRead_state split: list.split begin_read.split\<close>)
qed

lemma ws_invar_Finish:
  "ws_invar s \<Longrightarrow> ws_state s = Ws_kOpen \<Longrightarrow> ws_invar (FinishFrame rd react fin s)"
  by (auto simp: ws_invar_def FinishFrame_def ws_ops split: option.splits)

lemma ws_invar_Fail: "ws_invar s \<Longrightarrow> ws_invar (FailWithError r s)"
  by (auto simp: ws_invar_def ws_ops split: WsState.splits)

lemma ws_invar_Consume: "ws_invar s \<Longrightarrow> ws_invar (ConsumePendingFrames rd react s)"
  by (rule ConsumePendingFrames_preserves)
    (auto simp: ws_invar_Finish ws_invar_Fail, auto simp: ws_invar_def)

lemma ws_invar_arrive: "ws_invar s \<Longrightarrow> ws_invar (arrive rd react a s)"
  by (cases a)
    (auto simp: OnDataFrame_def OnReadable_def Let_def intro!: ws_invar_Consume ws_invar_Fail,
     auto simp: ws_invar_def split: WsState.splits)

lemma ws_invar_step: "ws_invar s \<Longrightarrow> ws_invar (ws_step w e s)"
  by (cases e)
    (auto simp: ws_invar_arrive OnReadable_def ws_invar_Fail,
     auto simp: ws_invar_def ws_ops split: WsState.splits option.splits)

interpretation ws_machine: invariant_machine "\<lambda>s. \<exists>cfg. s = new_ws_client cfg" "ws_step w" ws_invar
  for w
  by unfold_locales (auto simp: ws_invar_step, simp add: ws_invar_def new_ws_client_def obs_phase_of_def)

lemma ws_closed_step:
  assumes "ws_state s = Ws_kClosed"
  shows "ws_state (ws_step w e s) = Ws_kClosed \<and> ws_out (ws_step w e s) = ws_out s"
proof (cases e)
  case (Ev_Arrival a)
  with assms show ?thesis by (cases a) (simp_all add: OnDataFrame_def OnReadable_def)
qed (use assms in \<open>simp_all add: ws_ops OnReadable_def\<close>)

interpretation ws_closed: absorbing_machine "ws_step w"
  "\<lambda>s. ws_state s = Ws_kClosed \<and> ws_out s = out" for w out
  by unfold_locales (simp add: ws_closed_step)

section \<open>Example data\<close>

definition example_config :: WsClientConfig where
  "example_config = \<lparr>host = ''h'', session_id = ''s'', token = [], use_tls = True\<rparr>"

definition example_open :: WsClient where
  "example_open =
     OnConnectionEstablished ((new_ws_client example_config)\<lparr>ws_state := Ws_kConnecting\<rparr>)"

definition example_bye :: Envelope where
  "example_bye = \<lparr>env_type = kBye, env_from = kClient, env_data = Monostate\<rparr>"

text \<open>A JSON reader that knows one text.\<close>

definition example_read :: "string \<Rightarrow> json option" where
  "example_read t =
     (if t = ''ab'' then Some (JDict [(''type'', JString ''bye''), (''from'', JString ''client'')])
      else None)"

lemma example_open_fields:
  "receiving_open example_open" "\<not> receiving_message example_open"
  "pending_frames example_open = []" "inbound_message example_open = []"
  "pipe example_open = []" "ws_state example_open = Ws_kOpen"
  "remote_bound example_open" "writable_valid example_open"
  "ws_out example_open = [Net_StartReceiving, Obs_OnConnected]"
  by (simp_all add: example_open_def new_ws_client_def OnConnectionEstablished_def call_def
      receiving_open_def)

lemma Decode_example_read: "Decode example_read ''ab'' = Some example_bye"
  by (simp add: example_read_def example_bye_def Decode_def DecodeCanonical_def TagFromString_def
      RoleFromString_def)

section \<open>Properties\<close>

lemma all_arrivals_delivered:
  assumes "receiving_open s" and "legal (receiving_message s) es"
    and "pending_frames s = []" and "inbound_message s = []" and "pipe s = []"
    and "list_all (delivers rd react) (fst (reassemble (frames_of es) [] (bytes_of es)))"
    and "announced (frames_of es) \<le> length (bytes_of es)"
    and "s' = fold (arrive rd react) es s" and "stopped s'"
  shows "ws_out s' = ws_out s @ map (delivery rd) (fst (reassemble (frames_of es) [] (bytes_of es)))"
proof -
  have rem: "remaining (frames_of es @ []) (bytes_of es @ []) s
      = reassemble (frames_of es) [] (bytes_of es)"
    using assms(3,4,5) by (simp add: remaining_def)
  note run = run_arrivals [where gs = "[]" and later = "[]", OF assms(1,2) _ assms(8), unfolded rem,
      OF assms(6)]
  from run obtain ms where ms:
    "reassemble (frames_of es) [] (bytes_of es) = apfst ((@) ms) (remaining [] [] s')"
    "ws_out s' = ws_out s @ map (delivery rd) ms" by blast
  have "announced (pending_frames s') = 0 \<or> pipe s' \<noteq> []"
    using run assms(3,5,7) by auto
  then have "pending_frames s' = []"
    using assms(9) by (auto simp: stopped_def split: list.splits)
  then have "fst (remaining [] [] s') = []" by (simp add: remaining_def)
  then show ?thesis using ms by simp
qed

lemma OnReadable_stopped:
  assumes "receiving_open s" and "list_all (delivers rd react) (fst (remaining [] [] s))"
  shows "stopped (OnReadable rd react True s)"
  using ConsumePendingFrames_drains [OF assms] assms(1)
  by (simp add: OnReadable_def receiving_open_def)

lemma legal_append: "legal r (es @ [Arr_Readable]) = legal r es"
  by (induction r es rule: legal.induct) auto

lemma arrivals_append [simp]:
  "frames_of (es @ es') = frames_of es @ frames_of es'" "bytes_of (es @ es') = bytes_of es @ bytes_of es'"
  by (induction es rule: frames_of.induct; simp)+

lemma legal_prefix: "legal r (es @ es') \<Longrightarrow> legal r es"
  by (induction r es rule: legal.induct) auto



text \<open>
  A frame announced before its bytes waits for a readable signal: while only bytes
  arrive nothing is delivered, although a readable signal at that point would deliver the
  message.
\<close>

theorem announced_frame_waits_for_readable:
  assumes "receiving_open s" and "\<not> receiving_message s"
    and "pending_frames s = []" and "inbound_message s = []" and "pipe s = []"
    and "0 < n" and "length (concat bs) = n" and "delivers rd react (concat bs)"
    and "es = Arr_Frame True TEXT n # map Arr_Bytes bs"
  shows "ws_out (fold (arrive rd react) es s) = ws_out s
    \<and> ws_out (fold (arrive rd react) (es @ [Arr_Readable]) s)
      = ws_out s @ [delivery rd (concat bs)]"
proof
  have bytes: "frames_of (map Arr_Bytes bs) = []" "bytes_of (map Arr_Bytes bs) = concat bs"
    "legal r (map Arr_Bytes bs)" for r
    by (induction bs) auto
  have "ws_out (fold (arrive rd react) (map Arr_Bytes bs) t) = ws_out t" for t
    by (induction bs arbitrary: t) auto
  moreover have "ws_out (OnDataFrame rd react True TEXT n s) = ws_out s"
    using assms(1-6)
    by (simp add: OnDataFrame_def receiving_open_def ConsumePendingFrames.simps BeginReadData_def)
  ultimately show "ws_out (fold (arrive rd react) es s) = ws_out s"
    by (simp add: assms(9))
  have legal: "legal (receiving_message s) (es @ [Arr_Readable])"
    using assms(2,9) bytes(3) by (simp add: legal_append)
  have "ws_out (fold (arrive rd react) (es @ [Arr_Readable]) s)
    = ws_out s @ map (delivery rd) [concat bs]"
  proof -
    let ?s1 = "fold (arrive rd react) es s"
    have rem: "remaining (frames_of es @ []) (bytes_of es @ []) s = ([concat bs], [], [])"
      using assms(3-5,7,9) bytes by (simp add: remaining_def)
    have legal_es: "legal (receiving_message s) es" using legal by (simp add: legal_append)
    from run_arrivals [OF assms(1) legal_es _ refl, where gs = "[]" and later = "[]", unfolded rem]
      assms(8) obtain ms1 where
      1: "receiving_open ?s1" "([concat bs], [], []) = apfst ((@) ms1) (remaining [] [] ?s1)"
      by auto
    have "ms1 @ fst (remaining [] [] ?s1) = [concat bs]"
      using arg_cong [OF 1(2), of fst] by simp
    from arg_cong [OF this, of "list_all (delivers rd react)"]
    have "list_all (delivers rd react) (fst (remaining [] [] ?s1))"
      using assms(8) by simp
    from OnReadable_stopped [OF 1(1) this]
    show ?thesis
      using all_arrivals_delivered [OF assms(1) legal assms(3-5) _ _ refl, of rd react]
        assms(7-9) bytes by simp
  qed
  then show "ws_out (fold (arrive rd react) (es @ [Arr_Readable]) s)
    = ws_out s @ [delivery rd (concat bs)]" by simp
qed

theorem announced_frame_waits_for_readable_witness:
  "ws_out (fold (arrive example_read (\<lambda>_. False))
      [Arr_Frame True TEXT 2, Arr_Bytes ''a'', Arr_Bytes ''b''] example_open)
   = [Net_StartReceiving, Obs_OnConnected]"
  using announced_frame_waits_for_readable [where s = example_open and rd = example_read
      and react = "\<lambda>_. False" and n = 2 and bs = "[''a'', ''b'']"]
  by (simp add: example_open_fields delivers_def delivery_def Decode_example_read)

text \<open>
  C21. Observer protocol: over every sequence of calls and network events from a new
  client, the observer sees \<open>OnConnected\<close> at most once, envelopes only after it, and at
  most one terminal call (\<open>OnClosed\<close> or \<open>OnError\<close>), which is the last; an open client has
  its pipes and its remote, a closed one has released them and never speaks again.
\<close>

theorem ws_observer_protocol:
  assumes "s = fold (ws_step w) es (new_ws_client cfg)"
  shows "obs_phase_of (ws_out s) \<noteq> Ph_Bad
    \<and> (ws_state s = Ws_kOpen \<longrightarrow>
         obs_phase_of (ws_out s) = Ph_Live \<and> remote_bound s \<and> readable_valid s \<and> writable_valid s)
    \<and> (ws_state s = Ws_kClosed \<longrightarrow>
         \<not> remote_bound s \<and> pending_frames s = []
         \<and> ws_out (fold (ws_step w) es' s) = ws_out s
         \<and> ws_state (fold (ws_step w) es' s) = Ws_kClosed)"
proof -
  have "ws_invar s" unfolding assms by (rule ws_machine.invar_reached) blast
  then show ?thesis
    using ws_closed.absorbed_run [of s "ws_out s" w es']
    by (auto simp: ws_invar_def split: WsState.splits if_splits)
qed

theorem ws_observer_protocol_witness:
  "let w = \<lparr>w_valid_url = \<lambda>_. True, w_write = \<lambda>_. None, w_read = example_read, w_react = \<lambda>_. False\<rparr>;
       s = fold (ws_step w) [Ev_Connect, Ev_OnConnectionEstablished,
             Ev_OnDropChannel False 1006 ''x''] (new_ws_client example_config)
   in ws_state s = Ws_kClosed \<and> obs_phase_of (ws_out s) \<noteq> Ph_Bad
      \<and> ws_out (fold (ws_step w) [Ev_Connect, Ev_Disconnect] s) = ws_out s"
  using ws_observer_protocol [OF refl, of
      "\<lparr>w_valid_url = \<lambda>_. True, w_write = \<lambda>_. None, w_read = example_read, w_react = \<lambda>_. False\<rparr>"
      "[Ev_Connect, Ev_OnConnectionEstablished, Ev_OnDropChannel False 1006 ''x'']"
      example_config "[Ev_Connect, Ev_Disconnect]"]
  by (simp add: Let_def ws_ops new_ws_client_def BuildUrl_def example_config_def)

text \<open>
  What \<open>Send\<close> puts on the wire: exactly one announced text frame, which the peer
  decodes to the caller's envelope with the sender set to \<open>browser\<close>, whatever sender the
  caller had filled in.
\<close>

theorem Send_peer_decodes:
  assumes "Send wr True e s = (True, s')"
    and "sdp_type_agrees e"
    and "\<And>v. reads_back wr rd v"
  shows "ws_state s = Ws_kOpen \<and>
    (\<exists>payload. ws_out s' = ws_out s @ [Net_SendMessage (length payload), Net_WriteData payload] \<and>
       Decode rd payload = Some (normalise (e\<lparr>env_from := kBrowser\<rparr>)))"
  using Send_accepts [OF assms(1)] decodes_what_it_encodes [of "stamp e" wr rd] assms(2,3)
  by (auto simp: stamp_def [symmetric])

text \<open>A JSON writer that knows one value, the one \<^const>\<open>example_read\<close> reads with sender browser.\<close>

definition example_write :: "json \<Rightarrow> string option" where
  "example_write v =
     (if v = JDict [(''type'', JString ''bye''), (''from'', JString ''browser'')] then Some ''cd'' else None)"

definition example_read_browser :: "string \<Rightarrow> json option" where
  "example_read_browser t =
     (if t = ''cd'' then Some (JDict [(''type'', JString ''bye''), (''from'', JString ''browser'')])
      else None)"

lemma Send_example: "Send example_write True example_bye example_open =
  (True, call (Net_WriteData ''cd'') (call (Net_SendMessage (length ''cd'')) example_open))"
  by (simp add: Send_def WriteTextFrame_def Encode_def envelope_dict_def default_encoded_def
      example_write_def example_bye_def example_open_fields DictSet_def Let_def)

theorem Send_peer_decodes_witness:
  "Decode example_read_browser ''cd'' = Some (example_bye\<lparr>env_from := kBrowser\<rparr>)"
proof -
  have agrees: "sdp_type_agrees example_bye"
    by (simp add: sdp_type_agrees_def example_bye_def)
  have written: "reads_back example_write example_read_browser v" for v
    by (simp add: reads_back_def example_write_def example_read_browser_def)
  show ?thesis
    using Send_peer_decodes [OF Send_example agrees written]
    by (auto simp: call_def normalise_def example_bye_def)
qed

text \<open>
  The dial URL determines the session and the token: for one host and scheme, two
  configurations with the same URL have the same session id and the same token, so no
  character of either can leak into another part of the URL.
\<close>

theorem BuildUrl_injective:
  assumes "BuildUrl c1 = BuildUrl c2" and "host c1 = host c2" and "use_tls c1 = use_tls c2"
    and "host c1 \<noteq> []" and "session_id c1 \<noteq> []" and "session_id c2 \<noteq> []"
  shows "session_id c1 = session_id c2 \<and> token c1 = token c2"
proof -
  let ?q = "\<lambda>c. ''role=browser''
    @ (if token c \<noteq> [] then ''&token='' @ PercentEncodeQueryValue (token c) else [])"
  have "PercentEncodePathSegment (session_id c1) @ CHR ''?'' # ?q c1
      = PercentEncodePathSegment (session_id c2) @ CHR ''?'' # ?q c2"
    using assms by (simp add: BuildUrl_def)
  then have "PercentEncodePathSegment (session_id c1) = PercentEncodePathSegment (session_id c2)
      \<and> ?q c1 = ?q c2"
    by (rule prefix_before_mark) (use encode_path_chars in auto)
  then have "percent_decode (PercentEncodePathSegment (session_id c1))
      = percent_decode (PercentEncodePathSegment (session_id c2))"
    and "PercentEncodeQueryValue (token c1) = PercentEncodeQueryValue (token c2)"
    by (auto split: if_splits)
  then have "session_id c1 = session_id c2"
    and "percent_decode (PercentEncodeQueryValue (token c1))
      = percent_decode (PercentEncodeQueryValue (token c2))"
    by simp_all
  then show ?thesis by simp
qed

theorem BuildUrl_injective_witness:
  "token (example_config\<lparr>token := ''a&b''\<rparr>) = ''a&b''
   \<and> BuildUrl (example_config\<lparr>token := ''a&b''\<rparr>)
     = ''wss://h/api/webrtc/signaling/s?role=browser&token=a%26b''"
  using BuildUrl_injective [of "example_config\<lparr>token := ''a&b''\<rparr>" "example_config\<lparr>token := ''a&b''\<rparr>"]
  by (simp add: example_config_def BuildUrl_def safe_path_def safe_query_def is_alnum_def
      percent_escape_def kHex_def)

end
