(* ===== verification/Cb_Reconnect.thy ===== *)
theory Cb_Reconnect
  imports Cb_Ws_Client
begin

text \<open>
  The reconnect supervisor, \<^verbatim>\<open>capture/signaling/cb_signaling_reconnect.{h,cc}\<close>. It owns the
  WebSocket client of the theory before, replaces it on every redial and is the client's
  observer: what the client calls on its observer is dispatched to the supervisor's own
  handlers. Times are in microseconds; the product of a time and the configured multiplier
  is the parameter \<open>mul\<close>.
\<close>

section \<open>State\<close>

record ReconnectConfig =
  initial_backoff :: int
  multiplier :: rat
  max_backoff :: int
  max_attempts :: "32 word"
  idle_timeout :: int

definition default_reconnect_config :: ReconnectConfig where
  "default_reconnect_config =
     \<lparr>initial_backoff = 1000000, multiplier = 2, max_backoff = 32000000, max_attempts = 10,
      idle_timeout = 90000000\<rparr>"

datatype RcState =
  Rc_kIdle | Rc_kConnecting | Rc_kOpen | Rc_kBackingOff | Rc_kReconnecting | Rc_kGaveUp | Rc_kClosed

text \<open>Calls on the consumer's observer.\<close>

datatype rc_call =
    Rc_OnConnected
  | Rc_OnEnvelope Envelope
  | Rc_OnClosed "16 word" string
  | Rc_OnGaveUp "32 word"

text \<open>
  \<open>backoff_timer\<close> and \<open>idle_timer\<close> hold the delay of a timer that is armed. \<open>rc_wire\<close>
  collects the frames written to the wire over all inner clients, and \<open>rc_delays\<close> the
  delays of the redials that were scheduled.
\<close>

record Reconnect =
  rc_ws_config :: WsClientConfig
  reconnect_config :: ReconnectConfig
  rc_state :: RcState
  disconnect_requested :: bool
  attempts_made :: "32 word"
  current_backoff :: int
  backoff_timer :: "int option"
  idle_timer :: "int option"
  inner :: "WsClient option"
  rc_out :: "rc_call list"
  rc_wire :: "string list"
  rc_delays :: "int list"

definition new_reconnect :: "WsClientConfig \<Rightarrow> ReconnectConfig \<Rightarrow> Reconnect" where
  "new_reconnect cfg rcfg =
     \<lparr>rc_ws_config = cfg, reconnect_config = rcfg, rc_state = Rc_kIdle,
      disconnect_requested = False, attempts_made = 0, current_backoff = initial_backoff rcfg,
      backoff_timer = None, idle_timer = None, inner = None, rc_out = [], rc_wire = [],
      rc_delays = []\<rparr>"

definition notify :: "rc_call \<Rightarrow> Reconnect \<Rightarrow> Reconnect" where
  "notify c s = s\<lparr>rc_out := rc_out s @ [c]\<rparr>"

section \<open>Handlers\<close>

definition ArmIdleTimer :: "Reconnect \<Rightarrow> Reconnect" where
  "ArmIdleTimer s =
     (if idle_timeout (reconnect_config s) = 0 then s
      else s\<lparr>idle_timer := Some (idle_timeout (reconnect_config s))\<rparr>)"

definition NextBackoff :: "Reconnect \<Rightarrow> int" where
  "NextBackoff s =
     (let next = current_backoff s in
      if next > max_backoff (reconnect_config s) then max_backoff (reconnect_config s) else next)"

definition HandleChannelDead :: "(int \<Rightarrow> rat \<Rightarrow> int) \<Rightarrow> Reconnect \<Rightarrow> Reconnect" where
  "HandleChannelDead mul s =
     (let s1 = s\<lparr>inner := None\<rparr>; cfg = reconnect_config s in
      if max_attempts cfg = 0 \<or> attempts_made s1 \<ge> max_attempts cfg then
        notify (Rc_OnGaveUp (attempts_made s1)) (s1\<lparr>rc_state := Rc_kGaveUp\<rparr>)
      else
        let s2 = s1\<lparr>rc_state := Rc_kBackingOff\<rparr>; delay = NextBackoff s2 in
        s2\<lparr>current_backoff := min (mul (current_backoff s2) (multiplier cfg)) (max_backoff cfg),
           backoff_timer := Some delay, rc_delays := rc_delays s2 @ [delay]\<rparr>)"

definition rc_OnConnected :: "Reconnect \<Rightarrow> Reconnect" where
  "rc_OnConnected s =
     notify Rc_OnConnected
       (ArmIdleTimer (s\<lparr>rc_state := Rc_kOpen, attempts_made := 0,
          current_backoff := initial_backoff (reconnect_config s)\<rparr>))"

definition rc_OnEnvelope :: "Envelope \<Rightarrow> Reconnect \<Rightarrow> Reconnect" where
  "rc_OnEnvelope e s = notify (Rc_OnEnvelope e) (ArmIdleTimer s)"

definition rc_OnClosed ::
  "(int \<Rightarrow> rat \<Rightarrow> int) \<Rightarrow> 16 word \<Rightarrow> string \<Rightarrow> Reconnect \<Rightarrow> Reconnect" where
  "rc_OnClosed mul code reason s =
     (let s1 = s\<lparr>idle_timer := None\<rparr> in
      if rc_state s1 = Rc_kClosed \<or> disconnect_requested s1 then
        notify (Rc_OnClosed code reason) (s1\<lparr>rc_state := Rc_kClosed\<rparr>)
      else HandleChannelDead mul s1)"

definition rc_OnError :: "(int \<Rightarrow> rat \<Rightarrow> int) \<Rightarrow> string \<Rightarrow> Reconnect \<Rightarrow> Reconnect" where
  "rc_OnError mul reason s = HandleChannelDead mul (s\<lparr>idle_timer := None\<rparr>)"

text \<open>The inner client's calls, in their order: those on its observer and those on the wire.\<close>

fun dispatch :: "(int \<Rightarrow> rat \<Rightarrow> int) \<Rightarrow> ws_call \<Rightarrow> Reconnect \<Rightarrow> Reconnect" where
  "dispatch mul Obs_OnConnected s = rc_OnConnected s"
| "dispatch mul (Obs_OnEnvelope e) s = rc_OnEnvelope e s"
| "dispatch mul (Obs_OnClosed code reason) s = rc_OnClosed mul code reason s"
| "dispatch mul (Obs_OnError reason) s = rc_OnError mul reason s"
| "dispatch mul (Net_WriteData payload) s = s\<lparr>rc_wire := rc_wire s @ [payload]\<rparr>"
| "dispatch mul _ s = s"

definition with_inner ::
  "(int \<Rightarrow> rat \<Rightarrow> int) \<Rightarrow> (WsClient \<Rightarrow> WsClient) \<Rightarrow> Reconnect \<Rightarrow> Reconnect" where
  "with_inner mul op s =
     (case inner s of
        None \<Rightarrow> s
      | Some c \<Rightarrow> let c' = op c in
          fold (dispatch mul) (drop (length (ws_out c)) (ws_out c')) (s\<lparr>inner := Some c'\<rparr>))"

definition StartInnerDial ::
  "(int \<Rightarrow> rat \<Rightarrow> int) \<Rightarrow> (string \<Rightarrow> bool) \<Rightarrow> Reconnect \<Rightarrow> Reconnect" where
  "StartInnerDial mul valid_url s =
     with_inner mul (Connect valid_url) (s\<lparr>inner := Some (new_ws_client (rc_ws_config s))\<rparr>)"

definition rc_Connect :: "(int \<Rightarrow> rat \<Rightarrow> int) \<Rightarrow> (string \<Rightarrow> bool) \<Rightarrow> Reconnect \<Rightarrow> Reconnect" where
  "rc_Connect mul valid_url s =
     (if rc_state s \<noteq> Rc_kIdle then s
      else StartInnerDial mul valid_url
        (s\<lparr>rc_state := Rc_kConnecting, attempts_made := 0,
           current_backoff := initial_backoff (reconnect_config s)\<rparr>))"

definition rc_Send ::
  "(int \<Rightarrow> rat \<Rightarrow> int) \<Rightarrow> (json \<Rightarrow> string option) \<Rightarrow> bool \<Rightarrow> Envelope \<Rightarrow> Reconnect
    \<Rightarrow> bool \<times> Reconnect" where
  "rc_Send mul wr write_ok e s =
     (case inner s of
        None \<Rightarrow> (False, s)
      | Some c \<Rightarrow>
          if rc_state s \<noteq> Rc_kOpen then (False, s)
          else (fst (Send wr write_ok e c), with_inner mul (snd \<circ> Send wr write_ok e) s))"

definition is_connected :: "WsClient \<Rightarrow> bool" where
  "is_connected c \<longleftrightarrow> ws_state c = Ws_kOpen"

definition is_closing :: "WsClient \<Rightarrow> bool" where
  "is_closing c \<longleftrightarrow> ws_state c = Ws_kClosing"

definition kCloseCodeNormal :: "16 word" where
  "kCloseCodeNormal = 1000"

definition rc_Disconnect :: "(int \<Rightarrow> rat \<Rightarrow> int) \<Rightarrow> Reconnect \<Rightarrow> Reconnect" where
  "rc_Disconnect mul s =
     (if rc_state s = Rc_kClosed \<or> rc_state s = Rc_kGaveUp then s
      else
        let s1 = s\<lparr>disconnect_requested := True, backoff_timer := None, idle_timer := None\<rparr> in
        if (case inner s1 of None \<Rightarrow> False | Some c \<Rightarrow> is_connected c \<or> is_closing c) then
          with_inner mul Disconnect s1
        else notify (Rc_OnClosed kCloseCodeNormal ''wrapper-disconnect-noop'')
               (s1\<lparr>rc_state := Rc_kClosed\<rparr>))"

definition OnBackoffFired ::
  "(int \<Rightarrow> rat \<Rightarrow> int) \<Rightarrow> (string \<Rightarrow> bool) \<Rightarrow> Reconnect \<Rightarrow> Reconnect" where
  "OnBackoffFired mul valid_url s =
     (if rc_state s \<noteq> Rc_kBackingOff then s
      else StartInnerDial mul valid_url
        (s\<lparr>attempts_made := attempts_made s + 1, rc_state := Rc_kReconnecting\<rparr>))"

definition OnIdleFired :: "(int \<Rightarrow> rat \<Rightarrow> int) \<Rightarrow> Reconnect \<Rightarrow> Reconnect" where
  "OnIdleFired mul s = (if rc_state s \<noteq> Rc_kOpen then s else HandleChannelDead mul s)"

definition TearDown :: "Reconnect \<Rightarrow> Reconnect" where
  "TearDown s =
     s\<lparr>backoff_timer := None, idle_timer := None, inner := None, rc_state := Rc_kClosed\<rparr>"

section \<open>The supervisor as a machine\<close>

text \<open>
  Events of the consumer, of the two timers (a timer fires only while it is armed) and of
  the network service on the current inner client.
\<close>

datatype rc_event =
    Rc_Connect
  | Rc_Send Envelope bool
  | Rc_Disconnect
  | Rc_BackoffFired
  | Rc_IdleFired
  | Rc_Net ws_event

record rc_world =
  rw_ws :: ws_world
  rw_mul :: "int \<Rightarrow> rat \<Rightarrow> int"

fun network_event :: "ws_event \<Rightarrow> bool" where
  "network_event Ev_Connect = False"
| "network_event Ev_Disconnect = False"
| "network_event (Ev_Send e ok) = False"
| "network_event (Ev_SendText t ok) = False"
| "network_event _ = True"

fun rc_step :: "rc_world \<Rightarrow> rc_event \<Rightarrow> Reconnect \<Rightarrow> Reconnect" where
  "rc_step w Rc_Connect s = rc_Connect (rw_mul w) (w_valid_url (rw_ws w)) s"
| "rc_step w (Rc_Send e ok) s = snd (rc_Send (rw_mul w) (w_write (rw_ws w)) ok e s)"
| "rc_step w Rc_Disconnect s = rc_Disconnect (rw_mul w) s"
| "rc_step w Rc_BackoffFired s =
     (if backoff_timer s = None then s
      else OnBackoffFired (rw_mul w) (w_valid_url (rw_ws w)) (s\<lparr>backoff_timer := None\<rparr>))"
| "rc_step w Rc_IdleFired s =
     (if idle_timer s = None then s else OnIdleFired (rw_mul w) (s\<lparr>idle_timer := None\<rparr>))"
| "rc_step w (Rc_Net e) s =
     (if network_event e then with_inner (rw_mul w) (ws_step (rw_ws w) e) s else s)"

section \<open>Invariant\<close>

text \<open>The inner client only appends to its log.\<close>

lemma FailWithError_extends: "\<exists>cs. ws_out (FailWithError r s) = ws_out s @ cs"
  by (simp add: FailWithError_def drop_channel_def call_def)

lemma ConsumePendingFrames_extends:
  "\<exists>cs. ws_out (ConsumePendingFrames rd react s) = ws_out s @ cs"
proof (rule ConsumePendingFrames_preserves [where P = "\<lambda>t. \<exists>cs. ws_out t = ws_out s @ cs"])
  show "\<exists>cs. ws_out s = ws_out s @ cs" by simp
qed (auto simp: FinishFrame_def FailWithError_def drop_channel_def call_def Disconnect_def Let_def
    split: option.splits)

lemma ws_step_extends: "\<exists>cs. ws_out (ws_step w e s) = ws_out s @ cs"
proof (cases e)
  case (Ev_Arrival a)
  have "\<exists>cs. ws_out (OnDataFrame rd react fin type len s) = ws_out s @ cs" for rd react fin type len
    using ConsumePendingFrames_extends [of rd react "s\<lparr>receiving_message := \<not> fin,
        pending_frames := pending_frames s @ [\<lparr>fr_fin = fin, fr_type = type, data_length = len\<rparr>]\<rparr>"]
    by (auto simp: OnDataFrame_def FailWithError_extends Let_def)
  then show ?thesis
    using Ev_Arrival by (cases a) (simp_all add: OnReadable_def ConsumePendingFrames_extends)
qed (auto simp: ws_ops OnReadable_def split: option.splits)

definition linked :: "obs_phase \<Rightarrow> Reconnect \<Rightarrow> bool" where
  "linked p s \<longleftrightarrow>
     attempts_made s \<le> max_attempts (reconnect_config s)
     \<and> list_all (\<lambda>d. d \<le> max_backoff (reconnect_config s)) (rc_delays s)
     \<and> (case p of
          Ph_New \<Rightarrow> (rc_state s = Rc_kConnecting \<or> rc_state s = Rc_kReconnecting
                     \<or> rc_state s = Rc_kClosed \<and> disconnect_requested s)
            \<and> backoff_timer s = None \<and> idle_timer s = None
        | Ph_Live \<Rightarrow> rc_state s = Rc_kOpen \<and> backoff_timer s = None \<and> attempts_made s = 0
            \<and> current_backoff s = initial_backoff (reconnect_config s)
        | Ph_Dead \<Rightarrow> (rc_state s = Rc_kBackingOff \<and> inner s = None \<and> backoff_timer s \<noteq> None
                       \<and> attempts_made s < max_attempts (reconnect_config s)
                     \<or> rc_state s = Rc_kGaveUp \<and> inner s = None \<and> backoff_timer s = None
                     \<or> rc_state s = Rc_kClosed \<and> disconnect_requested s \<and> backoff_timer s = None)
            \<and> idle_timer s = None
        | Ph_Bad \<Rightarrow> False)"

lemmas rc_ops = rc_OnConnected_def rc_OnEnvelope_def rc_OnClosed_def rc_OnError_def
  HandleChannelDead_def NextBackoff_def ArmIdleTimer_def notify_def Let_def

lemma linked_dispatch:
  assumes "linked p s" and "obs_next c p \<noteq> Ph_Bad"
  shows "linked (obs_next c p) (dispatch mul c s)
    \<and> (inner (dispatch mul c s) = inner s
       \<or> inner (dispatch mul c s) = None \<and> obs_next c p = Ph_Dead)"
proof (cases c)
  case Obs_OnConnected
  with assms show ?thesis
    by (auto simp: linked_def rc_ops split: if_splits)
next
  case (Obs_OnEnvelope e)
  with assms show ?thesis
    by (auto simp: linked_def rc_ops split: if_splits)
next
  case (Obs_OnClosed code r)
  with assms show ?thesis
    by (auto simp: linked_def rc_ops word_gt_0 split: if_splits)
next
  case (Obs_OnError r)
  with assms show ?thesis
    by (auto simp: linked_def rc_ops word_gt_0 split: if_splits)
qed (use assms in \<open>auto simp: linked_def split: obs_phase.splits\<close>)

lemma obs_next_Bad: "fold obs_next cs Ph_Bad = Ph_Bad"
proof (induction cs)
  case (Cons c cs)
  then show ?case by (cases c) simp_all
qed simp

lemma obs_next_Dead: "fold obs_next cs Ph_Dead \<noteq> Ph_Bad \<Longrightarrow> fold obs_next cs Ph_Dead = Ph_Dead"
proof (induction cs)
  case (Cons c cs)
  then show ?case by (cases c) (simp_all add: obs_next_Bad)
qed simp

lemma linked_dispatch_all:
  assumes "linked p s" and "fold obs_next cs p \<noteq> Ph_Bad"
  shows "linked (fold obs_next cs p) (fold (dispatch mul) cs s)
    \<and> (inner (fold (dispatch mul) cs s) = inner s
       \<or> inner (fold (dispatch mul) cs s) = None \<and> fold obs_next cs p = Ph_Dead)"
  using assms
proof (induction cs arbitrary: p s)
  case (Cons c cs)
  then have ok: "obs_next c p \<noteq> Ph_Bad" by (auto simp: obs_next_Bad)
  note step = linked_dispatch [OF Cons.prems(1) ok, of mul]
  have "linked (fold obs_next cs (obs_next c p)) (fold (dispatch mul) cs (dispatch mul c s))
    \<and> (inner (fold (dispatch mul) cs (dispatch mul c s)) = inner (dispatch mul c s)
       \<or> inner (fold (dispatch mul) cs (dispatch mul c s)) = None
         \<and> fold obs_next cs (obs_next c p) = Ph_Dead)"
    using Cons.IH step Cons.prems(2) by simp
  then show ?case using step obs_next_Dead [of cs] Cons.prems(2) by auto
qed simp

definition rc_invar :: "Reconnect \<Rightarrow> bool" where
  "rc_invar s \<longleftrightarrow>
     (case inner s of
        None \<Rightarrow>
          rc_state s = Rc_kIdle \<and> backoff_timer s = None \<and> idle_timer s = None \<and> rc_delays s = []
            \<and> attempts_made s = 0
          \<or> linked Ph_Dead s
      | Some c \<Rightarrow> ws_invar c \<and> linked (obs_phase_of (ws_out c)) s
          \<and> (obs_phase_of (ws_out c) = Ph_New \<longrightarrow> ws_state c = Ws_kConnecting))"

lemma ws_invar_not_Bad: "ws_invar c \<Longrightarrow> obs_phase_of (ws_out c) \<noteq> Ph_Bad"
  by (auto simp: ws_invar_def split: WsState.splits if_splits)

lemma rc_invar_with_inner:
  assumes "linked (obs_phase_of (ws_out c)) s" and "inner s = Some c" and "ws_invar (op c)"
    and "\<exists>cs. ws_out (op c) = ws_out c @ cs"
    and "obs_phase_of (ws_out (op c)) = Ph_New \<Longrightarrow> ws_state (op c) = Ws_kConnecting"
  shows "rc_invar (with_inner mul op s)"
proof -
  from assms(4) obtain cs where cs: "ws_out (op c) = ws_out c @ cs" by blast
  let ?s1 = "s\<lparr>inner := Some (op c)\<rparr>"
  have "linked (obs_phase_of (ws_out c)) ?s1"
    using assms(1,2) by (auto simp: linked_def split: obs_phase.splits)
  moreover have "fold obs_next cs (obs_phase_of (ws_out c)) = obs_phase_of (ws_out (op c))"
    by (simp add: cs)
  ultimately have "linked (obs_phase_of (ws_out (op c))) (fold (dispatch mul) cs ?s1)
    \<and> (inner (fold (dispatch mul) cs ?s1) = Some (op c)
       \<or> inner (fold (dispatch mul) cs ?s1) = None \<and> obs_phase_of (ws_out (op c)) = Ph_Dead)"
    using linked_dispatch_all [of "obs_phase_of (ws_out c)" ?s1 cs mul]
      ws_invar_not_Bad [OF assms(3)] by simp
  then show ?thesis
    using assms(2,3,5) cs by (auto simp: with_inner_def rc_invar_def Let_def)
qed

lemma Connect_new:
  "ws_invar (Connect valid_url (new_ws_client cfg))"
  "ws_state (Connect valid_url (new_ws_client cfg)) \<noteq> Ws_kIdle"
  "obs_phase_of (ws_out (Connect valid_url (new_ws_client cfg))) = Ph_New
    \<Longrightarrow> ws_state (Connect valid_url (new_ws_client cfg)) = Ws_kConnecting"
  "ws_out (new_ws_client cfg) = []"
  by (cases "BuildUrl cfg = []"; cases "valid_url (BuildUrl cfg)";
      simp add: ws_invar_def Connect_def FailWithError_def drop_channel_def call_def
        new_ws_client_def obs_phase_of_def Let_def)+

lemma rc_invar_StartInnerDial:
  assumes "attempts_made s \<le> max_attempts (reconnect_config s)"
    and "list_all (\<lambda>d. d \<le> max_backoff (reconnect_config s)) (rc_delays s)"
    and "rc_state s = Rc_kConnecting \<or> rc_state s = Rc_kReconnecting"
    and "backoff_timer s = None" and "idle_timer s = None"
  shows "rc_invar (StartInnerDial mul valid_url s)"
proof -
  let ?c = "new_ws_client (rc_ws_config s)"
  show ?thesis
    unfolding StartInnerDial_def
    by (rule rc_invar_with_inner [where c = ?c])
      (use assms Connect_new in \<open>auto simp: linked_def obs_phase_of_def\<close>)
qed

lemma network_event_keeps_dialing:
  assumes "ws_invar c" and "network_event e" and "obs_phase_of (ws_out (ws_step w e c)) = Ph_New"
    and "obs_phase_of (ws_out c) = Ph_New \<longrightarrow> ws_state c = Ws_kConnecting"
  shows "ws_state (ws_step w e c) = Ws_kConnecting"
proof -
  obtain cs where cs: "ws_out (ws_step w e c) = ws_out c @ cs" using ws_step_extends by blast
  have "fold obs_next cs p = Ph_New \<Longrightarrow> p = Ph_New" for p
  proof (induction cs arbitrary: p)
    case (Cons x cs)
    then show ?case by (cases x) (auto split: if_splits)
  qed simp
  then have conn: "ws_state c = Ws_kConnecting" and new: "obs_phase_of (ws_out c) = Ph_New"
    using assms(3,4) cs by auto
  show ?thesis
  proof (cases e)
    case (Ev_Arrival a)
    with conn show ?thesis by (cases a) (simp_all add: OnDataFrame_def OnReadable_def)
  qed (use assms conn new in
      \<open>auto simp: ws_ops OnReadable_def split: if_splits\<close>)
qed

lemma rc_invar_Net:
  assumes "rc_invar s" and "network_event e"
  shows "rc_invar (with_inner mul (ws_step w e) s)"
proof (cases "inner s")
  case None
  with assms show ?thesis by (simp add: with_inner_def)
next
  case (Some c)
  with assms(1) have "ws_invar c" "linked (obs_phase_of (ws_out c)) s"
    "obs_phase_of (ws_out c) = Ph_New \<longrightarrow> ws_state c = Ws_kConnecting"
    by (simp_all add: rc_invar_def)
  with Some show ?thesis
    by (intro rc_invar_with_inner)
      (auto simp: ws_invar_step ws_step_extends intro: network_event_keeps_dialing [OF _ assms(2)])
qed

lemma rc_invar_live_op:
  assumes "rc_invar s" and "inner s = Some c" and "obs_phase_of (ws_out c) = Ph_Live"
  shows "rc_invar (with_inner mul (ws_step w e) s)"
proof -
  obtain cs where cs: "ws_out (ws_step w e c) = ws_out c @ cs" using ws_step_extends by blast
  have "fold obs_next cs p \<noteq> Ph_New" if "p \<noteq> Ph_New" for p
    using that
  proof (induction cs arbitrary: p)
    case (Cons x cs)
    then show ?case by (cases x) auto
  qed simp
  then have "obs_phase_of (ws_out (ws_step w e c)) \<noteq> Ph_New" using cs assms(3) by simp
  with assms show ?thesis
    by (intro rc_invar_with_inner) (auto simp: rc_invar_def ws_invar_step cs)
qed

lemma rc_invar_Send: "rc_invar s \<Longrightarrow> rc_invar (snd (rc_Send mul wr ok e s))"
proof (cases "inner s")
  case (Some c)
  assume inv: "rc_invar s"
  show ?thesis
  proof (cases "rc_state s = Rc_kOpen")
    case True
    then have "obs_phase_of (ws_out c) = Ph_Live"
      using inv Some by (auto simp: rc_invar_def linked_def split: obs_phase.splits)
    from rc_invar_live_op [OF inv Some this, of mul
        "\<lparr>w_valid_url = \<lambda>_. True, w_write = wr, w_read = \<lambda>_. None, w_react = \<lambda>_. True\<rparr>" "Ev_Send e ok"]
    show ?thesis using True Some by (simp add: rc_Send_def with_inner_def)
  qed (use inv Some in \<open>simp add: rc_Send_def\<close>)
qed (simp add: rc_Send_def)

lemma rc_invar_Disconnect:
  assumes inv: "rc_invar s"
  shows "rc_invar (rc_Disconnect mul s)"
proof (cases "rc_state s = Rc_kClosed \<or> rc_state s = Rc_kGaveUp")
  case True
  with inv show ?thesis by (simp add: rc_Disconnect_def)
next
  case False
  let ?s1 = "s\<lparr>disconnect_requested := True, backoff_timer := None, idle_timer := None\<rparr>"
  show ?thesis
  proof (cases "inner s")
    case None
    with inv False show ?thesis
      by (auto simp: rc_Disconnect_def rc_invar_def linked_def notify_def)
  next
    case (Some c)
    show ?thesis
    proof (cases "is_connected c \<or> is_closing c")
      case True
      with inv False Some have "obs_phase_of (ws_out c) = Ph_Live"
        by (auto simp: rc_invar_def ws_invar_def linked_def is_connected_def is_closing_def
            split: if_splits)
      with inv False Some have "rc_invar ?s1"
        by (simp add: rc_invar_def linked_def)
      from rc_invar_live_op [OF this, of c mul undefined Ev_Disconnect] True False Some
        \<open>obs_phase_of (ws_out c) = Ph_Live\<close>
      show ?thesis by (simp add: rc_Disconnect_def with_inner_def)
    next
      case closed: False
      with inv False Some show ?thesis
        by (auto simp: rc_Disconnect_def rc_invar_def linked_def notify_def ws_invar_def
            is_connected_def is_closing_def split: obs_phase.splits WsState.splits)
    qed
  qed
qed

lemma word_Suc_le: "(a :: 32 word) < b \<Longrightarrow> a + 1 \<le> b"
  by (simp add: inc_le)

lemma rc_invar_BackoffFired:
  assumes "rc_invar s" and "backoff_timer s \<noteq> None"
  shows "rc_invar (OnBackoffFired mul valid_url (s\<lparr>backoff_timer := None\<rparr>))"
proof -
  from assms have "inner s = None" and "linked Ph_Dead s" and "rc_state s = Rc_kBackingOff"
    by (auto simp: rc_invar_def linked_def split: option.splits obs_phase.splits)
  then show ?thesis
    by (auto simp: OnBackoffFired_def linked_def intro!: rc_invar_StartInnerDial word_Suc_le)
qed

lemma rc_invar_IdleFired:
  assumes "rc_invar s"
  shows "rc_invar (OnIdleFired mul (s\<lparr>idle_timer := None\<rparr>))"
proof (cases "rc_state s = Rc_kOpen")
  case True
  with assms show ?thesis
    by (auto simp: rc_invar_def linked_def OnIdleFired_def rc_ops word_gt_0
        split: option.splits obs_phase.splits)
next
  case False
  with assms show ?thesis
    by (auto simp: rc_invar_def linked_def OnIdleFired_def split: option.splits obs_phase.splits)
qed

lemma rc_invar_step: "rc_invar s \<Longrightarrow> rc_invar (rc_step w e s)"
proof (cases e)
  case Rc_Connect
  assume inv: "rc_invar s"
  show ?thesis
  proof (cases "rc_state s = Rc_kIdle")
    case True
    with inv have "inner s = None \<and> backoff_timer s = None \<and> idle_timer s = None \<and> rc_delays s = []"
      by (auto simp: rc_invar_def linked_def split: option.splits obs_phase.splits)
    with True Rc_Connect show ?thesis
      by (simp add: rc_Connect_def rc_invar_StartInnerDial)
  qed (use inv Rc_Connect in \<open>simp add: rc_Connect_def\<close>)
qed (simp_all add: rc_invar_Send rc_invar_Disconnect rc_invar_BackoffFired rc_invar_IdleFired
    rc_invar_Net)

interpretation rc_machine: invariant_machine
  "\<lambda>s. \<exists>cfg rcfg. s = new_reconnect cfg rcfg" "rc_step w" rc_invar for w
  by unfold_locales (auto simp: rc_invar_step, simp add: rc_invar_def new_reconnect_def)

text \<open>No way out of the two terminal states once the inner client and the timers are gone.\<close>

definition rc_finished :: "Reconnect \<Rightarrow> bool" where
  "rc_finished s \<longleftrightarrow>
     (rc_state s = Rc_kClosed \<or> rc_state s = Rc_kGaveUp) \<and> backoff_timer s = None
     \<and> idle_timer s = None
     \<and> (case inner s of None \<Rightarrow> True | Some c \<Rightarrow> ws_state c = Ws_kClosed)"

lemma rc_finished_step:
  assumes "rc_finished s"
  shows "rc_finished (rc_step w e s) \<and> rc_out (rc_step w e s) = rc_out s"
proof (cases e)
  case (Rc_Net n)
  show ?thesis
  proof (cases "inner s")
    case (Some c)
    with assms have "ws_state c = Ws_kClosed" by (simp add: rc_finished_def)
    from ws_closed_step [OF this, of "rw_ws w" n] assms Some Rc_Net show ?thesis
      by (simp add: with_inner_def rc_finished_def Let_def)
  qed (use assms Rc_Net in \<open>simp add: with_inner_def\<close>)
qed (use assms in \<open>auto simp: rc_finished_def rc_Connect_def rc_Send_def rc_Disconnect_def
      split: option.splits\<close>)

interpretation rc_done: absorbing_machine "rc_step w" "\<lambda>s. rc_finished s \<and> rc_out s = out" for w out
  by unfold_locales (simp add: rc_finished_step)

section \<open>The supervisor as a transport\<close>

lemma dispatch_wire: "rc_wire (dispatch mul c s) = rc_wire s @ written [c]"
  by (cases c) (simp_all add: rc_ops)

lemma dispatch_all_wire: "rc_wire (fold (dispatch mul) cs s) = rc_wire s @ written cs"
proof (induction cs arbitrary: s)
  case (Cons c cs)
  then show ?case
    using written_append [of "[c]" cs] by (simp add: dispatch_wire del: written_append)
qed simp

lemma with_inner_wire:
  assumes "inner s = Some c" and "ws_out (op c) = ws_out c @ cs"
  shows "rc_wire (with_inner mul op s) = rc_wire s @ written cs"
  using assms by (simp add: with_inner_def dispatch_all_wire)

lemma rc_Send_open:
  assumes "inner s = Some c" and "rc_state s = Rc_kOpen"
  shows "rc_Send mul wr ok e s =
    (fst (Send wr ok e c), with_inner mul (snd \<circ> Send wr ok e) s)"
  using assms by (simp add: rc_Send_def)

lemma rc_Send_not_open:
  assumes "inner s = None \<or> rc_state s \<noteq> Rc_kOpen"
  shows "rc_Send mul wr ok e s = (False, s)"
  using assms by (auto simp: rc_Send_def split: option.split)

lemma rc_Send_wire:
  assumes "rc_Send mul wr ok e s = (r, s')"
  shows "if r then \<exists>f. Encode wr (stamp e) = Some f \<and> rc_wire s' = rc_wire s @ [f]
    else rc_wire s' = rc_wire s"
proof (cases "inner s = None \<or> rc_state s \<noteq> Rc_kOpen")
  case True
  with assms show ?thesis by (simp add: rc_Send_not_open)
next
  case False
  then obtain c where c: "inner s = Some c" "rc_state s = Rc_kOpen" by auto
  obtain c' where send: "Send wr ok e c = (r, c')" and s': "s' = with_inner mul (snd \<circ> Send wr ok e) s"
    using assms rc_Send_open [OF c, of mul wr ok e] by (cases "Send wr ok e c") simp
  have wire: "rc_wire s' = rc_wire s @ written cs" if "ws_out c' = ws_out c @ cs" for cs
    unfolding s' by (rule with_inner_wire [OF c(1)]) (simp add: send that)
  show ?thesis
  proof (cases r)
    case True
    then show ?thesis using Send_accepts [of wr ok e c c'] send wire by fastforce
  next
    case False
    then show ?thesis using Send_refuses [of wr ok e c c'] send wire by fastforce
  qed
qed

interpretation rc_transport: signaling_transport "rc_Send mul wr" "\<lambda>s. rc_state s = Rc_kOpen"
  rc_wire wr for mul wr
  by unfold_locales (auto simp: rc_Send_not_open dest: rc_Send_wire)

section \<open>Redial schedule\<close>

lemma HandleChannelDead_inner [simp]:
  "HandleChannelDead mul (s\<lparr>inner := x\<rparr>) = HandleChannelDead mul s"
  "HandleChannelDead mul (s\<lparr>inner := x, idle_timer := i\<rparr>) = HandleChannelDead mul (s\<lparr>idle_timer := i\<rparr>)"
  by (simp_all add: HandleChannelDead_def NextBackoff_def Let_def)

definition dial_ok :: "rc_world \<Rightarrow> WsClientConfig \<Rightarrow> bool" where
  "dial_ok w cfg \<longleftrightarrow> BuildUrl cfg \<noteq> [] \<and> w_valid_url (rw_ws w) (BuildUrl cfg)"

text \<open>One failed redial: the backoff timer fires and the handshake fails.\<close>

definition failed_redial :: "string \<Rightarrow> int \<Rightarrow> int \<Rightarrow> rc_event list" where
  "failed_redial m ne code = [Rc_BackoffFired, Rc_Net (Ev_OnFailure m ne code)]"

lemma failed_redial_run:
  assumes "rc_state s = Rc_kBackingOff" and "backoff_timer s \<noteq> None"
    and "dial_ok w (rc_ws_config s)"
  shows "fold (rc_step w) (failed_redial m ne code) s =
    HandleChannelDead (rw_mul w) (s\<lparr>backoff_timer := None, attempts_made := attempts_made s + 1,
      rc_state := Rc_kReconnecting, idle_timer := None\<rparr>)"
proof -
  let ?s1 = "s\<lparr>backoff_timer := None, attempts_made := attempts_made s + 1,
    rc_state := Rc_kReconnecting\<rparr>"
  let ?c = "call (Net_CreateWebSocket (BuildUrl (rc_ws_config s)))
    ((new_ws_client (rc_ws_config s))\<lparr>ws_state := Ws_kConnecting\<rparr>)"
  have "rc_step w Rc_BackoffFired s = ?s1\<lparr>inner := Some ?c\<rparr>"
    using assms
    by (auto simp: OnBackoffFired_def StartInnerDial_def with_inner_def dial_ok_def Connect_def
        new_ws_client_def call_def Let_def)
  then show ?thesis
    by (simp add: failed_redial_def with_inner_def OnFailure_def FailWithError_def drop_channel_def
        call_def new_ws_client_def rc_OnError_def Let_def)
qed

definition backoff_at :: "ReconnectConfig \<Rightarrow> int \<Rightarrow> nat \<Rightarrow> int" where
  "backoff_at cfg m k = min (initial_backoff cfg * m ^ k) (max_backoff cfg)"

lemma min_mult_min:
  fixes m :: int
  assumes "1 \<le> m" and "0 \<le> b"
  shows "min (m * min a b) b = min (m * a) b"
proof (cases "a \<le> b")
  case False
  have "b \<le> m * b" using assms by (simp add: mult_le_cancel_right1)
  moreover have "m * b \<le> m * a" using False assms by (simp add: mult_left_mono)
  ultimately show ?thesis using False by (simp add: min.absorb2)
qed simp

text \<open>The state after a death and \<open>n\<close> failed redials.\<close>

definition redialing :: "Reconnect \<Rightarrow> int \<Rightarrow> nat \<Rightarrow> Reconnect \<Rightarrow> bool" where
  "redialing s m n t \<longleftrightarrow>
     reconnect_config t = reconnect_config s \<and> rc_ws_config t = rc_ws_config s
     \<and> rc_delays t = rc_delays s
         @ map (backoff_at (reconnect_config s) m)
             [0..<min (Suc n) (unat (max_attempts (reconnect_config s)))]
     \<and> attempts_made t = of_nat n
     \<and> (if n < unat (max_attempts (reconnect_config s)) then
          rc_state t = Rc_kBackingOff \<and> backoff_timer t \<noteq> None \<and> rc_out t = rc_out s
          \<and> current_backoff t = backoff_at (reconnect_config s) m (Suc n)
        else rc_state t = Rc_kGaveUp \<and> rc_out t = rc_out s @ [Rc_OnGaveUp (of_nat n)])"

lemma redialing_first:
  assumes "attempts_made s = 0" and "current_backoff s = initial_backoff (reconnect_config s)"
    and "0 < max_attempts (reconnect_config s)"
    and "mul (initial_backoff (reconnect_config s)) (multiplier (reconnect_config s))
      = m * initial_backoff (reconnect_config s)"
  shows "redialing s m 0 (HandleChannelDead mul (s\<lparr>idle_timer := None\<rparr>))"
proof -
  have "0 < unat (max_attempts (reconnect_config s))"
    using assms(3) by (simp add: unat_gt_0 word_gt_0)
  then show ?thesis using assms
    by (auto simp: redialing_def HandleChannelDead_def NextBackoff_def Let_def backoff_at_def min_def
        mult.commute)
qed

lemma redialing_next:
  assumes t: "redialing s m n t" and n: "n < unat (max_attempts (reconnect_config s))"
    and m: "1 \<le> m" and max: "0 \<le> max_backoff (reconnect_config s)"
    and exact: "\<And>d. d \<le> max_backoff (reconnect_config s) \<Longrightarrow>
      mul d (multiplier (reconnect_config s)) = m * d"
  shows "redialing s m (Suc n) (HandleChannelDead mul (t\<lparr>backoff_timer := None,
    attempts_made := attempts_made t + 1, rc_state := Rc_kReconnecting, idle_timer := None\<rparr>))"
proof -
  let ?cfg = "reconnect_config s"
  have cur: "current_backoff t = backoff_at ?cfg m (Suc n)" "reconnect_config t = ?cfg"
    "rc_ws_config t = rc_ws_config s" "attempts_made t = of_nat n" "rc_out t = rc_out s"
    "rc_delays t = rc_delays s @ map (backoff_at ?cfg m) [0..<Suc n]"
    using t n by (auto simp: redialing_def min_def)
  have le: "backoff_at ?cfg m (Suc n) \<le> max_backoff ?cfg" by (simp add: backoff_at_def)
  have next_backoff: "min (mul (backoff_at ?cfg m (Suc n)) (multiplier ?cfg)) (max_backoff ?cfg)
      = backoff_at ?cfg m (Suc (Suc n))"
    unfolding exact [OF le] by (simp add: backoff_at_def min_mult_min [OF m max] mult_ac)
  have bound: "unat (of_nat (Suc n) :: 32 word) = Suc n"
    using n unsigned_less [of "max_attempts ?cfg", where ?'a = nat]
    by (simp add: unat_of_nat del: of_nat_Suc)
  have plus: "attempts_made t + 1 = of_nat (Suc n)" by (simp add: cur(4) add.commute)
  have gave_up: "max_attempts ?cfg \<le> of_nat (Suc n) \<longleftrightarrow> unat (max_attempts ?cfg) \<le> Suc n"
    by (simp add: word_le_nat_alt bound del: of_nat_Suc)
  have nonzero: "max_attempts ?cfg \<noteq> 0" using n by auto
  show ?thesis
  proof (cases "Suc n < unat (max_attempts ?cfg)")
    case True
    then show ?thesis using cur(1,2,3,5,6) le next_backoff gave_up nonzero
      by (simp add: redialing_def HandleChannelDead_def NextBackoff_def Let_def plus
          del: of_nat_Suc)
  next
    case False
    then have "Suc n = unat (max_attempts ?cfg)" using n by simp
    then show ?thesis using cur(1,2,3,5,6) gave_up nonzero
      by (simp add: redialing_def HandleChannelDead_def Let_def plus notify_def
          del: of_nat_Suc)
  qed
qed

lemma redialing_run:
  assumes "redialing s m 0 t" and "n \<le> unat (max_attempts (reconnect_config s))"
    and "1 \<le> m" and "0 \<le> max_backoff (reconnect_config s)"
    and "\<And>d. d \<le> max_backoff (reconnect_config s) \<Longrightarrow>
      rw_mul w d (multiplier (reconnect_config s)) = m * d"
    and "dial_ok w (rc_ws_config s)"
  shows "redialing s m n (fold (rc_step w) (concat (replicate n (failed_redial msg ne code))) t)"
  using assms(2)
proof (induction n)
  case 0
  then show ?case using assms(1) by simp
next
  case (Suc n)
  let ?t = "fold (rc_step w) (concat (replicate n (failed_redial msg ne code))) t"
  have t: "redialing s m n ?t" and n: "n < unat (max_attempts (reconnect_config s))"
    using Suc by simp_all
  have "concat (replicate (Suc n) (failed_redial msg ne code))
      = concat (replicate n (failed_redial msg ne code)) @ failed_redial msg ne code"
    by (metis append.right_neutral concat.simps concat_append replicate_Suc replicate_append_same)
  moreover have "rc_state ?t = Rc_kBackingOff" "backoff_timer ?t \<noteq> None"
    "rc_ws_config ?t = rc_ws_config s"
    using t n by (auto simp: redialing_def)
  ultimately show ?case
    using redialing_next [where mul = "rw_mul w", OF t n assms(3,4,5)] failed_redial_run [of ?t w msg ne code] assms(6)
    by simp
qed

section \<open>Example data\<close>

definition example_world :: rc_world where
  "example_world =
     \<lparr>rw_ws = \<lparr>w_valid_url = \<lambda>_. True, w_write = example_write, w_read = example_read,
               w_react = \<lambda>_. False\<rparr>,
      rw_mul = \<lambda>d m. \<lfloor>of_int d * m\<rfloor>\<rparr>"

lemma example_world_exact: "rw_mul example_world d 2 = 2 * d"
proof -
  have "(of_int d * 2 :: rat) = of_int (2 * d)" by simp
  then show ?thesis unfolding example_world_def by (simp only: rc_world.simps floor_of_int)
qed

definition example_supervisor :: Reconnect where
  "example_supervisor = new_reconnect example_config default_reconnect_config"

lemma example_dialing:
  "rc_step example_world Rc_Connect example_supervisor =
     example_supervisor\<lparr>rc_state := Rc_kConnecting,
       inner := Some (call (Net_CreateWebSocket (BuildUrl example_config))
         ((new_ws_client example_config)\<lparr>ws_state := Ws_kConnecting\<rparr>))\<rparr>"
  by (simp add: example_supervisor_def example_world_def new_reconnect_def rc_Connect_def
      StartInnerDial_def with_inner_def Connect_def new_ws_client_def call_def BuildUrl_def
      example_config_def default_reconnect_config_def Let_def)

lemma example_opens:
  "\<exists>c. fold (rc_step example_world) [Rc_Connect, Rc_Net Ev_OnConnectionEstablished]
        example_supervisor =
     example_supervisor\<lparr>rc_state := Rc_kOpen, inner := Some c, idle_timer := Some 90000000,
       rc_out := [Rc_OnConnected]\<rparr> \<and> ws_state c = Ws_kOpen"
  by (simp add: example_dialing del: rc_step.simps(1))
    (simp add: with_inner_def OnConnectionEstablished_def call_def new_ws_client_def
      rc_OnConnected_def ArmIdleTimer_def notify_def example_supervisor_def new_reconnect_def
      default_reconnect_config_def example_world_def Let_def)

section \<open>Properties\<close>

text \<open>
  C22. Supervisor invariant, over every sequence of consumer calls, timer fires and network
  events: the attempt counter never passes \<open>max_attempts\<close>, no scheduled delay passes
  \<open>max_backoff\<close>, the backoff timer is armed exactly while backing off (with no inner client),
  the idle timer only while open, an open supervisor has a connected or closing client, and
  one that gave up has released everything and stays so.
\<close>

theorem reconnect_invariant:
  assumes "s = fold (rc_step w) es (new_reconnect cfg rcfg)"
  shows "attempts_made s \<le> max_attempts (reconnect_config s)
    \<and> list_all (\<lambda>d. d \<le> max_backoff (reconnect_config s)) (rc_delays s)
    \<and> (backoff_timer s \<noteq> None \<longleftrightarrow> rc_state s = Rc_kBackingOff)
    \<and> (rc_state s = Rc_kBackingOff \<longrightarrow> inner s = None)
    \<and> (idle_timer s \<noteq> None \<longrightarrow> rc_state s = Rc_kOpen)
    \<and> (rc_state s = Rc_kOpen \<longrightarrow>
         (\<exists>c. inner s = Some c \<and> (ws_state c = Ws_kOpen \<or> ws_state c = Ws_kClosing)))
    \<and> (rc_state s = Rc_kGaveUp \<longrightarrow>
         inner s = None \<and> rc_state (fold (rc_step w) es' s) = Rc_kGaveUp
         \<and> rc_out (fold (rc_step w) es' s) = rc_out s)"
proof -
  have inv: "rc_invar s" unfolding assms by (rule rc_machine.invar_reached) blast
  have gave_up: "rc_finished s" if "rc_state s = Rc_kGaveUp"
    using inv that by (auto simp: rc_invar_def linked_def rc_finished_def
        split: option.splits obs_phase.splits)
  have stays: "rc_state (fold (rc_step w) es' t) = Rc_kGaveUp"
    if "rc_state t = Rc_kGaveUp" "inner t = None" "backoff_timer t = None" "idle_timer t = None" for t
  proof -
    have "rc_state (fold (rc_step w) es' t) = Rc_kGaveUp \<and> inner (fold (rc_step w) es' t) = None
      \<and> backoff_timer (fold (rc_step w) es' t) = None \<and> idle_timer (fold (rc_step w) es' t) = None"
      using that
    proof (induction es' arbitrary: t)
      case (Cons e es')
      then show ?case
        by (cases e) (auto simp: rc_Connect_def rc_Send_def rc_Disconnect_def with_inner_def)
    qed simp
    then show ?thesis by simp
  qed
  show ?thesis
    using inv gave_up rc_done.absorbed_run [of s "rc_out s" w es'] stays [of s]
    by (auto simp: rc_invar_def linked_def ws_invar_def split: option.splits obs_phase.splits
        WsState.splits if_splits)
qed

theorem reconnect_invariant_witness:
  "let s = fold (rc_step example_world) [Rc_Connect, Rc_Net Ev_OnConnectionEstablished]
             example_supervisor
   in rc_state s = Rc_kOpen \<and> (\<exists>c. inner s = Some c \<and> (ws_state c = Ws_kOpen \<or> ws_state c = Ws_kClosing))"
  using reconnect_invariant [where w = example_world and cfg = example_config
      and rcfg = default_reconnect_config and es = "[Rc_Connect, Rc_Net Ev_OnConnectionEstablished]",
      OF refl] example_opens
  by (auto simp: example_supervisor_def Let_def simp del: rc_step.simps fold_simps)

text \<open>
  C12. Redial schedule. When an open channel drops and every redial fails, the k-th wait is
  \<open>initial_backoff\<close> times the k-th power of the multiplier, capped at \<open>max_backoff\<close>; exactly
  \<open>max_attempts\<close> redials are made, the consumer hears nothing until then, and then
  hears \<open>OnGaveUp(max_attempts)\<close> once. The multiplier is a whole number, and the product of
  times is exact up to the cap.
\<close>

theorem redial_schedule:
  assumes "s = fold (rc_step w) es (new_reconnect cfg rcfg)"
    and "rc_state s = Rc_kOpen" and "\<not> disconnect_requested s"
    and "dial_ok w (rc_ws_config s)" and "0 < max_attempts (reconnect_config s)"
    and "1 \<le> m" and "0 \<le> max_backoff (reconnect_config s)"
    and "initial_backoff (reconnect_config s) \<le> max_backoff (reconnect_config s)"
    and "\<And>d. d \<le> max_backoff (reconnect_config s) \<Longrightarrow>
      rw_mul w d (multiplier (reconnect_config s)) = m * d"
    and "n \<le> unat (max_attempts (reconnect_config s))"
  shows "redialing s m n
    (fold (rc_step w)
      (Rc_Net (Ev_OnDropChannel clean code r) # concat (replicate n (failed_redial msg ne resp))) s)"
proof -
  have "rc_invar s" unfolding assms(1) by (rule rc_machine.invar_reached) blast
  with assms(2) obtain c where c: "inner s = Some c" "ws_invar c"
    "obs_phase_of (ws_out c) = Ph_Live" "attempts_made s = 0"
    "current_backoff s = initial_backoff (reconnect_config s)"
    by (auto simp: rc_invar_def linked_def split: option.splits obs_phase.splits)
  then have "ws_state c = Ws_kOpen \<or> ws_state c = Ws_kClosing"
    by (auto simp: ws_invar_def split: WsState.splits)
  then have "rc_step w (Rc_Net (Ev_OnDropChannel clean code r)) s
      = HandleChannelDead (rw_mul w) (s\<lparr>idle_timer := None\<rparr>)"
    using c(1) assms(2,3)
    by (auto simp: with_inner_def OnDropChannel_def drop_channel_def call_def rc_OnClosed_def
        rc_OnError_def Let_def)
  then show ?thesis
    using redialing_first [OF c(4,5) assms(5), of "rw_mul w" m] assms
    by (simp add: redialing_run del: rc_step.simps)
qed

theorem redial_schedule_witness:
  "let s = fold (rc_step example_world) [Rc_Connect, Rc_Net Ev_OnConnectionEstablished]
             example_supervisor;
       t = fold (rc_step example_world) (Rc_Net (Ev_OnDropChannel True 1000 []) #
             concat (replicate 10 (failed_redial [] 0 503))) s
   in rc_state t = Rc_kGaveUp \<and> rc_out t = [Rc_OnConnected, Rc_OnGaveUp 10]
      \<and> rc_delays t = map ((*) 1000000) [1, 2, 4, 8, 16, 32, 32, 32, 32, 32]
      \<and> sum_list (rc_delays t) = 191000000"
proof -
  let ?s = "fold (rc_step example_world) [Rc_Connect, Rc_Net Ev_OnConnectionEstablished]
             example_supervisor"
  let ?t = "fold (rc_step example_world) (Rc_Net (Ev_OnDropChannel True 1000 []) #
             concat (replicate 10 (failed_redial [] 0 503))) ?s"
  have s: "rc_state ?s = Rc_kOpen" "\<not> disconnect_requested ?s" "rc_ws_config ?s = example_config"
    "reconnect_config ?s = default_reconnect_config" "rc_out ?s = [Rc_OnConnected]" "rc_delays ?s = []"
    using example_opens
    by (auto simp: example_supervisor_def new_reconnect_def simp del: rc_step.simps fold_simps)
  have dial: "dial_ok example_world example_config"
    by (simp add: dial_ok_def example_world_def BuildUrl_def example_config_def)
  have start: "?s = fold (rc_step example_world) [Rc_Connect, Rc_Net Ev_OnConnectionEstablished]
      (new_reconnect example_config default_reconnect_config)"
    by (simp only: example_supervisor_def)
  have "redialing ?s 2 10 ?t"
    by (rule redial_schedule [OF start])
      (simp_all only: s dial example_world_exact,
       simp_all add: default_reconnect_config_def example_world_exact)
  then show ?thesis
    using s by (simp add: redialing_def backoff_at_def default_reconnect_config_def upt_rec Let_def
        del: rc_step.simps fold_simps)
qed

text \<open>
  A consumer's \<open>Disconnect\<close> on an open channel is final: once the network reports the
  channel gone, cleanly or not, the supervisor is closed, the consumer has heard exactly one
  \<open>OnClosed\<close>, and no later event makes it dial or call the consumer again.
\<close>

theorem disconnect_open_is_final:
  assumes "s = fold (rc_step w) es (new_reconnect cfg rcfg)" and "rc_state s = Rc_kOpen"
    and "t = fold (rc_step w) [Rc_Disconnect, Rc_Net (Ev_OnDropChannel clean code r)] s"
  shows "rc_state t = Rc_kClosed \<and> rc_out t = rc_out s @ [Rc_OnClosed code r]
    \<and> rc_out (fold (rc_step w) es' t) = rc_out t
    \<and> backoff_timer (fold (rc_step w) es' t) = None"
proof -
  have "rc_invar s" unfolding assms(1) by (rule rc_machine.invar_reached) blast
  with assms(2) obtain c where c: "inner s = Some c" "ws_invar c"
    "obs_phase_of (ws_out c) = Ph_Live" and "backoff_timer s = None"
    by (auto simp: rc_invar_def linked_def split: option.splits obs_phase.splits)
  then have "ws_state c = Ws_kOpen \<or> ws_state c = Ws_kClosing"
    by (auto simp: ws_invar_def split: WsState.splits)
  then have t: "rc_state t = Rc_kClosed" "rc_out t = rc_out s @ [Rc_OnClosed code r]" "rc_finished t"
    using c(1,2) assms(2) \<open>backoff_timer s = None\<close>
    by (auto simp: assms(3) rc_Disconnect_def is_connected_def is_closing_def with_inner_def
        Disconnect_def OnDropChannel_def drop_channel_def call_def rc_OnClosed_def notify_def
        rc_finished_def ws_invar_def Let_def)
  then show ?thesis
    using rc_done.absorbed_run [of t "rc_out t" w es'] by (auto simp: rc_finished_def)
qed

theorem disconnect_open_is_final_witness:
  "let t = fold (rc_step example_world) [Rc_Connect, Rc_Net Ev_OnConnectionEstablished,
             Rc_Disconnect, Rc_Net (Ev_OnDropChannel True 1000 [])] example_supervisor
   in rc_state t = Rc_kClosed \<and> rc_out t = [Rc_OnConnected, Rc_OnClosed 1000 []]
      \<and> rc_out (fold (rc_step example_world) [Rc_Connect, Rc_BackoffFired] t) = rc_out t"
proof -
  let ?s = "fold (rc_step example_world) [Rc_Connect, Rc_Net Ev_OnConnectionEstablished]
             example_supervisor"
  have s: "rc_state ?s = Rc_kOpen" "rc_out ?s = [Rc_OnConnected]"
    using example_opens
    by (auto simp: example_supervisor_def new_reconnect_def simp del: rc_step.simps fold_simps)
  have "fold (rc_step example_world) [Rc_Connect, Rc_Net Ev_OnConnectionEstablished,
             Rc_Disconnect, Rc_Net (Ev_OnDropChannel True 1000 [])] example_supervisor
      = fold (rc_step example_world) [Rc_Disconnect, Rc_Net (Ev_OnDropChannel True 1000 [])] ?s"
    by (simp del: rc_step.simps)
  then show ?thesis
    using disconnect_open_is_final [where es' = "[Rc_Connect, Rc_BackoffFired]" and
        w = example_world and cfg = example_config and rcfg = default_reconnect_config,
        OF refl _ refl] s
    unfolding example_supervisor_def by (metis append_Cons append_Nil)
qed

text \<open>
  C38. A \<open>Disconnect\<close> while the first dial is in flight is not final: the consumer is told
  \<open>OnClosed\<close>, but the dial is not aborted, and when the handshake completes the supervisor
  opens after all and tells the consumer \<open>OnConnected\<close>; when it fails, the supervisor
  schedules a redial.
\<close>

theorem disconnect_while_dialing_reopens:
  assumes "rc_state s = Rc_kConnecting" and "inner s = Some c" and "ws_state c = Ws_kConnecting"
    and "t = rc_step w Rc_Disconnect s"
  shows "rc_state t = Rc_kClosed
    \<and> rc_state (rc_step w (Rc_Net Ev_OnConnectionEstablished) t) = Rc_kOpen
    \<and> rc_out (rc_step w (Rc_Net Ev_OnConnectionEstablished) t)
      = rc_out s @ [Rc_OnClosed 1000 ''wrapper-disconnect-noop'', Rc_OnConnected]
    \<and> (attempts_made s < max_attempts (reconnect_config s) \<longrightarrow>
         rc_state (rc_step w (Rc_Net (Ev_OnFailure msg ne resp)) t) = Rc_kBackingOff)"
  using assms
  by (auto simp: rc_Disconnect_def is_connected_def is_closing_def with_inner_def notify_def
      OnConnectionEstablished_def call_def rc_OnConnected_def ArmIdleTimer_def OnFailure_def
      FailWithError_def drop_channel_def rc_OnError_def HandleChannelDead_def kCloseCodeNormal_def
      Let_def)

theorem disconnect_while_dialing_reopens_witness:
  "rc_state (fold (rc_step example_world)
     [Rc_Connect, Rc_Disconnect, Rc_Net Ev_OnConnectionEstablished] example_supervisor) = Rc_kOpen"
proof -
  let ?s = "rc_step example_world Rc_Connect example_supervisor"
  obtain c where "rc_state ?s = Rc_kConnecting" "inner ?s = Some c" "ws_state c = Ws_kConnecting"
    by (simp add: example_dialing call_def del: rc_step.simps)
  from disconnect_while_dialing_reopens [OF this refl, of example_world]
  show ?thesis by (simp del: rc_step.simps)
qed

text \<open>
  C23. The supervisor is a faithful transport: for any sequence of sends, each with its own
  outcome of the pipe write and with the channel possibly dying on the way, the frames on
  the wire are in order exactly the accepted envelopes, and the peer decodes each to that
  envelope with the browser as its sender; a refused send leaves no trace on the wire.
\<close>

theorem supervisor_wire_log:
  assumes "\<And>v. reads_back wr rd v" and "list_all (sdp_type_agrees \<circ> snd) es"
    and "send_all (rc_Send mul wr) es s = (rs, s')"
  shows "map (Decode rd) (drop (length (rc_wire s)) (rc_wire s'))
      = map (\<lambda>e. Some (normalise (stamp e))) (accepted rs es)
    \<and> (rc_state s \<noteq> Rc_kOpen \<longrightarrow> accepted rs es = [])"
proof
  show "map (Decode rd) (drop (length (rc_wire s)) (rc_wire s'))
      = map (\<lambda>e. Some (normalise (stamp e))) (accepted rs es)"
    using rc_transport.peer_reads_accepted [OF assms(1,2), where mul = mul and s = s] assms(3) by simp
  show "rc_state s \<noteq> Rc_kOpen \<longrightarrow> accepted rs es = []"
    using assms(3)
  proof (induction es arbitrary: rs)
    case (Cons x es)
    then show ?case
      by (cases x) (auto simp: rc_transport.not_ready split: prod.splits)
  qed simp
qed

theorem supervisor_wire_log_witness:
  "map (Decode example_read_browser)
     (rc_wire (snd (rc_Send (rw_mul example_world) example_write True example_bye
        (example_supervisor\<lparr>rc_state := Rc_kOpen, inner := Some example_open\<rparr>))))
   = [Some (normalise (stamp example_bye))]"
proof -
  let ?s = "example_supervisor\<lparr>rc_state := Rc_kOpen, inner := Some example_open\<rparr>"
  let ?s1 = "?s\<lparr>inner := Some (call (Net_WriteData ''cd'') (call (Net_SendMessage (length ''cd''))
    example_open)), rc_wire := [''cd'']\<rparr>"
  have agrees: "list_all (sdp_type_agrees \<circ> snd) [(True, example_bye)]"
    by (simp add: sdp_type_agrees_def example_bye_def)
  have reads: "reads_back example_write example_read_browser v" for v
    by (simp add: reads_back_def example_write_def example_read_browser_def)
  have sent: "rc_Send (rw_mul example_world) example_write True example_bye ?s = (True, ?s1)"
    by (simp add: rc_Send_def with_inner_def Send_example)
      (simp add: call_def example_supervisor_def new_reconnect_def)
  then have "send_all (rc_Send (rw_mul example_world) example_write) [(True, example_bye)] ?s
      = ([True], ?s1)"
    by simp
  from supervisor_wire_log [OF reads agrees this] show ?thesis
    unfolding sent by (simp add: example_supervisor_def new_reconnect_def)
qed

end
