(* ===== verification/Cb_Offerer_Driver.thy ===== *)
theory Cb_Offerer_Driver
  imports Cb_Transport
begin

text \<open>
  The offerer driver, \<^verbatim>\<open>capture/signaling/cb_offerer_driver.{h,cc}\<close>: the offer/answer dance, the
  ICE queues, renegotiation, teardown and re-arming. libwebrtc is outside: whether it parses
  a description or a candidate is the parameter \<open>rtc\<close>, its callbacks are events, and the
  calls on the peer connection are recorded, with those on the transport and on the
  observer, in \<open>of_out\<close> in the order they are made. A result of the transport's \<open>Send\<close>
  is the parameter \<open>tx\<close> of a handler.
\<close>

section \<open>State\<close>

datatype OffererState =
    Of_kIdle | Of_kCreatingPc | Of_kCreatingOffer | Of_kSettingLocal | Of_kAwaitingAnswer
  | Of_kSettingRemote | Of_kIceInFlight | Of_kClosed | Of_kFailed

text \<open>The handlers compare states by their position in the enumeration.\<close>

fun state_rank :: "OffererState \<Rightarrow> nat" where
  "state_rank Of_kIdle = 0"
| "state_rank Of_kCreatingPc = 1"
| "state_rank Of_kCreatingOffer = 2"
| "state_rank Of_kSettingLocal = 3"
| "state_rank Of_kAwaitingAnswer = 4"
| "state_rank Of_kSettingRemote = 5"
| "state_rank Of_kIceInFlight = 6"
| "state_rank Of_kClosed = 7"
| "state_rank Of_kFailed = 8"

lemma state_rank_inj: "state_rank a = state_rank b \<Longrightarrow> a = b"
  by (cases a; cases b) simp_all

instantiation OffererState :: linorder
begin

definition less_eq_OffererState :: "OffererState \<Rightarrow> OffererState \<Rightarrow> bool" where
  "less_eq_OffererState a b \<longleftrightarrow> state_rank a \<le> state_rank b"

definition less_OffererState :: "OffererState \<Rightarrow> OffererState \<Rightarrow> bool" where
  "less_OffererState a b \<longleftrightarrow> state_rank a < state_rank b"

instance
  by standard (auto simp: less_eq_OffererState_def less_OffererState_def intro: state_rank_inj)

end

text \<open>
  A session description is named by the type and the text it was parsed from, a candidate
  of libwebrtc by its fields and by what \<^verbatim>\<open>ToString\<close> gives.
\<close>

record SessionDesc =
  desc_type :: string
  desc_sdp :: string

record IceCandidateInterface =
  cand_mid :: string
  cand_mline :: int
  cand_string :: "string option"

record rtc_api =
  rtc_type_known :: "string \<Rightarrow> bool"
  rtc_parses :: "SessionDesc \<Rightarrow> bool"
  rtc_to_string :: "SessionDesc \<Rightarrow> string"
  rtc_ice_parses :: "string \<Rightarrow> int \<Rightarrow> string \<Rightarrow> bool"

text \<open>
  Peer connections are numbered; a call that libwebrtc answers by an observer adapter
  carries the generation of the weak pointer the adapter holds.
\<close>

datatype of_call =
    Tx Envelope bool
  | Ob_IceConnectionStateChanged nat
  | Ob_RenegotiationStarted string
  | Ob_RenegotiationCompleted
  | Ob_NewViewerNeedsOffer
  | Ob_Closed string
  | Ob_Failed string
  | Pc_CreateOffer nat nat
  | Pc_SetLocalDescription nat SessionDesc nat
  | Pc_SetRemoteDescription nat SessionDesc nat
  | Pc_AddIceCandidate nat "IceCandidatePayload option"
  | Pc_Close nat
  | Pc_Release nat
  | Pc_GetStats nat
  | Pc_NullDereference

record Offerer =
  of_state :: OffererState
  of_pc :: "nat option"
  next_pc :: nat
  weak_gen :: nat
  has_observer :: bool
  pending_remote_ice :: "IceCandidatePayload list"
  pending_early_answer_sdp :: "string option"
  initial_renegotiation_consumed :: bool
  pending_renegotiation :: bool
  teardown_emitted :: bool
  was_in_ice_flight_once :: bool
  current_offer_answered :: bool
  ws_connected :: bool
  pending_local_offer :: "SessionDesc option"
  of_out :: "of_call list"

definition new_offerer :: "bool \<Rightarrow> Offerer" where
  "new_offerer obs =
     \<lparr>of_state = Of_kIdle, of_pc = None, next_pc = 0, weak_gen = 0, has_observer = obs,
      pending_remote_ice = [], pending_early_answer_sdp = None,
      initial_renegotiation_consumed = False, pending_renegotiation = False,
      teardown_emitted = False, was_in_ice_flight_once = False, current_offer_answered = False,
      ws_connected = False, pending_local_offer = None, of_out = []\<rparr>"

definition emit :: "of_call \<Rightarrow> Offerer \<Rightarrow> Offerer" where
  "emit c s = s\<lparr>of_out := of_out s @ [c]\<rparr>"

definition observe :: "of_call \<Rightarrow> Offerer \<Rightarrow> Offerer" where
  "observe c s = (if has_observer s then emit c s else s)"

text \<open>A task posted to the signaling thread with the peer connection the driver holds.\<close>

definition on_pc :: "(nat \<Rightarrow> of_call) \<Rightarrow> Offerer \<Rightarrow> Offerer" where
  "on_pc c s = (case of_pc s of None \<Rightarrow> emit Pc_NullDereference s | Some p \<Rightarrow> emit (c p) s)"

definition transmit :: "(Envelope \<Rightarrow> bool) \<Rightarrow> Envelope \<Rightarrow> Offerer \<Rightarrow> bool \<times> Offerer" where
  "transmit tx e s = (tx e, emit (Tx e (tx e)) s)"

section \<open>Teardown and failure\<close>

definition ClosePcOnSignalingThread :: "Offerer \<Rightarrow> Offerer" where
  "ClosePcOnSignalingThread s = (case of_pc s of None \<Rightarrow> s | Some p \<Rightarrow> emit (Pc_Close p) s)"

definition FailWithReason :: "string \<Rightarrow> Offerer \<Rightarrow> Offerer" where
  "FailWithReason reason s =
     observe (Ob_Failed reason)
       (ClosePcOnSignalingThread (s\<lparr>of_state := Of_kFailed, pending_remote_ice := []\<rparr>))"

definition bye_envelope :: Envelope where
  "bye_envelope = \<lparr>env_type = kBye, env_from = kBrowser, env_data = Monostate\<rparr>"

definition SendByeEnvelope :: "(Envelope \<Rightarrow> bool) \<Rightarrow> Offerer \<Rightarrow> bool \<times> Offerer" where
  "SendByeEnvelope tx s = transmit tx bye_envelope s"

definition SendSessionUnhealthyEnvelope :: "(Envelope \<Rightarrow> bool) \<Rightarrow> Offerer \<Rightarrow> bool \<times> Offerer" where
  "SendSessionUnhealthyEnvelope tx s =
     transmit tx \<lparr>env_type = kSessionUnhealthy, env_from = kBrowser, env_data = Monostate\<rparr> s"

definition CloseInternal :: "(Envelope \<Rightarrow> bool) \<Rightarrow> string \<Rightarrow> string \<Rightarrow> Offerer \<Rightarrow> Offerer" where
  "CloseInternal tx reason source s =
     (if teardown_emitted s then s
      else if of_state s = Of_kFailed then s\<lparr>teardown_emitted := True\<rparr>
      else
        let emit_bye = source \<noteq> ''ws'' \<and> source \<noteq> ''remote'' \<and> Of_kCreatingOffer \<le> of_state s
                       \<and> of_state s \<le> Of_kIceInFlight;
            s1 = (if emit_bye then snd (SendByeEnvelope tx s) else s)
        in observe (Ob_Closed reason)
             (ClosePcOnSignalingThread
               (s1\<lparr>of_state := Of_kClosed, teardown_emitted := True, pending_remote_ice := []\<rparr>)))"

section \<open>Public API\<close>

definition Rearm :: "(Envelope \<Rightarrow> bool) \<Rightarrow> bool \<Rightarrow> Offerer \<Rightarrow> bool \<times> Offerer" where
  "Rearm tx announce_bye s =
     (if of_state s = Of_kIdle then (False, s)
      else if of_state s = Of_kFailed then (False, s)
      else
        let s1 = (if of_state s \<noteq> Of_kClosed
                  then CloseInternal tx ''rearm'' (if announce_bye then ''rearm'' else ''remote'') s
                  else s);
            s2 = (case of_pc s1 of None \<Rightarrow> s1 | Some p \<Rightarrow> emit (Pc_Release p) s1)
        in (True, s2\<lparr>of_pc := None, weak_gen := weak_gen s2 + 1, of_state := Of_kIdle,
              teardown_emitted := False, initial_renegotiation_consumed := False,
              pending_renegotiation := False, pending_remote_ice := [],
              pending_local_offer := None, pending_early_answer_sdp := None,
              current_offer_answered := False\<rparr>))"

text \<open>What \<^verbatim>\<open>CreatePeerConnectionOrError\<close> returns.\<close>

datatype pc_result = Pc_Error string | Pc_Null | Pc_Created

definition Start :: "pc_result \<Rightarrow> Offerer \<Rightarrow> Offerer" where
  "Start r s =
     (if of_state s \<noteq> Of_kIdle then s
      else let s1 = s\<lparr>of_state := Of_kCreatingPc\<rparr> in
        case r of
          Pc_Error m \<Rightarrow> FailWithReason (''CreatePeerConnectionOrError failed: '' @ m) s1
        | Pc_Null \<Rightarrow>
            FailWithReason ''CreatePeerConnectionOrError returned ok() but a null PC''
              (s1\<lparr>of_pc := None\<rparr>)
        | Pc_Created \<Rightarrow> s1\<lparr>of_pc := Some (next_pc s1), next_pc := next_pc s1 + 1\<rparr>)"

definition BeginRenegotiation :: "string \<Rightarrow> Offerer \<Rightarrow> Offerer" where
  "BeginRenegotiation trigger s =
     (if of_state s \<in> {Of_kClosed, Of_kFailed, Of_kIdle, Of_kCreatingPc} then s
      else if of_state s \<noteq> Of_kIceInFlight then s\<lparr>pending_renegotiation := True\<rparr>
      else
        let s1 = observe (Ob_RenegotiationStarted trigger)
                   (s\<lparr>of_state := Of_kCreatingOffer, current_offer_answered := False\<rparr>)
        in on_pc (\<lambda>p. Pc_CreateOffer p (weak_gen s1)) s1)"

definition RequestRenegotiation :: "Offerer \<Rightarrow> Offerer" where
  "RequestRenegotiation s =
     (if of_state s = Of_kClosed \<or> of_state s = Of_kFailed then s
      else BeginRenegotiation ''embedder'' s)"

definition Close :: "(Envelope \<Rightarrow> bool) \<Rightarrow> string \<Rightarrow> Offerer \<Rightarrow> Offerer" where
  "Close tx reason s = CloseInternal tx reason ''embedder'' s"

definition CloseUnhealthy :: "(Envelope \<Rightarrow> bool) \<Rightarrow> string \<Rightarrow> Offerer \<Rightarrow> Offerer" where
  "CloseUnhealthy tx reason s =
     CloseInternal tx reason ''gpu-permanent-death'' (snd (SendSessionUnhealthyEnvelope tx s))"

section \<open>Emitting envelopes\<close>

definition offer_envelope :: "string \<Rightarrow> Envelope" where
  "offer_envelope sd =
     \<lparr>env_type = kOffer, env_from = kBrowser, env_data = Sdp \<lparr>sdp_type = ''offer'', sdp = sd\<rparr>\<rparr>"

definition SendOfferEnvelope ::
  "rtc_api \<Rightarrow> (Envelope \<Rightarrow> bool) \<Rightarrow> SessionDesc \<Rightarrow> Offerer \<Rightarrow> Offerer" where
  "SendOfferEnvelope rtc tx desc s =
     (let (ok, s1) = transmit tx (offer_envelope (rtc_to_string rtc desc)) s in
      if ok then s1 else FailWithReason ''ws Send(offer) failed'' s1)"

definition ice_envelope :: "IceCandidateInterface \<Rightarrow> string \<Rightarrow> Envelope" where
  "ice_envelope c sd =
     \<lparr>env_type = kIce, env_from = kBrowser,
      env_data = IceCandidate
        (default_ice\<lparr>candidate := sd, sdp_mid := Some (cand_mid c),
           sdp_m_line_index := Some (cand_mline c)\<rparr>)\<rparr>"

definition SendIceCandidateEnvelope ::
  "(Envelope \<Rightarrow> bool) \<Rightarrow> IceCandidateInterface \<Rightarrow> Offerer \<Rightarrow> Offerer" where
  "SendIceCandidateEnvelope tx c s =
     (case cand_string c of None \<Rightarrow> s | Some sd \<Rightarrow> snd (transmit tx (ice_envelope c sd) s))"

definition SendIceEndOfCandidates :: "(Envelope \<Rightarrow> bool) \<Rightarrow> Offerer \<Rightarrow> Offerer" where
  "SendIceEndOfCandidates tx s = snd (transmit tx (MakeIceEndOfCandidates kBrowser) s)"

definition EmitOfferAndSetLocal ::
  "rtc_api \<Rightarrow> (Envelope \<Rightarrow> bool) \<Rightarrow> SessionDesc \<Rightarrow> Offerer \<Rightarrow> Offerer" where
  "EmitOfferAndSetLocal rtc tx local s =
     (let s1 = SendOfferEnvelope rtc tx local s in
      if of_state s1 \<noteq> Of_kCreatingOffer then s1
      else on_pc (\<lambda>p. Pc_SetLocalDescription p local (weak_gen s1)) (s1\<lparr>of_state := Of_kSettingLocal\<rparr>))"

definition PollOutboundStats :: "bool \<Rightarrow> Offerer \<Rightarrow> Offerer" where
  "PollOutboundStats has_callback s =
     (case of_pc s of
        None \<Rightarrow> s
      | Some p \<Rightarrow> if \<not> has_callback then s else emit (Pc_GetStats p) s)"

section \<open>Inbound ICE\<close>

definition QueueRemoteIceCandidate :: "Envelope \<Rightarrow> Offerer \<Rightarrow> Offerer" where
  "QueueRemoteIceCandidate env s =
     (case env_data env of
        IceCandidate payload \<Rightarrow> s\<lparr>pending_remote_ice := pending_remote_ice s @ [payload]\<rparr>
      | _ \<Rightarrow> FailWithReason ''`ice` envelope missing candidate payload'' s)"

definition AddRemoteIcePayload :: "rtc_api \<Rightarrow> IceCandidatePayload \<Rightarrow> Offerer \<Rightarrow> Offerer" where
  "AddRemoteIcePayload rtc payload s =
     (if is_end_of_candidates payload then on_pc (\<lambda>p. Pc_AddIceCandidate p None) s
      else
        let mid = (case sdp_mid payload of None \<Rightarrow> [] | Some m \<Rightarrow> m);
            idx = (case sdp_m_line_index payload of None \<Rightarrow> 0 | Some i \<Rightarrow> i)
        in if \<not> rtc_ice_parses rtc mid idx (candidate payload) then s
           else on_pc (\<lambda>p. Pc_AddIceCandidate p (Some payload)) s)"

fun flush_ice :: "rtc_api \<Rightarrow> IceCandidatePayload list \<Rightarrow> Offerer \<Rightarrow> Offerer" where
  "flush_ice rtc [] s = s"
| "flush_ice rtc (payload # rest) s =
     (let s1 = AddRemoteIcePayload rtc payload s in
      if of_state s1 = Of_kFailed \<or> of_state s1 = Of_kClosed then s1 else flush_ice rtc rest s1)"

definition FlushPendingRemoteIce :: "rtc_api \<Rightarrow> Offerer \<Rightarrow> Offerer" where
  "FlushPendingRemoteIce rtc s =
     (if pending_remote_ice s = [] then s
      else flush_ice rtc (pending_remote_ice s) (s\<lparr>pending_remote_ice := []\<rparr>))"

section \<open>Inbound envelopes\<close>

definition HandleOfferEnvelope :: "Offerer \<Rightarrow> Offerer" where
  "HandleOfferEnvelope s =
     FailWithReason ''unexpected inbound `offer` envelope (v1 contract: browser is sole offerer)'' s"

definition HandleAnswerEnvelope :: "rtc_api \<Rightarrow> Envelope \<Rightarrow> Offerer \<Rightarrow> Offerer" where
  "HandleAnswerEnvelope rtc env s =
     (if of_state s = Of_kSettingRemote \<or> of_state s = Of_kIceInFlight then s
      else if of_state s = Of_kCreatingOffer \<or> of_state s = Of_kSettingLocal then
        (case env_data env of
           Sdp early \<Rightarrow>
             if sdp early = [] then FailWithReason ''`answer` envelope missing SDP payload'' s
             else s\<lparr>pending_early_answer_sdp := Some (sdp early)\<rparr>
         | _ \<Rightarrow> FailWithReason ''`answer` envelope missing SDP payload'' s)
      else if of_state s \<noteq> Of_kAwaitingAnswer then
        FailWithReason ''`answer` envelope in unexpected state'' s
      else
        (case env_data env of
           Sdp payload \<Rightarrow>
             if sdp payload = [] then FailWithReason ''`answer` envelope missing SDP payload'' s
             else
               let remote = \<lparr>desc_type = ''answer'', desc_sdp = sdp payload\<rparr> in
               if \<not> rtc_parses rtc remote then
                 FailWithReason
                   ''CreateSessionDescription failed for remote answer (SDP parse error)'' s
               else on_pc (\<lambda>p. Pc_SetRemoteDescription p remote (weak_gen s))
                      (s\<lparr>of_state := Of_kSettingRemote\<rparr>)
         | _ \<Rightarrow> FailWithReason ''`answer` envelope missing SDP payload'' s))"

definition HandleIceEnvelope :: "rtc_api \<Rightarrow> Envelope \<Rightarrow> Offerer \<Rightarrow> Offerer" where
  "HandleIceEnvelope rtc env s =
     (if of_state s \<noteq> Of_kIceInFlight then
        let can_queue_mid_dance =
              (Of_kAwaitingAnswer \<le> of_state s \<and> of_state s \<le> Of_kSettingRemote)
              \<or> (was_in_ice_flight_once s \<and> Of_kCreatingOffer \<le> of_state s
                 \<and> of_state s \<le> Of_kSettingRemote)
        in if can_queue_mid_dance then QueueRemoteIceCandidate env s else s
      else
        (case env_data env of
           IceCandidate payload \<Rightarrow> AddRemoteIcePayload rtc payload s
         | _ \<Rightarrow> FailWithReason ''`ice` envelope missing candidate payload'' s))"

definition HandleByeEnvelope :: "(Envelope \<Rightarrow> bool) \<Rightarrow> Offerer \<Rightarrow> Offerer" where
  "HandleByeEnvelope tx s =
     (if of_state s = Of_kIdle \<or> of_state s = Of_kCreatingPc then s
      else CloseInternal tx ''remote bye'' ''remote'' s)"

definition HandleRequestRenegotiateEnvelope :: "Offerer \<Rightarrow> Offerer" where
  "HandleRequestRenegotiateEnvelope s =
     (if of_state s = Of_kAwaitingAnswer then observe Ob_NewViewerNeedsOffer s
      else if of_state s = Of_kIceInFlight then
        (if \<not> current_offer_answered s then observe Ob_NewViewerNeedsOffer s
         else BeginRenegotiation ''remote'' s)
      else if of_state s \<in> {Of_kClosed, Of_kFailed, Of_kIdle} then s
      else s\<lparr>pending_renegotiation := True\<rparr>)"

definition HandleProbeResultEnvelope :: "Offerer \<Rightarrow> Offerer" where
  "HandleProbeResultEnvelope s = s"

definition of_OnEnvelope :: "rtc_api \<Rightarrow> (Envelope \<Rightarrow> bool) \<Rightarrow> Envelope \<Rightarrow> Offerer \<Rightarrow> Offerer" where
  "of_OnEnvelope rtc tx env s =
     (if of_state s = Of_kFailed \<or> of_state s = Of_kClosed then s
      else case env_type env of
        kOffer \<Rightarrow> HandleOfferEnvelope s
      | kAnswer \<Rightarrow> HandleAnswerEnvelope rtc env s
      | kIce \<Rightarrow> HandleIceEnvelope rtc env s
      | kBye \<Rightarrow> HandleByeEnvelope tx s
      | kRequestRenegotiate \<Rightarrow> HandleRequestRenegotiateEnvelope s
      | kProbeResult \<Rightarrow> HandleProbeResultEnvelope s
      | kPeerAbsent \<Rightarrow> s
      | kSessionUnhealthy \<Rightarrow> s)"

definition of_OnConnected :: "rtc_api \<Rightarrow> (Envelope \<Rightarrow> bool) \<Rightarrow> Offerer \<Rightarrow> Offerer" where
  "of_OnConnected rtc tx s =
     (let s1 = s\<lparr>ws_connected := True\<rparr> in
      case pending_local_offer s1 of
        None \<Rightarrow> s1
      | Some local \<Rightarrow>
          if of_state s1 = Of_kCreatingOffer
          then EmitOfferAndSetLocal rtc tx local (s1\<lparr>pending_local_offer := None\<rparr>)
          else s1\<lparr>pending_local_offer := None\<rparr>)"

definition of_OnClosed :: "(Envelope \<Rightarrow> bool) \<Rightarrow> int \<Rightarrow> string \<Rightarrow> Offerer \<Rightarrow> Offerer" where
  "of_OnClosed tx code reason s =
     CloseInternal tx (''ws closed code='' @ NumberToString code @ '' reason='' @ reason) ''ws'' s"

definition of_OnError :: "string \<Rightarrow> Offerer \<Rightarrow> Offerer" where
  "of_OnError reason s = FailWithReason (''ws error: '' @ reason) s"

section \<open>Callbacks of libwebrtc, on the UI thread\<close>

definition HopHandleIceCandidate ::
  "(Envelope \<Rightarrow> bool) \<Rightarrow> IceCandidateInterface \<Rightarrow> Offerer \<Rightarrow> Offerer" where
  "HopHandleIceCandidate tx c s =
     (let pre_initial = \<not> was_in_ice_flight_once s \<and> of_state s < Of_kSettingLocal;
          terminal = of_state s = Of_kClosed \<or> of_state s = Of_kFailed
      in if pre_initial \<or> terminal then s else SendIceCandidateEnvelope tx c s)"

definition HopHandleIceGatheringChange :: "(Envelope \<Rightarrow> bool) \<Rightarrow> bool \<Rightarrow> Offerer \<Rightarrow> Offerer" where
  "HopHandleIceGatheringChange tx gathered s = (if gathered then SendIceEndOfCandidates tx s else s)"

definition HopHandleIceConnectionChange :: "nat \<Rightarrow> Offerer \<Rightarrow> Offerer" where
  "HopHandleIceConnectionChange new_state s = observe (Ob_IceConnectionStateChanged new_state) s"

definition HopHandleRenegotiationNeeded :: "Offerer \<Rightarrow> Offerer" where
  "HopHandleRenegotiationNeeded s =
     (if \<not> initial_renegotiation_consumed s then
        let s1 = s\<lparr>initial_renegotiation_consumed := True\<rparr> in
        if of_state s1 \<noteq> Of_kCreatingPc then
          FailWithReason ''OnRenegotiationNeeded in unexpected state'' s1
        else on_pc (\<lambda>p. Pc_CreateOffer p (weak_gen s1))
               (s1\<lparr>of_state := Of_kCreatingOffer, current_offer_answered := False\<rparr>)
      else BeginRenegotiation ''libwebrtc'' s)"

definition HopHandleCreateOfferSuccess ::
  "rtc_api \<Rightarrow> (Envelope \<Rightarrow> bool) \<Rightarrow> string \<Rightarrow> string \<Rightarrow> Offerer \<Rightarrow> Offerer" where
  "HopHandleCreateOfferSuccess rtc tx ty sd s =
     (if of_state s \<noteq> Of_kCreatingOffer then
        FailWithReason ''CreateOffer success in unexpected state'' s
      else if \<not> rtc_type_known rtc ty then
        FailWithReason
          (''CreateSessionDescription: unparseable sdp_type '' @ [CHR 0x27] @ ty @ [CHR 0x27] @ '' for local offer'') s
      else
        let local = \<lparr>desc_type = ty, desc_sdp = sd\<rparr> in
        if \<not> rtc_parses rtc local then
          FailWithReason
            ''CreateSessionDescription failed for local offer (SDP parse error or unsupported type)'' s
        else if \<not> ws_connected s then s\<lparr>pending_local_offer := Some local\<rparr>
        else EmitOfferAndSetLocal rtc tx local s)"

definition HopHandleCreateOfferFailure :: "string \<Rightarrow> Offerer \<Rightarrow> Offerer" where
  "HopHandleCreateOfferFailure reason s = FailWithReason (''CreateOffer failed: '' @ reason) s"

definition HopHandleSetLocalDescriptionComplete ::
  "rtc_api \<Rightarrow> bool \<Rightarrow> string \<Rightarrow> Offerer \<Rightarrow> Offerer" where
  "HopHandleSetLocalDescriptionComplete rtc ok reason s =
     (if \<not> ok then FailWithReason (''SetLocalDescription failed: '' @ reason) s
      else if of_state s \<noteq> Of_kSettingLocal then
        FailWithReason ''SetLocalDescription complete in unexpected state'' s
      else
        let s1 = s\<lparr>of_state := Of_kAwaitingAnswer\<rparr> in
        case pending_early_answer_sdp s1 of
          None \<Rightarrow> s1
        | Some sd \<Rightarrow>
            HandleAnswerEnvelope rtc
              \<lparr>env_type = kAnswer, env_from = kClient,
               env_data = Sdp \<lparr>sdp_type = ''answer'', sdp = sd\<rparr>\<rparr>
              (s1\<lparr>pending_early_answer_sdp := None\<rparr>))"

definition HopHandleSetRemoteDescriptionComplete ::
  "rtc_api \<Rightarrow> bool \<Rightarrow> string \<Rightarrow> Offerer \<Rightarrow> Offerer" where
  "HopHandleSetRemoteDescriptionComplete rtc ok reason s =
     (if \<not> ok then FailWithReason (''SetRemoteDescription failed: '' @ reason) s
      else if of_state s \<noteq> Of_kSettingRemote then
        FailWithReason ''SetRemoteDescription complete in unexpected state'' s
      else
        let was_renegotiation = was_in_ice_flight_once s;
            s1 = s\<lparr>of_state := Of_kIceInFlight, was_in_ice_flight_once := True,
                   current_offer_answered := True\<rparr>;
            s2 = FlushPendingRemoteIce rtc s1;
            s3 = (if was_renegotiation then observe Ob_RenegotiationCompleted s2 else s2)
        in if pending_renegotiation s3
           then BeginRenegotiation ''coalesced-pending'' (s3\<lparr>pending_renegotiation := False\<rparr>)
           else s3)"

section \<open>The driver as a machine\<close>

text \<open>
  A task posted from the signaling thread carries the generation of its weak pointer: the
  one the SDP adapter was made with, or, for the callbacks of the peer connection, the one
  current when the callback ran. It is dropped when the generation is no longer current.
\<close>

datatype hop =
    Hop_IceCandidate IceCandidateInterface
  | Hop_IceGatheringChange bool
  | Hop_IceConnectionChange nat
  | Hop_RenegotiationNeeded
  | Hop_CreateOfferSuccess string string
  | Hop_CreateOfferFailure string
  | Hop_SetLocalDescriptionComplete bool string
  | Hop_SetRemoteDescriptionComplete bool string

fun run_hop :: "rtc_api \<Rightarrow> (Envelope \<Rightarrow> bool) \<Rightarrow> hop \<Rightarrow> Offerer \<Rightarrow> Offerer" where
  "run_hop rtc tx (Hop_IceCandidate c) s = HopHandleIceCandidate tx c s"
| "run_hop rtc tx (Hop_IceGatheringChange b) s = HopHandleIceGatheringChange tx b s"
| "run_hop rtc tx (Hop_IceConnectionChange n) s = HopHandleIceConnectionChange n s"
| "run_hop rtc tx Hop_RenegotiationNeeded s = HopHandleRenegotiationNeeded s"
| "run_hop rtc tx (Hop_CreateOfferSuccess ty sd) s = HopHandleCreateOfferSuccess rtc tx ty sd s"
| "run_hop rtc tx (Hop_CreateOfferFailure r) s = HopHandleCreateOfferFailure r s"
| "run_hop rtc tx (Hop_SetLocalDescriptionComplete ok r) s =
     HopHandleSetLocalDescriptionComplete rtc ok r s"
| "run_hop rtc tx (Hop_SetRemoteDescriptionComplete ok r) s =
     HopHandleSetRemoteDescriptionComplete rtc ok r s"

datatype of_event =
    Of_Start pc_result
  | Of_Rearm bool
  | Of_RequestRenegotiation
  | Of_Close string
  | Of_CloseUnhealthy string
  | Of_PollStats bool
  | Of_Connected
  | Of_Envelope Envelope
  | Of_WsClosed int string
  | Of_WsError string
  | Of_Posted nat hop

fun of_step :: "rtc_api \<Rightarrow> (Envelope \<Rightarrow> bool) \<times> of_event \<Rightarrow> Offerer \<Rightarrow> Offerer" where
  "of_step rtc (tx, Of_Start r) s = Start r s"
| "of_step rtc (tx, Of_Rearm b) s = snd (Rearm tx b s)"
| "of_step rtc (tx, Of_RequestRenegotiation) s = RequestRenegotiation s"
| "of_step rtc (tx, Of_Close r) s = Close tx r s"
| "of_step rtc (tx, Of_CloseUnhealthy r) s = CloseUnhealthy tx r s"
| "of_step rtc (tx, Of_PollStats b) s = PollOutboundStats b s"
| "of_step rtc (tx, Of_Connected) s = of_OnConnected rtc tx s"
| "of_step rtc (tx, Of_Envelope e) s = of_OnEnvelope rtc tx e s"
| "of_step rtc (tx, Of_WsClosed c r) s = of_OnClosed tx c r s"
| "of_step rtc (tx, Of_WsError r) s = of_OnError r s"
| "of_step rtc (tx, Of_Posted g h) s = (if g = weak_gen s then run_hop rtc tx h s else s)"

section \<open>Invariant\<close>

abbreviation live :: "OffererState \<Rightarrow> bool" where
  "live st \<equiv> st \<in> {Of_kCreatingPc, Of_kCreatingOffer, Of_kSettingLocal, Of_kAwaitingAnswer,
     Of_kSettingRemote, Of_kIceInFlight}"

fun call_gen :: "of_call \<Rightarrow> nat option" where
  "call_gen (Pc_CreateOffer p g) = Some g"
| "call_gen (Pc_SetLocalDescription p d g) = Some g"
| "call_gen (Pc_SetRemoteDescription p d g) = Some g"
| "call_gen _ = None"

definition gens_le :: "nat \<Rightarrow> of_call list \<Rightarrow> bool" where
  "gens_le n cs \<longleftrightarrow> list_all (\<lambda>c. case call_gen c of None \<Rightarrow> True | Some g \<Rightarrow> g \<le> n) cs"

lemma gens_le_simps [simp]:
  "gens_le n []" "gens_le n (xs @ ys) = (gens_le n xs \<and> gens_le n ys)"
  "gens_le n (c # cs) = ((case call_gen c of None \<Rightarrow> True | Some g \<Rightarrow> g \<le> n) \<and> gens_le n cs)"
  by (simp_all add: gens_le_def)

lemma gens_le_Suc: "gens_le n cs \<Longrightarrow> gens_le (Suc n) cs"
  by (auto simp: gens_le_def list_all_iff split: option.splits)

definition offer_sent :: "of_call list \<Rightarrow> bool" where
  "offer_sent cs \<longleftrightarrow> (\<exists>sd. Tx (offer_envelope sd) True \<in> set cs)"

text \<open>Every candidate on the wire comes after an offer that was accepted by the transport.\<close>

definition is_candidate :: "of_call \<Rightarrow> bool" where
  "is_candidate c =
     (case c of
        Tx e r \<Rightarrow> (case env_data e of IceCandidate p \<Rightarrow> \<not> is_end_of_candidates p | _ \<Rightarrow> False)
      | _ \<Rightarrow> False)"

fun ice_after_offer :: "bool \<Rightarrow> of_call list \<Rightarrow> bool" where
  "ice_after_offer sent [] = True"
| "ice_after_offer sent (c # cs) =
     ((is_candidate c \<longrightarrow> sent) \<and> ice_after_offer (sent \<or> offer_sent [c]) cs)"

lemma offer_sent_simps [simp]:
  "offer_sent [] = False" "offer_sent (xs @ ys) = (offer_sent xs \<or> offer_sent ys)"
  by (auto simp: offer_sent_def)

lemma offer_sent_Cons2 [simp]: "offer_sent (x # y # xs) = (offer_sent [x] \<or> offer_sent (y # xs))"
  by (auto simp: offer_sent_def)

lemma offer_sent_Cons: "offer_sent (x # xs) = (offer_sent [x] \<or> offer_sent xs)"
  by (auto simp: offer_sent_def)

lemma ice_after_offer_append [simp]:
  "ice_after_offer sent (xs @ ys) =
     (ice_after_offer sent xs \<and> ice_after_offer (sent \<or> offer_sent xs) ys)"
proof (induction xs arbitrary: sent)
  case (Cons x xs)
  then show ?case using offer_sent_Cons [of x xs] by auto
qed simp

text \<open>An envelope the codec accepts, with the sender it must have.\<close>

definition sendable :: "of_call \<Rightarrow> bool" where
  "sendable c =
     (case c of
        Tx e r \<Rightarrow> env_from e = kBrowser \<and> payload_matches (env_type e) (env_data e) \<and> sdp_type_agrees e
      | _ \<Rightarrow> True)"

definition is_Closed :: "of_call \<Rightarrow> bool" where
  "is_Closed c = (case c of Ob_Closed r \<Rightarrow> True | _ \<Rightarrow> False)"

definition closes :: "Offerer \<Rightarrow> nat" where
  "closes s = length (filter is_Closed (of_out s))"

definition of_invar :: "Offerer \<Rightarrow> bool" where
  "of_invar s \<longleftrightarrow>
     (of_state s = Of_kIceInFlight \<longrightarrow> current_offer_answered s \<and> \<not> pending_renegotiation s)
     \<and> (of_state s = Of_kIdle \<longrightarrow> of_pc s = None \<and> \<not> pending_renegotiation s
          \<and> \<not> initial_renegotiation_consumed s)
     \<and> (live (of_state s) \<longrightarrow> of_pc s \<noteq> None)
     \<and> (of_state s \<in> {Of_kClosed, Of_kFailed} \<or> \<not> teardown_emitted s)
     \<and> (of_state s = Of_kClosed \<longrightarrow> teardown_emitted s)
     \<and> (pending_early_answer_sdp s \<noteq> None \<longrightarrow>
          of_state s \<in> {Of_kCreatingOffer, Of_kSettingLocal, Of_kClosed, Of_kFailed})
     \<and> (pending_local_offer s \<noteq> None \<longrightarrow>
          \<not> ws_connected s \<and> of_state s \<in> {Of_kCreatingOffer, Of_kClosed, Of_kFailed})
     \<and> (pending_remote_ice s \<noteq> [] \<longrightarrow>
          of_state s \<in> {Of_kAwaitingAnswer, Of_kSettingRemote}
          \<or> was_in_ice_flight_once s \<and> of_state s \<in> {Of_kCreatingOffer, Of_kSettingLocal})
     \<and> Pc_NullDereference \<notin> set (of_out s)
     \<and> gens_le (weak_gen s) (of_out s)
     \<and> (was_in_ice_flight_once s
          \<or> of_state s \<in> {Of_kSettingLocal, Of_kAwaitingAnswer, Of_kSettingRemote, Of_kIceInFlight}
        \<longrightarrow> offer_sent (of_out s))
     \<and> ice_after_offer False (of_out s) \<and> list_all sendable (of_out s)
     \<and> closes s \<le> weak_gen s + (if teardown_emitted s then 1 else 0)"

text \<open>Logging a call changes the log only.\<close>

lemma emit_fields [simp]:
  "of_state (emit c s) = of_state s"
  "of_pc (emit c s) = of_pc s"
  "next_pc (emit c s) = next_pc s"
  "weak_gen (emit c s) = weak_gen s"
  "has_observer (emit c s) = has_observer s"
  "pending_remote_ice (emit c s) = pending_remote_ice s"
  "pending_early_answer_sdp (emit c s) = pending_early_answer_sdp s"
  "initial_renegotiation_consumed (emit c s) = initial_renegotiation_consumed s"
  "pending_renegotiation (emit c s) = pending_renegotiation s"
  "teardown_emitted (emit c s) = teardown_emitted s"
  "was_in_ice_flight_once (emit c s) = was_in_ice_flight_once s"
  "current_offer_answered (emit c s) = current_offer_answered s"
  "ws_connected (emit c s) = ws_connected s"
  "pending_local_offer (emit c s) = pending_local_offer s"
  "of_out (emit c s) = of_out s @ [c]"
  by (simp_all add: emit_def)

lemma observe_fields [simp]:
  "of_state (observe c s) = of_state s"
  "of_pc (observe c s) = of_pc s"
  "next_pc (observe c s) = next_pc s"
  "weak_gen (observe c s) = weak_gen s"
  "has_observer (observe c s) = has_observer s"
  "pending_remote_ice (observe c s) = pending_remote_ice s"
  "pending_early_answer_sdp (observe c s) = pending_early_answer_sdp s"
  "initial_renegotiation_consumed (observe c s) = initial_renegotiation_consumed s"
  "pending_renegotiation (observe c s) = pending_renegotiation s"
  "teardown_emitted (observe c s) = teardown_emitted s"
  "was_in_ice_flight_once (observe c s) = was_in_ice_flight_once s"
  "current_offer_answered (observe c s) = current_offer_answered s"
  "ws_connected (observe c s) = ws_connected s"
  "pending_local_offer (observe c s) = pending_local_offer s"
  "of_out (observe c s) = of_out s @ (if has_observer s then [c] else [])"
  by (simp_all add: observe_def)

lemma on_pc_fields [simp]:
  "of_state (on_pc f s) = of_state s"
  "of_pc (on_pc f s) = of_pc s"
  "next_pc (on_pc f s) = next_pc s"
  "weak_gen (on_pc f s) = weak_gen s"
  "has_observer (on_pc f s) = has_observer s"
  "pending_remote_ice (on_pc f s) = pending_remote_ice s"
  "pending_early_answer_sdp (on_pc f s) = pending_early_answer_sdp s"
  "initial_renegotiation_consumed (on_pc f s) = initial_renegotiation_consumed s"
  "pending_renegotiation (on_pc f s) = pending_renegotiation s"
  "teardown_emitted (on_pc f s) = teardown_emitted s"
  "was_in_ice_flight_once (on_pc f s) = was_in_ice_flight_once s"
  "current_offer_answered (on_pc f s) = current_offer_answered s"
  "ws_connected (on_pc f s) = ws_connected s"
  "pending_local_offer (on_pc f s) = pending_local_offer s"
  "of_out (on_pc f s) = of_out s @ [case of_pc s of None \<Rightarrow> Pc_NullDereference | Some p \<Rightarrow> f p]"
  by (simp_all add: on_pc_def split: option.split)

lemma ClosePc_fields [simp]:
  "of_state (ClosePcOnSignalingThread s) = of_state s"
  "of_pc (ClosePcOnSignalingThread s) = of_pc s"
  "next_pc (ClosePcOnSignalingThread s) = next_pc s"
  "weak_gen (ClosePcOnSignalingThread s) = weak_gen s"
  "has_observer (ClosePcOnSignalingThread s) = has_observer s"
  "pending_remote_ice (ClosePcOnSignalingThread s) = pending_remote_ice s"
  "pending_early_answer_sdp (ClosePcOnSignalingThread s) = pending_early_answer_sdp s"
  "initial_renegotiation_consumed (ClosePcOnSignalingThread s) = initial_renegotiation_consumed s"
  "pending_renegotiation (ClosePcOnSignalingThread s) = pending_renegotiation s"
  "teardown_emitted (ClosePcOnSignalingThread s) = teardown_emitted s"
  "was_in_ice_flight_once (ClosePcOnSignalingThread s) = was_in_ice_flight_once s"
  "current_offer_answered (ClosePcOnSignalingThread s) = current_offer_answered s"
  "ws_connected (ClosePcOnSignalingThread s) = ws_connected s"
  "pending_local_offer (ClosePcOnSignalingThread s) = pending_local_offer s"
  "of_out (ClosePcOnSignalingThread s) =
     of_out s @ (case of_pc s of None \<Rightarrow> [] | Some p \<Rightarrow> [Pc_Close p])"
  by (simp_all add: ClosePcOnSignalingThread_def split: option.split)

lemma transmit_simps [simp]:
  "fst (transmit tx e s) = tx e" "snd (transmit tx e s) = emit (Tx e (tx e)) s"
  by (simp_all add: transmit_def)

lemma not_candidate [simp]:
  "\<not> is_candidate (Tx bye_envelope r)"
  "\<not> is_candidate (Tx \<lparr>env_type = ty, env_from = f, env_data = Monostate\<rparr> r)"
  "\<not> is_candidate (Tx (offer_envelope sd) r)"
  "\<not> is_candidate (Tx (MakeIceEndOfCandidates k) r)"
  by (simp_all add: is_candidate_def bye_envelope_def offer_envelope_def MakeIceEndOfCandidates_def)

lemma not_candidate_call [simp]:
  "\<not> is_candidate (Ob_IceConnectionStateChanged n)" "\<not> is_candidate (Ob_RenegotiationStarted r)"
  "\<not> is_candidate Ob_RenegotiationCompleted" "\<not> is_candidate Ob_NewViewerNeedsOffer"
  "\<not> is_candidate (Ob_Closed r)" "\<not> is_candidate (Ob_Failed r)" "\<not> is_candidate (Pc_CreateOffer p g)"
  "\<not> is_candidate (Pc_SetLocalDescription p d g)" "\<not> is_candidate (Pc_SetRemoteDescription p d g)"
  "\<not> is_candidate (Pc_AddIceCandidate p c)" "\<not> is_candidate (Pc_Close p)" "\<not> is_candidate (Pc_Release p)"
  "\<not> is_candidate (Pc_GetStats p)" "\<not> is_candidate Pc_NullDereference"
  by (simp_all add: is_candidate_def)

lemma sendable_simps [simp]:
  "sendable (Ob_IceConnectionStateChanged n)" "sendable (Ob_RenegotiationStarted r')"
  "sendable Ob_RenegotiationCompleted" "sendable Ob_NewViewerNeedsOffer" "sendable (Ob_Closed r')"
  "sendable (Ob_Failed r')" "sendable (Pc_CreateOffer p g)" "sendable (Pc_SetLocalDescription p d g)"
  "sendable (Pc_SetRemoteDescription p d g)" "sendable (Pc_AddIceCandidate p c)"
  "sendable (Pc_Close p)" "sendable (Pc_Release p)" "sendable (Pc_GetStats p)"
  "sendable Pc_NullDereference" "sendable (Tx bye_envelope r)"
  "sendable (Tx \<lparr>env_type = kSessionUnhealthy, env_from = kBrowser, env_data = Monostate\<rparr> r)"
  "sendable (Tx (offer_envelope sd) r)" "sendable (Tx (MakeIceEndOfCandidates kBrowser) r)"
  "sendable (Tx (ice_envelope i sd) r)"
  by (simp_all add: sendable_def bye_envelope_def offer_envelope_def MakeIceEndOfCandidates_def
      ice_envelope_def sdp_type_agrees_def)

lemma is_Closed_simps [simp]:
  "is_Closed (Tx e r) = False" "is_Closed (Ob_IceConnectionStateChanged n) = False"
  "is_Closed (Ob_RenegotiationStarted r') = False"
  "is_Closed Ob_RenegotiationCompleted = False" "is_Closed Ob_NewViewerNeedsOffer = False"
  "is_Closed (Ob_Closed r') = True" "is_Closed (Ob_Failed r') = False"
  "is_Closed (Pc_CreateOffer p g) = False" "is_Closed (Pc_SetLocalDescription p d g) = False"
  "is_Closed (Pc_SetRemoteDescription p d g) = False" "is_Closed (Pc_AddIceCandidate p c) = False"
  "is_Closed (Pc_Close p) = False" "is_Closed (Pc_Release p) = False"
  "is_Closed (Pc_GetStats p) = False" "is_Closed Pc_NullDereference = False"
  by (simp_all add: is_Closed_def)

lemma offer_sent_single [simp]:
  "offer_sent [Tx (offer_envelope sd) r] = r"
  "offer_sent [Tx bye_envelope r] = False"
  "offer_sent [Tx \<lparr>env_type = ty, env_from = f, env_data = Monostate\<rparr> r] = False"
  "offer_sent [Tx (ice_envelope c sd) r] = False"
  by (auto simp: offer_sent_def offer_envelope_def bye_envelope_def ice_envelope_def)

lemma is_candidate_ice [simp]: "is_candidate (Tx (ice_envelope c sd) r)"
  by (simp add: is_candidate_def ice_envelope_def default_ice_def)

lemmas invar_defs = of_invar_def closes_def

lemmas state_order = less_eq_OffererState_def less_OffererState_def

lemma invar_Fail: "of_invar s \<Longrightarrow> of_invar (FailWithReason r s)"
  unfolding FailWithReason_def
  by (cases "of_state s"; cases "of_pc s"; auto simp: invar_defs)

lemma invar_Close: "of_invar s \<Longrightarrow> of_invar (CloseInternal tx r src s)"
  unfolding CloseInternal_def SendByeEnvelope_def
  by (cases "of_state s"; cases "of_pc s"; auto simp: invar_defs Let_def state_order split: if_splits)

lemma invar_BeginRenegotiation: "of_invar s \<Longrightarrow> of_invar (BeginRenegotiation trig s)"
  unfolding BeginRenegotiation_def
  by (cases "of_state s"; cases "of_pc s"; auto simp: invar_defs Let_def)

lemma invar_AddRemoteIcePayload:
  "of_invar s \<Longrightarrow> live (of_state s) \<Longrightarrow> of_invar (AddRemoteIcePayload rtc p s)"
  unfolding AddRemoteIcePayload_def
  by (cases "of_state s"; cases "of_pc s"; auto simp: invar_defs Let_def)

lemma AddRemoteIcePayload_keeps [simp]:
  "of_state (AddRemoteIcePayload rtc p s) = of_state s"
  "pending_renegotiation (AddRemoteIcePayload rtc p s) = pending_renegotiation s"
  "was_in_ice_flight_once (AddRemoteIcePayload rtc p s) = was_in_ice_flight_once s"
  by (simp_all add: AddRemoteIcePayload_def Let_def)

lemma invar_flush_ice: "of_invar s \<Longrightarrow> live (of_state s) \<Longrightarrow> of_invar (flush_ice rtc ps s)"
  by (induction ps arbitrary: s) (auto simp: Let_def invar_AddRemoteIcePayload)

lemma flush_ice_keeps [simp]:
  "of_state (flush_ice rtc ps s) = of_state s"
  "pending_renegotiation (flush_ice rtc ps s) = pending_renegotiation s"
  by (induction ps arbitrary: s) (simp_all add: Let_def)

lemma invar_unhealthy: "of_invar s \<Longrightarrow> of_invar (snd (SendSessionUnhealthyEnvelope tx s))"
  unfolding SendSessionUnhealthyEnvelope_def
  by (cases "of_state s"; auto simp: invar_defs)

lemma invar_Rearm: "of_invar s \<Longrightarrow> of_invar (snd (Rearm tx b s))"
proof (cases "of_state s = Of_kIdle \<or> of_state s = Of_kFailed")
  case True
  assume "of_invar s"
  with True show ?thesis by (auto simp: Rearm_def)
next
  case False
  assume inv: "of_invar s"
  let ?s1 = "if of_state s \<noteq> Of_kClosed
    then CloseInternal tx ''rearm'' (if b then ''rearm'' else ''remote'') s else s"
  have inv1: "of_invar ?s1" using inv invar_Close by simp
  have closed: "of_state ?s1 = Of_kClosed"
    using inv False by (cases "of_state s"; auto simp: CloseInternal_def Let_def of_invar_def)
  then have "teardown_emitted ?s1" using inv1 unfolding of_invar_def by blast
  then have log: "Pc_NullDereference \<notin> set (of_out ?s1)" "gens_le (weak_gen ?s1) (of_out ?s1)"
    "ice_after_offer False (of_out ?s1)" "list_all sendable (of_out ?s1)" "length (filter is_Closed (of_out ?s1)) \<le> Suc (weak_gen ?s1)"
    "was_in_ice_flight_once ?s1 \<longrightarrow> offer_sent (of_out ?s1)"
    using inv1 unfolding invar_defs by simp_all
  show ?thesis
  proof (cases "of_pc ?s1")
    case None
    with False log show ?thesis
      unfolding Rearm_def Let_def by (simp add: invar_defs gens_le_Suc)
  next
    case (Some p)
    with False log show ?thesis
      unfolding Rearm_def Let_def by (simp add: invar_defs gens_le_Suc)
  qed
qed

lemma invar_Start: "of_invar s \<Longrightarrow> of_invar (Start r s)"
proof (cases "of_state s = Of_kIdle")
  case True
  assume inv: "of_invar s"
  have *: "of_invar (s\<lparr>of_state := Of_kCreatingPc, of_pc := Some (next_pc s), next_pc := next_pc s + 1\<rparr>)"
    using inv True by (auto simp: invar_defs)
  have **: "of_invar (FailWithReason m (s\<lparr>of_state := Of_kCreatingPc\<rparr>))" for m
    using inv True unfolding FailWithReason_def by (auto simp: invar_defs)
  have ***: "of_invar (FailWithReason m (s\<lparr>of_state := Of_kCreatingPc, of_pc := None\<rparr>))" for m
    using inv True unfolding FailWithReason_def by (auto simp: invar_defs)
  show ?thesis using True * ** *** by (cases r) (simp_all add: Start_def)
qed (simp add: Start_def)

lemma invar_EmitOffer:
  "of_invar s \<Longrightarrow> of_state s = Of_kCreatingOffer \<Longrightarrow> pending_local_offer s = None
    \<Longrightarrow> of_invar (EmitOfferAndSetLocal rtc tx d s)"
  unfolding EmitOfferAndSetLocal_def SendOfferEnvelope_def FailWithReason_def transmit_def
  by (cases "of_pc s"; cases "tx (offer_envelope (rtc_to_string rtc d))"; auto simp: invar_defs Let_def)

lemma invar_OnConnected: "of_invar s \<Longrightarrow> of_invar (of_OnConnected rtc tx s)"
proof -
  assume inv: "of_invar s"
  have *: "of_invar (s\<lparr>ws_connected := True, pending_local_offer := None\<rparr>)"
    using inv by (cases "of_state s"; auto simp: invar_defs)
  have "of_invar (s\<lparr>ws_connected := True\<rparr>)" if "pending_local_offer s = None"
    using inv that by (cases "of_state s"; auto simp: invar_defs)
  then show ?thesis
    using * invar_EmitOffer [OF *]
    by (simp add: of_OnConnected_def Let_def split: option.split)
qed

lemma invar_HandleAnswer: "of_invar s \<Longrightarrow> of_invar (HandleAnswerEnvelope rtc env s)"
proof -
  assume inv: "of_invar s"
  have early: "of_invar (s\<lparr>pending_early_answer_sdp := Some sd\<rparr>)"
    if "of_state s = Of_kCreatingOffer \<or> of_state s = Of_kSettingLocal" for sd
    using inv that by (cases "of_state s"; auto simp: invar_defs)
  have set_remote: "of_invar (on_pc (\<lambda>p. Pc_SetRemoteDescription p d (weak_gen s))
      (s\<lparr>of_state := Of_kSettingRemote\<rparr>))" if "of_state s = Of_kAwaitingAnswer" for d
    using inv that by (auto simp: invar_defs)
  show ?thesis
    unfolding HandleAnswerEnvelope_def Let_def
    using inv early set_remote invar_Fail [OF inv]
    by (auto split: EnvelopeData.split)
qed

lemma invar_HandleIce: "of_invar s \<Longrightarrow> of_invar (HandleIceEnvelope rtc env s)"
proof -
  assume inv: "of_invar s"
  let ?mid_dance = "of_state s = Of_kAwaitingAnswer \<or> of_state s = Of_kSettingRemote
    \<or> was_in_ice_flight_once s \<and> (of_state s = Of_kCreatingOffer \<or> of_state s = Of_kSettingLocal)"
  have push: "of_invar (s\<lparr>pending_remote_ice := ps\<rparr>)" if ?mid_dance for ps
    using inv that by (cases "of_state s"; auto simp: invar_defs)
  have queue: "of_invar (QueueRemoteIceCandidate env s)" if ?mid_dance
    using push [OF that] invar_Fail [OF inv]
    by (simp add: QueueRemoteIceCandidate_def split: EnvelopeData.split)
  show ?thesis
    using inv queue invar_Fail [OF inv] invar_AddRemoteIcePayload [OF inv]
    by (cases "of_state s")
      (auto simp: HandleIceEnvelope_def Let_def state_order split: EnvelopeData.split)
qed

lemma invar_HandleRequest:
  "of_invar s \<Longrightarrow> of_invar (HandleRequestRenegotiateEnvelope s)"
proof -
  assume inv: "of_invar s"
  have *: "of_invar (observe Ob_NewViewerNeedsOffer s)"
    using inv by (cases "of_state s"; auto simp: invar_defs)
  have **: "of_invar (s\<lparr>pending_renegotiation := True\<rparr>)"
    if "of_state s \<noteq> Of_kIdle" "of_state s \<noteq> Of_kIceInFlight"
    using inv that by (cases "of_state s"; auto simp: invar_defs)
  show ?thesis
    using inv * ** invar_BeginRenegotiation [OF inv]
    by (auto simp: HandleRequestRenegotiateEnvelope_def)
qed

lemma invar_OnEnvelope: "of_invar s \<Longrightarrow> of_invar (of_OnEnvelope rtc tx e s)"
  by (cases "env_type e")
    (auto simp: of_OnEnvelope_def HandleOfferEnvelope_def HandleByeEnvelope_def
      HandleProbeResultEnvelope_def
      intro: invar_Fail invar_HandleAnswer invar_HandleIce invar_Close invar_HandleRequest)

lemma invar_send_ice:
  assumes "of_invar s" and "offer_sent (of_out s)"
  shows "of_invar (SendIceCandidateEnvelope tx c s)"
  using assms
  by (cases "of_state s"; cases "cand_string c"; auto simp: SendIceCandidateEnvelope_def invar_defs)

lemma invar_HopIceCandidate: "of_invar s \<Longrightarrow> of_invar (HopHandleIceCandidate tx c s)"
proof -
  assume inv: "of_invar s"
  have "offer_sent (of_out s)"
    if "was_in_ice_flight_once s \<or> \<not> of_state s < Of_kSettingLocal"
      "of_state s \<noteq> Of_kClosed" "of_state s \<noteq> Of_kFailed"
    using inv that by (cases "of_state s"; auto simp: of_invar_def state_order)
  then show ?thesis
    using inv invar_send_ice by (auto simp: HopHandleIceCandidate_def Let_def)
qed

lemma invar_emit_other:
  assumes "of_invar s" and "c \<noteq> Pc_NullDereference" and "call_gen c = None" and "\<not> is_candidate c"
    and "\<not> is_Closed c" and "sendable c"
  shows "of_invar (emit c s)"
  using assms by (cases "of_state s"; auto simp: invar_defs)

lemma invar_HopRenegotiationNeeded: "of_invar s \<Longrightarrow> of_invar (HopHandleRenegotiationNeeded s)"
proof -
  assume inv: "of_invar s"
  have fail: "of_invar (FailWithReason r (s\<lparr>initial_renegotiation_consumed := True\<rparr>))" for r
    unfolding FailWithReason_def
    using inv by (cases "of_state s"; cases "of_pc s"; auto simp: invar_defs)
  have offer: "of_invar (on_pc (\<lambda>p. Pc_CreateOffer p (weak_gen s))
      (s\<lparr>initial_renegotiation_consumed := True, of_state := Of_kCreatingOffer,
         current_offer_answered := False\<rparr>))" if "of_state s = Of_kCreatingPc"
    using inv that by (auto simp: invar_defs)
  show ?thesis
    using fail offer invar_BeginRenegotiation [OF inv]
    by (simp add: HopHandleRenegotiationNeeded_def Let_def)
qed

lemma invar_HopCreateOfferSuccess:
  "of_invar s \<Longrightarrow> of_invar (HopHandleCreateOfferSuccess rtc tx ty sd s)"
proof -
  assume inv: "of_invar s"
  have stash: "of_invar (s\<lparr>pending_local_offer := Some d\<rparr>)"
    if "of_state s = Of_kCreatingOffer" "\<not> ws_connected s" for d
    using inv that by (auto simp: invar_defs)
  have "pending_local_offer s = None" if "ws_connected s"
    using inv that by (auto simp: of_invar_def)
  then show ?thesis
    using inv stash invar_Fail [OF inv] invar_EmitOffer [OF inv]
    by (simp add: HopHandleCreateOfferSuccess_def Let_def)
qed

lemma invar_HopSetLocal:
  "of_invar s \<Longrightarrow> of_invar (HopHandleSetLocalDescriptionComplete rtc ok r s)"
proof -
  assume inv: "of_invar s"
  have "of_invar (s\<lparr>of_state := Of_kAwaitingAnswer, pending_early_answer_sdp := None\<rparr>)"
    if "of_state s = Of_kSettingLocal"
    using inv that by (auto simp: invar_defs)
  moreover have "of_invar (s\<lparr>of_state := Of_kAwaitingAnswer\<rparr>)"
    if "of_state s = Of_kSettingLocal" "pending_early_answer_sdp s = None"
    using inv that by (auto simp: invar_defs)
  ultimately show ?thesis
    using invar_Fail [OF inv] invar_HandleAnswer
    by (simp add: HopHandleSetLocalDescriptionComplete_def Let_def split: option.split)
qed

lemma FlushPendingRemoteIce_alt:
  "FlushPendingRemoteIce rtc s = flush_ice rtc (pending_remote_ice s) (s\<lparr>pending_remote_ice := []\<rparr>)"
  by (cases s) (simp add: FlushPendingRemoteIce_def)

lemma AddRemoteIcePayload_commute:
  "AddRemoteIcePayload rtc p (s\<lparr>pending_renegotiation := b\<rparr>)
   = (AddRemoteIcePayload rtc p s)\<lparr>pending_renegotiation := b\<rparr>"
  by (simp add: AddRemoteIcePayload_def on_pc_def emit_def Let_def split: option.split)

lemma flush_ice_commute:
  "flush_ice rtc ps (s\<lparr>pending_renegotiation := b\<rparr>) = (flush_ice rtc ps s)\<lparr>pending_renegotiation := b\<rparr>"
  by (induction ps arbitrary: s) (simp_all add: AddRemoteIcePayload_commute Let_def)

lemma flush_ice_was [simp]:
  "was_in_ice_flight_once (flush_ice rtc ps s) = was_in_ice_flight_once s"
  by (induction ps arbitrary: s) (simp_all add: Let_def)

lemma update_same: "pending_renegotiation s = b \<Longrightarrow> s\<lparr>pending_renegotiation := b\<rparr> = s"
  by (cases s) simp

lemma invar_HopSetRemote:
  "of_invar s \<Longrightarrow> of_invar (HopHandleSetRemoteDescriptionComplete rtc ok r s)"
proof -
  assume inv: "of_invar s"
  let ?s1 = "s\<lparr>of_state := Of_kIceInFlight, was_in_ice_flight_once := True,
    current_offer_answered := True\<rparr>"
  let ?s2 = "FlushPendingRemoteIce rtc ?s1"
  let ?s3 = "if was_in_ice_flight_once s then observe Ob_RenegotiationCompleted ?s2 else ?s2"
  have steady: "of_invar (?s3\<lparr>pending_renegotiation := False\<rparr>)" if "of_state s = Of_kSettingRemote"
  proof -
    have "of_invar (?s1\<lparr>pending_remote_ice := [], pending_renegotiation := False\<rparr>)"
      using inv that by (auto simp: invar_defs)
    then have flushed: "of_invar (?s2\<lparr>pending_renegotiation := False\<rparr>)"
      unfolding FlushPendingRemoteIce_alt flush_ice_commute [symmetric]
      by (intro invar_flush_ice) simp_all
    have commute: "(observe Ob_RenegotiationCompleted ?s2)\<lparr>pending_renegotiation := False\<rparr>
        = observe Ob_RenegotiationCompleted (?s2\<lparr>pending_renegotiation := False\<rparr>)"
      by (simp add: observe_def emit_def)
    have "of_invar (observe Ob_RenegotiationCompleted (?s2\<lparr>pending_renegotiation := False\<rparr>))"
      using invar_emit_other [OF flushed, of Ob_RenegotiationCompleted] flushed
      by (simp add: observe_def)
    then show ?thesis
      using flushed by (cases "was_in_ice_flight_once s") (simp_all only: commute if_True if_False)
  qed
  show ?thesis
  proof (cases "ok \<and> of_state s = Of_kSettingRemote")
    case True
    then have "HopHandleSetRemoteDescriptionComplete rtc ok r s =
      (if pending_renegotiation ?s3
       then BeginRenegotiation ''coalesced-pending'' (?s3\<lparr>pending_renegotiation := False\<rparr>) else ?s3)"
      by (simp only: HopHandleSetRemoteDescriptionComplete_def Let_def) simp
    then show ?thesis
      using steady True invar_BeginRenegotiation [OF steady] update_same [of ?s3 False]
      by (cases "pending_renegotiation ?s3") simp_all
  next
    case False
    then show ?thesis
      using invar_Fail [OF inv] by (auto simp: HopHandleSetRemoteDescriptionComplete_def)
  qed
qed

lemma invar_hop: "of_invar s \<Longrightarrow> of_invar (run_hop rtc tx h s)"
proof (cases h)
  case (Hop_IceGatheringChange b)
  assume inv: "of_invar s"
  show ?thesis using invar_emit_other [OF inv] inv Hop_IceGatheringChange
    by (simp add: HopHandleIceGatheringChange_def SendIceEndOfCandidates_def)
next
  case (Hop_IceConnectionChange n)
  assume inv: "of_invar s"
  show ?thesis using invar_emit_other [OF inv] inv Hop_IceConnectionChange
    by (simp add: HopHandleIceConnectionChange_def observe_def)
qed (simp_all add: invar_HopIceCandidate invar_HopRenegotiationNeeded invar_HopCreateOfferSuccess
    invar_HopSetLocal invar_HopSetRemote HopHandleCreateOfferFailure_def invar_Fail)

lemma invar_of_step: "of_invar s \<Longrightarrow> of_invar (of_step rtc e s)"
proof -
  assume inv: "of_invar s"
  obtain tx ev where e: "e = (tx, ev)" by (cases e)
  show ?thesis
  proof (cases ev)
    case (Of_PollStats b)
    then show ?thesis using inv e invar_emit_other [OF inv]
      by (simp add: PollOutboundStats_def split: option.split)
  qed (simp_all add: e inv invar_Start invar_Rearm RequestRenegotiation_def
      invar_BeginRenegotiation Close_def CloseUnhealthy_def invar_Close invar_unhealthy
      invar_OnConnected invar_OnEnvelope of_OnClosed_def of_OnError_def invar_Fail invar_hop)
qed

interpretation of_machine: invariant_machine "\<lambda>s. \<exists>obs. s = new_offerer obs" "of_step rtc" of_invar
  for rtc
  by unfold_locales (auto simp: invar_of_step, simp add: of_invar_def new_offerer_def closes_def)

section \<open>Failure is final\<close>

lemma CloseInternal_failed:
  "of_state s = Of_kFailed \<Longrightarrow> of_state (CloseInternal tx r src s) = Of_kFailed"
  by (simp add: CloseInternal_def)

lemma FailWithReason_state [simp]: "of_state (FailWithReason r s) = Of_kFailed"
  by (simp add: FailWithReason_def)

lemma failed_step: "of_state s = Of_kFailed \<Longrightarrow> of_state (of_step rtc e s) = Of_kFailed"
proof -
  assume failed: "of_state s = Of_kFailed"
  obtain tx ev where e: "e = (tx, ev)" by (cases e)
  have hops: "of_state (run_hop rtc tx h s) = Of_kFailed" for h
    using failed
    by (cases h) (simp_all add: HopHandleIceCandidate_def HopHandleIceGatheringChange_def
        SendIceEndOfCandidates_def HopHandleIceConnectionChange_def HopHandleRenegotiationNeeded_def
        BeginRenegotiation_def HopHandleCreateOfferSuccess_def HopHandleCreateOfferFailure_def
        HopHandleSetLocalDescriptionComplete_def HopHandleSetRemoteDescriptionComplete_def Let_def)
  show ?thesis
    using failed hops
    by (cases ev) (auto simp: e Start_def Rearm_def RequestRenegotiation_def Close_def
        CloseUnhealthy_def SendSessionUnhealthyEnvelope_def CloseInternal_failed
        PollOutboundStats_def of_OnConnected_def of_OnEnvelope_def of_OnClosed_def of_OnError_def
        Let_def split: option.split)
qed

interpretation of_failed: absorbing_machine "of_step rtc" "\<lambda>s. of_state s = Of_kFailed" for rtc
  by unfold_locales (rule failed_step)

section \<open>Example data\<close>

definition example_rtc :: rtc_api where
  "example_rtc = \<lparr>rtc_type_known = (\<lambda>t. t = ''offer''), rtc_parses = (\<lambda>d. desc_sdp d \<noteq> []),
     rtc_to_string = desc_sdp, rtc_ice_parses = (\<lambda>m i c. c \<noteq> [])\<rparr>"

definition example_answer :: Envelope where
  "example_answer = \<lparr>env_type = kAnswer, env_from = kClient,
     env_data = Sdp \<lparr>sdp_type = ''answer'', sdp = ''v=1''\<rparr>\<rparr>"

definition example_candidate :: IceCandidatePayload where
  "example_candidate = default_ice\<lparr>candidate := ''c''\<rparr>"

definition sent_ok :: "Envelope \<Rightarrow> bool" where
  "sent_ok e = True"

section \<open>Properties\<close>

text \<open>
  C13. Driver invariant, over every sequence of embedder calls, inbound envelopes, transport
  events and posted callbacks of any generation: no task ever dereferences a missing peer
  connection; steady state means the offer on the wire was answered and no renegotiation
  request is left waiting; an early answer, a buffered offer and queued candidates exist only
  in the states that will consume them; and the observer hears \<open>OnClosed\<close> at most once per
  session (a re-arm starts a session).
\<close>

theorem offerer_invariant:
  assumes "s = fold (of_step rtc) es (new_offerer obs)"
  shows "Pc_NullDereference \<notin> set (of_out s)
    \<and> (of_state s = Of_kIceInFlight \<longrightarrow>
         current_offer_answered s \<and> \<not> pending_renegotiation s \<and> pending_remote_ice s = [])
    \<and> (pending_early_answer_sdp s \<noteq> None \<longrightarrow>
         of_state s \<in> {Of_kCreatingOffer, Of_kSettingLocal, Of_kClosed, Of_kFailed})
    \<and> (pending_local_offer s \<noteq> None \<longrightarrow>
         \<not> ws_connected s \<and> of_state s \<in> {Of_kCreatingOffer, Of_kClosed, Of_kFailed})
    \<and> (of_state s \<in> {Of_kIdle, Of_kCreatingPc, Of_kClosed, Of_kFailed} \<longrightarrow> pending_remote_ice s = [])
    \<and> closes s \<le> weak_gen s + 1"
proof -
  have "of_invar s" unfolding assms by (rule of_machine.invar_reached) blast
  then show ?thesis by (cases "of_state s"; auto simp: of_invar_def split: if_splits)
qed

theorem offerer_invariant_witness:
  "let s = fold (of_step example_rtc) [(sent_ok, Of_Start Pc_Created), (sent_ok, Of_Close ''end''),
         (sent_ok, Of_Close ''again''), (sent_ok, Of_Rearm True)] (new_offerer True)
   in of_out s = [Pc_Close 0, Ob_Closed ''end'', Pc_Release 0] \<and> closes s \<le> weak_gen s + 1"
  using offerer_invariant [OF refl, of example_rtc "[(sent_ok, Of_Start Pc_Created),
      (sent_ok, Of_Close ''end''), (sent_ok, Of_Close ''again''), (sent_ok, Of_Rearm True)]" True]
  by (simp add: new_offerer_def Start_def Close_def CloseInternal_def Rearm_def Let_def state_order
      emit_def observe_def ClosePcOnSignalingThread_def)

lemma ice_after_offer_split:
  "ice_after_offer sent (xs @ c # ys) \<Longrightarrow> is_candidate c \<Longrightarrow> sent \<or> offer_sent xs"
  by simp

text \<open>
  Offer before candidates: whatever happens, every candidate the driver hands to the
  transport comes after an offer that the transport had accepted.
\<close>

theorem candidates_after_offer:
  assumes "of_out (fold (of_step rtc) es (new_offerer obs)) = xs @ Tx e r # ys"
    and "env_data e = IceCandidate p" and "\<not> is_end_of_candidates p"
  shows "\<exists>sd. Tx (offer_envelope sd) True \<in> set xs"
proof -
  have "of_invar (fold (of_step rtc) es (new_offerer obs))"
    by (rule of_machine.invar_reached) blast
  then have "ice_after_offer False (xs @ Tx e r # ys)" using assms(1) by (simp add: of_invar_def)
  moreover have "is_candidate (Tx e r)" using assms(2,3) by (simp add: is_candidate_def)
  ultimately show ?thesis using ice_after_offer_split by (fastforce simp: offer_sent_def)
qed

text \<open>The run of a complete dance, up to the answer, with the channel connected before the offer.\<close>

definition dance :: "string \<Rightarrow> ((Envelope \<Rightarrow> bool) \<times> of_event) list" where
  "dance sd = map (Pair sent_ok)
     [Of_Start Pc_Created, Of_Connected, Of_Posted 0 Hop_RenegotiationNeeded,
      Of_Posted 0 (Hop_CreateOfferSuccess ''offer'' sd),
      Of_Posted 0 (Hop_SetLocalDescriptionComplete True [])]"

lemmas run_defs = new_offerer_def Start_def of_OnConnected_def HopHandleRenegotiationNeeded_def
  HopHandleCreateOfferSuccess_def EmitOfferAndSetLocal_def SendOfferEnvelope_def transmit_def
  HopHandleSetLocalDescriptionComplete_def of_OnEnvelope_def HandleAnswerEnvelope_def
  HopHandleSetRemoteDescriptionComplete_def FlushPendingRemoteIce_def on_pc_def emit_def observe_def
  Let_def

lemma dance_run:
  assumes "sd \<noteq> []"
  shows "fold (of_step example_rtc) (dance sd) (new_offerer obs) =
    (new_offerer obs)\<lparr>of_state := Of_kAwaitingAnswer, of_pc := Some 0, next_pc := 1,
      initial_renegotiation_consumed := True, ws_connected := True,
      of_out := [Pc_CreateOffer 0 0, Tx (offer_envelope sd) True,
        Pc_SetLocalDescription 0 \<lparr>desc_type = ''offer'', desc_sdp = sd\<rparr> 0]\<rparr>"
  using assms by (simp add: dance_def run_defs example_rtc_def sent_ok_def)

theorem candidates_after_offer_witness:
  "let c = \<lparr>cand_mid = ''0'', cand_mline = 0, cand_string = Some ''c''\<rparr>;
       s = fold (of_step example_rtc)
             (dance ''v=0'' @ [(sent_ok, Of_Posted 0 (Hop_IceCandidate c))]) (new_offerer True)
   in last (of_out s) = Tx (ice_envelope c ''c'') True
      \<and> (\<exists>sd. Tx (offer_envelope sd) True \<in> set (butlast (of_out s)))"
proof -
  let ?c = "\<lparr>cand_mid = ''0'', cand_mline = 0, cand_string = Some ''c''\<rparr>"
  let ?es = "dance ''v=0'' @ [(sent_ok, Of_Posted 0 (Hop_IceCandidate ?c))]"
  let ?xs = "[Pc_CreateOffer 0 0, Tx (offer_envelope ''v=0'') True,
    Pc_SetLocalDescription 0 \<lparr>desc_type = ''offer'', desc_sdp = ''v=0''\<rparr> 0]"
  have out: "of_out (fold (of_step example_rtc) ?es (new_offerer True))
    = ?xs @ Tx (ice_envelope ?c ''c'') True # []"
    by (simp add: dance_run HopHandleIceCandidate_def state_order SendIceCandidateEnvelope_def
        sent_ok_def Let_def) (simp add: new_offerer_def)
  have "\<exists>sd. Tx (offer_envelope sd) True \<in> set ?xs"
    by (rule candidates_after_offer [OF out]) (simp add: ice_envelope_def default_ice_def, simp)
  then show ?thesis unfolding Let_def out by simp
qed

text \<open>
  What the driver sends is what the codec accepts: every envelope it hands to the
  transport carries the browser as sender and the payload its tag asks for, so its encoding
  is refused only when the JSON writer itself fails, and the peer decodes it to the same
  envelope.
\<close>

theorem driver_envelopes_encodable:
  assumes "Tx e r \<in> set (of_out (fold (of_step rtc) es (new_offerer obs)))"
    and "\<And>v. reads_back wr rd v"
  shows "env_from e = kBrowser
    \<and> Encode wr e = wr (JDict (envelope_dict e (EncodeData (env_type e) (env_data e))))
    \<and> (\<forall>t. Encode wr e = Some t \<longrightarrow> Decode rd t = Some (normalise e))"
proof -
  have "of_invar (fold (of_step rtc) es (new_offerer obs))"
    by (rule of_machine.invar_reached) blast
  with assms(1) have "sendable (Tx e r)" by (auto simp: of_invar_def list_all_iff)
  then have "env_from e = kBrowser" "payload_matches (env_type e) (env_data e)" "sdp_type_agrees e"
    by (simp_all add: sendable_def)
  then show ?thesis
    using decodes_what_it_encodes [of e wr rd] assms(2)
    by (auto simp: Encode_def Let_def simp del: EncodeData.simps)
qed

theorem driver_envelopes_encodable_witness:
  "\<exists>t. Encode Some (offer_envelope ''v=0'') = Some t
       \<and> Decode Some t = Some (normalise (offer_envelope ''v=0''))"
proof -
  have "Tx (offer_envelope ''v=0'') True
      \<in> set (of_out (fold (of_step example_rtc) (dance ''v=0'') (new_offerer True)))"
    by (simp add: dance_run)
  from driver_envelopes_encodable [OF this, of Some Some]
  show ?thesis by (simp add: reads_back_def)
qed

lemma HandleAnswer_outcome:
  assumes "of_state s = Of_kAwaitingAnswer" and "env_data a = Sdp p"
  shows "of_state (HandleAnswerEnvelope rtc a s) \<in> {Of_kSettingRemote, Of_kFailed}"
  using assms by (simp add: HandleAnswerEnvelope_def Let_def)

lemma answers_dropped:
  assumes "of_state s \<in> {Of_kSettingRemote, Of_kFailed}" and "env_type a = kAnswer"
  shows "fold (of_step rtc) (replicate n (tx, Of_Envelope a)) s = s"
  using assms by (induction n) (auto simp: of_OnEnvelope_def HandleAnswerEnvelope_def)

lemma answers_buffered:
  assumes "of_state s = Of_kSettingLocal" and "env_type a = kAnswer" and "env_data a = Sdp p"
    and "sdp p \<noteq> []"
  shows "fold (of_step rtc) (replicate (Suc m) (tx, Of_Envelope a)) s
    = s\<lparr>pending_early_answer_sdp := Some (sdp p)\<rparr>"
  using assms(1)
proof (induction m arbitrary: s)
  case (Suc m)
  have one: "of_step rtc (tx, Of_Envelope a) s = s\<lparr>pending_early_answer_sdp := Some (sdp p)\<rparr>"
    using Suc.prems assms(2-4) by (simp add: of_OnEnvelope_def HandleAnswerEnvelope_def)
  show ?case using Suc.IH [of "s\<lparr>pending_early_answer_sdp := Some (sdp p)\<rparr>"] Suc.prems
    by (simp add: one del: of_step.simps)
qed (use assms in \<open>simp add: of_OnEnvelope_def HandleAnswerEnvelope_def\<close>)

lemma HandleAnswer_data_only:
  "env_data a = env_data b \<Longrightarrow> HandleAnswerEnvelope rtc a s = HandleAnswerEnvelope rtc b s"
  by (simp add: HandleAnswerEnvelope_def)

text \<open>
  C27. Duplicate and early answers: while the local description is being set, it does not
  matter how often and on which side of its completion the answer is delivered. With at
  least one delivery the driver ends in exactly the state of one delivery after the
  completion, also when libwebrtc rejects the answer.
\<close>

theorem answer_delivery_confluent:
  assumes "of_state s = Of_kSettingLocal" and "pending_early_answer_sdp s = None"
    and "env_type a = kAnswer" and "env_data a = Sdp p" and "sdp_type p = ''answer''"
    and "sdp p \<noteq> []" and "0 < m + n"
    and "done = (tx, Of_Posted (weak_gen s) (Hop_SetLocalDescriptionComplete True r))"
  shows "fold (of_step rtc)
      (replicate m (tx, Of_Envelope a) @ [done] @ replicate n (tx, Of_Envelope a)) s
    = fold (of_step rtc) [done, (tx, Of_Envelope a)] s"
proof -
  let ?aw = "s\<lparr>of_state := Of_kAwaitingAnswer\<rparr>"
  let ?one = "HandleAnswerEnvelope rtc a ?aw"
  have stable: "of_state ?one \<in> {Of_kSettingRemote, Of_kFailed}"
    using HandleAnswer_outcome [of ?aw a p rtc] assms(4) by simp
  have done_s: "of_step rtc done s = ?aw"
    using assms(1,2,8) by (simp add: HopHandleSetLocalDescriptionComplete_def)
  have deliver: "of_step rtc (tx, Of_Envelope a) ?aw = ?one"
    using assms(3) by (simp add: of_OnEnvelope_def)
  have clear: "?aw\<lparr>pending_early_answer_sdp := None\<rparr> = ?aw"
    using assms(2) by (cases s) simp
  have early: "of_step rtc done (s\<lparr>pending_early_answer_sdp := Some (sdp p)\<rparr>) = ?one"
    using assms(1,4,5,8) clear
    by (simp add: HopHandleSetLocalDescriptionComplete_def)
      (rule HandleAnswer_data_only, simp)
  show ?thesis
  proof (cases m)
    case 0
    then obtain k where "n = Suc k" using assms(7) by (cases n) auto
    then show ?thesis
      using 0 answers_dropped [OF stable assms(3), of rtc k tx]
      by (simp add: done_s deliver del: of_step.simps)
  next
    case (Suc k)
    then show ?thesis
      using answers_dropped [OF stable assms(3), of rtc n tx]
        answers_buffered [OF assms(1,3,4,6), of rtc k tx]
      by (simp add: done_s deliver early del: of_step.simps replicate_Suc)
  qed
qed

theorem answer_delivery_confluent_witness:
  "let s = fold (of_step example_rtc) (butlast (dance ''v=0'')) (new_offerer True);
       done = (sent_ok, Of_Posted 0 (Hop_SetLocalDescriptionComplete True []));
       a = (sent_ok, Of_Envelope example_answer)
   in of_state s = Of_kSettingLocal
      \<and> fold (of_step example_rtc) [a, a, done, a] s = fold (of_step example_rtc) [done, a] s"
proof -
  let ?s = "fold (of_step example_rtc) (butlast (dance ''v=0'')) (new_offerer True)"
  have s: "of_state ?s = Of_kSettingLocal" "pending_early_answer_sdp ?s = None" "weak_gen ?s = 0"
    by (simp_all add: dance_def run_defs example_rtc_def sent_ok_def)
  show ?thesis
    using answer_delivery_confluent [OF s(1,2), where a = example_answer and m = 2 and n = 1
        and p = "\<lparr>sdp_type = ''answer'', sdp = ''v=1''\<rparr>", OF _ _ _ _ _ refl,
        of example_rtc sent_ok "[]"] s
    by (simp add: example_answer_def numeral_2_eq_2 Let_def del: of_step.simps)
qed

definition ice_in :: "IceCandidatePayload \<Rightarrow> Envelope" where
  "ice_in c = \<lparr>env_type = kIce, env_from = kClient, env_data = IceCandidate c\<rparr>"

definition usable :: "rtc_api \<Rightarrow> IceCandidatePayload \<Rightarrow> bool" where
  "usable rtc c \<longleftrightarrow> is_end_of_candidates c
     \<or> rtc_ice_parses rtc (case sdp_mid c of None \<Rightarrow> [] | Some m \<Rightarrow> m)
         (case sdp_m_line_index c of None \<Rightarrow> 0 | Some i \<Rightarrow> i) (candidate c)"

definition add_call :: "nat \<Rightarrow> IceCandidatePayload \<Rightarrow> of_call" where
  "add_call p c = Pc_AddIceCandidate p (if is_end_of_candidates c then None else Some c)"

lemma AddRemoteIcePayload_usable:
  "of_pc s = Some p \<Longrightarrow>
     AddRemoteIcePayload rtc c s = (if usable rtc c then emit (add_call p c) s else s)"
  by (simp add: AddRemoteIcePayload_def usable_def add_call_def on_pc_def Let_def)

lemma flush_ice_usable:
  assumes "of_pc s = Some p" and "of_state s \<noteq> Of_kFailed" and "of_state s \<noteq> Of_kClosed"
  shows "flush_ice rtc cs s = s\<lparr>of_out := of_out s @ map (add_call p) (filter (usable rtc) cs)\<rparr>"
  using assms
  by (induction cs arbitrary: s) (simp_all add: AddRemoteIcePayload_usable Let_def emit_def)

lemma ice_queued:
  assumes "of_state s \<in> {Of_kAwaitingAnswer, Of_kSettingRemote}"
  shows "fold (of_step rtc) (map (\<lambda>c. (tx, Of_Envelope (ice_in c))) cs) s
    = s\<lparr>pending_remote_ice := pending_remote_ice s @ cs\<rparr>"
  using assms
proof (induction cs arbitrary: s)
  case (Cons c cs)
  then have "of_step rtc (tx, Of_Envelope (ice_in c)) s
      = s\<lparr>pending_remote_ice := pending_remote_ice s @ [c]\<rparr>"
    by (auto simp: of_OnEnvelope_def HandleIceEnvelope_def QueueRemoteIceCandidate_def ice_in_def
        state_order Let_def)
  with Cons show ?case by (simp del: of_step.simps)
qed simp

text \<open>
  Candidates that arrive before the answer is applied are not lost and not reordered:
  on completion of the remote description, those libwebrtc can parse are added to the peer
  connection in the order they arrived, behind any that were already queued, and the
  driver is in steady state with an empty queue.
\<close>

theorem early_candidates_fifo:
  assumes "of_state s = Of_kSettingRemote" and "of_pc s = Some p" and "\<not> pending_renegotiation s"
    and "t = fold (of_step rtc)
      (map (\<lambda>c. (tx, Of_Envelope (ice_in c))) cs
       @ [(tx, Of_Posted (weak_gen s) (Hop_SetRemoteDescriptionComplete True r))]) s"
  shows "of_state t = Of_kIceInFlight \<and> pending_remote_ice t = []
    \<and> of_out t = of_out s
        @ map (add_call p) (filter (usable rtc) (pending_remote_ice s @ cs))
        @ (if was_in_ice_flight_once s \<and> has_observer s then [Ob_RenegotiationCompleted] else [])"
proof -
  let ?q = "s\<lparr>pending_remote_ice := pending_remote_ice s @ cs\<rparr>"
  have "t = HopHandleSetRemoteDescriptionComplete rtc True r ?q"
    using ice_queued [of s rtc tx cs] assms(1,4) by simp
  then show ?thesis
    using assms(1,2,3)
    by (simp add: HopHandleSetRemoteDescriptionComplete_def FlushPendingRemoteIce_alt
        flush_ice_usable observe_def emit_def Let_def)
qed

theorem early_candidates_fifo_witness:
  "let s = fold (of_step example_rtc)
             (dance ''v=0'' @ [(sent_ok, Of_Envelope example_answer)]) (new_offerer True);
       t = fold (of_step example_rtc)
             (map (\<lambda>c. (sent_ok, Of_Envelope (ice_in c)))
                [example_candidate, default_ice, default_ice\<lparr>is_end_of_candidates := True\<rparr>]
              @ [(sent_ok, Of_Posted 0 (Hop_SetRemoteDescriptionComplete True []))]) s
   in of_state t = Of_kIceInFlight
      \<and> of_out t = of_out s @ [Pc_AddIceCandidate 0 (Some example_candidate), Pc_AddIceCandidate 0 None]"
proof -
  let ?s = "fold (of_step example_rtc)
    (dance ''v=0'' @ [(sent_ok, Of_Envelope example_answer)]) (new_offerer True)"
  have s: "of_state ?s = Of_kSettingRemote" "of_pc ?s = Some 0" "\<not> pending_renegotiation ?s"
    "weak_gen ?s = 0" "pending_remote_ice ?s = []" "\<not> was_in_ice_flight_once ?s"
    by (simp_all add: dance_run)
      (simp_all add: new_offerer_def of_OnEnvelope_def HandleAnswerEnvelope_def example_answer_def
        example_rtc_def)
  show ?thesis
    using early_candidates_fifo [OF s(1,2,3) refl, of example_rtc sent_ok
        "[example_candidate, default_ice, default_ice\<lparr>is_end_of_candidates := True\<rparr>]" "[]"] s
    by (simp add: usable_def add_call_def example_candidate_def default_ice_def example_rtc_def
        Let_def del: of_step.simps fold_append)
qed

text \<open>The first half of the dance, up to the offer on the wire, in both orders.\<close>

definition offered :: "rtc_api \<Rightarrow> string \<Rightarrow> bool \<Rightarrow> Offerer" where
  "offered rtc sd obs =
     (let local = \<lparr>desc_type = ''offer'', desc_sdp = sd\<rparr> in
      (new_offerer obs)\<lparr>of_state := Of_kSettingLocal, of_pc := Some 0, next_pc := 1,
        initial_renegotiation_consumed := True, ws_connected := True,
        of_out := [Pc_CreateOffer 0 0, Tx (offer_envelope (rtc_to_string rtc local)) True,
          Pc_SetLocalDescription 0 local 0]\<rparr>)"

lemma offered_run:
  assumes "rtc_type_known rtc ''offer''" and "rtc_parses rtc \<lparr>desc_type = ''offer'', desc_sdp = sd\<rparr>"
    and "tx (offer_envelope (rtc_to_string rtc \<lparr>desc_type = ''offer'', desc_sdp = sd\<rparr>))"
  shows "fold (of_step rtc) (map (Pair tx) [Of_Start Pc_Created, Of_Posted 0 Hop_RenegotiationNeeded,
      Of_Connected, Of_Posted 0 (Hop_CreateOfferSuccess ''offer'' sd)]) (new_offerer obs)
      = offered rtc sd obs" (is ?first)
    and "fold (of_step rtc) (map (Pair tx) [Of_Start Pc_Created, Of_Posted 0 Hop_RenegotiationNeeded,
      Of_Posted 0 (Hop_CreateOfferSuccess ''offer'' sd), Of_Connected]) (new_offerer obs)
      = offered rtc sd obs" (is ?second)
proof -
  show ?first using assms by (simp add: run_defs offered_def)
  show ?second using assms by (simp add: run_defs offered_def)
qed

lemma answered_run:
  assumes "rtc_parses rtc \<lparr>desc_type = ''answer'', desc_sdp = sdp p\<rparr>"
    and "sdp p \<noteq> []" and "env_type a = kAnswer" and "env_data a = Sdp p"
    and "s = fold (of_step rtc) (map (Pair tx)
      [Of_Posted 0 (Hop_SetLocalDescriptionComplete True r), Of_Envelope a,
       Of_Posted 0 (Hop_SetRemoteDescriptionComplete True r)]) (offered rtc sd obs)"
  shows "of_state s = Of_kIceInFlight
    \<and> of_out s = of_out (offered rtc sd obs)
        @ [Pc_SetRemoteDescription 0 \<lparr>desc_type = ''answer'', desc_sdp = sdp p\<rparr> 0]"
  using assms(1-4) unfolding assms(5) by (simp add: run_defs offered_def)

text \<open>
  C4. The dance completes, and it does not matter whether the signaling channel comes up
  before or after the offer is ready: when libwebrtc answers every call with success and
  parses the descriptions, and the transport accepts the offer, the driver reaches
  steady state having made exactly one offer, put it on the wire once, and set the
  local and then the remote description.
\<close>

theorem dance_completes:
  assumes "rtc_type_known rtc ''offer''"
    and "rtc_parses rtc local" and "local = \<lparr>desc_type = ''offer'', desc_sdp = sd\<rparr>"
    and "rtc_parses rtc remote" and "remote = \<lparr>desc_type = ''answer'', desc_sdp = sdp p\<rparr>"
    and "sdp p \<noteq> []" and "env_type a = kAnswer" and "env_data a = Sdp p"
    and "tx (offer_envelope (rtc_to_string rtc local))"
    and "mid = [Of_Connected, Of_Posted 0 (Hop_CreateOfferSuccess ''offer'' sd)]
       \<or> mid = [Of_Posted 0 (Hop_CreateOfferSuccess ''offer'' sd), Of_Connected]"
    and "s = fold (of_step rtc) (map (Pair tx)
       ([Of_Start Pc_Created, Of_Posted 0 Hop_RenegotiationNeeded] @ mid
        @ [Of_Posted 0 (Hop_SetLocalDescriptionComplete True r), Of_Envelope a,
           Of_Posted 0 (Hop_SetRemoteDescriptionComplete True r)])) (new_offerer obs)"
  shows "of_state s = Of_kIceInFlight
    \<and> of_out s = [Pc_CreateOffer 0 0, Tx (offer_envelope (rtc_to_string rtc local)) True,
         Pc_SetLocalDescription 0 local 0, Pc_SetRemoteDescription 0 remote 0]"
proof -
  have "fold (of_step rtc) (map (Pair tx)
      ([Of_Start Pc_Created, Of_Posted 0 Hop_RenegotiationNeeded] @ mid)) (new_offerer obs)
    = offered rtc sd obs"
    using offered_run [of rtc sd tx obs] assms(1,2,3,9,10) by (auto simp del: of_step.simps)
  then have "s = fold (of_step rtc) (map (Pair tx)
      [Of_Posted 0 (Hop_SetLocalDescriptionComplete True r), Of_Envelope a,
       Of_Posted 0 (Hop_SetRemoteDescriptionComplete True r)]) (offered rtc sd obs)"
    unfolding assms(11) by (simp del: of_step.simps)
  from answered_run [OF _ assms(6,7,8) this] show ?thesis
    using assms(3,4,5) by (simp add: offered_def Let_def)
qed

theorem dance_completes_witness:
  "of_state (fold (of_step example_rtc) (map (Pair sent_ok)
     ([Of_Start Pc_Created, Of_Posted 0 Hop_RenegotiationNeeded]
      @ [Of_Posted 0 (Hop_CreateOfferSuccess ''offer'' ''v=0''), Of_Connected]
      @ [Of_Posted 0 (Hop_SetLocalDescriptionComplete True []), Of_Envelope example_answer,
         Of_Posted 0 (Hop_SetRemoteDescriptionComplete True [])])) (new_offerer True)) = Of_kIceInFlight"
proof -
  let ?mid = "[Of_Posted 0 (Hop_CreateOfferSuccess ''offer'' ''v=0''), Of_Connected]"
  have mid: "?mid = [Of_Connected, Of_Posted 0 (Hop_CreateOfferSuccess ''offer'' ''v=0'')] \<or> ?mid = ?mid"
    by simp
  show ?thesis
    by (rule dance_completes [where a = example_answer and rtc = example_rtc and tx = sent_ok
          and p = "\<lparr>sdp_type = ''answer'', sdp = ''v=1''\<rparr>", THEN conjunct1, OF _ _ refl _ refl _ _ _ _ mid refl])
      (simp_all add: example_rtc_def example_answer_def sent_ok_def)
qed

lemma weak_gen_keeps:
  "weak_gen (FailWithReason r s) = weak_gen s" "weak_gen (CloseInternal tx r src s) = weak_gen s"
  "weak_gen (BeginRenegotiation trig s) = weak_gen s" "weak_gen (AddRemoteIcePayload rtc p s) = weak_gen s"
  "weak_gen (HandleAnswerEnvelope rtc a s) = weak_gen s"
  "weak_gen (EmitOfferAndSetLocal rtc tx d s) = weak_gen s"
  by (simp_all add: FailWithReason_def CloseInternal_def SendByeEnvelope_def BeginRenegotiation_def
      AddRemoteIcePayload_def HandleAnswerEnvelope_def EmitOfferAndSetLocal_def SendOfferEnvelope_def
      transmit_def Let_def split: EnvelopeData.split)

lemma weak_gen_flush: "weak_gen (flush_ice rtc ps s) = weak_gen s"
  by (induction ps arbitrary: s) (simp_all add: weak_gen_keeps Let_def)

lemma weak_gen_hop: "weak_gen (run_hop rtc tx h s) = weak_gen s"
  by (cases h) (simp_all add: HopHandleIceCandidate_def SendIceCandidateEnvelope_def
      HopHandleIceGatheringChange_def SendIceEndOfCandidates_def HopHandleIceConnectionChange_def
      HopHandleRenegotiationNeeded_def HopHandleCreateOfferSuccess_def
      HopHandleCreateOfferFailure_def HopHandleSetLocalDescriptionComplete_def
      HopHandleSetRemoteDescriptionComplete_def FlushPendingRemoteIce_def weak_gen_keeps
      weak_gen_flush Let_def split: option.split)

lemma weak_gen_mono: "weak_gen s \<le> weak_gen (of_step rtc e s)"
proof -
  obtain tx ev where e: "e = (tx, ev)" by (cases e)
  show ?thesis
    by (cases ev) (auto simp: e Start_def Rearm_def RequestRenegotiation_def Close_def
        CloseUnhealthy_def SendSessionUnhealthyEnvelope_def PollOutboundStats_def of_OnConnected_def
        of_OnEnvelope_def HandleOfferEnvelope_def HandleIceEnvelope_def QueueRemoteIceCandidate_def
        HandleByeEnvelope_def HandleRequestRenegotiateEnvelope_def HandleProbeResultEnvelope_def
        of_OnClosed_def of_OnError_def weak_gen_keeps weak_gen_hop Let_def
        split: option.split pc_result.split EnvelopeType.split EnvelopeData.split)
qed

lemma weak_gen_run: "weak_gen s \<le> weak_gen (fold (of_step rtc) es s)"
  by (induction es arbitrary: s) (auto intro: order_trans [OF weak_gen_mono] simp del: of_step.simps)

text \<open>
  C28. A re-arm cuts every pending SDP callback of the old session: after it, a callback of an
  adapter made for any earlier call on a peer connection is dropped, now and after any
  further events.
\<close>

theorem rearm_cuts_sdp_callbacks:
  assumes "s = fold (of_step rtc) es (new_offerer obs)" and "Rearm tx b s = (True, t)"
    and "c \<in> set (of_out t)" and "call_gen c = Some g" and "u = fold (of_step rtc) es' t"
  shows "of_state t = Of_kIdle \<and> of_pc t = None \<and> of_step rtc (tx', Of_Posted g h) u = u"
proof -
  have inv: "of_invar s" unfolding assms(1) by (rule of_machine.invar_reached) blast
  have t: "of_state t = Of_kIdle" "of_pc t = None" "weak_gen t = weak_gen s + 1"
    using assms(2)
    by (auto simp: Rearm_def weak_gen_keeps Let_def split: if_splits option.splits)
  have "gens_le (weak_gen s) (of_out t)"
  proof -
    have "of_invar (CloseInternal tx ''rearm'' src s)" for src by (rule invar_Close [OF inv])
    then have "gens_le (weak_gen s) (of_out (CloseInternal tx ''rearm'' src s))" for src
      by (simp add: of_invar_def weak_gen_keeps)
    moreover have "gens_le (weak_gen s) (of_out s)" using inv by (simp add: of_invar_def)
    ultimately show ?thesis
      using assms(2) by (auto simp: Rearm_def Let_def split: if_splits option.splits)
  qed
  then have "g \<le> weak_gen s" using assms(3,4) by (auto simp: gens_le_def list_all_iff)
  then have "g < weak_gen u" using weak_gen_run [of t rtc es'] t(3) assms(5) by simp
  with t show ?thesis by simp
qed

theorem rearm_cuts_sdp_callbacks_witness:
  "let s = fold (of_step example_rtc) (dance ''v=0'') (new_offerer True);
       t = snd (Rearm sent_ok True s);
       late = (sent_ok, Of_Posted 0 (Hop_SetLocalDescriptionComplete True []))
   in of_state t = Of_kIdle \<and> of_step example_rtc late t = t"
proof -
  let ?s = "fold (of_step example_rtc) (dance ''v=0'') (new_offerer True)"
  let ?d = "\<lparr>desc_type = ''offer'', desc_sdp = ''v=0''\<rparr>"
  have ok: "Rearm sent_ok True ?s = (True, snd (Rearm sent_ok True ?s))"
    and mem: "Pc_SetLocalDescription 0 ?d 0 \<in> set (of_out (snd (Rearm sent_ok True ?s)))"
    by (simp_all add: dance_run)
      (simp_all add: Rearm_def CloseInternal_def SendByeEnvelope_def new_offerer_def Let_def)
  show ?thesis
    using rearm_cuts_sdp_callbacks [OF refl ok mem, of 0 "snd (Rearm sent_ok True ?s)" "[]" sent_ok
        "Hop_SetLocalDescriptionComplete True []"]
    by (simp add: Let_def del: of_step.simps)
qed

text \<open>A renegotiation request: of the embedder, of libwebrtc, or of the viewer.\<close>

definition is_request :: "nat \<Rightarrow> of_event \<Rightarrow> bool" where
  "is_request g e =
     (case e of
        Of_RequestRenegotiation \<Rightarrow> True
      | Of_Posted g' h \<Rightarrow> g' = g \<and> h = Hop_RenegotiationNeeded
      | Of_Envelope env \<Rightarrow> env_type env = kRequestRenegotiate
      | _ \<Rightarrow> False)"

lemma request_coalesced:
  assumes "of_state s = Of_kSettingRemote" and "initial_renegotiation_consumed s"
    and "is_request (weak_gen s) e"
  shows "of_step rtc (tx, e) s = s\<lparr>pending_renegotiation := True\<rparr>"
  using assms
  by (cases e) (simp_all add: is_request_def RequestRenegotiation_def BeginRenegotiation_def
      HopHandleRenegotiationNeeded_def of_OnEnvelope_def HandleRequestRenegotiateEnvelope_def)

lemma requests_coalesced:
  assumes "of_state s = Of_kSettingRemote" and "initial_renegotiation_consumed s"
    and "list_all (is_request (weak_gen s)) es" and "es \<noteq> []"
  shows "fold (of_step rtc) (map (Pair tx) es) s = s\<lparr>pending_renegotiation := True\<rparr>"
  using assms
proof (induction es arbitrary: s)
  case (Cons e es)
  have one: "of_step rtc (tx, e) s = s\<lparr>pending_renegotiation := True\<rparr>"
    using Cons.prems by (intro request_coalesced) auto
  show ?case
  proof (cases es)
    case Nil
    with one show ?thesis by (simp del: of_step.simps)
  next
    case (Cons e' es')
    have "fold (of_step rtc) (map (Pair tx) es) (s\<lparr>pending_renegotiation := True\<rparr>)
        = s\<lparr>pending_renegotiation := True, pending_renegotiation := True\<rparr>"
      using Cons.prems \<open>es = e' # es'\<close> by (intro Cons.IH) auto
    with one show ?thesis by (simp del: of_step.simps)
  qed
qed simp

text \<open>
  Renegotiation requests made while the answer is being applied, however many and from
  whichever side, are neither lost nor repeated: when the remote description is set the
  driver starts exactly one new offer for all of them.
\<close>

theorem requests_start_one_offer:
  assumes "of_state s = Of_kSettingRemote" and "of_pc s = Some p" and "initial_renegotiation_consumed s"
    and "pending_remote_ice s = []" and "has_observer s" and "was_in_ice_flight_once s"
    and "list_all (is_request (weak_gen s)) es" and "es \<noteq> []"
    and "t = fold (of_step rtc) (map (Pair tx)
      (es @ [Of_Posted (weak_gen s) (Hop_SetRemoteDescriptionComplete True r)])) s"
  shows "of_state t = Of_kCreatingOffer \<and> \<not> pending_renegotiation t \<and> \<not> current_offer_answered t
    \<and> of_out t = of_out s @ [Ob_RenegotiationCompleted,
        Ob_RenegotiationStarted ''coalesced-pending'', Pc_CreateOffer p (weak_gen s)]"
proof -
  have "t = HopHandleSetRemoteDescriptionComplete rtc True r (s\<lparr>pending_renegotiation := True\<rparr>)"
    using requests_coalesced [OF assms(1,3,7,8), of rtc tx] assms(9) by simp
  then show ?thesis
    using assms(1-6)
    by (simp add: HopHandleSetRemoteDescriptionComplete_def FlushPendingRemoteIce_def
        BeginRenegotiation_def Let_def)
qed

theorem requests_start_one_offer_witness:
  "let s = (new_offerer True)\<lparr>of_state := Of_kSettingRemote, of_pc := Some 0,
             initial_renegotiation_consumed := True, was_in_ice_flight_once := True\<rparr>;
       t = fold (of_step example_rtc) (map (Pair sent_ok)
             ([Of_RequestRenegotiation, Of_Posted 0 Hop_RenegotiationNeeded, Of_RequestRenegotiation]
              @ [Of_Posted (weak_gen s) (Hop_SetRemoteDescriptionComplete True [])])) s
   in of_out t = [Ob_RenegotiationCompleted, Ob_RenegotiationStarted ''coalesced-pending'',
        Pc_CreateOffer 0 0]"
  using requests_start_one_offer [where s = "(new_offerer True)\<lparr>of_state := Of_kSettingRemote,
      of_pc := Some 0, initial_renegotiation_consumed := True, was_in_ice_flight_once := True\<rparr>"
      and p = 0 and es = "[Of_RequestRenegotiation, Of_Posted 0 Hop_RenegotiationNeeded,
        Of_RequestRenegotiation]" and rtc = example_rtc and tx = sent_ok and r = "[]", OF _ _ _ _ _ _ _ _ refl]
  by (simp add: new_offerer_def is_request_def Let_def del: of_step.simps)

text \<open>
  Failure is final: a failed driver stays failed under every sequence of events, and
  every re-arm is refused.
\<close>

theorem failure_is_final:
  assumes "of_state s = Of_kFailed"
  shows "of_state (fold (of_step rtc) es s) = Of_kFailed
    \<and> fst (Rearm tx b (fold (of_step rtc) es s)) = False"
  using of_failed.absorbed_run [OF assms, of rtc es] by (simp add: Rearm_def)

theorem failure_is_final_witness:
  "of_state (fold (of_step example_rtc)
     [(sent_ok, Of_Start (Pc_Error [])), (sent_ok, Of_Rearm True), (sent_ok, Of_Start Pc_Created)]
     (new_offerer True)) = Of_kFailed"
proof -
  let ?s = "Start (Pc_Error []) (new_offerer True)"
  have "of_state ?s = Of_kFailed" by (simp add: Start_def new_offerer_def)
  from failure_is_final [OF this, of example_rtc "[(sent_ok, Of_Rearm True), (sent_ok, Of_Start Pc_Created)]"]
  show ?thesis by (simp only: fold_simps of_step.simps)
qed

text \<open>
  C40. The gate that holds back candidates before the offer does not survive a re-arm: once a
  session has been in steady state, a candidate callback that runs after the re-arm (its weak
  pointer is taken when it runs) goes out to the new viewer before any offer of the new
  session exists.
\<close>

theorem rearmed_driver_leaks_candidates:
  assumes "was_in_ice_flight_once s" and "of_state s \<notin> {Of_kIdle, Of_kFailed}"
    and "Rearm tx b s = (True, t)" and "cand_string c = Some sd"
  shows "of_state t = Of_kIdle
    \<and> of_step rtc (tx, Of_Posted (weak_gen t) (Hop_IceCandidate c)) t
      = emit (Tx (ice_envelope c sd) (tx (ice_envelope c sd))) t"
proof -
  have "was_in_ice_flight_once (CloseInternal tx r src s) = was_in_ice_flight_once s" for r src
    by (simp add: CloseInternal_def SendByeEnvelope_def Let_def)
  then have "of_state t = Of_kIdle \<and> was_in_ice_flight_once t"
    using assms(1-3) by (auto simp: Rearm_def Let_def split: if_splits option.splits)
  then show ?thesis
    using assms(4)
    by (simp add: HopHandleIceCandidate_def SendIceCandidateEnvelope_def Let_def)
qed

theorem rearmed_driver_leaks_candidates_witness:
  "let s = (new_offerer True)\<lparr>of_state := Of_kClosed, was_in_ice_flight_once := True\<rparr>;
       t = snd (Rearm sent_ok True s);
       c = \<lparr>cand_mid = ''0'', cand_mline = 0, cand_string = Some ''c''\<rparr>
   in of_out (of_step example_rtc (sent_ok, Of_Posted (weak_gen t) (Hop_IceCandidate c)) t)
      = [Tx (ice_envelope c ''c'') True]"
proof -
  let ?s = "(new_offerer True)\<lparr>of_state := Of_kClosed, was_in_ice_flight_once := True\<rparr>"
  have ok: "Rearm sent_ok True ?s = (True, snd (Rearm sent_ok True ?s))"
    and out: "of_out (snd (Rearm sent_ok True ?s)) = []"
    by (simp_all add: Rearm_def new_offerer_def Let_def)
  show ?thesis
    using rearmed_driver_leaks_candidates [OF _ _ ok, of
        "\<lparr>cand_mid = ''0'', cand_mline = 0, cand_string = Some ''c''\<rparr>" "''c''" example_rtc] out
    by (simp add: Let_def sent_ok_def del: of_step.simps)
qed

end
