(* ===== verification/Cb_Config.thy ===== *)
theory Cb_Config
  imports Cb_Ws_Client "HOL-Library.Sublist"
begin

text \<open>
  Configuration from the environment: the variable readers of
  \<^verbatim>\<open>capture/config/cb_env_config.{h,cc}\<close> and the ICE configuration of
  \<^verbatim>\<open>capture/signaling/cb_ice_config.{h,cc}\<close>. The environment is a map from names to values;
  the JSON reader is a parameter.
\<close>

section \<open>Environment variables\<close>

definition RawEnv :: "env_vars \<Rightarrow> string \<Rightarrow> string option" where
  "RawEnv env name = (case env name of None \<Rightarrow> None | Some raw \<Rightarrow> if raw = [] then None else Some raw)"

definition GetEnvOr :: "env_vars \<Rightarrow> string \<Rightarrow> string option \<Rightarrow> string" where
  "GetEnvOr env name fallback =
     (case RawEnv env name of
        None \<Rightarrow> (case fallback of None \<Rightarrow> [] | Some f \<Rightarrow> f)
      | Some raw \<Rightarrow> raw)"

definition GetEnv :: "env_vars \<Rightarrow> string \<Rightarrow> string option" where
  "GetEnv env name = RawEnv env name"

text \<open>The literal is lower case; the value is folded to lower case character by character.\<close>

fun eq_lower :: "string \<Rightarrow> string \<Rightarrow> bool" where
  "eq_lower [] [] = True"
| "eq_lower (c # cs) (l # ls) = (ToLowerASCII c = l \<and> eq_lower cs ls)"
| "eq_lower _ _ = False"

definition GetEnvBool :: "env_vars \<Rightarrow> string \<Rightarrow> bool \<Rightarrow> bool" where
  "GetEnvBool env name fallback =
     (case RawEnv env name of
        None \<Rightarrow> fallback
      | Some v \<Rightarrow> \<not> (eq_lower v ''0'' \<or> eq_lower v ''false'' \<or> eq_lower v ''no'' \<or> eq_lower v ''off''))"

section \<open>ICE configuration\<close>

record IceServer =
  urls :: "string list"
  username :: string
  password :: string

datatype IceTransportsType = kRelay | kAll

record IceSummary =
  stun :: nat
  turn :: nat
  other :: nat

record IceConfig =
  servers :: "IceServer list"
  transport_policy :: IceTransportsType
  summary :: IceSummary

definition ice_getenv :: "env_vars \<Rightarrow> string \<Rightarrow> string" where
  "ice_getenv env name = (case env name of None \<Rightarrow> [] | Some v \<Rightarrow> v)"

definition AsciiLower :: "string \<Rightarrow> string" where
  "AsciiLower s = map ToLowerASCII s"

fun nonempty_strings :: "json list \<Rightarrow> string list" where
  "nonempty_strings [] = []"
| "nonempty_strings (v # vs) =
     (case GetIfString v of
        Some s \<Rightarrow> (if s \<noteq> [] then s # nonempty_strings vs else nonempty_strings vs)
      | None \<Rightarrow> nonempty_strings vs)"

definition or_empty :: "string option \<Rightarrow> string" where
  "or_empty v = (case v of None \<Rightarrow> [] | Some s \<Rightarrow> s)"

definition TryAppendServer :: "json_dict \<Rightarrow> IceServer list \<Rightarrow> IceServer list" where
  "TryAppendServer entry out =
     (case Find entry ''urls'' of
        None \<Rightarrow> out
      | Some urls_value \<Rightarrow>
          let add = (\<lambda>us. out @ [\<lparr>urls = us, username = or_empty (FindString entry ''username''),
                                   password = or_empty (FindString entry ''credential'')\<rparr>])
          in case GetIfString urls_value of
               Some single \<Rightarrow> (if single = [] then out else add [single])
             | None \<Rightarrow> (case GetIfList urls_value of
                 Some list \<Rightarrow> (if nonempty_strings list = [] then out else add (nonempty_strings list))
               | None \<Rightarrow> out))"

fun append_servers :: "json list \<Rightarrow> IceServer list \<Rightarrow> IceServer list" where
  "append_servers [] out = out"
| "append_servers (entry # rest) out =
     (case GetIfDict entry of
        None \<Rightarrow> append_servers rest out
      | Some dict \<Rightarrow> append_servers rest (TryAppendServer dict out))"

definition ParseIceServersJson :: "(string \<Rightarrow> json option) \<Rightarrow> string \<Rightarrow> IceServer list option" where
  "ParseIceServersJson rd raw_json =
     (if raw_json = [] then None
      else case rd raw_json of
        None \<Rightarrow> None
      | Some parsed \<Rightarrow>
          (case (case parsed of
                   JList l \<Rightarrow> Some l
                 | JDict d \<Rightarrow> FindList d ''iceServers''
                 | _ \<Rightarrow> None) of
             None \<Rightarrow> None
           | Some candidates \<Rightarrow>
               let ss = append_servers candidates [] in if ss = [] then None else Some ss))"

definition ParseIceTransportPolicy :: "string \<Rightarrow> IceTransportsType" where
  "ParseIceTransportPolicy raw = (if AsciiLower raw = ''relay'' then kRelay else kAll)"

definition BuildDefaultIceServers :: "IceServer list" where
  "BuildDefaultIceServers =
     [\<lparr>urls = [''stun:stun.l.google.com:19302''], username = [], password = []\<rparr>]"

definition count_url :: "string \<Rightarrow> IceSummary \<Rightarrow> IceSummary" where
  "count_url url out =
     (if prefix ''stun:'' url \<or> prefix ''stuns:'' url then out\<lparr>stun := stun out + 1\<rparr>
      else if prefix ''turn:'' url \<or> prefix ''turns:'' url then out\<lparr>turn := turn out + 1\<rparr>
      else out\<lparr>other := other out + 1\<rparr>)"

definition SummariseIceServers :: "IceServer list \<Rightarrow> IceSummary" where
  "SummariseIceServers ss =
     fold (\<lambda>server out. fold count_url (urls server) out) ss \<lparr>stun = 0, turn = 0, other = 0\<rparr>"

definition LoadIceConfigFromEnv :: "(string \<Rightarrow> json option) \<Rightarrow> env_vars \<Rightarrow> IceConfig option" where
  "LoadIceConfigFromEnv rd env =
     (let parsed = ParseIceServersJson rd (ice_getenv env ''WEBRTC_ICE_SERVERS'');
          ss = (case parsed of Some p \<Rightarrow> p | None \<Rightarrow> BuildDefaultIceServers)
      in Some \<lparr>servers = ss,
               transport_policy = ParseIceTransportPolicy (ice_getenv env ''WEBRTC_ICE_TRANSPORT_POLICY''),
               summary = SummariseIceServers ss\<rparr>)"

section \<open>Well-formed servers\<close>

definition server_ok :: "IceServer \<Rightarrow> bool" where
  "server_ok s \<longleftrightarrow> urls s \<noteq> [] \<and> list_all (\<lambda>u. u \<noteq> []) (urls s)"

lemma nonempty_strings_ok: "list_all (\<lambda>u. u \<noteq> []) (nonempty_strings vs)"
  by (induction vs) (auto split: option.splits)

lemma TryAppendServer_ok: "list_all server_ok out \<Longrightarrow> list_all server_ok (TryAppendServer entry out)"
  by (auto simp: TryAppendServer_def server_ok_def nonempty_strings_ok Let_def split: option.splits)

lemma append_servers_ok: "list_all server_ok out \<Longrightarrow> list_all server_ok (append_servers vs out)"
  by (induction vs out rule: append_servers.induct) (auto simp: TryAppendServer_ok split: option.splits)

lemma ParseIceServersJson_ok:
  "ParseIceServersJson rd raw = Some ss \<Longrightarrow> ss \<noteq> [] \<and> list_all server_ok ss"
  using append_servers_ok [of "[]"]
  by (auto simp: ParseIceServersJson_def Let_def split: if_splits option.splits json.splits)

definition total :: "IceSummary \<Rightarrow> nat" where
  "total s = stun s + turn s + other s"

lemma total_count_urls: "total (fold count_url us out) = total out + length us"
  by (induction us arbitrary: out) (simp_all add: count_url_def total_def)

lemma total_summary:
  "total (fold (\<lambda>server out. fold count_url (urls server) out) ss out)
   = total out + length (concat (map urls ss))"
  by (induction ss arbitrary: out) (simp_all add: total_count_urls)

text \<open>The JSON an operator writes for a server.\<close>

definition server_json :: "IceServer \<Rightarrow> json" where
  "server_json s =
     JDict [(''urls'', JList (map JString (urls s))), (''username'', JString (username s)),
            (''credential'', JString (password s))]"

lemma nonempty_strings_map: "list_all (\<lambda>u. u \<noteq> []) us \<Longrightarrow> nonempty_strings (map JString us) = us"
  by (induction us) simp_all

lemma TryAppendServer_json:
  "server_ok s \<Longrightarrow> append_servers [server_json s] out = out @ [s]"
  by (simp add: server_json_def TryAppendServer_def server_ok_def nonempty_strings_map or_empty_def
      GetIfString_def GetIfList_def)

lemma append_servers_json:
  "list_all server_ok ss \<Longrightarrow> append_servers (map server_json ss) out = out @ ss"
proof (induction ss arbitrary: out)
  case (Cons s ss)
  have "append_servers (map server_json (s # ss)) out
      = append_servers (map server_json ss) (append_servers [server_json s] out)"
    by (simp add: server_json_def)
  then show ?case using Cons TryAppendServer_json [of s out] by simp
qed simp

section \<open>Properties\<close>

text \<open>
  The ICE configuration is always usable: for every environment and every behaviour of
  the JSON reader the loader returns a configuration whose server list is not empty, whose
  every server has at least one URL and no empty URL, and whose summary counts every URL
  exactly once.
\<close>

theorem ice_config_usable:
  "\<exists>cfg. LoadIceConfigFromEnv rd env = Some cfg \<and> servers cfg \<noteq> []
     \<and> list_all server_ok (servers cfg)
     \<and> total (summary cfg) = length (concat (map urls (servers cfg)))"
proof -
  let ?ss = "case ParseIceServersJson rd (ice_getenv env ''WEBRTC_ICE_SERVERS'') of
    Some p \<Rightarrow> p | None \<Rightarrow> BuildDefaultIceServers"
  have "?ss \<noteq> [] \<and> list_all server_ok ?ss"
    using ParseIceServersJson_ok
    by (auto simp: BuildDefaultIceServers_def server_ok_def split: option.splits)
  then show ?thesis
    using total_summary [of ?ss "\<lparr>stun = 0, turn = 0, other = 0\<rparr>"]
    by (simp add: LoadIceConfigFromEnv_def SummariseIceServers_def total_def Let_def)
qed

text \<open>
  Round trip of a server list: what an operator writes for a non-empty list of
  well-formed servers, as a bare array or wrapped in an object, is read back as that list,
  with credentials in their place.
\<close>

theorem ice_servers_roundtrip:
  assumes "ss \<noteq> []" and "list_all server_ok ss" and "raw \<noteq> []"
    and "rd raw = Some (JList (map server_json ss))
      \<or> rd raw = Some (JDict [(''iceServers'', JList (map server_json ss))])"
  shows "ParseIceServersJson rd raw = Some ss"
  using assms append_servers_json [OF assms(2), of "[]"]
  by (auto simp: ParseIceServersJson_def FindList_def Let_def)

theorem ice_servers_roundtrip_witness:
  "ParseIceServersJson
     (\<lambda>_. Some (JDict [(''iceServers'', JList [server_json
        \<lparr>urls = [''turn:t''], username = ''u'', password = ''p''\<rparr>])])) ''x''
   = Some [\<lparr>urls = [''turn:t''], username = ''u'', password = ''p''\<rparr>]"
  by (rule ice_servers_roundtrip) (simp_all add: server_ok_def)

lemma eq_lower_map: "eq_lower v l \<longleftrightarrow> map ToLowerASCII v = l"
  by (induction v l rule: eq_lower.induct) auto

text \<open>
  C30. A boolean variable is false exactly for 0, false, no and off in any case; unset and
  empty give the fallback, and everything else is true.
\<close>

theorem GetEnvBool_values:
  "GetEnvBool env name fallback =
     (if ice_getenv env name = [] then fallback
      else AsciiLower (ice_getenv env name) \<notin> {''0'', ''false'', ''no'', ''off''})"
  by (simp add: GetEnvBool_def RawEnv_def ice_getenv_def AsciiLower_def eq_lower_map split: option.split)

end
