(* ===== verification/Cb_Cursor_Envelope.thy ===== *)
theory Cb_Cursor_Envelope
  imports Cb_Prelude
begin

text \<open>
  The cursor channel's wire format on both sides: the keyword table, the envelope assembler
  and its encoder (\<^verbatim>\<open>capture/cursor/cb_cursor_envelope.{h,cc}\<close>), custom cursor images
  (\<^verbatim>\<open>capture/cursor/cb_custom_cursor_image.{h,cc}\<close>), and the viewer that validates an
  envelope and turns it into a CSS cursor (\<^verbatim>\<open>client/src/cursor.ts\<close>). The PNG and Base64
  encoders and the JSON reader and writer are arguments.
\<close>

section \<open>Cursor types and their keywords\<close>

text \<open>
  The enumerators the switch names; \<open>Ct_other\<close> stands for those it does not (the enumeration
  itself belongs to Chromium).
\<close>

datatype CursorType =
    Ct_kPointer | Ct_kHand | Ct_kIBeam | Ct_kVerticalText | Ct_kCross
  | Ct_kWait | Ct_kProgress | Ct_kHelp | Ct_kContextMenu | Ct_kCell
  | Ct_kAlias | Ct_kCopy | Ct_kNoDrop | Ct_kNotAllowed | Ct_kGrab
  | Ct_kGrabbing | Ct_kMove | Ct_kZoomIn | Ct_kZoomOut | Ct_kEastResize
  | Ct_kNorthResize | Ct_kNorthEastResize | Ct_kNorthWestResize | Ct_kSouthResize | Ct_kSouthEastResize
  | Ct_kSouthWestResize | Ct_kWestResize | Ct_kEastWestResize | Ct_kNorthSouthResize | Ct_kNorthEastSouthWestResize
  | Ct_kNorthWestSouthEastResize | Ct_kColumnResize | Ct_kRowResize | Ct_kMiddlePanning | Ct_kEastPanning
  | Ct_kNorthPanning | Ct_kNorthEastPanning | Ct_kNorthWestPanning | Ct_kSouthPanning | Ct_kSouthEastPanning
  | Ct_kSouthWestPanning | Ct_kWestPanning | Ct_kNone | Ct_kNull | Ct_kCustom
  | Ct_kDndNone | Ct_kDndMove | Ct_kDndCopy | Ct_kDndLink
  | Ct_other nat

fun CssKeywordForType :: "CursorType \<Rightarrow> string" where
  "CssKeywordForType Ct_kPointer = ''default''"
| "CssKeywordForType Ct_kHand = ''pointer''"
| "CssKeywordForType Ct_kIBeam = ''text''"
| "CssKeywordForType Ct_kVerticalText = ''vertical-text''"
| "CssKeywordForType Ct_kCross = ''crosshair''"
| "CssKeywordForType Ct_kWait = ''wait''"
| "CssKeywordForType Ct_kProgress = ''progress''"
| "CssKeywordForType Ct_kHelp = ''help''"
| "CssKeywordForType Ct_kContextMenu = ''context-menu''"
| "CssKeywordForType Ct_kCell = ''cell''"
| "CssKeywordForType Ct_kAlias = ''alias''"
| "CssKeywordForType Ct_kCopy = ''copy''"
| "CssKeywordForType Ct_kNoDrop = ''no-drop''"
| "CssKeywordForType Ct_kNotAllowed = ''not-allowed''"
| "CssKeywordForType Ct_kGrab = ''grab''"
| "CssKeywordForType Ct_kGrabbing = ''grabbing''"
| "CssKeywordForType Ct_kMove = ''move''"
| "CssKeywordForType Ct_kZoomIn = ''zoom-in''"
| "CssKeywordForType Ct_kZoomOut = ''zoom-out''"
| "CssKeywordForType Ct_kEastResize = ''e-resize''"
| "CssKeywordForType Ct_kNorthResize = ''n-resize''"
| "CssKeywordForType Ct_kNorthEastResize = ''ne-resize''"
| "CssKeywordForType Ct_kNorthWestResize = ''nw-resize''"
| "CssKeywordForType Ct_kSouthResize = ''s-resize''"
| "CssKeywordForType Ct_kSouthEastResize = ''se-resize''"
| "CssKeywordForType Ct_kSouthWestResize = ''sw-resize''"
| "CssKeywordForType Ct_kWestResize = ''w-resize''"
| "CssKeywordForType Ct_kEastWestResize = ''ew-resize''"
| "CssKeywordForType Ct_kNorthSouthResize = ''ns-resize''"
| "CssKeywordForType Ct_kNorthEastSouthWestResize = ''nesw-resize''"
| "CssKeywordForType Ct_kNorthWestSouthEastResize = ''nwse-resize''"
| "CssKeywordForType Ct_kColumnResize = ''col-resize''"
| "CssKeywordForType Ct_kRowResize = ''row-resize''"
| "CssKeywordForType Ct_kMiddlePanning = ''all-scroll''"
| "CssKeywordForType Ct_kEastPanning = ''all-scroll''"
| "CssKeywordForType Ct_kNorthPanning = ''all-scroll''"
| "CssKeywordForType Ct_kNorthEastPanning = ''all-scroll''"
| "CssKeywordForType Ct_kNorthWestPanning = ''all-scroll''"
| "CssKeywordForType Ct_kSouthPanning = ''all-scroll''"
| "CssKeywordForType Ct_kSouthEastPanning = ''all-scroll''"
| "CssKeywordForType Ct_kSouthWestPanning = ''all-scroll''"
| "CssKeywordForType Ct_kWestPanning = ''all-scroll''"
| "CssKeywordForType Ct_kNone = ''none''"
| "CssKeywordForType Ct_kNull = ''default''"
| "CssKeywordForType Ct_kCustom = ''custom''"
| "CssKeywordForType Ct_kDndNone = ''no-drop''"
| "CssKeywordForType Ct_kDndMove = ''move''"
| "CssKeywordForType Ct_kDndCopy = ''copy''"
| "CssKeywordForType Ct_kDndLink = ''alias''"
| "CssKeywordForType (Ct_other n) = ''default''"

definition ShapeForType :: "CursorType \<Rightarrow> string" where
  "ShapeForType type = CssKeywordForType type"

section \<open>Assembling an envelope\<close>

record V1EnvelopeView =
  vw_v :: int
  type_tag :: string
  t_epoch_ms :: int
  vw_seq :: int
  vw_x :: int
  vw_y :: int
  vw_visible :: bool
  vw_shape :: string
  hotspot_x :: "int option"
  hotspot_y :: "int option"
  custom_image_b64 :: string
  image_format :: string

record EnvelopeAssembler =
  asm_seq :: int
  latched_x :: int
  latched_y :: int

definition new_assembler :: EnvelopeAssembler where
  "new_assembler = \<lparr>asm_seq = 0, latched_x = 0, latched_y = 0\<rparr>"

definition SetLatchedPosition :: "int \<Rightarrow> int \<Rightarrow> EnvelopeAssembler \<Rightarrow> EnvelopeAssembler" where
  "SetLatchedPosition x y a = a\<lparr>latched_x := x, latched_y := y\<rparr>"

text \<open>\<open>clock\<close> is the wall clock, read when the caller passes the sentinel 0.\<close>

definition Assemble ::
  "int \<Rightarrow> CursorType \<Rightarrow> bool \<Rightarrow> int \<Rightarrow> EnvelopeAssembler \<Rightarrow> V1EnvelopeView \<times> EnvelopeAssembler" where
  "Assemble clock type visible now_epoch_ms a =
     (\<lparr>vw_v = 1, type_tag = ''cursor'',
       t_epoch_ms = (if now_epoch_ms \<noteq> 0 then now_epoch_ms else clock),
       vw_seq = asm_seq a, vw_x = latched_x a, vw_y = latched_y a, vw_visible = visible,
       vw_shape = (if visible then CssKeywordForType type else ''none''),
       hotspot_x = None, hotspot_y = None, custom_image_b64 = [], image_format = []\<rparr>,
      a\<lparr>asm_seq := asm_seq a + 1\<rparr>)"

definition hotspot_field :: "V1EnvelopeView \<Rightarrow> json_dict \<Rightarrow> json_dict" where
  "hotspot_field view d =
     (case (hotspot_x view, hotspot_y view) of
        (Some hx, Some hy) \<Rightarrow>
          DictSet ''hotspot'' (JDict (DictSet ''y'' (JInt hy) (DictSet ''x'' (JInt hx) []))) d
      | _ \<Rightarrow> d)"

definition image_fields :: "V1EnvelopeView \<Rightarrow> json_dict \<Rightarrow> json_dict" where
  "image_fields view d =
     (if custom_image_b64 view \<noteq> [] then
        DictSet ''image_format''
          (JString (if image_format view = [] then ''png'' else image_format view))
          (DictSet ''custom_image_b64'' (JString (custom_image_b64 view)) d)
      else d)"

definition view_data :: "V1EnvelopeView \<Rightarrow> json_dict" where
  "view_data view =
     image_fields view (hotspot_field view
       (DictSet ''shape'' (JString (vw_shape view))
         (DictSet ''visible'' (JBool (vw_visible view))
           (DictSet ''y'' (JInt (vw_y view)) (DictSet ''x'' (JInt (vw_x view)) [])))))"

text \<open>The time and the sequence number are written as doubles; up to 53 bits they are exact.\<close>

definition view_json :: "V1EnvelopeView \<Rightarrow> json" where
  "view_json view =
     JDict (DictSet ''data'' (JDict (view_data view))
       (DictSet ''seq'' (JDouble (of_int (vw_seq view)))
         (DictSet ''t'' (JDouble (of_int (t_epoch_ms view)))
           (DictSet ''type'' (JString (type_tag view)) (DictSet ''v'' (JInt (vw_v view)) [])))))"

definition EncodeJson :: "(json \<Rightarrow> 't option) \<Rightarrow> V1EnvelopeView \<Rightarrow> 't option" where
  "EncodeJson wr view = wr (view_json view)"

definition AssembleAndEncode ::
  "(json \<Rightarrow> 't option) \<Rightarrow> int \<Rightarrow> CursorType \<Rightarrow> bool \<Rightarrow> int \<Rightarrow> EnvelopeAssembler
    \<Rightarrow> 't option \<times> EnvelopeAssembler" where
  "AssembleAndEncode wr clock type visible now_epoch_ms a =
     (case Assemble clock type visible now_epoch_ms a of (view, a') \<Rightarrow> (EncodeJson wr view, a'))"

section \<open>Custom cursor images\<close>

text \<open>
  A cursor of the toolkit: its type, the pixel size of the bitmap (nothing when it is null),
  the hotspot and the scale. \<open>png\<close> is the PNG encoder on the cursor's bitmap, \<open>b64\<close> the
  Base64 encoder.
\<close>

record Cursor =
  cur_type :: CursorType
  cur_bitmap :: "(nat \<times> nat) option"
  cur_hotspot :: "int \<times> int"
  cur_scale :: rat

datatype Skip = kNone | kNotCustom | kBitmapEmpty | kEncodeFailed | kOverCap

record CustomImageExtraction =
  ex_ok :: bool
  ex_skip :: Skip
  ex_image :: string
  ex_hotspot_x :: int
  ex_hotspot_y :: int
  ex_format :: string
  ex_scale :: rat

definition kV1CustomImageB64MaxBytes :: nat where
  "kV1CustomImageB64MaxBytes = 64 * 1024"

definition default_extraction :: CustomImageExtraction where
  "default_extraction = \<lparr>ex_ok = False, ex_skip = kNotCustom, ex_image = [], ex_hotspot_x = 0,
     ex_hotspot_y = 0, ex_format = [], ex_scale = 1\<rparr>"

definition ExtractCustomImage ::
  "(Cursor \<Rightarrow> string option) \<Rightarrow> (string \<Rightarrow> string) \<Rightarrow> Cursor \<Rightarrow> CustomImageExtraction" where
  "ExtractCustomImage png b64 cursor =
     (let out = default_extraction in
      if cur_type cursor \<noteq> Ct_kCustom then out\<lparr>ex_skip := kNotCustom\<rparr>
      else let out = out\<lparr>ex_scale := cur_scale cursor\<rparr> in
        case cur_bitmap cursor of
          None \<Rightarrow> out\<lparr>ex_skip := kBitmapEmpty\<rparr>
        | Some (w, h) \<Rightarrow>
            if w = 0 \<or> h = 0 then out\<lparr>ex_skip := kBitmapEmpty\<rparr>
            else (case png cursor of
                None \<Rightarrow> out\<lparr>ex_skip := kEncodeFailed\<rparr>
              | Some bytes \<Rightarrow>
                  if bytes = [] then out\<lparr>ex_skip := kEncodeFailed\<rparr>
                  else if length (b64 bytes) > kV1CustomImageB64MaxBytes
                  then out\<lparr>ex_skip := kOverCap\<rparr>
                  else out\<lparr>ex_ok := True, ex_skip := kNone, ex_image := b64 bytes,
                         ex_hotspot_x := fst (cur_hotspot cursor),
                         ex_hotspot_y := snd (cur_hotspot cursor), ex_format := ''png''\<rparr>))"

definition ApplyExtractionToEnvelope ::
  "CustomImageExtraction \<Rightarrow> V1EnvelopeView \<Rightarrow> bool \<times> V1EnvelopeView" where
  "ApplyExtractionToEnvelope extraction view =
     (if \<not> ex_ok extraction then (False, view)
      else (True, view\<lparr>custom_image_b64 := ex_image extraction,
                       hotspot_x := Some (ex_hotspot_x extraction),
                       hotspot_y := Some (ex_hotspot_y extraction),
                       image_format := ex_format extraction\<rparr>))"

section \<open>The viewer\<close>

text \<open>
  The values of JavaScript the renderer meets are those of JSON; a property that is missing
  is \<open>None\<close> (undefined), \<open>JNone\<close> is null. Numbers compare by value.
\<close>

definition js_get :: "json \<Rightarrow> string \<Rightarrow> json option" where
  "js_get v k = (case v of JDict d \<Rightarrow> Find d k | _ \<Rightarrow> None)"

fun js_number :: "json option \<Rightarrow> rat option" where
  "js_number (Some (JInt i)) = Some (of_int i)"
| "js_number (Some (JDouble r)) = Some r"
| "js_number _ = None"

fun js_string :: "json option \<Rightarrow> string option" where
  "js_string (Some (JString s)) = Some s"
| "js_string _ = None"

fun js_boolean :: "json option \<Rightarrow> bool option" where
  "js_boolean (Some (JBool b)) = Some b"
| "js_boolean _ = None"

fun js_is_object :: "json option \<Rightarrow> bool" where
  "js_is_object (Some (JDict d)) = True"
| "js_is_object (Some (JList l)) = True"
| "js_is_object _ = False"

definition js_field :: "json option \<Rightarrow> string \<Rightarrow> json option" where
  "js_field v k = Option.bind v (\<lambda>u. js_get u k)"

definition KNOWN_SHAPES :: "string list" where
  "KNOWN_SHAPES =
     [''default'', ''pointer'', ''text'', ''wait'', ''crosshair'', ''move'', ''not-allowed'', ''grab'',
      ''grabbing'', ''ew-resize'', ''ns-resize'', ''nesw-resize'', ''nwse-resize'', ''col-resize'',
      ''row-resize'', ''n-resize'', ''e-resize'', ''s-resize'', ''w-resize'', ''ne-resize'',
      ''nw-resize'', ''se-resize'', ''sw-resize'', ''zoom-in'', ''zoom-out'', ''help'', ''progress'',
      ''vertical-text'', ''context-menu'', ''alias'', ''copy'', ''cell'', ''all-scroll'', ''no-drop'',
      ''custom'', ''none'']"

definition isValidEnvelope :: "json \<Rightarrow> bool" where
  "isValidEnvelope env \<longleftrightarrow>
     js_is_object (Some env)
     \<and> js_number (js_get env ''v'') = Some 1
     \<and> js_string (js_get env ''type'') = Some ''cursor''
     \<and> js_number (js_get env ''t'') \<noteq> None \<and> js_number (js_get env ''seq'') \<noteq> None
     \<and> (let d = js_get env ''data'' in
        js_is_object d
        \<and> js_number (js_field d ''x'') \<noteq> None \<and> js_number (js_field d ''y'') \<noteq> None
        \<and> js_boolean (js_field d ''visible'') \<noteq> None \<and> js_string (js_field d ''shape'') \<noteq> None
        \<and> (case js_field d ''custom_image_b64'' of
             None \<Rightarrow> True
           | Some v \<Rightarrow> (case js_string (Some v) of None \<Rightarrow> False | Some s \<Rightarrow> length s \<le> 64 * 1024)))"

text \<open>\<^verbatim>\<open>Math.round\<close> rounds halves up.\<close>

definition clampHotspot :: "json option \<Rightarrow> int" where
  "clampHotspot v =
     (case js_number v of
        None \<Rightarrow> 0
      | Some r \<Rightarrow> if r < 0 then 0 else min \<lfloor>r + 1 / 2\<rfloor> (128 - 1))"

definition cssCursorFor :: "string \<Rightarrow> json option \<Rightarrow> string" where
  "cssCursorFor shape d =
     (if shape \<noteq> ''custom'' then shape
      else case js_string (js_field d ''custom_image_b64'') of
        None \<Rightarrow> ''default''
      | Some img \<Rightarrow>
          if img = [] \<or> js_string (js_field d ''image_format'') \<noteq> Some ''png'' then ''default''
          else let hx = clampHotspot (js_field (js_field d ''hotspot'') ''x'');
                   hy = clampHotspot (js_field (js_field d ''hotspot'') ''y'')
               in ''url('' @ [CHR 0x22] @ ''data:image/png;base64,'' @ img @ [CHR 0x22] @ '') ''
                  @ NumberToString hx @ '' '' @ NumberToString hy @ '', default'')"

record Viewer =
  overlay_shape :: string
  video_cursor :: string

definition update :: "json \<Rightarrow> Viewer \<Rightarrow> Viewer" where
  "update env r =
     (if \<not> isValidEnvelope env then r
      else let d = js_get env ''data'' in
        if js_boolean (js_field d ''visible'') = Some False
        then r\<lparr>overlay_shape := ''none'', video_cursor := ''none''\<rparr>
        else let s = (case js_string (js_field d ''shape'') of None \<Rightarrow> [] | Some s \<Rightarrow> s);
                 shape = (if s \<in> set KNOWN_SHAPES then s else ''default'')
             in r\<lparr>overlay_shape := shape, video_cursor := cssCursorFor shape d\<rparr>)"

text \<open>The message handler of the channel: text that is not JSON is dropped.\<close>

definition attachCursorChannel :: "('t \<Rightarrow> json option) \<Rightarrow> 't \<Rightarrow> Viewer \<Rightarrow> Viewer" where
  "attachCursorChannel rd text r = (case rd text of None \<Rightarrow> r | Some env \<Rightarrow> update env r)"

section \<open>What the viewer reads\<close>

lemma keyword_known: "CssKeywordForType type \<in> set KNOWN_SHAPES"
  by (cases type) (simp_all add: KNOWN_SHAPES_def)

lemma keyword_custom: "CssKeywordForType type = ''custom'' \<longleftrightarrow> type = Ct_kCustom"
  by (cases type) simp_all

lemma view_data_fields [simp]:
  "Find (view_data view) ''x'' = Some (JInt (vw_x view))"
  "Find (view_data view) ''y'' = Some (JInt (vw_y view))"
  "Find (view_data view) ''visible'' = Some (JBool (vw_visible view))"
  "Find (view_data view) ''shape'' = Some (JString (vw_shape view))"
  "Find (view_data view) ''custom_image_b64'' =
     (if custom_image_b64 view \<noteq> [] then Some (JString (custom_image_b64 view)) else None)"
  "Find (view_data view) ''image_format'' =
     (if custom_image_b64 view \<noteq> []
      then Some (JString (if image_format view = [] then ''png'' else image_format view)) else None)"
  "hotspot_x view = Some hx \<Longrightarrow> hotspot_y view = Some hy
   \<Longrightarrow> Find (view_data view) ''hotspot'' = Some (JDict (DictSet ''y'' (JInt hy) (DictSet ''x'' (JInt hx) [])))"
  by (simp_all add: view_data_def image_fields_def hotspot_field_def split: option.split)

lemma view_json_fields [simp]:
  "js_get (view_json view) ''v'' = Some (JInt (vw_v view))"
  "js_get (view_json view) ''type'' = Some (JString (type_tag view))"
  "js_get (view_json view) ''t'' = Some (JDouble (of_int (t_epoch_ms view)))"
  "js_get (view_json view) ''seq'' = Some (JDouble (of_int (vw_seq view)))"
  "js_get (view_json view) ''data'' = Some (JDict (view_data view))"
  by (simp_all add: view_json_def js_get_def)

lemma js_field_dict [simp]: "js_field (Some (JDict d)) k = Find d k"
  by (simp add: js_field_def js_get_def)

lemma view_json_valid:
  "isValidEnvelope (view_json view) \<longleftrightarrow>
     vw_v view = 1 \<and> type_tag view = ''cursor'' \<and> length (custom_image_b64 view) \<le> 64 * 1024"
  by (simp add: isValidEnvelope_def Let_def) (simp add: view_json_def)

text \<open>
  The CSS cursor an envelope means: nothing for a hidden cursor, the image of a custom one
  when there is a usable one, and the keyword of the type otherwise.
\<close>

definition css_point :: "int \<Rightarrow> string" where
  "css_point i = NumberToString (if i < 0 then 0 else min i 127)"

definition css_meaning :: "CursorType \<Rightarrow> bool \<Rightarrow> CustomImageExtraction \<Rightarrow> string" where
  "css_meaning type visible ex =
     (if \<not> visible then ''none''
      else if type \<noteq> Ct_kCustom then ShapeForType type
      else if \<not> ex_ok ex then ''default''
      else ''url('' @ [CHR 0x22] @ ''data:image/png;base64,'' @ ex_image ex @ [CHR 0x22] @ '') ''
           @ css_point (ex_hotspot_x ex) @ '' '' @ css_point (ex_hotspot_y ex) @ '', default'')"

lemma clampHotspot_int [simp]: "NumberToString (clampHotspot (Some (JInt i))) = css_point i"
proof -
  have "\<lfloor>of_int i + 1 / (2::rat)\<rfloor> = i" by linarith
  then show ?thesis by (simp add: clampHotspot_def css_point_def)
qed

text \<open>What an extraction gives: an image only for a custom cursor, within the cap, as PNG.\<close>

lemma extraction_ok:
  assumes "ex_ok (ExtractCustomImage png b64 c)"
  shows "cur_type c = Ct_kCustom \<and> ex_format (ExtractCustomImage png b64 c) = ''png''
    \<and> length (ex_image (ExtractCustomImage png b64 c)) \<le> 64 * 1024
    \<and> (\<exists>bytes. bytes \<noteq> [] \<and> ex_image (ExtractCustomImage png b64 c) = b64 bytes)"
  using assms
  by (auto simp: ExtractCustomImage_def default_extraction_def kV1CustomImageB64MaxBytes_def Let_def
      split: if_splits option.splits prod.splits)


lemma update_view_json:
  assumes "vw_v view = 1" and "type_tag view = ''cursor''" and "vw_visible view = visible"
    and "vw_shape view = (if visible then CssKeywordForType type else ''none'')"
    and "custom_image_b64 view = (if ex_ok ex then ex_image ex else [])"
    and "ex_ok ex \<Longrightarrow> hotspot_x view = Some (ex_hotspot_x ex) \<and> hotspot_y view = Some (ex_hotspot_y ex)
      \<and> image_format view = ''png'' \<and> ex_image ex \<noteq> [] \<and> length (ex_image ex) \<le> 64 * 1024"
  shows "update (view_json view) r =
    r\<lparr>overlay_shape := (if visible then ShapeForType type else ''none''),
      video_cursor := css_meaning type visible ex\<rparr>"
proof -
  have valid: "isValidEnvelope (view_json view)"
    using assms by (auto simp: view_json_valid)
  show ?thesis
  proof (cases "visible \<and> type = Ct_kCustom")
    case True
    have known: "''custom'' \<in> set KNOWN_SHAPES" by (simp add: KNOWN_SHAPES_def)
    show ?thesis
    proof (cases "ex_ok ex")
      case ok: True
      from assms(6) [OF ok] have "hotspot_x view = Some (ex_hotspot_x ex)"
        "hotspot_y view = Some (ex_hotspot_y ex)" "image_format view = ''png''" "ex_image ex \<noteq> []"
        by simp_all
      with True assms(3-5) ok known valid show ?thesis
        by (simp add: update_def Let_def ShapeForType_def css_meaning_def cssCursorFor_def)
    next
      case False
      with True assms(3-5) known valid show ?thesis
        by (simp add: update_def Let_def ShapeForType_def css_meaning_def cssCursorFor_def)
    qed
  next
    case False
    with assms(3,4) valid show ?thesis
      by (auto simp: update_def Let_def ShapeForType_def css_meaning_def cssCursorFor_def keyword_known
          keyword_custom)
  qed
qed

section \<open>Example data\<close>

definition example_cursor :: Cursor where
  "example_cursor =
     \<lparr>cur_type = Ct_kCustom, cur_bitmap = Some (16, 16), cur_hotspot = (-1, 8), cur_scale = 1\<rparr>"

definition example_viewer :: Viewer where
  "example_viewer = \<lparr>overlay_shape = ''default'', video_cursor = ''default''\<rparr>"

section \<open>Property\<close>

text \<open>
  C25. The two ends of the cursor channel agree: whatever cursor the page sets, the envelope the
  browser process builds for it is accepted by the viewer, which then shows exactly the cursor
  that was meant: none when it is hidden, the keyword of its type, and for a custom cursor its
  image with the hotspot clamped into the picture, or the default arrow when the image was
  missing, could not be encoded or was over the cap.
\<close>

theorem viewer_shows_cursor:
  assumes "\<And>bytes. bytes \<noteq> [] \<Longrightarrow> b64 bytes \<noteq> []"
    and "ex = ExtractCustomImage png b64 c"
    and "view = snd (ApplyExtractionToEnvelope ex (fst (Assemble clock (cur_type c) visible now a)))"
    and "EncodeJson w view = Some t" and "reads_back w rd (view_json view)"
  shows "attachCursorChannel rd t r =
    r\<lparr>overlay_shape := (if visible then ShapeForType (cur_type c) else ''none''),
      video_cursor := css_meaning (cur_type c) visible ex\<rparr>"
proof -
  have image: "ex_format ex = ''png'' \<and> ex_image ex \<noteq> [] \<and> length (ex_image ex) \<le> 64 * 1024" if "ex_ok ex"
  proof -
    from extraction_ok that obtain bytes where "bytes \<noteq> []" "ex_image ex = b64 bytes"
      "ex_format ex = ''png''" "length (ex_image ex) \<le> 64 * 1024"
      unfolding assms(2) by blast
    then show ?thesis using assms(1) [of bytes] by simp
  qed
  have "update (view_json view) r =
    r\<lparr>overlay_shape := (if visible then ShapeForType (cur_type c) else ''none''),
      video_cursor := css_meaning (cur_type c) visible ex\<rparr>"
    by (rule update_view_json)
      (simp_all add: assms(3) ApplyExtractionToEnvelope_def Assemble_def image [simplified])
  moreover have "rd t = Some (view_json view)"
    using assms(4,5) by (auto simp: EncodeJson_def dest: reads_backD)
  ultimately show ?thesis by (simp add: attachCursorChannel_def)
qed

theorem viewer_shows_cursor_witness:
  "video_cursor (attachCursorChannel Some
     (view_json (snd (ApplyExtractionToEnvelope
        (ExtractCustomImage (\<lambda>_. Some ''png'') (\<lambda>bytes. bytes) example_cursor)
        (fst (Assemble 5 (cur_type example_cursor) True 0 new_assembler))))) example_viewer)
   = ''url('' @ [CHR 0x22] @ ''data:image/png;base64,png'' @ [CHR 0x22] @ '') 0 8, default''"
proof -
  have digits: "NumberToString 0 = ''0''" "NumberToString 8 = ''8''"
    by (simp_all add: NumberToString_def digits_of.simps [of 0] digits_of.simps [of 8] char_of_eq_iff)
  have ex: "ExtractCustomImage (\<lambda>_. Some ''png'') (\<lambda>bytes. bytes) example_cursor =
    default_extraction\<lparr>ex_ok := True, ex_skip := kNone, ex_image := ''png'', ex_hotspot_x := -1,
      ex_hotspot_y := 8, ex_format := ''png''\<rparr>"
    by (simp add: ExtractCustomImage_def example_cursor_def default_extraction_def
        kV1CustomImageB64MaxBytes_def)
  let ?view = "snd (ApplyExtractionToEnvelope
        (ExtractCustomImage (\<lambda>_. Some ''png'') (\<lambda>bytes. bytes) example_cursor)
        (fst (Assemble 5 (cur_type example_cursor) True 0 new_assembler)))"
  have "attachCursorChannel Some (view_json ?view) example_viewer =
    example_viewer\<lparr>overlay_shape := (if True then ShapeForType (cur_type example_cursor) else ''none''),
      video_cursor := css_meaning (cur_type example_cursor) True
        (ExtractCustomImage (\<lambda>_. Some ''png'') (\<lambda>bytes. bytes) example_cursor)\<rparr>"
    by (rule viewer_shows_cursor [where w = Some, OF _ refl refl])
      (simp_all only: EncodeJson_def reads_back_def option.case simp_thms)
  then show ?thesis
    by (simp only: ex) (simp add: css_meaning_def css_point_def example_cursor_def default_extraction_def digits)
qed

end
