(* ===== verification/Cb_Cursor_Policy.thy ===== *)
theory Cb_Cursor_Policy
  imports Cb_Cursor_Envelope
begin

text \<open>
  From a cursor change of the page to a decision to send it: the cursor client
  (\<^verbatim>\<open>build-integration/cb_cursor_client.cc\<close>), the last pointer position
  (\<^verbatim>\<open>build-integration/cb_last_pointer.cc\<close>), the join of the two
  (\<^verbatim>\<open>build-integration/cb_cursor_xy_join.cc\<close>) and the emit policy with its deduplication,
  debounce, sequence numbers and replay buffer (\<^verbatim>\<open>cursor/cb_cursor_emit_policy.cc\<close>).

  Coordinates are finite floats, kept as rationals; the one float operation that rounds, the
  quotient by the quantum, is the argument \<open>fdiv\<close>. Time ticks are microseconds with 0 as null.
\<close>

section \<open>Cursor client\<close>

record CursorClient =
  current_cursor :: CursorType
  cc_visible :: bool
  mouse_events_enabled :: bool
  cursor_lock_count :: int

definition new_cursor_client :: CursorClient where
  "new_cursor_client =
     \<lparr>current_cursor = Ct_kNull, cc_visible = True, mouse_events_enabled = True, cursor_lock_count = 0\<rparr>"

text \<open>An operation of the client returns the change it reports to its callback, if any.\<close>

definition HandleCursorSet :: "CursorType \<Rightarrow> CursorClient \<Rightarrow> (CursorType \<times> bool) option \<times> CursorClient" where
  "HandleCursorSet cursor c = (Some (cursor, cc_visible c), c\<lparr>current_cursor := cursor\<rparr>)"

definition ShowCursor :: "CursorClient \<Rightarrow> (CursorType \<times> bool) option \<times> CursorClient" where
  "ShowCursor c =
     (if \<not> cc_visible c then (Some (current_cursor c, True), c\<lparr>cc_visible := True\<rparr>)
      else (None, c\<lparr>cc_visible := True\<rparr>))"

definition HideCursor :: "CursorClient \<Rightarrow> (CursorType \<times> bool) option \<times> CursorClient" where
  "HideCursor c =
     (if cc_visible c then (Some (current_cursor c, False), c\<lparr>cc_visible := False\<rparr>)
      else (None, c\<lparr>cc_visible := False\<rparr>))"

definition EnableMouseEvents :: "CursorClient \<Rightarrow> CursorClient" where
  "EnableMouseEvents c = c\<lparr>mouse_events_enabled := True\<rparr>"

definition DisableMouseEvents :: "CursorClient \<Rightarrow> CursorClient" where
  "DisableMouseEvents c = c\<lparr>mouse_events_enabled := False\<rparr>"

definition LockCursor :: "CursorClient \<Rightarrow> CursorClient" where
  "LockCursor c = c\<lparr>cursor_lock_count := cursor_lock_count c + 1\<rparr>"

definition UnlockCursor :: "CursorClient \<Rightarrow> CursorClient" where
  "UnlockCursor c =
     (let n = cursor_lock_count c - 1 in c\<lparr>cursor_lock_count := (if n < 0 then 0 else n)\<rparr>)"

section \<open>Last pointer\<close>

record LastPointer =
  snap_x :: rat
  snap_y :: rat
  snap_buttons :: nat
  snap_at :: int
  in_widget :: bool

definition new_last_pointer :: LastPointer where
  "new_last_pointer = \<lparr>snap_x = 0, snap_y = 0, snap_buttons = 0, snap_at = 0, in_widget = True\<rparr>"

definition Update :: "rat \<Rightarrow> rat \<Rightarrow> nat \<Rightarrow> int \<Rightarrow> LastPointer \<Rightarrow> LastPointer" where
  "Update widget_x widget_y buttons tick p =
     p\<lparr>snap_x := widget_x, snap_y := widget_y, snap_buttons := buttons, snap_at := tick, in_widget := True\<rparr>"

definition MarkLeft :: "LastPointer \<Rightarrow> LastPointer" where
  "MarkLeft p = p\<lparr>in_widget := False\<rparr>"

definition MarkEntered :: "LastPointer \<Rightarrow> LastPointer" where
  "MarkEntered p = p\<lparr>in_widget := True\<rparr>"

definition HandlePointerLeaveEnvelope :: "LastPointer option \<Rightarrow> bool \<times> LastPointer option" where
  "HandlePointerLeaveEnvelope state =
     (case state of None \<Rightarrow> (False, None) | Some p \<Rightarrow> (True, Some (MarkLeft p)))"

definition HandlePointerEnterEnvelope :: "LastPointer option \<Rightarrow> bool \<times> LastPointer option" where
  "HandlePointerEnterEnvelope state =
     (case state of None \<Rightarrow> (False, None) | Some p \<Rightarrow> (True, Some (MarkEntered p)))"

section \<open>Join\<close>

record JoinedCursorState =
  jc_type :: CursorType
  jc_visible :: bool
  jc_x :: rat
  jc_y :: rat
  jc_buttons :: nat
  last_motion_at :: int
  joined_at :: int
  has_pointer_history :: bool

definition FillPositionFromSnapshot ::
  "LastPointer option \<Rightarrow> JoinedCursorState \<Rightarrow> JoinedCursorState" where
  "FillPositionFromSnapshot mouse_dispatch out =
     (case mouse_dispatch of
        None \<Rightarrow> out
      | Some snap \<Rightarrow> out\<lparr>jc_x := snap_x snap, jc_y := snap_y snap, jc_buttons := snap_buttons snap,
          last_motion_at := snap_at snap, has_pointer_history := (snap_at snap \<noteq> 0)\<rparr>)"

definition default_joined :: "CursorType \<Rightarrow> bool \<Rightarrow> JoinedCursorState" where
  "default_joined type visible =
     \<lparr>jc_type = type, jc_visible = visible, jc_x = 0, jc_y = 0, jc_buttons = 0, last_motion_at = 0,
      joined_at = 0, has_pointer_history = False\<rparr>"

text \<open>What the join hands to its emit callback; \<open>now\<close> is the clock.\<close>

definition OnCursorChange ::
  "int \<Rightarrow> LastPointer option \<Rightarrow> CursorType \<Rightarrow> bool \<Rightarrow> JoinedCursorState" where
  "OnCursorChange now mouse_dispatch type visible =
     FillPositionFromSnapshot mouse_dispatch ((default_joined type visible)\<lparr>joined_at := now\<rparr>)"

lemma OnCursorChange_fields [simp]:
  "jc_type (OnCursorChange now mouse type visible) = type"
  "jc_visible (OnCursorChange now mouse type visible) = visible"
  by (simp_all add: OnCursorChange_def FillPositionFromSnapshot_def default_joined_def split: option.split)

section \<open>Emit policy\<close>

record PolicyConfig =
  min_emit_gap :: int
  position_quantum_px :: int
  replay_buffer_capacity :: nat

definition default_policy_config :: PolicyConfig where
  "default_policy_config = \<lparr>min_emit_gap = 0, position_quantum_px = 1, replay_buffer_capacity = 1\<rparr>"

record PolicySnapshot =
  ps_type :: CursorType
  ps_visible :: bool
  x_rounded :: int
  y_rounded :: int
  ps_buttons :: nat
  emitted_at :: int
  ps_seq :: int
  ps_history :: bool

record EmitPolicy =
  ep_config :: PolicyConfig
  next_seq :: int
  last_emit :: "PolicySnapshot option"
  ep_pending :: "JoinedCursorState option"
  ep_replay :: "PolicySnapshot list"

definition new_policy :: "PolicyConfig \<Rightarrow> EmitPolicy" where
  "new_policy cfg = \<lparr>ep_config = cfg, next_seq = 0, last_emit = None, ep_pending = None, ep_replay = []\<rparr>"

text \<open>\<^verbatim>\<open>std::lround\<close> rounds halves away from zero; the cast to 32 bits wraps.\<close>

definition lround :: "rat \<Rightarrow> int" where
  "lround r = (if 0 \<le> r then \<lfloor>r + 1 / 2\<rfloor> else - \<lfloor>- r + 1 / 2\<rfloor>)"

definition to_int32 :: "int \<Rightarrow> int" where
  "to_int32 i = (i + 2 ^ 31) mod 2 ^ 32 - 2 ^ 31"

definition RoundPosition :: "(rat \<Rightarrow> int \<Rightarrow> rat) \<Rightarrow> PolicyConfig \<Rightarrow> rat \<Rightarrow> rat \<Rightarrow> int \<times> int" where
  "RoundPosition fdiv cfg x y =
     (let q = (if position_quantum_px cfg > 0 then position_quantum_px cfg else 1) in
      if q = 1 then (to_int32 (lround x), to_int32 (lround y))
      else let round_to_q = (\<lambda>v. to_int32 (lround (fdiv v q) * q)) in (round_to_q x, round_to_q y))"

definition IsDuplicate :: "(rat \<Rightarrow> int \<Rightarrow> rat) \<Rightarrow> JoinedCursorState \<Rightarrow> EmitPolicy \<Rightarrow> bool" where
  "IsDuplicate fdiv joined p =
     (case last_emit p of
        None \<Rightarrow> False
      | Some l \<Rightarrow>
          case RoundPosition fdiv (ep_config p) (jc_x joined) (jc_y joined) of (rx, ry) \<Rightarrow>
            ps_type l = jc_type joined \<and> ps_visible l = jc_visible joined
            \<and> ps_buttons l = jc_buttons joined \<and> x_rounded l = rx \<and> y_rounded l = ry)"

datatype EmitDecision = Emit | Suppress_Dedupe | Suppress_Debounce

text \<open>\<open>clock\<close> is read when the caller passes no time.\<close>

definition Decide ::
  "(rat \<Rightarrow> int \<Rightarrow> rat) \<Rightarrow> int \<Rightarrow> JoinedCursorState \<Rightarrow> int \<Rightarrow> EmitPolicy \<Rightarrow> EmitDecision \<times> EmitPolicy" where
  "Decide fdiv clock joined now p =
     (let now = (if now = 0 then clock else now) in
      if IsDuplicate fdiv joined p then (Suppress_Dedupe, p)
      else if min_emit_gap (ep_config p) > 0
          \<and> (case last_emit p of None \<Rightarrow> False | Some l \<Rightarrow> now - emitted_at l < min_emit_gap (ep_config p))
      then (Suppress_Debounce, p\<lparr>ep_pending := Some joined\<rparr>)
      else (Emit, p\<lparr>ep_pending := None\<rparr>))"

definition AllocSeq :: "EmitPolicy \<Rightarrow> int \<times> EmitPolicy" where
  "AllocSeq p = (next_seq p, p\<lparr>next_seq := next_seq p + 1\<rparr>)"

fun trim_replay :: "nat \<Rightarrow> PolicySnapshot list \<Rightarrow> PolicySnapshot list" where
  "trim_replay capacity [] = []"
| "trim_replay capacity (s # ss) =
     (if length (s # ss) > capacity then trim_replay capacity ss else s # ss)"

definition snapshot_of ::
  "(rat \<Rightarrow> int \<Rightarrow> rat) \<Rightarrow> int \<Rightarrow> JoinedCursorState \<Rightarrow> EmitPolicy \<Rightarrow> PolicySnapshot" where
  "snapshot_of fdiv now joined p =
     (case RoundPosition fdiv (ep_config p) (jc_x joined) (jc_y joined) of (rx, ry) \<Rightarrow>
       \<lparr>ps_type = jc_type joined, ps_visible = jc_visible joined, x_rounded = rx, y_rounded = ry,
        ps_buttons = jc_buttons joined, emitted_at = now, ps_seq = next_seq p - 1,
        ps_history = has_pointer_history joined\<rparr>)"

definition OnEmitted ::
  "(rat \<Rightarrow> int \<Rightarrow> rat) \<Rightarrow> int \<Rightarrow> JoinedCursorState \<Rightarrow> int \<Rightarrow> EmitPolicy \<Rightarrow> EmitPolicy" where
  "OnEmitted fdiv clock joined now p =
     (let now = (if now = 0 then clock else now);
          snap = snapshot_of fdiv now joined p;
          p1 = p\<lparr>last_emit := Some snap\<rparr>;
          capacity = replay_buffer_capacity (ep_config p)
      in if capacity > 0 then p1\<lparr>ep_replay := trim_replay capacity (ep_replay p1 @ [snap])\<rparr> else p1)"

definition ReplayBuffer :: "EmitPolicy \<Rightarrow> PolicySnapshot list" where
  "ReplayBuffer p = ep_replay p"

definition Reset :: "EmitPolicy \<Rightarrow> EmitPolicy" where
  "Reset p = p\<lparr>next_seq := 0, last_emit := None, ep_pending := None, ep_replay := []\<rparr>"

section \<open>The replay buffer is a window on the history\<close>

lemma trim_replay_eq: "trim_replay capacity xs = drop (length xs - capacity) xs"
proof (induction xs)
  case (Cons s ss)
  then show ?case by (cases "length (s # ss) > capacity") (auto simp: drop_Cons' Suc_diff_le)
qed simp

lemma snapshot_of_fields [simp]:
  "ps_type (snapshot_of fdiv now joined p) = jc_type joined"
  "ps_visible (snapshot_of fdiv now joined p) = jc_visible joined"
  "ps_seq (snapshot_of fdiv now joined p) = next_seq p - 1"
  by (simp_all add: snapshot_of_def split: prod.split)

lemma IsDuplicate_just_emitted: "IsDuplicate fdiv joined (OnEmitted fdiv clock joined now p)"
  by (simp add: IsDuplicate_def OnEmitted_def snapshot_of_def Let_def split: prod.split)

lemma IsDuplicate_update [simp]:
  "IsDuplicate fdiv joined (p\<lparr>ep_pending := x\<rparr>) = IsDuplicate fdiv joined p"
  "IsDuplicate fdiv joined (p\<lparr>next_seq := n\<rparr>) = IsDuplicate fdiv joined p"
  by (simp_all add: IsDuplicate_def split: option.split)

lemma Decide_emit_iff:
  "fst (Decide fdiv clock joined now p) = Emit \<longleftrightarrow>
     \<not> IsDuplicate fdiv joined p
     \<and> (min_emit_gap (ep_config p) > 0 \<longrightarrow>
          (\<forall>l. last_emit p = Some l \<longrightarrow>
             min_emit_gap (ep_config p) \<le> (if now = 0 then clock else now) - emitted_at l))"
  by (auto simp: Decide_def Let_def split: option.split)


lemma OnEmitted_replay:
  assumes "x \<in> set (ep_replay (OnEmitted fdiv clock joined now p))"
  shows "x = snapshot_of fdiv (if now = 0 then clock else now) joined p \<or> x \<in> set (ep_replay p)"
  using assms by (auto simp: OnEmitted_def trim_replay_eq Let_def dest!: in_set_dropD split: if_splits)

end
