(* ===== verification/Cb_Dc_Host.thy ===== *)
theory Cb_Dc_Host
  imports Cb_Prelude
begin

text \<open>
  The data channel host, \<^verbatim>\<open>capture/signaling/cb_dc_host.{h,cc}\<close>: six labelled channels on the
  peer connection, the trampoline that fans their callbacks out to the bound consumers, and
  the latched readiness signal. The channels belong to libwebrtc: their state is part of the
  environment and changes by events, and whether one can be created is a parameter. The
  host's calls on channels, consumers and its observer are recorded in \<open>dc_out\<close>. The payload of a
  message is opaque to the host: it is a type variable.
\<close>

section \<open>Labels\<close>

datatype CbDcLabel = Dc_kInput | Dc_kStats | Dc_kCursor | Dc_kClipboard | Dc_kFiles | Dc_kControl

text \<open>The labels in the order of their numbers, and their wire names.\<close>

definition all_labels :: "CbDcLabel list" where
  "all_labels = [Dc_kInput, Dc_kStats, Dc_kCursor, Dc_kClipboard, Dc_kFiles, Dc_kControl]"

fun LabelToString :: "CbDcLabel \<Rightarrow> string" where
  "LabelToString Dc_kInput = ''input''"
| "LabelToString Dc_kStats = ''stats''"
| "LabelToString Dc_kCursor = ''cursor''"
| "LabelToString Dc_kClipboard = ''clipboard''"
| "LabelToString Dc_kFiles = ''files''"
| "LabelToString Dc_kControl = ''control''"

definition LabelFromString :: "string \<Rightarrow> CbDcLabel option" where
  "LabelFromString s = find (\<lambda>l. s = LabelToString l) all_labels"

definition DefaultOutboundLabels :: "CbDcLabel list" where
  "DefaultOutboundLabels = [Dc_kInput, Dc_kStats, Dc_kCursor, Dc_kClipboard, Dc_kFiles, Dc_kControl]"

lemma all_labels_set [simp]: "l \<in> set all_labels"
  by (cases l) (simp_all add: all_labels_def)

lemma distinct_all_labels: "distinct all_labels"
  by (simp add: all_labels_def)

section \<open>State\<close>

datatype DataState = Ds_kConnecting | Ds_kOpen | Ds_kClosing | Ds_kClosed

text \<open>A channel of libwebrtc: its state and the bytes it has queued.\<close>

record Channel =
  ch_state :: DataState
  ch_buffered :: nat

record ChannelSlot =
  dc :: "Channel option"
  trampoline :: bool
  ever_opened :: bool

datatype 't dc_call =
    Dc_Created CbDcLabel
  | Dc_SendAsync CbDcLabel 't bool
  | Dc_Unregistered CbDcLabel
  | Dc_Closed CbDcLabel
  | Consumer_OnStateChange nat CbDcLabel
  | Consumer_OnMessage nat CbDcLabel 't bool
  | Consumer_OnBufferedAmountChange nat CbDcLabel nat
  | Host_OnChannelStateChanged CbDcLabel DataState
  | Host_OnAllChannelsOpen
  | Reply_SendAsync CbDcLabel bool string

record 't DcHost =
  has_pc :: bool
  has_host_observer :: bool
  slots :: "CbDcLabel \<Rightarrow> ChannelSlot"
  bound_observers :: "CbDcLabel \<Rightarrow> nat option"
  all_open_latched :: bool
  create_called :: bool
  dc_out :: "'t dc_call list"

definition empty_slot :: ChannelSlot where
  "empty_slot = \<lparr>dc = None, trampoline = False, ever_opened = False\<rparr>"

definition new_dc_host :: "bool \<Rightarrow> 't DcHost" where
  "new_dc_host obs =
     \<lparr>has_pc = True, has_host_observer = obs, slots = (\<lambda>_. empty_slot), bound_observers = (\<lambda>_. None),
      all_open_latched = False, create_called = False, dc_out = []\<rparr>"

definition dc_emit :: "'t dc_call \<Rightarrow> 't DcHost \<Rightarrow> 't DcHost" where
  "dc_emit c s = s\<lparr>dc_out := dc_out s @ [c]\<rparr>"

definition notify_host :: "'t dc_call \<Rightarrow> 't DcHost \<Rightarrow> 't DcHost" where
  "notify_host c s = (if has_host_observer s then dc_emit c s else s)"

section \<open>Creation and teardown\<close>

datatype dc_error = Inv_State string | Rtc_Error string

definition create_slot :: "CbDcLabel \<Rightarrow> 't DcHost \<Rightarrow> 't DcHost" where
  "create_slot label s =
     dc_emit (Dc_Created label)
       (s\<lparr>slots := (slots s)(label := (slots s label)
          \<lparr>dc := Some \<lparr>ch_state = Ds_kConnecting, ch_buffered = 0\<rparr>, trampoline := True\<rparr>)\<rparr>)"

text \<open>\<open>create l\<close> is the error of libwebrtc for that channel, or \<open>None\<close> when it is created.\<close>

fun create_loop ::
  "(CbDcLabel \<Rightarrow> string option) \<Rightarrow> CbDcLabel set \<Rightarrow> CbDcLabel list \<Rightarrow> dc_error option \<Rightarrow> 't DcHost
    \<Rightarrow> dc_error option \<times> 't DcHost" where
  "create_loop create labels [] err s = (err, s)"
| "create_loop create labels (l # ls) err s =
     (if l \<notin> labels then create_loop create labels ls err s
      else case create l of
        Some m \<Rightarrow> create_loop create labels ls (if err = None then Some (Rtc_Error m) else err) s
      | None \<Rightarrow> create_loop create labels ls err (create_slot l s))"

definition CreateOutboundChannels ::
  "(CbDcLabel \<Rightarrow> string option) \<Rightarrow> CbDcLabel set \<Rightarrow> 't DcHost \<Rightarrow> dc_error option \<times> 't DcHost" where
  "CreateOutboundChannels create labels s =
     (if create_called s then (Some (Inv_State ''CreateOutboundChannels already called''), s)
      else let s1 = s\<lparr>create_called := True\<rparr> in
        if \<not> has_pc s1 then (Some (Inv_State ''PC is null''), s1)
        else create_loop create labels all_labels None s1)"

definition BindObserver :: "CbDcLabel \<Rightarrow> nat option \<Rightarrow> 't DcHost \<Rightarrow> 't DcHost" where
  "BindObserver label observer s = s\<lparr>bound_observers := (bound_observers s)(label := observer)\<rparr>"

definition shutdown_slot :: "CbDcLabel \<Rightarrow> 't DcHost \<Rightarrow> 't DcHost" where
  "shutdown_slot l s =
     (let slot = slots s l;
          s1 = (if dc slot \<noteq> None \<and> trampoline slot then dc_emit (Dc_Unregistered l) s else s);
          s2 = (if dc slot \<noteq> None then dc_emit (Dc_Closed l) s1 else s1)
      in s2\<lparr>slots := (slots s2)(l := slot\<lparr>trampoline := False, dc := None\<rparr>)\<rparr>)"

definition Shutdown :: "'t DcHost \<Rightarrow> 't DcHost" where
  "Shutdown s = (fold shutdown_slot all_labels s)\<lparr>bound_observers := (\<lambda>_. None)\<rparr>"

section \<open>Queries and sends\<close>

definition IsOpen :: "CbDcLabel \<Rightarrow> 't DcHost \<Rightarrow> bool" where
  "IsOpen label s = (case dc (slots s label) of None \<Rightarrow> False | Some c \<Rightarrow> ch_state c = Ds_kOpen)"

definition AllChannelsOpen :: "'t DcHost \<Rightarrow> bool" where
  "AllChannelsOpen s = all_open_latched s"

definition GetBufferedAmount :: "CbDcLabel \<Rightarrow> 't DcHost \<Rightarrow> nat" where
  "GetBufferedAmount label s = (case dc (slots s label) of None \<Rightarrow> 0 | Some c \<Rightarrow> ch_buffered c)"

definition send_buffer :: "bool \<Rightarrow> CbDcLabel \<Rightarrow> 't \<Rightarrow> 't DcHost \<Rightarrow> dc_error option \<times> 't DcHost" where
  "send_buffer binary label body s =
     (case dc (slots s label) of
        None \<Rightarrow> (Some (Inv_State ''channel not created''), s)
      | Some c \<Rightarrow>
          if ch_state c \<noteq> Ds_kOpen then (Some (Inv_State ''channel not open''), s)
          else (None, dc_emit (Dc_SendAsync label body binary) s))"

definition dc_Send :: "CbDcLabel \<Rightarrow> 't \<Rightarrow> 't DcHost \<Rightarrow> dc_error option \<times> 't DcHost" where
  "dc_Send label text s = send_buffer False label text s"

definition SendBinary :: "CbDcLabel \<Rightarrow> 't \<Rightarrow> 't DcHost \<Rightarrow> dc_error option \<times> 't DcHost" where
  "SendBinary label buffer s = send_buffer True label buffer s"

text \<open>
  The asynchronous text send: the task posted to the signaling thread sends, and posts the
  outcome and its message to the caller when there is a callback.
\<close>

fun error_message :: "dc_error option \<Rightarrow> string" where
  "error_message None = []"
| "error_message (Some (Inv_State m)) = m"
| "error_message (Some (Rtc_Error m)) = m"

definition SendAsync :: "CbDcLabel \<Rightarrow> 't \<Rightarrow> bool \<Rightarrow> 't DcHost \<Rightarrow> 't DcHost" where
  "SendAsync label text has_callback s =
     (case dc_Send label text s of (result, s1) \<Rightarrow>
        if has_callback
        then dc_emit (Reply_SendAsync label (result = None) (error_message result)) s1 else s1)"

section \<open>Callbacks\<close>

definition OnChannelStateChanged_Signaling :: "CbDcLabel \<Rightarrow> 't DcHost \<Rightarrow> 't DcHost" where
  "OnChannelStateChanged_Signaling label s =
     (case dc (slots s label) of
        None \<Rightarrow> s
      | Some c \<Rightarrow>
          let state = ch_state c;
              s1 = (if state = Ds_kOpen
                    then s\<lparr>slots := (slots s)(label := (slots s label)\<lparr>ever_opened := True\<rparr>)\<rparr> else s);
              s2 = notify_host (Host_OnChannelStateChanged label state) s1
          in if state = Ds_kOpen \<and> \<not> all_open_latched s2
                \<and> list_all (\<lambda>l. ever_opened (slots s2 l)) all_labels
             then notify_host Host_OnAllChannelsOpen (s2\<lparr>all_open_latched := True\<rparr>)
             else s2)"

text \<open>The trampoline's three callbacks; they reach the host only while it is registered.\<close>

definition to_consumer :: "CbDcLabel \<Rightarrow> (nat \<Rightarrow> 't dc_call) \<Rightarrow> 't DcHost \<Rightarrow> 't DcHost" where
  "to_consumer label c s =
     (case bound_observers s label of None \<Rightarrow> s | Some n \<Rightarrow> dc_emit (c n) s)"

definition OnStateChange :: "CbDcLabel \<Rightarrow> 't DcHost \<Rightarrow> 't DcHost" where
  "OnStateChange label s =
     OnChannelStateChanged_Signaling label (to_consumer label (\<lambda>n. Consumer_OnStateChange n label) s)"

definition OnMessage :: "CbDcLabel \<Rightarrow> 't \<Rightarrow> bool \<Rightarrow> 't DcHost \<Rightarrow> 't DcHost" where
  "OnMessage label data binary s =
     to_consumer label (\<lambda>n. Consumer_OnMessage n label data binary) s"

definition OnBufferedAmountChange :: "CbDcLabel \<Rightarrow> nat \<Rightarrow> 't DcHost \<Rightarrow> 't DcHost" where
  "OnBufferedAmountChange label sent s =
     to_consumer label (\<lambda>n. Consumer_OnBufferedAmountChange n label sent) s"

section \<open>The host as a machine\<close>

datatype 't dc_event =
    De_Create "CbDcLabel list"
  | De_Bind CbDcLabel "nat option"
  | De_Send bool CbDcLabel 't
  | De_SendAsync CbDcLabel 't bool
  | De_Shutdown
  | De_State CbDcLabel DataState
  | De_Message CbDcLabel 't bool
  | De_Buffered CbDcLabel nat nat

definition set_channel :: "CbDcLabel \<Rightarrow> (Channel \<Rightarrow> Channel) \<Rightarrow> 't DcHost \<Rightarrow> 't DcHost" where
  "set_channel l f s =
     s\<lparr>slots := (slots s)(l := (slots s l)\<lparr>dc := map_option f (dc (slots s l))\<rparr>)\<rparr>"

fun dc_step :: "(CbDcLabel \<Rightarrow> string option) \<Rightarrow> 't dc_event \<Rightarrow> 't DcHost \<Rightarrow> 't DcHost" where
  "dc_step create (De_Create ls) s = snd (CreateOutboundChannels create (set ls) s)"
| "dc_step create (De_Bind l obs) s = BindObserver l obs s"
| "dc_step create (De_Send b l body) s = snd (send_buffer b l body s)"
| "dc_step create (De_SendAsync l body has_callback) s = SendAsync l body has_callback s"
| "dc_step create De_Shutdown s = Shutdown s"
| "dc_step create (De_State l st) s =
     (let s1 = set_channel l (\<lambda>c. c\<lparr>ch_state := st\<rparr>) s in
      if trampoline (slots s1 l) then OnStateChange l s1 else s1)"
| "dc_step create (De_Message l data b) s =
     (if trampoline (slots s l) then OnMessage l data b s else s)"
| "dc_step create (De_Buffered l queued sent) s =
     (let s1 = set_channel l (\<lambda>c. c\<lparr>ch_buffered := queued\<rparr>) s in
      if trampoline (slots s1 l) then OnBufferedAmountChange l sent s1 else s1)"

section \<open>Invariant\<close>

lemma dc_emit_fields [simp]:
  "has_pc (dc_emit c s) = has_pc s" "has_host_observer (dc_emit c s) = has_host_observer s"
  "slots (dc_emit c s) = slots s" "bound_observers (dc_emit c s) = bound_observers s"
  "all_open_latched (dc_emit c s) = all_open_latched s" "create_called (dc_emit c s) = create_called s"
  "dc_out (dc_emit c s) = dc_out s @ [c]"
  by (simp_all add: dc_emit_def)

lemma notify_host_fields [simp]:
  "has_pc (notify_host c s) = has_pc s" "has_host_observer (notify_host c s) = has_host_observer s"
  "slots (notify_host c s) = slots s" "bound_observers (notify_host c s) = bound_observers s"
  "all_open_latched (notify_host c s) = all_open_latched s"
  "create_called (notify_host c s) = create_called s"
  "dc_out (notify_host c s) = dc_out s @ (if has_host_observer s then [c] else [])"
  by (simp_all add: notify_host_def)

lemma to_consumer_fields [simp]:
  "has_host_observer (to_consumer l c s) = has_host_observer s" "slots (to_consumer l c s) = slots s"
  "all_open_latched (to_consumer l c s) = all_open_latched s"
  "create_called (to_consumer l c s) = create_called s"
  "bound_observers (to_consumer l c s) = bound_observers s"
  "dc_out (to_consumer l c s) =
     dc_out s @ (case bound_observers s l of None \<Rightarrow> [] | Some n \<Rightarrow> [c n])"
  by (simp_all add: to_consumer_def split: option.split)

text \<open>
  \<open>ready_ok\<close>: the latch is set exactly when all six channels have been open once, and the
  observer has been told exactly then. \<open>slots_ok\<close>: a slot without a channel has no trampoline.
\<close>

definition announcements :: "'t DcHost \<Rightarrow> nat" where
  "announcements s = count_list (dc_out s) Host_OnAllChannelsOpen"

definition dc_invar :: "'t DcHost \<Rightarrow> bool" where
  "dc_invar s \<longleftrightarrow>
     (all_open_latched s \<longleftrightarrow> (\<forall>l. ever_opened (slots s l)))
     \<and> announcements s = (if all_open_latched s \<and> has_host_observer s then 1 else 0)
     \<and> (\<forall>l. trampoline (slots s l) \<longrightarrow> dc (slots s l) \<noteq> None)
     \<and> (\<forall>l. dc (slots s l) \<noteq> None \<or> ever_opened (slots s l) \<longrightarrow> create_called s)"

lemma all_labels_all: "list_all P all_labels \<longleftrightarrow> (\<forall>l. P l)"
  by (auto simp: list_all_iff)

lemma dc_invar_create_loop:
  "dc_invar s \<Longrightarrow> create_called s \<Longrightarrow> dc_invar (snd (create_loop create labels ls err s))"
proof (induction create labels ls err s rule: create_loop.induct)
  case (2 create labels l ls err s)
  have "dc_invar (create_slot l s)"
    using 2(4,5) by (auto simp: dc_invar_def create_slot_def announcements_def)
  moreover have "create_called (create_slot l s)" using 2(5) by (simp add: create_slot_def)
  ultimately show ?case using 2 by (auto split: option.split)
qed simp

lemma dc_invar_shutdown_slot: "dc_invar s \<Longrightarrow> dc_invar (shutdown_slot l s)"
  by (auto simp: dc_invar_def shutdown_slot_def announcements_def Let_def)

lemma dc_invar_shutdown_slots: "dc_invar s \<Longrightarrow> dc_invar (fold shutdown_slot ls s)"
  by (induction ls arbitrary: s) (auto simp: dc_invar_shutdown_slot)

lemma dc_invar_set_channel: "dc_invar s \<Longrightarrow> dc_invar (set_channel l f s)"
  by (auto simp: dc_invar_def set_channel_def announcements_def)

lemma dc_invar_to_consumer:
  "dc_invar s \<Longrightarrow> (\<And>n. c n \<noteq> Host_OnAllChannelsOpen) \<Longrightarrow> dc_invar (to_consumer l c s)"
  by (auto simp: dc_invar_def announcements_def split: option.split)

lemma dc_invar_state_changed:
  assumes "dc_invar s"
  shows "dc_invar (OnChannelStateChanged_Signaling l s)"
proof (cases "dc (slots s l)")
  case (Some c)
  show ?thesis
  proof (cases "ch_state c = Ds_kOpen")
    case True
    with Some assms show ?thesis
      by (auto simp: OnChannelStateChanged_Signaling_def dc_invar_def announcements_def
          all_labels_all Let_def)
  next
    case False
    with Some assms show ?thesis
      by (auto simp: OnChannelStateChanged_Signaling_def dc_invar_def announcements_def Let_def)
  qed
qed (use assms in \<open>simp add: OnChannelStateChanged_Signaling_def\<close>)

lemma dc_invar_step: "dc_invar s \<Longrightarrow> dc_invar (dc_step create e s)"
proof (cases e)
  case (De_Create ls)
  assume inv: "dc_invar s"
  then have "dc_invar (s\<lparr>create_called := True\<rparr>)" by (auto simp: dc_invar_def announcements_def)
  then show ?thesis
    using De_Create inv dc_invar_create_loop [of "s\<lparr>create_called := True\<rparr>"]
    by (simp add: CreateOutboundChannels_def Let_def)
next
  case (De_Bind l obs)
  assume "dc_invar s"
  with De_Bind show ?thesis by (simp add: BindObserver_def dc_invar_def announcements_def)
next
  case (De_Send b l body)
  assume "dc_invar s"
  with De_Send show ?thesis
    by (auto simp: send_buffer_def dc_invar_def announcements_def split: option.split)
next
  case (De_SendAsync l body has_callback)
  assume "dc_invar s"
  with De_SendAsync show ?thesis
    by (auto simp: SendAsync_def dc_Send_def send_buffer_def dc_invar_def announcements_def
        split: option.split)
next
  case De_Shutdown
  assume "dc_invar s"
  then have "dc_invar (fold shutdown_slot all_labels s)" by (rule dc_invar_shutdown_slots)
  with De_Shutdown show ?thesis by (simp add: Shutdown_def dc_invar_def announcements_def)
qed (simp_all add: OnStateChange_def OnMessage_def OnBufferedAmountChange_def Let_def
    dc_invar_set_channel dc_invar_to_consumer dc_invar_state_changed)

interpretation dc_machine: invariant_machine "\<lambda>s. \<exists>obs. s = new_dc_host obs" "dc_step create" dc_invar
  for create
  by unfold_locales
    (auto simp: dc_invar_step, simp add: dc_invar_def new_dc_host_def empty_slot_def announcements_def)

section \<open>After shutdown\<close>

definition dc_gone :: "'t DcHost \<Rightarrow> bool" where
  "dc_gone s \<longleftrightarrow> create_called s \<and> (\<forall>l. dc (slots s l) = None \<and> \<not> trampoline (slots s l))"

text \<open>The one call a host without channels still makes: the failure reply to an asynchronous send.\<close>

fun is_refusal :: "'t dc_call \<Rightarrow> bool" where
  "is_refusal (Reply_SendAsync l ok m) \<longleftrightarrow> \<not> ok \<and> m = ''channel not created''"
| "is_refusal _ \<longleftrightarrow> False"

definition quiet_since :: "'t dc_call list \<Rightarrow> 't DcHost \<Rightarrow> bool" where
  "quiet_since out s \<longleftrightarrow> (\<exists>rs. dc_out s = out @ rs \<and> list_all is_refusal rs)"

lemma quiet_since_same: "dc_out t = dc_out s \<Longrightarrow> quiet_since out s \<Longrightarrow> quiet_since out t"
  by (simp add: quiet_since_def)

lemma quiet_since_refusal:
  assumes "quiet_since out s" and "is_refusal c" and "dc_out t = dc_out s @ [c]"
  shows "quiet_since out t"
proof -
  from assms(1) obtain rs where "dc_out s = out @ rs" "list_all is_refusal rs"
    by (auto simp: quiet_since_def)
  with assms(2,3) show ?thesis by (auto simp: quiet_since_def intro!: exI [of _ "rs @ [c]"])
qed

lemma dc_gone_step:
  "dc_gone s \<Longrightarrow> dc_gone (dc_step create e s)
    \<and> ((\<exists>c. is_refusal c \<and> dc_out (dc_step create e s) = dc_out s @ [c])
       \<or> dc_out (dc_step create e s) = dc_out s)"
proof (cases e)
  case De_Shutdown
  assume gone: "dc_gone s"
  have slot: "dc_gone t \<Longrightarrow> dc_gone (shutdown_slot l t) \<and> dc_out (shutdown_slot l t) = dc_out t" for l t
    by (simp add: dc_gone_def shutdown_slot_def Let_def)
  have "dc_gone (fold shutdown_slot ls s) \<and> dc_out (fold shutdown_slot ls s) = dc_out s" for ls
    using gone by (induction ls rule: rev_induct) (simp_all add: slot)
  with De_Shutdown show ?thesis by (simp add: Shutdown_def dc_gone_def)
qed (auto simp: dc_gone_def CreateOutboundChannels_def BindObserver_def send_buffer_def set_channel_def
    SendAsync_def dc_Send_def Let_def)

lemma dc_gone_quiet_step:
  assumes "dc_gone s" and "quiet_since out s"
  shows "dc_gone (dc_step create e s) \<and> quiet_since out (dc_step create e s)"
  using dc_gone_step [OF assms(1), of create e] quiet_since_same [OF _ assms(2)]
    quiet_since_refusal [OF assms(2)] by blast

interpretation dc_shut: absorbing_machine "dc_step create" "\<lambda>s. dc_gone s \<and> quiet_since out s"
  for create out
  by unfold_locales (blast intro: dc_gone_quiet_step [THEN conjunct1] dc_gone_quiet_step [THEN conjunct2])

lemma shutdown_slots:
  "create_called (fold shutdown_slot ls s) = create_called s
   \<and> (\<forall>l \<in> set ls. dc (slots (fold shutdown_slot ls s) l) = None
        \<and> \<not> trampoline (slots (fold shutdown_slot ls s) l))
   \<and> (\<forall>l. dc (slots s l) = None \<longrightarrow> dc (slots (fold shutdown_slot ls s) l) = None)
   \<and> (\<forall>l. \<not> trampoline (slots s l) \<longrightarrow> \<not> trampoline (slots (fold shutdown_slot ls s) l))"
  by (induction ls rule: rev_induct) (auto simp: shutdown_slot_def Let_def)

lemma Shutdown_gone: "create_called s \<Longrightarrow> dc_gone (Shutdown s)"
  using shutdown_slots [of all_labels s] by (simp add: Shutdown_def dc_gone_def)

section \<open>Creation\<close>

fun first_error :: "(CbDcLabel \<Rightarrow> string option) \<Rightarrow> CbDcLabel set \<Rightarrow> CbDcLabel list \<Rightarrow> dc_error option" where
  "first_error create labels [] = None"
| "first_error create labels (l # ls) =
     (if l \<in> labels \<and> create l \<noteq> None then Some (Rtc_Error (the (create l)))
      else first_error create labels ls)"

lemma create_loop_result:
  assumes "distinct ls" and "create_loop create labels ls err s = (err', s')"
  shows "err' = (if err = None then first_error create labels ls else err)
    \<and> (\<forall>l. dc (slots s' l) =
          (if l \<in> set ls \<and> l \<in> labels \<and> create l = None
           then Some \<lparr>ch_state = Ds_kConnecting, ch_buffered = 0\<rparr> else dc (slots s l)))
    \<and> create_called s' = create_called s"
  using assms
proof (induction ls arbitrary: err s)
  case (Cons l ls)
  let ?err1 = "if l \<in> labels \<and> create l \<noteq> None \<and> err = None then Some (Rtc_Error (the (create l))) else err"
  let ?s1 = "if l \<in> labels \<and> create l = None then create_slot l s else s"
  have "create_loop create labels ls ?err1 ?s1 = (err', s')"
    using Cons.prems(2) by (auto split: if_splits option.splits)
  from Cons.IH [OF _ this] Cons.prems(1) show ?case
    by (auto simp: create_slot_def)
qed simp

lemma create_loop_trampoline:
  "l \<in> set ls \<and> l \<in> labels \<and> create l = None \<or> trampoline (slots s l)
   \<Longrightarrow> trampoline (slots (snd (create_loop create labels ls err s)) l)"
proof (induction create labels ls err s rule: create_loop.induct)
  case (2 create labels l' ls err s)
  then show ?case by (auto simp: create_slot_def split: option.split)
qed simp

text \<open>A requested channel that libwebrtc creates exists, is connecting, and is observed.\<close>

lemma CreateOutboundChannels_slot:
  fixes s :: "'t DcHost"
  assumes "\<not> create_called s" and "has_pc s" and "l \<in> labels" and "create l = None"
  shows "dc (slots (snd (CreateOutboundChannels create labels s)) l)
      = Some \<lparr>ch_state = Ds_kConnecting, ch_buffered = 0\<rparr>
    \<and> trampoline (slots (snd (CreateOutboundChannels create labels s)) l)"
proof -
  obtain err s' where run: "create_loop create labels all_labels None (s\<lparr>create_called := True\<rparr>) = (err, s')"
    by (cases "create_loop create labels all_labels None (s\<lparr>create_called := True\<rparr>)")
  moreover have "trampoline (slots (snd (create_loop create labels all_labels None (s\<lparr>create_called := True\<rparr>))) l)"
    by (rule create_loop_trampoline) (simp add: assms)
  ultimately show ?thesis
    using create_loop_result [OF distinct_all_labels run] assms
    by (simp add: CreateOutboundChannels_def Let_def)
qed

section \<open>Example data\<close>

definition create_ok :: "CbDcLabel \<Rightarrow> string option" where
  "create_ok l = None"

section \<open>Properties\<close>

text \<open>
  C31. The wire names identify the labels: a string is a label's name exactly when it parses
  to that label.
\<close>

theorem LabelFromString_iff: "LabelFromString s = Some l \<longleftrightarrow> s = LabelToString l"
  by (cases l) (auto simp: LabelFromString_def all_labels_def)

text \<open>
  Channel creation: on a fresh host, exactly the requested channels that libwebrtc can
  create exist afterwards, a failure does not stop the others, the result is the first
  failure in label order, and a second call is refused without any effect.
\<close>

theorem create_channels_exact:
  assumes "\<not> create_called s" and "has_pc s" and "\<And>l. dc (slots s l) = None"
    and "CreateOutboundChannels create labels s = (err, s')"
  shows "(\<forall>l. dc (slots s' l) \<noteq> None \<longleftrightarrow> l \<in> labels \<and> create l = None)
    \<and> err = first_error create labels all_labels
    \<and> CreateOutboundChannels create labels' s'
      = (Some (Inv_State ''CreateOutboundChannels already called''), s')"
proof -
  have "create_loop create labels all_labels None (s\<lparr>create_called := True\<rparr>) = (err, s')"
    using assms(1,2,4) by (simp add: CreateOutboundChannels_def Let_def)
  from create_loop_result [OF distinct_all_labels this] assms(3) show ?thesis
    by (simp add: CreateOutboundChannels_def)
qed

theorem create_channels_exact_witness:
  "let (err, s) = CreateOutboundChannels (\<lambda>l. if l = Dc_kStats then Some ''no'' else None)
         {Dc_kStats, Dc_kCursor} (new_dc_host True :: string DcHost)
   in err = Some (Rtc_Error ''no'') \<and> dc (slots s Dc_kCursor) \<noteq> None"
proof -
  obtain err s where run: "CreateOutboundChannels (\<lambda>l. if l = Dc_kStats then Some ''no'' else None)
      {Dc_kStats, Dc_kCursor} (new_dc_host True :: string DcHost) = (err, s)"
    by (cases "CreateOutboundChannels (\<lambda>l. if l = Dc_kStats then Some ''no'' else None)
      {Dc_kStats, Dc_kCursor} (new_dc_host True :: string DcHost)")
  have fresh: "\<not> create_called (new_dc_host True :: string DcHost)" "has_pc (new_dc_host True :: string DcHost)"
    "dc (slots (new_dc_host True :: string DcHost) l) = None" for l
    by (simp_all add: new_dc_host_def empty_slot_def)
  from create_channels_exact [OF fresh run, of "{}"] show ?thesis
    by (auto simp: run all_labels_def)
qed



lemma missing_never_opens:
  fixes s :: "'t DcHost"
  assumes "create_called s" and "dc (slots s l) = None" and "\<not> ever_opened (slots s l)"
    and "t = fold (dc_step create) es s"
  shows "dc (slots t l) = None \<and> \<not> ever_opened (slots t l)"
proof -
  have shut: "dc (slots (fold shutdown_slot ls u) l) = None \<and> \<not> ever_opened (slots (fold shutdown_slot ls u) l)"
    if "dc (slots u l) = None" "\<not> ever_opened (slots u l)" for ls and u :: "'t DcHost"
    using that by (induction ls rule: rev_induct) (auto simp: shutdown_slot_def Let_def)
  have calls: "create_called (fold shutdown_slot ls u) = create_called u" for ls and u :: "'t DcHost"
    using shutdown_slots by blast
  have changed: "dc (slots (OnChannelStateChanged_Signaling k u) l) = None
      \<and> \<not> ever_opened (slots (OnChannelStateChanged_Signaling k u) l)
      \<and> create_called (OnChannelStateChanged_Signaling k u) = create_called u"
    if "dc (slots u l) = None" "\<not> ever_opened (slots u l)" for k and u :: "'t DcHost"
    using that by (auto simp: OnChannelStateChanged_Signaling_def Let_def split: option.split)
  have step: "create_called (dc_step create e u) \<and> dc (slots (dc_step create e u) l) = None
      \<and> \<not> ever_opened (slots (dc_step create e u) l)"
    if "create_called u" "dc (slots u l) = None" "\<not> ever_opened (slots u l)" for e and u :: "'t DcHost"
    using that changed shut calls
    by (cases e) (auto simp: CreateOutboundChannels_def BindObserver_def send_buffer_def Shutdown_def
        SendAsync_def dc_Send_def set_channel_def OnStateChange_def OnMessage_def OnBufferedAmountChange_def Let_def
        split: option.split)
  have "create_called t \<and> dc (slots t l) = None \<and> \<not> ever_opened (slots t l)"
    unfolding assms(4) using assms(1-3)
    by (induction es arbitrary: s) (auto simp: step simp del: dc_step.simps)
  then show ?thesis by simp
qed

text \<open>
  A host that was asked for fewer than all six channels never becomes ready: a channel
  that was not requested counts as not opened, so the readiness signal is not given even
  when every requested channel is open.
\<close>

theorem narrow_host_never_ready:
  fixes t :: "'t DcHost"
  assumes "l \<notin> set labels" and "t = fold (dc_step create) (De_Create labels # es) (new_dc_host obs)"
  shows "\<not> AllChannelsOpen t \<and> Host_OnAllChannelsOpen \<notin> set (dc_out t)"
proof -
  let ?s = "snd (CreateOutboundChannels create (set labels) (new_dc_host obs :: 't DcHost))"
  obtain err where run: "create_loop create (set labels) all_labels None
      ((new_dc_host obs :: 't DcHost)\<lparr>create_called := True\<rparr>) = (err, ?s)"
    by (simp add: CreateOutboundChannels_def new_dc_host_def Let_def)
      (metis prod.collapse)
  have s: "create_called ?s" "dc (slots ?s l) = None"
    using create_loop_result [OF distinct_all_labels run] assms(1)
    by (simp_all add: new_dc_host_def empty_slot_def)
  have opened: "ever_opened (slots (snd (create_loop create ls' ls e u)) l) = ever_opened (slots u l)"
    for ls' ls e and u :: "'t DcHost"
    by (induction create ls' ls e u rule: create_loop.induct)
      (auto simp: create_slot_def split: option.split)
  have "\<not> ever_opened (slots ?s l)"
    using opened [of "set labels" all_labels None "(new_dc_host obs)\<lparr>create_called := True\<rparr>"] run
    by (simp add: new_dc_host_def empty_slot_def)
  then have never: "\<not> ever_opened (slots t l)"
    using missing_never_opens [OF s, of t create es] assms(2) by simp
  have "dc_invar t" unfolding assms(2) by (rule dc_machine.invar_reached) blast
  then have latch: "all_open_latched t \<longleftrightarrow> (\<forall>l. ever_opened (slots t l))"
    and told: "announcements t = (if all_open_latched t \<and> has_host_observer t then 1 else 0)"
    unfolding dc_invar_def by blast+
  from latch never have "\<not> all_open_latched t" by blast
  with told show ?thesis by (simp add: AllChannelsOpen_def announcements_def count_list_0_iff)
qed

theorem narrow_host_never_ready_witness:
  "Host_OnAllChannelsOpen \<notin> set (dc_out (fold (dc_step create_ok)
     (De_Create [Dc_kInput] # [De_State Dc_kInput Ds_kOpen]) (new_dc_host True :: string DcHost)))"
  using narrow_host_never_ready [where ?'t = string and l = Dc_kFiles and labels = "[Dc_kInput]" and create = create_ok
      and es = "[De_State Dc_kInput Ds_kOpen]" and obs = True, OF _ refl]
  by (simp del: dc_step.simps)

text \<open>
  After \<open>Shutdown\<close> of a host that had created its channels, whatever late callbacks, sends
  or bindings follow, nothing is sent, no consumer and no observer is called, and no channel
  reads as open; only an asynchronous send still gets its answer, and the answer is a refusal.
\<close>

theorem shutdown_is_silent:
  assumes "create_called s"
  shows "(\<exists>replies. dc_out (fold (dc_step create) es (Shutdown s)) = dc_out (Shutdown s) @ replies
        \<and> list_all is_refusal replies)
    \<and> \<not> IsOpen l (fold (dc_step create) es (Shutdown s))"
proof -
  have "quiet_since (dc_out (Shutdown s)) (Shutdown s)" by (simp add: quiet_since_def)
  with dc_shut.absorbed_run [of "Shutdown s" "dc_out (Shutdown s)" create es] Shutdown_gone [OF assms]
  show ?thesis by (auto simp: IsOpen_def dc_gone_def quiet_since_def)
qed

theorem shutdown_is_silent_witness:
  "let s = fold (dc_step create_ok) [De_Create [Dc_kInput], De_Bind Dc_kInput (Some 7)] (new_dc_host True :: string DcHost)
   in \<exists>replies. dc_out (fold (dc_step create_ok) [De_Message Dc_kInput ''x'' False] (Shutdown s))
        = dc_out (Shutdown s) @ replies \<and> list_all is_refusal replies"
proof -
  let ?s = "fold (dc_step create_ok) [De_Create [Dc_kInput], De_Bind Dc_kInput (Some 7)] (new_dc_host True :: string DcHost)"
  have "create_called ?s"
    by (simp add: new_dc_host_def CreateOutboundChannels_def BindObserver_def all_labels_def
        create_slot_def create_ok_def Let_def)
  from shutdown_is_silent [OF this, of create_ok "[De_Message Dc_kInput ''x'' False]"]
  show ?thesis by (simp only: Let_def)
qed

end
