(* ===== verification/Cb_Cursor_Emitter.thy ===== *)
theory Cb_Cursor_Emitter
  imports Cb_Cursor_Policy Cb_Dc_Host
begin

text \<open>
  The emitter that puts cursor changes on the cursor channel
  (\<^verbatim>\<open>capture/cursor/cb_cursor_dc_emitter.{h,cc}\<close>), and the session it works in: the cursor
  client and the join in front of it, the data channel host behind it, the signaling thread
  and the UI thread between them, and the viewer at the far end. The task queues of the two
  threads are part of the state, so that every interleaving is a sequence of steps.

  The environment of an operation is the JSON writer \<open>wr\<close>, the float quotient \<open>fdiv\<close>, the
  monotonic clock \<open>tick\<close> and the wall clock \<open>wall\<close>.
\<close>

section \<open>Emitter\<close>

record EmitterStats =
  st_emits :: nat
  suppress_dedupe :: nat
  suppress_debounce :: nat
  suppress_dc_closed :: nat
  send_errors :: nat
  dc_replays :: nat

text \<open>A call of the host's asynchronous send: the generation of the weak pointer in its
  completion callback, the arguments bound to it, and the text.\<close>

record 't CursorSend =
  snd_gen :: nat
  snd_joined :: JoinedCursorState
  snd_seq :: int
  record_emitted :: bool
  snd_text :: 't

record 't Emitter =
  em_policy :: EmitPolicy
  em_assembler :: EnvelopeAssembler
  cursor_dc_open :: bool
  cursor_dc_ever_opened :: bool
  started :: bool
  pending_while_closed :: "JoinedCursorState option"
  em_stats :: EmitterStats
  em_gen :: nat
  em_out :: "'t CursorSend list"

record 't Environment =
  wr :: "json \<Rightarrow> 't option"
  fdiv :: "rat \<Rightarrow> int \<Rightarrow> rat"

definition new_emitter :: "PolicyConfig \<Rightarrow> 't Emitter" where
  "new_emitter cfg =
     \<lparr>em_policy = new_policy cfg, em_assembler = new_assembler, cursor_dc_open = False,
      cursor_dc_ever_opened = False, started = False, pending_while_closed = None,
      em_stats = \<lparr>st_emits = 0, suppress_dedupe = 0, suppress_debounce = 0, suppress_dc_closed = 0,
                  send_errors = 0, dc_replays = 0\<rparr>,
      em_gen = 0, em_out = []\<rparr>"

text \<open>The cast of a float to an integer drops the fraction.\<close>

definition truncate :: "rat \<Rightarrow> int" where
  "truncate r = (if 0 \<le> r then \<lfloor>r\<rfloor> else - \<lfloor>- r\<rfloor>)"

definition view_with_seq ::
  "int \<Rightarrow> JoinedCursorState \<Rightarrow> int \<Rightarrow> EnvelopeAssembler \<Rightarrow> V1EnvelopeView \<times> EnvelopeAssembler" where
  "view_with_seq wall joined seq a =
     (case Assemble wall (jc_type joined) (jc_visible joined) 0 a of
        (view, a') \<Rightarrow>
          (view\<lparr>vw_seq := seq, vw_x := truncate (jc_x joined), vw_y := truncate (jc_y joined)\<rparr>, a'))"

definition EncodeWithSeq ::
  "'t Environment \<Rightarrow> int \<Rightarrow> JoinedCursorState \<Rightarrow> int \<Rightarrow> EnvelopeAssembler
    \<Rightarrow> 't option \<times> EnvelopeAssembler" where
  "EncodeWithSeq env wall joined seq a =
     (case view_with_seq wall joined seq a of (view, a') \<Rightarrow> (EncodeJson (wr env) view, a'))"

definition bump_errors :: "'t Emitter \<Rightarrow> 't Emitter" where
  "bump_errors e = e\<lparr>em_stats := (em_stats e)\<lparr>send_errors := send_errors (em_stats e) + 1\<rparr>\<rparr>"

definition EncodeAndSendAsync ::
  "'t Environment \<Rightarrow> int \<Rightarrow> JoinedCursorState \<Rightarrow> int \<Rightarrow> bool \<Rightarrow> 't Emitter \<Rightarrow> 't Emitter" where
  "EncodeAndSendAsync env wall joined seq rec e =
     (case EncodeWithSeq env wall joined seq (em_assembler e) of
        (None, a) \<Rightarrow> bump_errors (e\<lparr>em_assembler := a\<rparr>)
      | (Some encoded, a) \<Rightarrow>
          e\<lparr>em_assembler := a,
            em_out := em_out e @ [\<lparr>snd_gen = em_gen e, snd_joined = joined, snd_seq = seq,
                                   record_emitted = rec, snd_text = encoded\<rparr>]\<rparr>)"

definition OnSendComplete ::
  "'t Environment \<Rightarrow> int \<Rightarrow> JoinedCursorState \<Rightarrow> bool \<Rightarrow> bool \<Rightarrow> 't Emitter \<Rightarrow> 't Emitter" where
  "OnSendComplete env tick joined rec ok e =
     (if \<not> ok then bump_errors e
      else let e1 = e\<lparr>em_stats := (em_stats e)\<lparr>st_emits := st_emits (em_stats e) + 1\<rparr>\<rparr> in
        if rec then e1\<lparr>em_policy := OnEmitted (fdiv env) tick joined 0 (em_policy e1)\<rparr> else e1)"

definition OnJoined :: "'t Environment \<Rightarrow> int \<Rightarrow> int \<Rightarrow> JoinedCursorState \<Rightarrow> 't Emitter \<Rightarrow> 't Emitter" where
  "OnJoined env tick wall joined e =
     (case Decide (fdiv env) tick joined 0 (em_policy e) of (decision, p) \<Rightarrow>
        let e1 = e\<lparr>em_policy := p\<rparr> in
        case decision of
          Suppress_Dedupe \<Rightarrow>
            e1\<lparr>em_stats := (em_stats e1)\<lparr>suppress_dedupe := suppress_dedupe (em_stats e1) + 1\<rparr>\<rparr>
        | Suppress_Debounce \<Rightarrow>
            e1\<lparr>em_stats := (em_stats e1)\<lparr>suppress_debounce := suppress_debounce (em_stats e1) + 1\<rparr>\<rparr>
        | Emit \<Rightarrow>
            if \<not> cursor_dc_open e1
            then e1\<lparr>pending_while_closed := Some joined,
                    em_stats := (em_stats e1)
                      \<lparr>suppress_dc_closed := suppress_dc_closed (em_stats e1) + 1\<rparr>\<rparr>
            else case AllocSeq (em_policy e1) of (seq, p1) \<Rightarrow>
                   EncodeAndSendAsync env wall joined seq True (e1\<lparr>em_policy := p1\<rparr>))"

definition joined_of_snapshot :: "PolicySnapshot \<Rightarrow> JoinedCursorState" where
  "joined_of_snapshot snap =
     (default_joined (ps_type snap) (ps_visible snap))
       \<lparr>jc_x := of_int (x_rounded snap), jc_y := of_int (y_rounded snap),
        jc_buttons := ps_buttons snap, has_pointer_history := ps_history snap\<rparr>"

definition ReplayOnOpen :: "'t Environment \<Rightarrow> int \<Rightarrow> 't Emitter \<Rightarrow> 't Emitter" where
  "ReplayOnOpen env wall e =
     (let snaps = ReplayBuffer (em_policy e) in
      if snaps = [] then e
      else fold (\<lambda>snap. EncodeAndSendAsync env wall (joined_of_snapshot snap) (ps_seq snap) False) snaps
             (e\<lparr>em_stats := (em_stats e)\<lparr>dc_replays := dc_replays (em_stats e) + 1\<rparr>\<rparr>))"

definition OnChannelStateChanged_Ui ::
  "'t Environment \<Rightarrow> int \<Rightarrow> int \<Rightarrow> CbDcLabel \<Rightarrow> DataState \<Rightarrow> 't Emitter \<Rightarrow> 't Emitter" where
  "OnChannelStateChanged_Ui env tick wall label state e =
     (if label \<noteq> Dc_kCursor then e
      else case state of
        Ds_kOpen \<Rightarrow>
          let reopen = cursor_dc_ever_opened e \<and> \<not> cursor_dc_open e;
              e1 = e\<lparr>cursor_dc_open := True, cursor_dc_ever_opened := True\<rparr>;
              e2 = (case pending_while_closed e1 of
                      None \<Rightarrow> e1
                    | Some pending \<Rightarrow> OnJoined env tick wall pending (e1\<lparr>pending_while_closed := None\<rparr>))
          in if reopen then ReplayOnOpen env wall e2 else e2
      | Ds_kClosing \<Rightarrow> e\<lparr>cursor_dc_open := False\<rparr>
      | Ds_kClosed \<Rightarrow> e\<lparr>cursor_dc_open := False\<rparr>
      | Ds_kConnecting \<Rightarrow> e)"

section \<open>Session\<close>

datatype ui_task =
    Ui_StateChanged nat CbDcLabel DataState
  | Ui_SendComplete nat JoinedCursorState bool bool

record 't CursorSession =
  cs_client :: CursorClient
  cs_pointer :: "LastPointer option"
  emit_callback :: "nat option"
  cs_emitter :: "'t Emitter"
  cs_host :: "'t DcHost"
  sent_tasks :: nat
  ui_queue :: "ui_task list"

text \<open>The emitter's observer at the host: any number identifies it.\<close>

definition emitter_observer :: nat where
  "emitter_observer = 0"

definition post_ui :: "ui_task \<Rightarrow> 't CursorSession \<Rightarrow> 't CursorSession" where
  "post_ui t s = s\<lparr>ui_queue := ui_queue s @ [t]\<rparr>"

definition OnChannelStateChanged :: "CbDcLabel \<Rightarrow> DataState \<Rightarrow> 't CursorSession \<Rightarrow> 't CursorSession" where
  "OnChannelStateChanged label state s =
     post_ui (Ui_StateChanged (em_gen (cs_emitter s)) label state) s"

definition BindAndStart :: "'t CursorSession \<Rightarrow> 't CursorSession" where
  "BindAndStart s =
     (if started (cs_emitter s) then s
      else let e = (cs_emitter s)\<lparr>started := True\<rparr>;
               s1 = s\<lparr>cs_emitter := e, emit_callback := Some (em_gen e),
                      cs_host := BindObserver Dc_kCursor (Some emitter_observer) (cs_host s)\<rparr>
           in if IsOpen Dc_kCursor (cs_host s1) then OnChannelStateChanged Dc_kCursor Ds_kOpen s1 else s1)"

definition Stop :: "'t CursorSession \<Rightarrow> 't CursorSession" where
  "Stop s =
     (if \<not> started (cs_emitter s) then s
      else let e = (cs_emitter s)\<lparr>started := False\<rparr> in
        s\<lparr>emit_callback := None, cs_host := BindObserver Dc_kCursor None (cs_host s),
          cs_emitter := e\<lparr>em_gen := em_gen e + 1\<rparr>\<rparr>)"

text \<open>A change of the cursor reaches the emitter through the join's callback, while it is bound.\<close>

definition cursor_change ::
  "'t Environment \<Rightarrow> int \<Rightarrow> int \<Rightarrow> (CursorType \<times> bool) option \<times> CursorClient \<Rightarrow> 't CursorSession \<Rightarrow> 't CursorSession" where
  "cursor_change env tick wall change s =
     (let s1 = s\<lparr>cs_client := snd change\<rparr> in
      case fst change of
        None \<Rightarrow> s1
      | Some (type, visible) \<Rightarrow>
          if emit_callback s1 = Some (em_gen (cs_emitter s1))
          then s1\<lparr>cs_emitter := OnJoined env tick wall (OnCursorChange tick (cs_pointer s1) type visible)
                    (cs_emitter s1)\<rparr>
          else s1)"

text \<open>The signaling thread runs the oldest send that has not run, and answers to the UI thread.\<close>

definition run_signaling :: "'t CursorSession \<Rightarrow> 't CursorSession" where
  "run_signaling s =
     (case drop (sent_tasks s) (em_out (cs_emitter s)) of
        [] \<Rightarrow> s
      | x # _ \<Rightarrow>
          let ok = (fst (dc_Send Dc_kCursor (snd_text x) (cs_host s)) = None);
              s1 = s\<lparr>cs_host := SendAsync Dc_kCursor (snd_text x) True (cs_host s),
                     sent_tasks := sent_tasks s + 1\<rparr>
          in post_ui (Ui_SendComplete (snd_gen x) (snd_joined x) (record_emitted x) ok) s1)"

text \<open>The UI thread runs the oldest posted task; one whose weak pointer is stale does nothing.\<close>

fun run_ui_task :: "'t Environment \<Rightarrow> int \<Rightarrow> int \<Rightarrow> ui_task \<Rightarrow> 't Emitter \<Rightarrow> 't Emitter" where
  "run_ui_task env tick wall (Ui_StateChanged g label state) e =
     (if g = em_gen e then OnChannelStateChanged_Ui env tick wall label state e else e)"
| "run_ui_task env tick wall (Ui_SendComplete g joined rec ok) e =
     (if g = em_gen e then OnSendComplete env tick joined rec ok e else e)"

definition run_ui :: "'t Environment \<Rightarrow> int \<Rightarrow> int \<Rightarrow> 't CursorSession \<Rightarrow> 't CursorSession" where
  "run_ui env tick wall s =
     (case ui_queue s of
        [] \<Rightarrow> s
      | t # ts \<Rightarrow> s\<lparr>ui_queue := ts, cs_emitter := run_ui_task env tick wall t (cs_emitter s)\<rparr>)"

text \<open>
  A state change of the channel: the host's trampoline calls the emitter's observer, when it
  is bound, which reads whether the channel is open and posts to the UI thread.
\<close>

definition channel_state :: "(CbDcLabel \<Rightarrow> string option) \<Rightarrow> DataState \<Rightarrow> 't CursorSession \<Rightarrow> 't CursorSession" where
  "channel_state create st s =
     (let s1 = s\<lparr>cs_host := dc_step create (De_State Dc_kCursor st) (cs_host s)\<rparr> in
      if trampoline (slots (cs_host s) Dc_kCursor)
         \<and> bound_observers (cs_host s) Dc_kCursor = Some emitter_observer
      then OnChannelStateChanged Dc_kCursor
             (if IsOpen Dc_kCursor (cs_host s1) then Ds_kOpen else Ds_kClosed) s1
      else s1)"

datatype cursor_event =
    Cu_SetCursor CursorType
  | Cu_Show
  | Cu_Hide
  | Cu_Pointer rat rat nat int
  | Cu_Leave
  | Cu_Enter
  | Cu_Start
  | Cu_Stop
  | Cu_Channel DataState
  | Cu_Signaling
  | Cu_Ui

fun cu_step ::
  "'t Environment \<Rightarrow> (CbDcLabel \<Rightarrow> string option) \<Rightarrow> int \<times> int \<times> cursor_event \<Rightarrow> 't CursorSession \<Rightarrow> 't CursorSession" where
  "cu_step env create (tick, wall, Cu_SetCursor type) s =
     cursor_change env tick wall (HandleCursorSet type (cs_client s)) s"
| "cu_step env create (tick, wall, Cu_Show) s = cursor_change env tick wall (ShowCursor (cs_client s)) s"
| "cu_step env create (tick, wall, Cu_Hide) s = cursor_change env tick wall (HideCursor (cs_client s)) s"
| "cu_step env create (tick, wall, Cu_Pointer x y b t) s =
     s\<lparr>cs_pointer := map_option (Update x y b t) (cs_pointer s)\<rparr>"
| "cu_step env create (tick, wall, Cu_Leave) s =
     s\<lparr>cs_pointer := snd (HandlePointerLeaveEnvelope (cs_pointer s))\<rparr>"
| "cu_step env create (tick, wall, Cu_Enter) s =
     s\<lparr>cs_pointer := snd (HandlePointerEnterEnvelope (cs_pointer s))\<rparr>"
| "cu_step env create (tick, wall, Cu_Start) s = BindAndStart s"
| "cu_step env create (tick, wall, Cu_Stop) s = Stop s"
| "cu_step env create (tick, wall, Cu_Channel st) s = channel_state create st s"
| "cu_step env create (tick, wall, Cu_Signaling) s = run_signaling s"
| "cu_step env create (tick, wall, Cu_Ui) s = run_ui env tick wall s"

text \<open>What is on the wire, and what the viewer shows after reading it.\<close>

fun cursor_text :: "'t dc_call \<Rightarrow> 't list" where
  "cursor_text (Dc_SendAsync Dc_kCursor body False) = [body]"
| "cursor_text _ = []"

definition cursor_wire :: "'t CursorSession \<Rightarrow> 't list" where
  "cursor_wire s = concat (map cursor_text (dc_out (cs_host s)))"

definition viewer_of :: "('t \<Rightarrow> json option) \<Rightarrow> Viewer \<Rightarrow> 't CursorSession \<Rightarrow> Viewer" where
  "viewer_of rd r s = fold (attachCursorChannel rd) (cursor_wire s) r"


text \<open>The session at start-up, around a host that has its channels.\<close>

definition new_session :: "PolicyConfig \<Rightarrow> LastPointer option \<Rightarrow> 't DcHost \<Rightarrow> 't CursorSession" where
  "new_session cfg pointer host =
     \<lparr>cs_client = new_cursor_client, cs_pointer = pointer, emit_callback = None,
      cs_emitter = new_emitter cfg, cs_host = host, sent_tasks = 0, ui_queue = []\<rparr>"

section \<open>What a send shows\<close>

text \<open>A JSON library that writes every value, and reads back what it wrote.\<close>

definition json_codec :: "'t Environment \<Rightarrow> ('t \<Rightarrow> json option) \<Rightarrow> bool" where
  "json_codec env rd \<longleftrightarrow> (\<forall>v. \<exists>t. wr env v = Some t \<and> rd t = Some v)"

text \<open>The emitter never attaches an image, so a custom cursor means the default arrow.\<close>

definition css_shape :: "CursorType \<Rightarrow> bool \<Rightarrow> string" where
  "css_shape type visible = css_meaning type visible default_extraction"

abbreviation painted :: "('t \<Rightarrow> json option) \<Rightarrow> Viewer \<Rightarrow> 't CursorSession \<Rightarrow> string" where
  "painted rd r s \<equiv> video_cursor (viewer_of rd r s)"

lemma attach_view:
  assumes "rd t = Some (view_json (fst (view_with_seq wall joined seq a)))"
  shows "video_cursor (attachCursorChannel rd t r) = css_shape (jc_type joined) (jc_visible joined)"
proof -
  have "update (view_json (fst (view_with_seq wall joined seq a))) r =
    r\<lparr>overlay_shape := (if jc_visible joined then ShapeForType (jc_type joined) else ''none''),
      video_cursor := css_shape (jc_type joined) (jc_visible joined)\<rparr>"
    unfolding css_shape_def
    by (rule update_view_json) (simp_all add: view_with_seq_def Assemble_def default_extraction_def)
  with assms show ?thesis by (simp add: attachCursorChannel_def)
qed

lemma EncodeAndSendAsync_codec:
  assumes "json_codec env rd"
  obtains t where
    "EncodeAndSendAsync env wall joined seq rec e =
       e\<lparr>em_assembler := snd (view_with_seq wall joined seq (em_assembler e)),
         em_out := em_out e @ [\<lparr>snd_gen = em_gen e, snd_joined = joined, snd_seq = seq,
                                record_emitted = rec, snd_text = t\<rparr>]\<rparr>"
    and "\<And>r. video_cursor (attachCursorChannel rd t r) = css_shape (jc_type joined) (jc_visible joined)"
proof -
  from assms obtain t where "wr env (view_json (fst (view_with_seq wall joined seq (em_assembler e)))) = Some t"
    and "rd t = Some (view_json (fst (view_with_seq wall joined seq (em_assembler e))))"
    unfolding json_codec_def by blast
  then show ?thesis
    by (intro that [of t])
      (simp_all add: EncodeAndSendAsync_def EncodeWithSeq_def EncodeJson_def attach_view case_prod_unfold)
qed

section \<open>Settled sessions\<close>

text \<open>
  A session is settled when the emitter is bound, both sides see the channel open, and
  neither thread has work left. \<open>in_sync\<close>: the last recorded emit is the page's cursor, and
  it is what the viewer shows.
\<close>

definition channel_open :: "'t DcHost \<Rightarrow> bool" where
  "channel_open h \<longleftrightarrow> (\<exists>c. dc (slots h Dc_kCursor) = Some c \<and> ch_state c = Ds_kOpen)"

definition settled :: "'t CursorSession \<Rightarrow> bool" where
  "settled s \<longleftrightarrow> emit_callback s = Some (em_gen (cs_emitter s)) \<and> cursor_dc_open (cs_emitter s)
     \<and> channel_open (cs_host s) \<and> sent_tasks s = length (em_out (cs_emitter s)) \<and> ui_queue s = []
     \<and> min_emit_gap (ep_config (em_policy (cs_emitter s))) \<le> 0"

definition in_sync :: "('t \<Rightarrow> json option) \<Rightarrow> Viewer \<Rightarrow> 't CursorSession \<Rightarrow> bool" where
  "in_sync rd r s \<longleftrightarrow>
     (\<exists>l. last_emit (em_policy (cs_emitter s)) = Some l
        \<and> ps_type l = current_cursor (cs_client s) \<and> ps_visible l = cc_visible (cs_client s))
     \<and> painted rd r s = css_shape (current_cursor (cs_client s)) (cc_visible (cs_client s))"

lemma SendAsync_open:
  assumes "channel_open h"
  shows "fst (dc_Send Dc_kCursor body h) = None"
    and "SendAsync Dc_kCursor body True h =
      dc_emit (Reply_SendAsync Dc_kCursor True []) (dc_emit (Dc_SendAsync Dc_kCursor body False) h)"
  using assms by (auto simp: channel_open_def SendAsync_def dc_Send_def send_buffer_def)

lemma OnEmitted_fields [simp]:
  "ep_config (OnEmitted fd clock joined now p) = ep_config p"
  "next_seq (OnEmitted fd clock joined now p) = next_seq p"
  "last_emit (OnEmitted fd clock joined now p) =
     Some (snapshot_of fd (if now = 0 then clock else now) joined p)"
  by (simp_all add: OnEmitted_def Let_def)

lemma Decide_no_gap:
  assumes "min_emit_gap (ep_config p) \<le> 0"
  shows "Decide fd clock joined now p =
    (if IsDuplicate fd joined p then (Suppress_Dedupe, p) else (Emit, p\<lparr>ep_pending := None\<rparr>))"
  using assms by (simp add: Decide_def)

lemma duplicate_last:
  assumes "IsDuplicate fd joined p"
  shows "\<exists>l. last_emit p = Some l \<and> ps_type l = jc_type joined \<and> ps_visible l = jc_visible joined"
  using assms by (auto simp: IsDuplicate_def split: option.splits prod.splits)


lemma OnJoined_duplicate:
  assumes "min_emit_gap (ep_config (em_policy e)) \<le> 0" and "IsDuplicate (fdiv env) joined (em_policy e)"
  shows "OnJoined env tick wall joined e =
    e\<lparr>em_stats := (em_stats e)\<lparr>suppress_dedupe := suppress_dedupe (em_stats e) + 1\<rparr>\<rparr>"
  using assms by (simp add: OnJoined_def Decide_no_gap)

text \<open>A new state on an open channel is sent once, with the next sequence number.\<close>

lemma OnJoined_new:
  assumes "json_codec env rd" and "min_emit_gap (ep_config (em_policy e)) \<le> 0"
    and "\<not> IsDuplicate (fdiv env) joined (em_policy e)" and "cursor_dc_open e"
  obtains t a where
    "OnJoined env tick wall joined e =
       e\<lparr>em_policy := (em_policy e)\<lparr>ep_pending := None, next_seq := next_seq (em_policy e) + 1\<rparr>,
         em_assembler := a,
         em_out := em_out e @ [\<lparr>snd_gen = em_gen e, snd_joined = joined, snd_seq = next_seq (em_policy e),
                                record_emitted = True, snd_text = t\<rparr>]\<rparr>"
    and "\<And>r. video_cursor (attachCursorChannel rd t r) = css_shape (jc_type joined) (jc_visible joined)"
proof -
  let ?e = "e\<lparr>em_policy := (em_policy e)\<lparr>ep_pending := None, next_seq := next_seq (em_policy e) + 1\<rparr>\<rparr>"
  obtain t where sent: "EncodeAndSendAsync env wall joined (next_seq (em_policy e)) True ?e =
       ?e\<lparr>em_assembler := snd (view_with_seq wall joined (next_seq (em_policy e)) (em_assembler ?e)),
         em_out := em_out ?e @ [\<lparr>snd_gen = em_gen ?e, snd_joined = joined,
           snd_seq = next_seq (em_policy e), record_emitted = True, snd_text = t\<rparr>]\<rparr>"
    and shows_it: "\<And>r. video_cursor (attachCursorChannel rd t r) = css_shape (jc_type joined) (jc_visible joined)"
    by (rule EncodeAndSendAsync_codec [OF assms(1)]) blast
  have "OnJoined env tick wall joined e = EncodeAndSendAsync env wall joined (next_seq (em_policy e)) True ?e"
    using assms(2-4) by (simp add: OnJoined_def Decide_no_gap AllocSeq_def)
  with sent shows_it show ?thesis by (intro that) auto
qed

text \<open>The signaling thread runs the one send that is left; its answer is the UI thread's last task.\<close>

lemma run_signaling_idle: "sent_tasks s = length (em_out (cs_emitter s)) \<Longrightarrow> run_signaling s = s"
  by (simp add: run_signaling_def)

lemma run_signaling_next:
  assumes "em_out (cs_emitter s) = xs @ x # ys" and "sent_tasks s = length xs" and "channel_open (cs_host s)"
  shows "run_signaling s =
    s\<lparr>cs_host := dc_emit (Reply_SendAsync Dc_kCursor True [])
         (dc_emit (Dc_SendAsync Dc_kCursor (snd_text x) False) (cs_host s)),
      sent_tasks := length xs + 1,
      ui_queue := ui_queue s @ [Ui_SendComplete (snd_gen x) (snd_joined x) (record_emitted x) True]\<rparr>"
  using assms by (simp add: run_signaling_def SendAsync_open post_ui_def)

lemma cursor_wire_send:
  "cursor_wire (s\<lparr>cs_host := dc_emit (Reply_SendAsync l b m)
      (dc_emit (Dc_SendAsync Dc_kCursor t False) (cs_host s))\<rparr>) = cursor_wire s @ [t]"
  by (simp add: cursor_wire_def)

lemma channel_open_emit [simp]: "channel_open (dc_emit c h) = channel_open h"
  by (simp add: channel_open_def)

lemma viewer_of_cong: "cs_host s = cs_host s' \<Longrightarrow> viewer_of rd r s = viewer_of rd r s'"
  by (simp add: viewer_of_def cursor_wire_def)

lemma viewer_of_send:
  "cs_host s' = dc_emit (Reply_SendAsync l b m) (dc_emit (Dc_SendAsync Dc_kCursor t False) (cs_host s))
   \<Longrightarrow> viewer_of rd r s' = attachCursorChannel rd t (viewer_of rd r s)"
  by (simp add: viewer_of_def cursor_wire_def)

lemma complete_send:
  assumes "em_out (cs_emitter s) = xs @ x # ys" and "sent_tasks s = length xs" and "channel_open (cs_host s)"
    and "ui_queue s = []" and "snd_gen x = em_gen (cs_emitter s)"
  shows "run_ui env tick wall (run_signaling s) =
    s\<lparr>cs_emitter := OnSendComplete env tick (snd_joined x) (record_emitted x) True (cs_emitter s),
      cs_host := dc_emit (Reply_SendAsync Dc_kCursor True [])
         (dc_emit (Dc_SendAsync Dc_kCursor (snd_text x) False) (cs_host s)),
      sent_tasks := length xs + 1\<rparr>"
  using assms by (simp add: run_signaling_next [of s xs x ys] run_ui_def)

lemma settle_change:
  assumes codec: "json_codec env rd" and s: "settled s" and change: "change = (Some (type, visible), client)"
    and s': "s' = run_ui env tick2 wall2 (run_signaling (cursor_change env tick wall change s))"
  shows "settled s' \<and> cs_client s' = client
    \<and> (\<exists>l. last_emit (em_policy (cs_emitter s')) = Some l \<and> ps_type l = type \<and> ps_visible l = visible)
    \<and> (painted rd r s' = css_shape type visible
       \<or> IsDuplicate (fdiv env) (OnCursorChange tick (cs_pointer s) type visible) (em_policy (cs_emitter s))
         \<and> painted rd r s' = painted rd r s)"
proof (cases "IsDuplicate (fdiv env) (OnCursorChange tick (cs_pointer s) type visible) (em_policy (cs_emitter s))")
  case True
  let ?s1 = "cursor_change env tick wall change s"
  have s1: "?s1 = s\<lparr>cs_client := client, cs_emitter := (cs_emitter s)\<lparr>em_stats := (em_stats (cs_emitter s))
      \<lparr>suppress_dedupe := suppress_dedupe (em_stats (cs_emitter s)) + 1\<rparr>\<rparr>\<rparr>"
    using s True change by (simp add: cursor_change_def settled_def OnJoined_duplicate)
  have "s' = ?s1"
    using s by (simp add: s' s1 run_signaling_def run_ui_def settled_def)
  moreover have "painted rd r ?s1 = painted rd r s"
    by (simp add: s1 viewer_of_def cursor_wire_def)
  ultimately show ?thesis
    using s True duplicate_last [OF True] by (simp add: s1 settled_def)
next
  case False
  let ?joined = "OnCursorChange tick (cs_pointer s) type visible" and ?e = "cs_emitter s"
  from s have open_e: "cursor_dc_open ?e" and gap: "min_emit_gap (ep_config (em_policy ?e)) \<le> 0"
    and cb: "emit_callback s = Some (em_gen ?e)" and h: "channel_open (cs_host s)"
    and sent: "sent_tasks s = length (em_out ?e)" and ui: "ui_queue s = []"
    by (simp_all add: settled_def)
  obtain t a where joined: "OnJoined env tick wall ?joined ?e =
       ?e\<lparr>em_policy := (em_policy ?e)\<lparr>ep_pending := None, next_seq := next_seq (em_policy ?e) + 1\<rparr>,
         em_assembler := a,
         em_out := em_out ?e @ [\<lparr>snd_gen = em_gen ?e, snd_joined = ?joined, snd_seq = next_seq (em_policy ?e),
                                record_emitted = True, snd_text = t\<rparr>]\<rparr>"
    and shows_it: "\<And>r. video_cursor (attachCursorChannel rd t r) = css_shape (jc_type ?joined) (jc_visible ?joined)"
    by (rule OnJoined_new [OF codec gap False open_e]) blast
  let ?s1 = "cursor_change env tick wall change s"
  have s1: "?s1 = s\<lparr>cs_client := client, cs_emitter := OnJoined env tick wall ?joined ?e\<rparr>"
    using change cb by (simp add: cursor_change_def)
  have "s' = ?s1\<lparr>cs_emitter := OnSendComplete env tick2 ?joined True True (OnJoined env tick wall ?joined ?e),
      cs_host := dc_emit (Reply_SendAsync Dc_kCursor True []) (dc_emit (Dc_SendAsync Dc_kCursor t False) (cs_host s)),
      sent_tasks := length (em_out ?e) + 1\<rparr>"
    unfolding s' by (subst complete_send) (simp_all add: s1 joined sent h ui)+
  then have fields: "emit_callback s' = emit_callback s" "cs_client s' = client" "ui_queue s' = []"
    "cs_host s' = dc_emit (Reply_SendAsync Dc_kCursor True []) (dc_emit (Dc_SendAsync Dc_kCursor t False) (cs_host s))"
    "sent_tasks s' = length (em_out ?e) + 1"
    "cs_emitter s' = OnSendComplete env tick2 ?joined True True (OnJoined env tick wall ?joined ?e)"
    by (simp_all add: s1 ui)
  have "painted rd r s' = css_shape type visible"
    using viewer_of_send [OF fields(4), of rd r] shows_it by simp
  then show ?thesis
    using cb open_e h gap by (simp add: settled_def fields joined OnSendComplete_def)
qed


lemma in_sync_after_change:
  assumes "json_codec env rd" and "settled s" and "change = (Some (type, visible), client)"
    and "current_cursor client = type" and "cc_visible client = visible"
    and "last_emit (em_policy (cs_emitter s)) = None \<or> in_sync rd r s"
    and "s' = run_ui env tick2 wall2 (run_signaling (cursor_change env tick wall change s))"
  shows "settled s' \<and> in_sync rd r s'"
proof -
  note step = settle_change [OF assms(1-3,7), of r]
  have "painted rd r s' = css_shape type visible"
  proof (cases "painted rd r s' = css_shape type visible")
    case False
    with step have dup: "IsDuplicate (fdiv env) (OnCursorChange tick (cs_pointer s) type visible) (em_policy (cs_emitter s))"
      and same: "painted rd r s' = painted rd r s" by blast+
    from duplicate_last [OF dup] assms(6) have "painted rd r s = css_shape type visible"
      by (auto simp: in_sync_def)
    with same show ?thesis by simp
  qed simp
  with step assms(4,5) show ?thesis by (simp add: in_sync_def)
qed

fun is_edge :: "cursor_event \<Rightarrow> bool" where
  "is_edge (Cu_SetCursor type) \<longleftrightarrow> True"
| "is_edge Cu_Show \<longleftrightarrow> True"
| "is_edge Cu_Hide \<longleftrightarrow> True"
| "is_edge (Cu_Pointer x y b t) \<longleftrightarrow> True"
| "is_edge Cu_Leave \<longleftrightarrow> True"
| "is_edge Cu_Enter \<longleftrightarrow> True"
| "is_edge _ \<longleftrightarrow> False"

text \<open>An edge and the two threads finishing their work on it.\<close>

definition settle :: "int \<times> int \<times> cursor_event \<Rightarrow> (int \<times> int \<times> cursor_event) list" where
  "settle e = (case e of (tick, wall, ev) \<Rightarrow> [(tick, wall, ev), (tick, wall, Cu_Signaling), (tick, wall, Cu_Ui)])"

lemma settled_quiet:
  assumes "settled s" and "cs_emitter s' = cs_emitter s" and "cs_host s' = cs_host s"
    and "emit_callback s' = emit_callback s" and "sent_tasks s' = sent_tasks s" and "ui_queue s' = ui_queue s"
  shows "settled s' \<and> run_ui env tick wall (run_signaling s') = s'"
  using assms by (simp add: settled_def run_signaling_idle) (simp add: run_ui_def)

lemma in_sync_quiet:
  assumes "in_sync rd r s" and "cs_emitter s' = cs_emitter s" and "cs_host s' = cs_host s"
    and "current_cursor (cs_client s') = current_cursor (cs_client s)"
    and "cc_visible (cs_client s') = cc_visible (cs_client s)"
  shows "in_sync rd r s'"
  using assms(1) viewer_of_cong [OF assms(3), of rd r] by (simp add: in_sync_def assms(2,4,5))

lemma settle_edge:
  assumes "json_codec env rd" and "settled s" and "is_edge ev"
    and "in_sync rd r s \<or> last_emit (em_policy (cs_emitter s)) = None \<and> (\<exists>type. ev = Cu_SetCursor type)"
    and s': "s' = fold (cu_step env create) (settle (tick, wall, ev)) s"
  shows "settled s' \<and> in_sync rd r s'"
proof -
  let ?s1 = "cu_step env create (tick, wall, ev) s"
  have run: "s' = run_ui env tick wall (run_signaling ?s1)" by (simp add: s' settle_def)
  have change: "settled s' \<and> in_sync rd r s'"
    if "?s1 = cursor_change env tick wall (Some (type, visible), client) s"
      "current_cursor client = type" "cc_visible client = visible" for type visible client
    using in_sync_after_change [OF assms(1,2) refl that(2,3), of r s' tick wall tick wall] assms(4)
    by (auto simp: run that(1))
  have quiet: "settled s' \<and> in_sync rd r s'"
    if "cs_emitter ?s1 = cs_emitter s" "cs_host ?s1 = cs_host s" "emit_callback ?s1 = emit_callback s"
      "sent_tasks ?s1 = sent_tasks s" "ui_queue ?s1 = ui_queue s" "in_sync rd r s"
      "current_cursor (cs_client ?s1) = current_cursor (cs_client s)"
      "cc_visible (cs_client ?s1) = cc_visible (cs_client s)"
    using settled_quiet [OF assms(2) that(1-5), of env tick wall] in_sync_quiet [OF that(6,1,2,7,8)]
    by (simp add: run)
  show ?thesis
  proof (cases ev)
    case (Cu_SetCursor type)
    show ?thesis
      by (rule change [of type "cc_visible (cs_client s)" "(cs_client s)\<lparr>current_cursor := type\<rparr>"])
        (simp_all add: Cu_SetCursor HandleCursorSet_def)
  next
    case Cu_Show
    then show ?thesis
      using change [of "current_cursor (cs_client s)" True "(cs_client s)\<lparr>cc_visible := True\<rparr>"] quiet assms(4)
      by (cases "cc_visible (cs_client s)") (simp_all add: ShowCursor_def cursor_change_def)
  next
    case Cu_Hide
    then show ?thesis
      using change [of "current_cursor (cs_client s)" False "(cs_client s)\<lparr>cc_visible := False\<rparr>"] quiet assms(4)
      by (cases "cc_visible (cs_client s)") (simp_all add: HideCursor_def cursor_change_def)
  qed (use assms(3,4) quiet in simp_all)
qed

lemma settle_edges:
  assumes "json_codec env rd" and "settled s" and "in_sync rd r s" and "list_all (\<lambda>(tick, wall, ev). is_edge ev) es"
  shows "settled (fold (cu_step env create) (concat (map settle es)) s)
    \<and> in_sync rd r (fold (cu_step env create) (concat (map settle es)) s)"
  using assms(2-4)
proof (induction es arbitrary: s)
  case (Cons e es)
  obtain tick wall ev where e: "e = (tick, wall, ev)" by (cases e)
  have "settled (fold (cu_step env create) (settle e) s) \<and> in_sync rd r (fold (cu_step env create) (settle e) s)"
    using Cons.prems settle_edge [OF assms(1), of s ev r _ create tick wall] by (simp add: e)
  with Cons.IH Cons.prems(3) show ?case by simp
qed simp


section \<open>Starting up\<close>

text \<open>The host observes the emitter's channel.\<close>

definition bound_host :: "'t DcHost \<Rightarrow> bool" where
  "bound_host h \<longleftrightarrow> dc (slots h Dc_kCursor) \<noteq> None \<and> trampoline (slots h Dc_kCursor)
     \<and> bound_observers h Dc_kCursor = Some emitter_observer"

lemma host_state_change:
  assumes "bound_host h" and "h' = dc_step create (De_State Dc_kCursor st) h"
  shows "bound_host h' \<and> IsOpen Dc_kCursor h' = (st = Ds_kOpen) \<and> (channel_open h' \<longleftrightarrow> st = Ds_kOpen)
    \<and> concat (map cursor_text (dc_out h')) = concat (map cursor_text (dc_out h))"
proof -
  from assms(1) obtain c where c: "dc (slots h Dc_kCursor) = Some c"
    and bound: "bound_observers h Dc_kCursor = Some emitter_observer" by (auto simp: bound_host_def)
  have h': "h' = OnStateChange Dc_kCursor (set_channel Dc_kCursor (\<lambda>c. c\<lparr>ch_state := st\<rparr>) h)"
    using assms by (simp add: bound_host_def set_channel_def Let_def)
  have "bound_observers h' = bound_observers h" "trampoline (slots h' Dc_kCursor) = trampoline (slots h Dc_kCursor)"
    "dc (slots h' Dc_kCursor) = Some (c\<lparr>ch_state := st\<rparr>)"
    "concat (map cursor_text (dc_out h')) = concat (map cursor_text (dc_out h))"
    unfolding h' OnStateChange_def OnChannelStateChanged_Signaling_def
    by (simp_all add: set_channel_def c bound Let_def)
  with assms(1) show ?thesis by (auto simp: bound_host_def IsOpen_def channel_open_def)
qed

lemma channel_state_change:
  assumes "bound_host (cs_host s)"
  obtains h where "bound_host h" and "channel_open h \<longleftrightarrow> st = Ds_kOpen"
    and "concat (map cursor_text (dc_out h)) = concat (map cursor_text (dc_out (cs_host s)))"
    and "channel_state create st s = s\<lparr>cs_host := h, ui_queue := ui_queue s
      @ [Ui_StateChanged (em_gen (cs_emitter s)) Dc_kCursor (if st = Ds_kOpen then Ds_kOpen else Ds_kClosed)]\<rparr>"
  using host_state_change [OF assms refl, of create st] assms
  by (intro that [of "dc_step create (De_State Dc_kCursor st) (cs_host s)"])
    (simp_all add: channel_state_def OnChannelStateChanged_def post_ui_def bound_host_def Let_def
      del: dc_step.simps)

definition start_up :: "int \<Rightarrow> int \<Rightarrow> (int \<times> int \<times> cursor_event) list" where
  "start_up tick wall = [(tick, wall, Cu_Start), (tick, wall, Cu_Channel Ds_kOpen), (tick, wall, Cu_Ui)]"

lemma start_up_settles:
  assumes "min_emit_gap cfg \<le> 0" and "\<not> IsOpen Dc_kCursor host"
    and "dc (slots host Dc_kCursor) \<noteq> None" and "trampoline (slots host Dc_kCursor)"
    and s: "s = fold (cu_step env create) (start_up tick wall) (new_session cfg pointer host)"
  shows "settled s \<and> last_emit (em_policy (cs_emitter s)) = None"
proof -
  let ?s1 = "BindAndStart (new_session cfg pointer host)"
  have s1: "?s1 = (new_session cfg pointer host)\<lparr>cs_emitter := (new_emitter cfg)\<lparr>started := True\<rparr>,
      emit_callback := Some 0, cs_host := BindObserver Dc_kCursor (Some emitter_observer) host\<rparr>"
    using assms(2) by (simp add: BindAndStart_def new_session_def new_emitter_def IsOpen_def BindObserver_def)
  obtain h where h: "channel_open h" and s2: "channel_state create Ds_kOpen ?s1 =
      ?s1\<lparr>cs_host := h, ui_queue := ui_queue ?s1 @ [Ui_StateChanged (em_gen (cs_emitter ?s1)) Dc_kCursor Ds_kOpen]\<rparr>"
    by (rule channel_state_change [of ?s1 Ds_kOpen create])
      (use assms(3,4) in \<open>auto simp: s1 bound_host_def BindObserver_def\<close>)
  have "s = run_ui env tick wall (channel_state create Ds_kOpen ?s1)"
    by (simp add: s start_up_def)
  then have "s = run_ui env tick wall ((new_session cfg pointer host)
      \<lparr>cs_emitter := (new_emitter cfg)\<lparr>started := True\<rparr>, emit_callback := Some 0, cs_host := h,
       ui_queue := [Ui_StateChanged 0 Dc_kCursor Ds_kOpen]\<rparr>)"
    unfolding s2 unfolding s1 by (simp add: new_session_def new_emitter_def)
  then show ?thesis
    using assms(1) h
    by (simp add: run_ui_def new_session_def new_emitter_def new_policy_def settled_def
        OnChannelStateChanged_Ui_def Let_def)
qed


section \<open>Example data\<close>

definition example_env :: "json Environment" where
  "example_env = \<lparr>wr = Some, fdiv = (\<lambda>r q. r / of_int q)\<rparr>"

lemma example_codec: "json_codec example_env Some"
  by (simp add: json_codec_def example_env_def)

text \<open>A session in which the arrow was sent and acknowledged.\<close>

definition example_host :: "json DcHost" where
  "example_host = (new_dc_host True)\<lparr>create_called := True,
     slots := (\<lambda>_. \<lparr>dc = Some \<lparr>ch_state = Ds_kOpen, ch_buffered = 0\<rparr>, trampoline = True, ever_opened = True\<rparr>),
     bound_observers := (\<lambda>_. None)(Dc_kCursor := Some emitter_observer)\<rparr>"

definition example_session :: "json CursorSession" where
  "example_session = (new_session default_policy_config None example_host)
     \<lparr>cs_client := new_cursor_client\<lparr>current_cursor := Ct_kPointer\<rparr>, emit_callback := Some 0,
      cs_emitter := (new_emitter default_policy_config)
        \<lparr>started := True, cursor_dc_open := True, cursor_dc_ever_opened := True,
         em_policy := OnEmitted (fdiv example_env) 1 (default_joined Ct_kPointer True) 0
           ((new_policy default_policy_config)\<lparr>next_seq := 1\<rparr>)\<rparr>\<rparr>"

lemma example_settled: "settled example_session"
  by (simp add: settled_def example_session_def new_session_def new_emitter_def channel_open_def
      example_host_def new_policy_def default_policy_config_def)

lemma example_duplicate:
  "IsDuplicate (fdiv example_env) (OnCursorChange now (cs_pointer example_session) Ct_kPointer True)
     (em_policy (cs_emitter example_session))"
  by (simp add: example_session_def new_session_def IsDuplicate_def snapshot_of_def OnCursorChange_def
      FillPositionFromSnapshot_def default_joined_def split: prod.split)

section \<open>Properties\<close>




text \<open>
  A quick return is lost: when the page changes the cursor and changes it back before the
  first change's send has completed, the second change is dropped as a duplicate of the last
  completed one. Both threads then have nothing left to do, the page has its old cursor, and
  the viewer keeps showing the other one.
\<close>

theorem quick_return_is_lost:
  assumes codec: "json_codec env rd" and s: "settled s" and vis: "visible = cc_visible (cs_client s)"
    and dup: "IsDuplicate (fdiv env) (OnCursorChange t2 (cs_pointer s) A visible) (em_policy (cs_emitter s))"
    and "A \<noteq> B"
    and s': "s' = fold (cu_step env create)
      [(t1, w1, Cu_SetCursor B), (t2, w2, Cu_SetCursor A), (t3, w3, Cu_Signaling), (t4, w4, Cu_Ui)] s"
  shows "settled s' \<and> current_cursor (cs_client s') = A \<and> painted rd r s' = css_shape B visible"
proof -
  let ?e = "cs_emitter s"
  let ?jA = "OnCursorChange t2 (cs_pointer s) A visible" and ?jB = "OnCursorChange t1 (cs_pointer s) B visible"
  from s have open_e: "cursor_dc_open ?e" and gap: "min_emit_gap (ep_config (em_policy ?e)) \<le> 0"
    and cb: "emit_callback s = Some (em_gen ?e)" and h: "channel_open (cs_host s)"
    and sent: "sent_tasks s = length (em_out ?e)" and ui: "ui_queue s = []"
    by (simp_all add: settled_def)
  have new: "\<not> IsDuplicate (fdiv env) ?jB (em_policy ?e)"
    using duplicate_last [OF dup] duplicate_last [of "fdiv env" ?jB "em_policy ?e"] \<open>A \<noteq> B\<close> by auto
  obtain t a where joined: "OnJoined env t1 w1 ?jB ?e =
       ?e\<lparr>em_policy := (em_policy ?e)\<lparr>ep_pending := None, next_seq := next_seq (em_policy ?e) + 1\<rparr>,
         em_assembler := a,
         em_out := em_out ?e @ [\<lparr>snd_gen = em_gen ?e, snd_joined = ?jB, snd_seq = next_seq (em_policy ?e),
                                record_emitted = True, snd_text = t\<rparr>]\<rparr>"
    and shows_it: "\<And>r. video_cursor (attachCursorChannel rd t r) = css_shape (jc_type ?jB) (jc_visible ?jB)"
    by (rule OnJoined_new [OF codec gap new open_e]) blast
  let ?e1 = "OnJoined env t1 w1 ?jB ?e"
  have "IsDuplicate (fdiv env) ?jA (em_policy ?e1)"
    using dup by (simp add: joined)
  then have "OnJoined env t2 w2 ?jA ?e1 =
      ?e1\<lparr>em_stats := (em_stats ?e1)\<lparr>suppress_dedupe := suppress_dedupe (em_stats ?e1) + 1\<rparr>\<rparr>"
    by (intro OnJoined_duplicate) (simp_all add: joined gap)
  note again = this [unfolded joined]
  let ?client = "(cs_client s)\<lparr>current_cursor := A\<rparr>"
  let ?e2 = "OnJoined env t2 w2 ?jA ?e1"
  let ?s2 = "s\<lparr>cs_client := ?client, cs_emitter := ?e2\<rparr>"
  have s2: "fold (cu_step env create) [(t1, w1, Cu_SetCursor B), (t2, w2, Cu_SetCursor A)] s = ?s2"
    using cb by (simp add: HandleCursorSet_def cursor_change_def vis [symmetric] joined again)
  have "s' = run_ui env t4 w4 (run_signaling (fold (cu_step env create)
      [(t1, w1, Cu_SetCursor B), (t2, w2, Cu_SetCursor A)] s))"
    by (simp add: s')
  also have "\<dots> = ?s2\<lparr>cs_emitter := OnSendComplete env t4 ?jB True True ?e2,
      cs_host := dc_emit (Reply_SendAsync Dc_kCursor True []) (dc_emit (Dc_SendAsync Dc_kCursor t False) (cs_host s)),
      sent_tasks := length (em_out ?e) + 1\<rparr>"
    unfolding s2 by (subst complete_send) (simp_all add: again joined sent h ui)+
  finally have fields: "emit_callback s' = emit_callback s" "cs_client s' = ?client" "ui_queue s' = []"
    "cs_host s' = dc_emit (Reply_SendAsync Dc_kCursor True []) (dc_emit (Dc_SendAsync Dc_kCursor t False) (cs_host s))"
    "sent_tasks s' = length (em_out ?e) + 1" "cs_emitter s' = OnSendComplete env t4 ?jB True True ?e2"
    by (simp_all add: ui)
  show ?thesis
    using viewer_of_send [OF fields(4), of rd r] shows_it cb open_e h gap
    by (simp add: settled_def fields again joined OnSendComplete_def)
qed

theorem quick_return_is_lost_witness:
  "let s = fold (cu_step example_env create_ok)
     [(2, 2, Cu_SetCursor Ct_kHand), (3, 3, Cu_SetCursor Ct_kPointer), (4, 4, Cu_Signaling), (5, 5, Cu_Ui)]
     example_session
   in current_cursor (cs_client s) = Ct_kPointer \<and> painted Some example_viewer s = ''pointer''"
  using quick_return_is_lost [OF example_codec example_settled _ _ _ refl, where visible = True and ?t2.0 = 3
      and A = Ct_kPointer and B = Ct_kHand and r = example_viewer and ?t1.0 = 2 and ?w1.0 = 2 and ?w2.0 = 3
      and ?t3.0 = 4 and ?w3.0 = 4 and ?t4.0 = 5 and ?w4.0 = 5 and create = create_ok]
  by (simp add: example_duplicate css_shape_def css_meaning_def ShapeForType_def Let_def del: cu_step.simps)
    (simp add: example_session_def new_cursor_client_def del: cu_step.simps)


text \<open>Reopening the channel: the parked change is sent first, then the replay of the last emit.\<close>

lemma reopen_sends_replay_last:
  assumes codec: "json_codec env rd" and "min_emit_gap (ep_config (em_policy e)) \<le> 0"
    and "\<not> IsDuplicate (fdiv env) joined (em_policy e)"
    and "pending_while_closed e = Some joined" and "cursor_dc_ever_opened e" and "\<not> cursor_dc_open e"
    and "ReplayBuffer (em_policy e) = [l]"
  obtains a k x y where
    "OnChannelStateChanged_Ui env tick wall Dc_kCursor Ds_kOpen e =
       e\<lparr>cursor_dc_open := True, cursor_dc_ever_opened := True, pending_while_closed := None,
         em_assembler := a, em_stats := k,
         em_policy := (em_policy e)\<lparr>ep_pending := None, next_seq := next_seq (em_policy e) + 1\<rparr>,
         em_out := em_out e @ [x, y]\<rparr>"
    and "snd_gen x = em_gen e" and "snd_joined x = joined" and "record_emitted x"
    and "snd_gen y = em_gen e" and "\<not> record_emitted y"
    and "\<And>r. video_cursor (attachCursorChannel rd (snd_text y) r) = css_shape (ps_type l) (ps_visible l)"
proof -
  let ?e0 = "e\<lparr>cursor_dc_open := True, cursor_dc_ever_opened := True, pending_while_closed := None\<rparr>"
  obtain t a where e1: "OnJoined env tick wall joined ?e0 =
       ?e0\<lparr>em_policy := (em_policy ?e0)\<lparr>ep_pending := None, next_seq := next_seq (em_policy ?e0) + 1\<rparr>,
         em_assembler := a,
         em_out := em_out ?e0 @ [\<lparr>snd_gen = em_gen ?e0, snd_joined = joined, snd_seq = next_seq (em_policy ?e0),
                                record_emitted = True, snd_text = t\<rparr>]\<rparr>"
    by (rule OnJoined_new [OF codec, of ?e0 joined]) (use assms(2,3) in auto)
  let ?e1 = "OnJoined env tick wall joined ?e0"
  let ?k = "(em_stats ?e1)\<lparr>dc_replays := dc_replays (em_stats ?e1) + 1\<rparr>"
  obtain u where e2: "EncodeAndSendAsync env wall (joined_of_snapshot l) (ps_seq l) False (?e1\<lparr>em_stats := ?k\<rparr>) =
      ?e1\<lparr>em_stats := ?k,
        em_assembler := snd (view_with_seq wall (joined_of_snapshot l) (ps_seq l) (em_assembler ?e1)),
        em_out := em_out ?e1 @ [\<lparr>snd_gen = em_gen ?e1, snd_joined = joined_of_snapshot l,
          snd_seq = ps_seq l, record_emitted = False, snd_text = u\<rparr>]\<rparr>"
    and u: "\<And>r. video_cursor (attachCursorChannel rd u r)
      = css_shape (jc_type (joined_of_snapshot l)) (jc_visible (joined_of_snapshot l))"
    by (rule EncodeAndSendAsync_codec [OF codec, of wall "joined_of_snapshot l" "ps_seq l" False "?e1\<lparr>em_stats := ?k\<rparr>"])
      auto
  have "ReplayBuffer (em_policy ?e1) = [l]" using assms(7) by (simp add: e1 ReplayBuffer_def)
  then have run: "OnChannelStateChanged_Ui env tick wall Dc_kCursor Ds_kOpen e =
      EncodeAndSendAsync env wall (joined_of_snapshot l) (ps_seq l) False (?e1\<lparr>em_stats := ?k\<rparr>)"
    using assms(4-6) by (simp add: OnChannelStateChanged_Ui_def ReplayOnOpen_def Let_def)
  let ?x = "\<lparr>snd_gen = em_gen e, snd_joined = joined, snd_seq = next_seq (em_policy e),
    record_emitted = True, snd_text = t\<rparr>"
  let ?y = "\<lparr>snd_gen = em_gen e, snd_joined = joined_of_snapshot l, snd_seq = ps_seq l,
    record_emitted = False, snd_text = u\<rparr>"
  have "OnChannelStateChanged_Ui env tick wall Dc_kCursor Ds_kOpen e =
     e\<lparr>cursor_dc_open := True, cursor_dc_ever_opened := True, pending_while_closed := None,
       em_assembler := snd (view_with_seq wall (joined_of_snapshot l) (ps_seq l) (em_assembler ?e1)),
       em_stats := ?k,
       em_policy := (em_policy e)\<lparr>ep_pending := None, next_seq := next_seq (em_policy e) + 1\<rparr>,
       em_out := em_out e @ [?x, ?y]\<rparr>"
    unfolding run e2 unfolding e1 by simp
  from that [OF this] u show ?thesis by (simp add: joined_of_snapshot_def default_joined_def)
qed


text \<open>A change while the channel is closed is parked.\<close>

lemma closed_change_is_parked:
  assumes "settled s" and "bound_host (cs_host s)" and "ps_type l \<noteq> B"
    and "last_emit (em_policy (cs_emitter s)) = Some l"
    and s': "s' = fold (cu_step env create) (map (\<lambda>ev. (tick, wall, ev))
      [Cu_Channel Ds_kClosed, Cu_Ui, Cu_SetCursor B, Cu_Channel Ds_kOpen]) s"
  obtains h k j where "bound_host h" and "channel_open h" and "jc_type j = B"
    and "s' = s\<lparr>cs_client := (cs_client s)\<lparr>current_cursor := B\<rparr>, cs_host := h,
      ui_queue := [Ui_StateChanged (em_gen (cs_emitter s)) Dc_kCursor Ds_kOpen],
      cs_emitter := (cs_emitter s)\<lparr>cursor_dc_open := False, em_policy := (em_policy (cs_emitter s))
        \<lparr>ep_pending := None\<rparr>, pending_while_closed := Some j, em_stats := k\<rparr>\<rparr>"
proof -
  let ?e = "cs_emitter s"
  from assms(1) have ui: "ui_queue s = []" and cb: "emit_callback s = Some (em_gen ?e)"
    and gap: "min_emit_gap (ep_config (em_policy ?e)) \<le> 0"
    by (simp_all add: settled_def)
  obtain h1 where h1: "bound_host h1" and a: "channel_state create Ds_kClosed s =
      s\<lparr>cs_host := h1, ui_queue := [Ui_StateChanged (em_gen ?e) Dc_kCursor Ds_kClosed]\<rparr>"
    by (rule channel_state_change [OF assms(2), of Ds_kClosed create]) (simp add: ui)
  let ?sb = "s\<lparr>cs_host := h1, ui_queue := [], cs_emitter := ?e\<lparr>cursor_dc_open := False\<rparr>\<rparr>"
  have b: "run_ui env tick wall (channel_state create Ds_kClosed s) = ?sb"
    unfolding a by (simp add: run_ui_def OnChannelStateChanged_Ui_def)
  let ?j = "OnCursorChange tick (cs_pointer s) B (cc_visible (cs_client s))"
  let ?k = "(em_stats ?e)\<lparr>suppress_dc_closed := suppress_dc_closed (em_stats ?e) + 1\<rparr>"
  have "\<not> IsDuplicate (fdiv env) ?j (em_policy ?e)"
    using duplicate_last [of "fdiv env" ?j "em_policy ?e"] assms(3,4) by auto
  then have joined: "OnJoined env tick wall ?j (?e\<lparr>cursor_dc_open := False\<rparr>) =
      ?e\<lparr>cursor_dc_open := False, em_policy := (em_policy ?e)\<lparr>ep_pending := None\<rparr>,
        pending_while_closed := Some ?j, em_stats := ?k\<rparr>"
    using gap by (simp add: OnJoined_def Decide_no_gap)
  let ?sc = "?sb\<lparr>cs_client := (cs_client s)\<lparr>current_cursor := B\<rparr>,
    cs_emitter := OnJoined env tick wall ?j (?e\<lparr>cursor_dc_open := False\<rparr>)\<rparr>"
  have c: "cu_step env create (tick, wall, Cu_SetCursor B) ?sb = ?sc"
    using cb by (simp add: HandleCursorSet_def cursor_change_def)
  obtain h2 where h2: "bound_host h2" "channel_open h2" and d: "channel_state create Ds_kOpen ?sc =
      ?sc\<lparr>cs_host := h2, ui_queue := [Ui_StateChanged (em_gen ?e) Dc_kCursor Ds_kOpen]\<rparr>"
    by (rule channel_state_change [of ?sc Ds_kOpen create]) (simp_all add: h1 joined)
  have "s' = channel_state create Ds_kOpen (cu_step env create (tick, wall, Cu_SetCursor B)
      (run_ui env tick wall (channel_state create Ds_kClosed s)))"
    by (simp add: s')
  also have "\<dots> = ?sc\<lparr>cs_host := h2, ui_queue := [Ui_StateChanged (em_gen ?e) Dc_kCursor Ds_kOpen]\<rparr>"
    unfolding b c d ..
  finally show ?thesis by (intro that [OF h2, of ?j ?k]) (simp_all add: joined)
qed

text \<open>Running everything the reopening has queued: the replayed message is the last one.\<close>

lemma reopen_run:
  assumes codec: "json_codec env rd" and e: "e = cs_emitter s"
    and gap: "min_emit_gap (ep_config (em_policy e)) \<le> 0" and cb: "emit_callback s = Some (em_gen e)"
    and new: "\<not> IsDuplicate (fdiv env) j (em_policy e)" and pending: "pending_while_closed e = Some j"
    and closed: "cursor_dc_ever_opened e" "\<not> cursor_dc_open e" and replay: "ReplayBuffer (em_policy e) = [l]"
    and h: "channel_open (cs_host s)" and sent: "sent_tasks s = length (em_out e)"
    and ui: "ui_queue s = [Ui_StateChanged (em_gen e) Dc_kCursor Ds_kOpen]"
    and s': "s' = fold (cu_step env create)
      (map (\<lambda>ev. (tick, wall, ev)) [Cu_Ui, Cu_Signaling, Cu_Ui, Cu_Signaling, Cu_Ui]) s"
  shows "settled s' \<and> cs_client s' = cs_client s \<and> painted rd r s' = css_shape (ps_type l) (ps_visible l)"
proof -
  obtain a k x y where e2: "OnChannelStateChanged_Ui env tick wall Dc_kCursor Ds_kOpen e =
       e\<lparr>cursor_dc_open := True, cursor_dc_ever_opened := True, pending_while_closed := None,
         em_assembler := a, em_stats := k,
         em_policy := (em_policy e)\<lparr>ep_pending := None, next_seq := next_seq (em_policy e) + 1\<rparr>,
         em_out := em_out e @ [x, y]\<rparr>"
    and xy: "snd_gen x = em_gen e" "record_emitted x" "snd_gen y = em_gen e" "\<not> record_emitted y"
    and shows_it: "\<And>r. video_cursor (attachCursorChannel rd (snd_text y) r) = css_shape (ps_type l) (ps_visible l)"
    by (rule reopen_sends_replay_last [OF codec gap new pending closed replay, of tick wall]) blast
  let ?sent = "\<lambda>t h. dc_emit (Reply_SendAsync Dc_kCursor True []) (dc_emit (Dc_SendAsync Dc_kCursor t False) h)"
  let ?e2 = "OnChannelStateChanged_Ui env tick wall Dc_kCursor Ds_kOpen e"
  let ?s2 = "s\<lparr>ui_queue := [], cs_emitter := ?e2\<rparr>"
  have s2: "run_ui env tick wall s = ?s2" by (simp add: run_ui_def ui e)
  let ?s3 = "?s2\<lparr>cs_emitter := OnSendComplete env tick (snd_joined x) True True ?e2,
    cs_host := ?sent (snd_text x) (cs_host s), sent_tasks := length (em_out e) + 1\<rparr>"
  have s3: "run_ui env tick wall (run_signaling ?s2) = ?s3"
    by (subst complete_send [where xs = "em_out e" and x = x and ys = "[y]"])
      (simp_all add: e2 xy sent h)
  let ?s4 = "?s3\<lparr>cs_emitter := OnSendComplete env tick (snd_joined y) False True (cs_emitter ?s3),
    cs_host := ?sent (snd_text y) (cs_host ?s3), sent_tasks := length (em_out e) + 2\<rparr>"
  have s4: "run_ui env tick wall (run_signaling ?s3) = ?s4"
    by (subst complete_send [where xs = "em_out e @ [x]" and x = y and ys = "[]"])
      (simp_all add: e2 xy sent h OnSendComplete_def)
  have "s' = run_ui env tick wall (run_signaling (run_ui env tick wall (run_signaling (run_ui env tick wall s))))"
    by (simp add: s')
  then have run: "s' = ?s4" unfolding s2 s3 s4 .
  have "viewer_of rd r s' = attachCursorChannel rd (snd_text y) (viewer_of rd r ?s3)"
    unfolding run by (rule viewer_of_send) simp
  with shows_it have "painted rd r s' = css_shape (ps_type l) (ps_visible l)" by simp
  then show ?thesis
    using cb h gap by (simp add: settled_def run OnSendComplete_def e2)
qed

text \<open>
  C39. After a reopening the viewer shows the old cursor: when the page changes the cursor while
  the channel is closed, the change is sent on reopening, but the replay of the last emit is
  sent after it. Both threads then have nothing left to do, the page has the new cursor, and
  the viewer shows the one from before the closing.
\<close>

theorem reopen_shows_stale_cursor:
  assumes codec: "json_codec env rd" and s: "settled s" and bound: "bound_host (cs_host s)"
    and l: "last_emit (em_policy (cs_emitter s)) = Some l" "ReplayBuffer (em_policy (cs_emitter s)) = [l]"
    and ever: "cursor_dc_ever_opened (cs_emitter s)" and B: "ps_type l \<noteq> B"
    and s': "s' = fold (cu_step env create) (map (\<lambda>ev. (tick, wall, ev))
      ([Cu_Channel Ds_kClosed, Cu_Ui, Cu_SetCursor B, Cu_Channel Ds_kOpen]
       @ [Cu_Ui, Cu_Signaling, Cu_Ui, Cu_Signaling, Cu_Ui])) s"
  shows "settled s' \<and> current_cursor (cs_client s') = B
    \<and> painted rd r s' = css_shape (ps_type l) (ps_visible l)"
proof -
  let ?e = "cs_emitter s"
  define s1 where "s1 = fold (cu_step env create) (map (\<lambda>ev. (tick, wall, ev))
      [Cu_Channel Ds_kClosed, Cu_Ui, Cu_SetCursor B, Cu_Channel Ds_kOpen]) s"
  obtain h k j where h: "channel_open h" and j: "jc_type j = B"
    and s1: "s1 = s\<lparr>cs_client := (cs_client s)\<lparr>current_cursor := B\<rparr>, cs_host := h,
      ui_queue := [Ui_StateChanged (em_gen ?e) Dc_kCursor Ds_kOpen],
      cs_emitter := ?e\<lparr>cursor_dc_open := False, em_policy := (em_policy ?e)\<lparr>ep_pending := None\<rparr>,
        pending_while_closed := Some j, em_stats := k\<rparr>\<rparr>"
    by (rule closed_change_is_parked [OF s bound B l(1) s1_def]) blast
  have new: "\<not> IsDuplicate (fdiv env) j (em_policy ?e)"
    using duplicate_last [of "fdiv env" j "em_policy ?e"] B l(1) j by auto
  have "s' = fold (cu_step env create)
      (map (\<lambda>ev. (tick, wall, ev)) [Cu_Ui, Cu_Signaling, Cu_Ui, Cu_Signaling, Cu_Ui]) s1"
    unfolding s1_def s' map_append fold_append comp_apply ..
  with reopen_run [OF codec refl, of s1 j l s' create tick wall r] new h l(2) ever s show ?thesis
    by (simp add: s1 settled_def ReplayBuffer_def del: cu_step.simps)
qed

theorem reopen_shows_stale_cursor_witness:
  "let s = fold (cu_step example_env create_ok) (map (\<lambda>ev. (9, 9, ev))
      ([Cu_Channel Ds_kClosed, Cu_Ui, Cu_SetCursor Ct_kHand, Cu_Channel Ds_kOpen]
       @ [Cu_Ui, Cu_Signaling, Cu_Ui, Cu_Signaling, Cu_Ui])) example_session
   in current_cursor (cs_client s) = Ct_kHand \<and> painted Some example_viewer s = ''default''"
proof -
  let ?l = "snapshot_of (fdiv example_env) 1 (default_joined Ct_kPointer True)
    ((new_policy default_policy_config)\<lparr>next_seq := 1\<rparr>)"
  have "bound_host (cs_host example_session)"
    "last_emit (em_policy (cs_emitter example_session)) = Some ?l"
    "ReplayBuffer (em_policy (cs_emitter example_session)) = [?l]"
    "cursor_dc_ever_opened (cs_emitter example_session)" "ps_type ?l \<noteq> Ct_kHand" "ps_type ?l = Ct_kPointer"
    "ps_visible ?l"
    by (simp_all add: bound_host_def example_session_def new_session_def example_host_def ReplayBuffer_def
        OnEmitted_def new_policy_def default_policy_config_def default_joined_def Let_def)
  with reopen_shows_stale_cursor [OF example_codec example_settled _ _ _ _ _ refl, of ?l Ct_kHand create_ok 9 9
      example_viewer]
  show ?thesis
    by (simp add: css_shape_def css_meaning_def ShapeForType_def Let_def del: cu_step.simps)
qed


section \<open>Sequence numbers\<close>

definition fresh_seqs :: "'t Emitter \<Rightarrow> int list" where
  "fresh_seqs e = map snd_seq (filter record_emitted (em_out e))"

text \<open>
  \<open>numbered\<close>: the fresh sends carry 0, 1, 2 and so on in order, every snapshot kept for replay
  and every send carries a number already given out, and an emit is recorded only after one.
\<close>

definition numbered :: "'t Emitter \<Rightarrow> bool" where
  "numbered e \<longleftrightarrow> fresh_seqs e = map int [0..<nat (next_seq (em_policy e))] \<and> 0 \<le> next_seq (em_policy e)
     \<and> (\<forall>snap \<in> set (ep_replay (em_policy e)). 0 \<le> ps_seq snap \<and> ps_seq snap < next_seq (em_policy e))
     \<and> (\<forall>x \<in> set (em_out e). 0 \<le> snd_seq x \<and> snd_seq x < next_seq (em_policy e))"

fun records :: "ui_task \<Rightarrow> bool" where
  "records (Ui_SendComplete g joined rec ok) \<longleftrightarrow> rec"
| "records (Ui_StateChanged g label state) \<longleftrightarrow> False"

definition cu_invar :: "'t CursorSession \<Rightarrow> bool" where
  "cu_invar s \<longleftrightarrow> numbered (cs_emitter s)
     \<and> (\<forall>t \<in> set (ui_queue s). records t \<longrightarrow> 0 < next_seq (em_policy (cs_emitter s)))"

lemma EncodeAndSendAsync_total:
  assumes "\<And>v. wr env v \<noteq> None"
  obtains t a where "EncodeAndSendAsync env wall joined seq rec e =
    e\<lparr>em_assembler := a, em_out := em_out e @ [\<lparr>snd_gen = em_gen e, snd_joined = joined, snd_seq = seq,
        record_emitted = rec, snd_text = t\<rparr>]\<rparr>"
proof -
  obtain view a where va: "view_with_seq wall joined seq (em_assembler e) = (view, a)"
    by (cases "view_with_seq wall joined seq (em_assembler e)")
  from assms [of "view_json view"] obtain t where "wr env (view_json view) = Some t" by blast
  with va show ?thesis
    by (intro that [where a = a and t = t]) (simp add: EncodeAndSendAsync_def EncodeWithSeq_def EncodeJson_def)
qed

lemma numbered_fresh:
  assumes "numbered e"
  shows "numbered (e\<lparr>em_policy := (em_policy e)\<lparr>next_seq := next_seq (em_policy e) + 1\<rparr>,
    em_assembler := a, em_out := em_out e @ [\<lparr>snd_gen = g, snd_joined = joined,
      snd_seq = next_seq (em_policy e), record_emitted = True, snd_text = t\<rparr>]\<rparr>)"
proof -
  let ?n = "next_seq (em_policy e)"
  from assms have "0 \<le> ?n" by (simp add: numbered_def)
  then have "nat (?n + 1) = Suc (nat ?n)" by simp
  with assms \<open>0 \<le> ?n\<close> show ?thesis by (force simp: numbered_def fresh_seqs_def)
qed

lemma numbered_policy:
  assumes "numbered e" and "next_seq p = next_seq (em_policy e)"
    and "\<And>snap. snap \<in> set (ep_replay p) \<Longrightarrow> 0 \<le> ps_seq snap \<and> ps_seq snap < next_seq (em_policy e)"
    and "em_policy e' = p" and "em_out e' = em_out e"
  shows "numbered e'"
  using assms by (simp add: numbered_def fresh_seqs_def)

lemma numbered_OnJoined:
  assumes "numbered e" and "\<And>v. wr env v \<noteq> None"
  shows "numbered (OnJoined env tick wall joined e)
    \<and> next_seq (em_policy e) \<le> next_seq (em_policy (OnJoined env tick wall joined e))"
proof -
  obtain d p where d: "Decide (fdiv env) tick joined 0 (em_policy e) = (d, p)"
    by (cases "Decide (fdiv env) tick joined 0 (em_policy e)")
  have p: "next_seq p = next_seq (em_policy e)" "ep_replay p = ep_replay (em_policy e)"
    using d by (auto simp: Decide_def Let_def split: if_splits)
  have keep: "numbered e'" if "em_policy e' = p" "em_out e' = em_out e" for e' :: "'a Emitter"
    by (rule numbered_policy [OF assms(1) p(1) _ that]) (use assms(1) p in \<open>auto simp: numbered_def\<close>)
  show ?thesis
  proof (cases "d = Emit \<and> cursor_dc_open e")
    case True
    let ?e = "e\<lparr>em_policy := p\<rparr>"
    obtain t a where sent: "EncodeAndSendAsync env wall joined (next_seq p) True (?e\<lparr>em_policy := p\<lparr>next_seq := next_seq p + 1\<rparr>\<rparr>) =
      ?e\<lparr>em_policy := p\<lparr>next_seq := next_seq p + 1\<rparr>, em_assembler := a,
        em_out := em_out e @ [\<lparr>snd_gen = em_gen e, snd_joined = joined, snd_seq = next_seq p,
          record_emitted = True, snd_text = t\<rparr>]\<rparr>"
      by (rule EncodeAndSendAsync_total [OF assms(2), of wall joined "next_seq p" True
            "?e\<lparr>em_policy := p\<lparr>next_seq := next_seq p + 1\<rparr>\<rparr>"]) simp
    have "numbered ?e" by (rule keep) simp_all
    from numbered_fresh [OF this, where a = a and g = "em_gen e" and joined = joined and t = t] True d sent p(1) show ?thesis
      by (simp add: OnJoined_def AllocSeq_def)
  next
    case False
    with d p(1) show ?thesis
      by (cases d) (auto simp: OnJoined_def intro: keep)
  qed
qed


lemma numbered_replay:
  assumes "numbered e" and "\<And>v. wr env v \<noteq> None"
    and "\<And>snap. snap \<in> set snaps \<Longrightarrow> 0 \<le> ps_seq snap \<and> ps_seq snap < next_seq (em_policy e)"
  shows "numbered (fold (\<lambda>snap. EncodeAndSendAsync env wall (joined_of_snapshot snap) (ps_seq snap) False) snaps e)
    \<and> em_policy (fold (\<lambda>snap. EncodeAndSendAsync env wall (joined_of_snapshot snap) (ps_seq snap) False) snaps e)
      = em_policy e"
  using assms(1,3)
proof (induction snaps arbitrary: e)
  case (Cons snap snaps)
  obtain t a where sent: "EncodeAndSendAsync env wall (joined_of_snapshot snap) (ps_seq snap) False e =
      e\<lparr>em_assembler := a, em_out := em_out e @ [\<lparr>snd_gen = em_gen e, snd_joined = joined_of_snapshot snap,
        snd_seq = ps_seq snap, record_emitted = False, snd_text = t\<rparr>]\<rparr>"
    by (rule EncodeAndSendAsync_total [OF assms(2), of wall "joined_of_snapshot snap" "ps_seq snap" False e]) blast
  have "numbered (EncodeAndSendAsync env wall (joined_of_snapshot snap) (ps_seq snap) False e)"
    using Cons.prems by (auto simp: sent numbered_def fresh_seqs_def)
  from Cons.IH [OF this] Cons.prems(2) show ?case by (simp add: sent)
qed simp

lemma numbered_state_changed:
  assumes "numbered e" and "\<And>v. wr env v \<noteq> None"
  shows "numbered (OnChannelStateChanged_Ui env tick wall label state e)
    \<and> next_seq (em_policy e) \<le> next_seq (em_policy (OnChannelStateChanged_Ui env tick wall label state e))"
proof -
  have same: "numbered e'" if "numbered e''" "em_policy e' = em_policy e''" "em_out e' = em_out e''"
    for e' e'' :: "'a Emitter"
    using that by (simp add: numbered_def fresh_seqs_def)
  let ?e1 = "e\<lparr>cursor_dc_open := True, cursor_dc_ever_opened := True\<rparr>"
  let ?e2 = "case pending_while_closed ?e1 of None \<Rightarrow> ?e1
    | Some pending \<Rightarrow> OnJoined env tick wall pending (?e1\<lparr>pending_while_closed := None\<rparr>)"
  have e1: "numbered ?e1" "numbered (?e1\<lparr>pending_while_closed := None\<rparr>)"
    by (rule same [OF assms(1)]; simp)+
  have e2: "numbered ?e2 \<and> next_seq (em_policy e) \<le> next_seq (em_policy ?e2)"
    using e1(1) numbered_OnJoined [OF e1(2) assms(2)] by (simp split: option.split)
  have replay: "numbered (ReplayOnOpen env wall e') \<and> em_policy (ReplayOnOpen env wall e') = em_policy e'"
    if "numbered e'" for e'
  proof -
    let ?e' = "e'\<lparr>em_stats := (em_stats e')\<lparr>dc_replays := dc_replays (em_stats e') + 1\<rparr>\<rparr>"
    have "numbered ?e'" by (rule same [OF that]) simp_all
    from numbered_replay [OF this assms(2), of "ReplayBuffer (em_policy e')" wall] that show ?thesis
      by (auto simp: ReplayOnOpen_def ReplayBuffer_def numbered_def Let_def)
  qed
  have closed: "numbered (e\<lparr>cursor_dc_open := False\<rparr>)" by (rule same [OF assms(1)]) simp_all
  show ?thesis
    using assms(1) e2 replay [of ?e2] closed
    by (cases state) (simp_all add: OnChannelStateChanged_Ui_def Let_def)
qed

lemma numbered_complete:
  assumes "numbered e" and "rec \<Longrightarrow> 0 < next_seq (em_policy e)"
  shows "numbered (OnSendComplete env tick joined rec ok e)
    \<and> next_seq (em_policy (OnSendComplete env tick joined rec ok e)) = next_seq (em_policy e)"
proof -
  have same: "numbered e'" if "em_policy e' = em_policy e" "em_out e' = em_out e" for e' :: "'a Emitter"
    using assms(1) that by (simp add: numbered_def fresh_seqs_def)
  have "numbered (e\<lparr>em_stats := k, em_policy := OnEmitted (fdiv env) tick joined 0 (em_policy e)\<rparr>)" if rec for k
    by (rule numbered_policy [OF assms(1), of "OnEmitted (fdiv env) tick joined 0 (em_policy e)"])
      (use assms that in \<open>auto simp: numbered_def dest!: OnEmitted_replay\<close>)
  then show ?thesis
    by (auto simp: OnSendComplete_def bump_errors_def Let_def intro: same)
qed


lemma cu_invar_step:
  assumes "cu_invar s" and "\<And>v. wr env v \<noteq> None"
  shows "cu_invar (cu_step env create e s)"
proof -
  obtain tick wall ev where e: "e = (tick, wall, ev)" by (cases e)
  have same: "cu_invar s'" if "cs_emitter s' = cs_emitter s" "ui_queue s' = ui_queue s" for s' :: "'a CursorSession"
    using assms(1) that by (simp add: cu_invar_def)
  have grow: "cu_invar s'" if "numbered (cs_emitter s')" "set (ui_queue s') \<subseteq> set (ui_queue s)"
    "next_seq (em_policy (cs_emitter s)) \<le> next_seq (em_policy (cs_emitter s'))" for s' :: "'a CursorSession"
    using assms(1) that by (fastforce simp: cu_invar_def)
  have change: "cu_invar (cursor_change env tick wall c s)" for c
    using numbered_OnJoined [OF _ assms(2), of "cs_emitter s"] assms(1)
    by (auto simp: cursor_change_def cu_invar_def Let_def split: option.split intro!: same)
      (metis (no_types, lifting) order_less_le_trans)
  have posted: "cu_invar s'"
    if "em_policy (cs_emitter s') = em_policy (cs_emitter s)" "em_out (cs_emitter s') = em_out (cs_emitter s)"
      "\<And>t. t \<in> set (ui_queue s') \<Longrightarrow> t \<notin> set (ui_queue s) \<Longrightarrow> records t \<Longrightarrow> 0 < next_seq (em_policy (cs_emitter s))"
    for s' :: "'a CursorSession"
    using assms(1) that by (auto simp: cu_invar_def numbered_def fresh_seqs_def)
  show ?thesis
  proof (cases ev)
    case Cu_Start
    then show ?thesis
      by (auto simp: e BindAndStart_def OnChannelStateChanged_def post_ui_def Let_def intro: posted same)
  next
    case Cu_Stop
    then show ?thesis by (auto simp: e Stop_def Let_def intro: posted same)
  next
    case (Cu_Channel st)
    then show ?thesis
      by (auto simp: e channel_state_def OnChannelStateChanged_def post_ui_def Let_def simp del: dc_step.simps
          intro: posted same)
  next
    case Cu_Signaling
    show ?thesis
    proof (cases "drop (sent_tasks s) (em_out (cs_emitter s))")
      case (Cons x xs)
      then have "x \<in> set (em_out (cs_emitter s))" by (metis in_set_dropD list.set_intros(1))
      then have "0 < next_seq (em_policy (cs_emitter s))"
        using assms(1) by (fastforce simp: cu_invar_def numbered_def)
      with Cons Cu_Signaling show ?thesis
        by (auto simp: e run_signaling_def post_ui_def Let_def intro: posted)
    qed (use assms(1) Cu_Signaling in \<open>simp add: e run_signaling_def\<close>)
  next
    case Cu_Ui
    show ?thesis
    proof (cases "ui_queue s")
      case (Cons t ts)
      have n: "numbered (cs_emitter s)" "records t \<Longrightarrow> 0 < next_seq (em_policy (cs_emitter s))"
        using assms(1) Cons by (auto simp: cu_invar_def)
      have "numbered (run_ui_task env tick wall t (cs_emitter s))
        \<and> next_seq (em_policy (cs_emitter s)) \<le> next_seq (em_policy (run_ui_task env tick wall t (cs_emitter s)))"
        using n numbered_state_changed [OF n(1) assms(2)] numbered_complete [OF n(1)] by (cases t) auto
      with Cons Cu_Ui show ?thesis by (auto simp: e run_ui_def intro: grow)
    qed (use assms(1) Cu_Ui in \<open>simp add: e run_ui_def\<close>)
  qed (simp_all add: e change same)
qed


interpretation cu_machine: invariant_machine "\<lambda>s. \<exists>cfg pointer host. s = new_session cfg pointer host"
  "cu_step \<lparr>wr = \<lambda>v. Some (w v), fdiv = fd\<rparr> create" cu_invar
  for w fd create
  by unfold_locales
    (auto simp: cu_invar_step,
      simp add: cu_invar_def numbered_def fresh_seqs_def new_session_def new_emitter_def new_policy_def)



end
