(* ===== verification/Cb_File_Upload.thy ===== *)
theory Cb_File_Upload
  imports Cb_Prelude "HOL-Library.Sublist" "HOL-Library.Monad_Syntax"
begin

text \<open>
  File uploads on the files channel: the receiver in the browser process
  (\<^verbatim>\<open>build-integration/cb_file_upload_receiver.{h,cc}\<close>) and the sender in the viewer
  (\<^verbatim>\<open>client/src/file-upload.ts\<close>). The receiver hands its file work to the thread pool and
  gets the results back on the UI thread: the tasks of both are part of the state, together
  with the disk, so that every interleaving is a sequence of steps. The pool gives no order,
  so a step may run any of its tasks.

  The JSON and Base64 libraries, the digest and the UTF-16 conversion are arguments.
\<close>

section \<open>Names\<close>

definition safe_char :: "char \<Rightarrow> bool" where
  "safe_char c \<longleftrightarrow>
     CHR ''a'' \<le> c \<and> c \<le> CHR ''z'' \<or> CHR ''A'' \<le> c \<and> c \<le> CHR ''Z''
     \<or> CHR ''0'' \<le> c \<and> c \<le> CHR ''9'' \<or> c = CHR ''.'' \<or> c = CHR ''_'' \<or> c = CHR ''-''"

definition SafeComponent :: "string \<Rightarrow> string" where
  "SafeComponent raw =
     (let out = map (\<lambda>c. if safe_char c then c else CHR ''_'') raw;
          out = (if out = [] \<or> out = ''.'' \<or> out = ''..'' then ''upload'' else out)
      in if length out > 128 then take 128 out else out)"

definition SafeId :: "string \<Rightarrow> string" where
  "SafeId raw = (let out = SafeComponent raw in if length out > 64 then take 64 out else out)"

section \<open>State\<close>

record Upload =
  up_name :: string
  display_name :: string
  up_sha256 :: string
  declared_size :: int
  received :: int
  next_chunk :: int
  up_path :: string
  writes_in_flight :: int
  end_pending :: bool

definition kMaxUploadBytes :: int where
  "kMaxUploadBytes = 100 * 1024 * 1024"

definition kMaxSessionUploadBytes :: int where
  "kMaxSessionUploadBytes = 512 * 1024 * 1024"

text \<open>The environment: the libraries and the directory.\<close>

record 't UploadEnv =
  up_rd :: "'t \<Rightarrow> json option"
  up_wr :: "json \<Rightarrow> 't option"
  Base64Decode :: "string \<Rightarrow> string option"
  Sha256Hex :: "string \<Rightarrow> string"
  UTF8ToUTF16 :: "string \<Rightarrow> string"
  uploads_dir :: string

text \<open>Tasks of the pool, and tasks of the UI thread.\<close>

datatype pool_task =
    Pt_AppendChunk string string string bool
  | Pt_HashFile string string
  | Pt_DeleteFile string
  | Pt_DeleteTree string

datatype 't ui_job =
    Uj_HandleEnvelope 't
  | Uj_OnChunkWritten string bool
  | Uj_OnFinalised string string string int bool

text \<open>Calls on the page's file chooser and on the data channel.\<close>

datatype 't up_call =
    FileSelectionCanceled nat
  | FileSelected nat string string nat
  | Files_SendAsync 't

record 't Receiver =
  uploads :: "string \<rightharpoonup> Upload"
  session_bytes :: int
  pending_listener :: "nat option"
  pending_mode :: nat
  chooser_deadline :: bool
  up_pool :: "pool_task list"
  up_ui :: "'t ui_job list"
  disk :: "string \<rightharpoonup> string"
  up_out :: "'t up_call list"

definition new_receiver :: "'t Receiver" where
  "new_receiver =
     \<lparr>uploads = Map.empty, session_bytes = 0, pending_listener = None, pending_mode = 0,
      chooser_deadline = False, up_pool = [], up_ui = [], disk = Map.empty, up_out = []\<rparr>"

definition up_emit :: "'t up_call \<Rightarrow> 't Receiver \<Rightarrow> 't Receiver" where
  "up_emit c s = s\<lparr>up_out := up_out s @ [c]\<rparr>"

definition post_pool :: "pool_task \<Rightarrow> 't Receiver \<Rightarrow> 't Receiver" where
  "post_pool t s = s\<lparr>up_pool := up_pool s @ [t]\<rparr>"

section \<open>Replies\<close>

definition up_Send :: "'t UploadEnv \<Rightarrow> json_dict \<Rightarrow> 't Receiver \<Rightarrow> 't Receiver" where
  "up_Send env envelope s =
     (case up_wr env (JDict envelope) of None \<Rightarrow> s | Some json \<Rightarrow> up_emit (Files_SendAsync json) s)"

definition progress_reply :: "string \<Rightarrow> int \<Rightarrow> int \<Rightarrow> json_dict" where
  "progress_reply upload_id got whole =
     DictSet ''bytes_total'' (JDouble (of_int whole))
       (DictSet ''bytes_received'' (JDouble (of_int got))
         (DictSet ''upload_id'' (JString upload_id)
           (DictSet ''type'' (JString ''file_upload_progress'') (DictSet ''v'' (JInt 1) []))))"

definition complete_reply :: "string \<Rightarrow> string \<Rightarrow> bool \<Rightarrow> json_dict" where
  "complete_reply upload_id path attached =
     DictSet ''attached_via'' (JString (if attached then ''fileChooser'' else ''none''))
       (DictSet ''server_path'' (JString path)
         (DictSet ''upload_id'' (JString upload_id)
           (DictSet ''type'' (JString ''file_upload_complete'') (DictSet ''v'' (JInt 1) []))))"

definition error_reply :: "string \<Rightarrow> string \<Rightarrow> string \<Rightarrow> json_dict" where
  "error_reply upload_id code message =
     DictSet ''error'' (JString message)
       (DictSet ''code'' (JString code)
         (DictSet ''upload_id'' (JString upload_id)
           (DictSet ''type'' (JString ''file_upload_error'') (DictSet ''v'' (JInt 1) []))))"

definition ReplyProgress :: "'t UploadEnv \<Rightarrow> string \<Rightarrow> int \<Rightarrow> int \<Rightarrow> 't Receiver \<Rightarrow> 't Receiver" where
  "ReplyProgress env upload_id got whole s = up_Send env (progress_reply upload_id got whole) s"

definition ReplyComplete :: "'t UploadEnv \<Rightarrow> string \<Rightarrow> string \<Rightarrow> bool \<Rightarrow> 't Receiver \<Rightarrow> 't Receiver" where
  "ReplyComplete env upload_id path attached s = up_Send env (complete_reply upload_id path attached) s"

definition ReplyError :: "'t UploadEnv \<Rightarrow> string \<Rightarrow> string \<Rightarrow> string \<Rightarrow> 't Receiver \<Rightarrow> 't Receiver" where
  "ReplyError env upload_id code message s = up_Send env (error_reply upload_id code message) s"

section \<open>The page's file chooser\<close>

definition CancelChooser :: "'t Receiver \<Rightarrow> 't Receiver" where
  "CancelChooser s =
     (let s1 = s\<lparr>chooser_deadline := False\<rparr> in
      case pending_listener s1 of
        None \<Rightarrow> s1
      | Some listener \<Rightarrow> up_emit (FileSelectionCanceled listener) (s1\<lparr>pending_listener := None\<rparr>))"

definition BeginChooser :: "nat \<Rightarrow> nat \<Rightarrow> 't Receiver \<Rightarrow> 't Receiver" where
  "BeginChooser listener mode s =
     (CancelChooser s)\<lparr>pending_listener := Some listener, pending_mode := mode, chooser_deadline := True\<rparr>"

definition ResolveChooserWith :: "string \<Rightarrow> string \<Rightarrow> 't Receiver \<Rightarrow> bool \<times> 't Receiver" where
  "ResolveChooserWith path shown s =
     (case pending_listener s of
        None \<Rightarrow> (False, s)
      | Some listener \<Rightarrow>
          (True, up_emit (FileSelected listener path shown (pending_mode s))
                   (s\<lparr>chooser_deadline := False, pending_listener := None\<rparr>)))"

section \<open>Frames\<close>

definition AbandonUpload ::
  "'t UploadEnv \<Rightarrow> string \<Rightarrow> Upload \<Rightarrow> string \<Rightarrow> string \<Rightarrow> 't Receiver \<Rightarrow> 't Receiver" where
  "AbandonUpload env upload_id up code message s =
     ReplyError env upload_id code message
       (post_pool (Pt_DeleteFile (up_path up)) (s\<lparr>uploads := (uploads s)(upload_id := None)\<rparr>))"

text \<open>The cast of a double to an integer drops the fraction.\<close>

definition to_integer :: "rat \<Rightarrow> int" where
  "to_integer r = (if 0 \<le> r then \<lfloor>r\<rfloor> else - \<lfloor>- r\<rfloor>)"

definition upload_path :: "'t UploadEnv \<Rightarrow> string \<Rightarrow> string \<Rightarrow> string" where
  "upload_path env upload_id name = uploads_dir env @ ''/'' @ upload_id @ ''__'' @ name"

definition HandleStart :: "'t UploadEnv \<Rightarrow> json_dict \<Rightarrow> 't Receiver \<Rightarrow> 't Receiver" where
  "HandleStart env data s =
     (case (FindString data ''upload_id'', FindString data ''name'', FindString data ''sha256'',
            FindDouble data ''size'') of
        (Some raw_id, Some name, Some sha, Some sz) \<Rightarrow>
          let upload_id = SafeId raw_id; declared = to_integer sz in
          if declared \<le> 0 \<or> declared > kMaxUploadBytes
          then ReplyError env upload_id ''too_large''
                 (''file is '' @ NumberToString declared @ '' bytes; the limit is ''
                  @ NumberToString kMaxUploadBytes) s
          else if session_bytes s + declared > kMaxSessionUploadBytes
          then ReplyError env upload_id ''session_quota''
                 (''this session has already uploaded '' @ NumberToString (session_bytes s)
                  @ '' bytes; the limit is '' @ NumberToString kMaxSessionUploadBytes) s
          else let safe = SafeComponent name;
                   up = \<lparr>up_name = safe, display_name = UTF8ToUTF16 env name,
                         up_sha256 = map ToLowerASCII sha, declared_size = declared, received = 0,
                         next_chunk = 0, up_path = upload_path env upload_id safe,
                         writes_in_flight = 0, end_pending = False\<rparr>
               in s\<lparr>uploads := (uploads s)(upload_id \<mapsto> up)\<rparr>
      | _ \<Rightarrow> s)"

definition HandleChunk :: "'t UploadEnv \<Rightarrow> json_dict \<Rightarrow> 't Receiver \<Rightarrow> 't Receiver" where
  "HandleChunk env data s =
     (case (FindString data ''upload_id'', FindString data ''data'', FindInt data ''seq'') of
        (Some raw_id, Some b64, Some seq) \<Rightarrow>
          let upload_id = SafeId raw_id in
          (case uploads s upload_id of
             None \<Rightarrow> s
           | Some up \<Rightarrow>
               if seq \<noteq> next_chunk up
               then AbandonUpload env upload_id up ''out_of_order''
                      (''expected seq '' @ NumberToString (next_chunk up) @ '', got '' @ NumberToString seq) s
               else case Base64Decode env b64 of
                 None \<Rightarrow> AbandonUpload env upload_id up ''bad_base64'' ''chunk did not decode'' s
               | Some bytes \<Rightarrow>
                   if received up + int (length bytes) > declared_size up
                   then AbandonUpload env upload_id up ''too_large''
                          ''more bytes arrived than the declared size'' s
                   else let up1 = up\<lparr>next_chunk := next_chunk up + 1,
                                     received := received up + int (length bytes),
                                     writes_in_flight := writes_in_flight up + 1\<rparr>
                        in post_pool (Pt_AppendChunk (up_path up) bytes upload_id (next_chunk up1 = 1))
                             (s\<lparr>uploads := (uploads s)(upload_id \<mapsto> up1)\<rparr>))
      | _ \<Rightarrow> s)"

definition FinaliseUpload :: "string \<Rightarrow> 't Receiver \<Rightarrow> 't Receiver" where
  "FinaliseUpload upload_id s =
     (case uploads s upload_id of None \<Rightarrow> s | Some up \<Rightarrow> post_pool (Pt_HashFile (up_path up) upload_id) s)"

definition OnChunkWritten :: "'t UploadEnv \<Rightarrow> string \<Rightarrow> bool \<Rightarrow> 't Receiver \<Rightarrow> 't Receiver" where
  "OnChunkWritten env upload_id ok s =
     (case uploads s upload_id of
        None \<Rightarrow> s
      | Some up \<Rightarrow>
          let up1 = (if writes_in_flight up > 0 then up\<lparr>writes_in_flight := writes_in_flight up - 1\<rparr> else up);
              s1 = s\<lparr>uploads := (uploads s)(upload_id \<mapsto> up1)\<rparr>
          in if \<not> ok
             then AbandonUpload env upload_id up1 ''write_failed'' (''could not write to '' @ up_path up1) s1
             else let s2 = ReplyProgress env upload_id (received up1) (declared_size up1) s1
                  in if end_pending up1 \<and> writes_in_flight up1 = 0 then FinaliseUpload upload_id s2 else s2)"

definition HandleEnd :: "'t UploadEnv \<Rightarrow> json_dict \<Rightarrow> 't Receiver \<Rightarrow> 't Receiver" where
  "HandleEnd env data s =
     (case FindString data ''upload_id'' of
        None \<Rightarrow> s
      | Some raw_id \<Rightarrow>
          let upload_id = SafeId raw_id in
          (case uploads s upload_id of
             None \<Rightarrow> s
           | Some up \<Rightarrow>
               if writes_in_flight up > 0
               then s\<lparr>uploads := (uploads s)(upload_id \<mapsto> up\<lparr>end_pending := True\<rparr>)\<rparr>
               else FinaliseUpload upload_id s))"

definition OnFinalised ::
  "'t UploadEnv \<Rightarrow> string \<Rightarrow> string \<Rightarrow> string \<Rightarrow> int \<Rightarrow> bool \<Rightarrow> 't Receiver \<Rightarrow> 't Receiver" where
  "OnFinalised env upload_id path actual_sha256 total_bytes ok s =
     (case uploads s upload_id of
        None \<Rightarrow> s
      | Some up \<Rightarrow>
          if \<not> ok
          then AbandonUpload env upload_id up ''hash_failed''
                 (''the file could not be hashed '' @ [CHR 0xE2, CHR 0x80, CHR 0x94]
                  @ '' see the guest log for whether the read itself failed'') s
          else if total_bytes \<noteq> declared_size up
          then AbandonUpload env upload_id up ''truncated''
                 (''expected '' @ NumberToString (declared_size up) @ '' bytes, have ''
                  @ NumberToString total_bytes) s
          else if up_sha256 up \<noteq> [] \<and> actual_sha256 \<noteq> up_sha256 up
          then AbandonUpload env upload_id up ''hash_mismatch''
                 (''expected '' @ up_sha256 up @ '', got '' @ actual_sha256) s
          else let s1 = s\<lparr>uploads := (uploads s)(upload_id := None),
                          session_bytes := session_bytes s + total_bytes\<rparr>
               in (case ResolveChooserWith path (display_name up) s1 of
                     (attached, s2) \<Rightarrow> ReplyComplete env upload_id path attached s2))"

definition HandleCancel :: "'t UploadEnv \<Rightarrow> json_dict \<Rightarrow> 't Receiver \<Rightarrow> 't Receiver" where
  "HandleCancel env data s =
     (case FindString data ''upload_id'' of
        None \<Rightarrow> s
      | Some raw_id \<Rightarrow>
          let upload_id = SafeId raw_id; s1 = CancelChooser s in
          (case uploads s1 upload_id of
             Some up \<Rightarrow> AbandonUpload env upload_id up ''cancelled'' ''the viewer cancelled the upload'' s1
           | None \<Rightarrow> ReplyError env upload_id ''cancelled'' ''the viewer cancelled the upload'' s1))"

definition HandleEnvelope :: "'t UploadEnv \<Rightarrow> 't \<Rightarrow> 't Receiver \<Rightarrow> 't Receiver" where
  "HandleEnvelope env json s =
     (case up_rd env json of
        Some (JDict parsed) \<Rightarrow>
          (case (FindInt parsed ''v'', FindString parsed ''type'') of
             (Some v, Some type) \<Rightarrow>
               if v \<noteq> 1 then s
               else if type = ''file_upload_start'' then HandleStart env parsed s
               else if type = ''file_upload_chunk'' then HandleChunk env parsed s
               else if type = ''file_upload_end'' then HandleEnd env parsed s
               else if type = ''file_upload_cancel'' then HandleCancel env parsed s
               else s
           | _ \<Rightarrow> s)
      | _ \<Rightarrow> s)"

definition up_OnMessage :: "'t \<Rightarrow> bool \<Rightarrow> 't Receiver \<Rightarrow> 't Receiver" where
  "up_OnMessage json binary s = (if binary then s else s\<lparr>up_ui := up_ui s @ [Uj_HandleEnvelope json]\<rparr>)"

definition ResetForNewSession :: "'t UploadEnv \<Rightarrow> 't Receiver \<Rightarrow> 't Receiver" where
  "ResetForNewSession env s =
     post_pool (Pt_DeleteTree (uploads_dir env)) ((CancelChooser s)\<lparr>uploads := Map.empty, session_bytes := 0\<rparr>)"

section \<open>The thread pool\<close>

text \<open>\<open>io_ok\<close> is the operating system's answer; a refused write leaves the disk as it was.\<close>

definition AppendChunk ::
  "bool \<Rightarrow> string \<Rightarrow> string \<Rightarrow> bool \<Rightarrow> (string \<rightharpoonup> string) \<Rightarrow> bool \<times> (string \<rightharpoonup> string)" where
  "AppendChunk io_ok path bytes first_chunk d =
     (if \<not> io_ok then (False, d)
      else if first_chunk then (True, d(path \<mapsto> bytes))
      else case d path of None \<Rightarrow> (False, d) | Some contents \<Rightarrow> (True, d(path \<mapsto> contents @ bytes)))"

definition HashFile :: "'t UploadEnv \<Rightarrow> bool \<Rightarrow> string \<Rightarrow> (string \<rightharpoonup> string) \<Rightarrow> string \<times> int" where
  "HashFile env io_ok path d =
     (case d path of
        Some contents \<Rightarrow>
          if io_ok then (map ToLowerASCII (Sha256Hex env contents), int (length contents)) else ([], 0)
      | None \<Rightarrow> ([], 0))"

fun run_pool_task :: "'t UploadEnv \<Rightarrow> bool \<Rightarrow> pool_task \<Rightarrow> 't Receiver \<Rightarrow> 't Receiver" where
  "run_pool_task env io_ok (Pt_AppendChunk path bytes upload_id first_chunk) s =
     (case AppendChunk io_ok path bytes first_chunk (disk s) of
        (ok, d) \<Rightarrow> s\<lparr>disk := d, up_ui := up_ui s @ [Uj_OnChunkWritten upload_id ok]\<rparr>)"
| "run_pool_task env io_ok (Pt_HashFile path upload_id) s =
     (case HashFile env io_ok path (disk s) of
        (hash, sz) \<Rightarrow> s\<lparr>up_ui := up_ui s @ [Uj_OnFinalised upload_id path hash sz (hash \<noteq> [])]\<rparr>)"
| "run_pool_task env io_ok (Pt_DeleteFile path) s = (if io_ok then s\<lparr>disk := (disk s)(path := None)\<rparr> else s)"
| "run_pool_task env io_ok (Pt_DeleteTree dir) s =
     (if io_ok then s\<lparr>disk := (\<lambda>p. if prefix (dir @ ''/'') p then None else disk s p)\<rparr> else s)"

section \<open>The receiver as a machine\<close>

datatype 't up_event =
    Ue_Message 't bool
  | Ue_Ui
  | Ue_Pool nat bool
  | Ue_BeginChooser nat nat
  | Ue_CancelChooser
  | Ue_Deadline
  | Ue_Reset

fun run_ui_job :: "'t UploadEnv \<Rightarrow> 't ui_job \<Rightarrow> 't Receiver \<Rightarrow> 't Receiver" where
  "run_ui_job env (Uj_HandleEnvelope json) s = HandleEnvelope env json s"
| "run_ui_job env (Uj_OnChunkWritten upload_id ok) s = OnChunkWritten env upload_id ok s"
| "run_ui_job env (Uj_OnFinalised upload_id path hash sz ok) s =
     OnFinalised env upload_id path hash sz ok s"

fun up_step :: "'t UploadEnv \<Rightarrow> 't up_event \<Rightarrow> 't Receiver \<Rightarrow> 't Receiver" where
  "up_step env (Ue_Message json binary) s = up_OnMessage json binary s"
| "up_step env Ue_Ui s =
     (case up_ui s of [] \<Rightarrow> s | j # js \<Rightarrow> run_ui_job env j (s\<lparr>up_ui := js\<rparr>))"
| "up_step env (Ue_Pool n io_ok) s =
     (if n < length (up_pool s)
      then run_pool_task env io_ok (up_pool s ! n) (s\<lparr>up_pool := take n (up_pool s) @ drop (Suc n) (up_pool s)\<rparr>)
      else s)"
| "up_step env (Ue_BeginChooser listener mode) s = BeginChooser listener mode s"
| "up_step env Ue_CancelChooser s = CancelChooser s"
| "up_step env Ue_Deadline s = (if chooser_deadline s then CancelChooser s else s)"
| "up_step env Ue_Reset s = ResetForNewSession env s"

section \<open>The sender\<close>

text \<open>
  The frames \<^verbatim>\<open>driveUpload\<close> sends for a file, when it is not cancelled and the channel stays
  open. The loop advances by the chunk size: with 0 it would not end.
\<close>

definition start_frame :: "string \<Rightarrow> string \<Rightarrow> string \<Rightarrow> int \<Rightarrow> string \<Rightarrow> json" where
  "start_frame upload_id name mime_type sz sha256 =
     JDict [(''v'', JInt 1), (''type'', JString ''file_upload_start''), (''upload_id'', JString upload_id),
            (''name'', JString name), (''mime_type'', JString mime_type), (''size'', JInt sz),
            (''sha256'', JString sha256)]"

definition chunk_frame :: "string \<Rightarrow> int \<Rightarrow> string \<Rightarrow> json" where
  "chunk_frame upload_id seq data =
     JDict [(''v'', JInt 1), (''type'', JString ''file_upload_chunk''), (''upload_id'', JString upload_id),
            (''seq'', JInt seq), (''data'', JString data)]"

definition end_frame :: "string \<Rightarrow> json" where
  "end_frame upload_id =
     JDict [(''v'', JInt 1), (''type'', JString ''file_upload_end''), (''upload_id'', JString upload_id)]"

partial_function (option) chunk_loop ::
  "(string \<Rightarrow> string) \<Rightarrow> nat \<Rightarrow> string \<Rightarrow> int \<Rightarrow> string \<Rightarrow> json list option" where
  "chunk_loop bytesToBase64 cs upload_id seq view =
     (if view = [] then Some []
      else do {
        rest \<leftarrow> chunk_loop bytesToBase64 cs upload_id (seq + 1) (drop cs view);
        Some (chunk_frame upload_id seq (bytesToBase64 (take cs view)) # rest)
      })"

definition driveUpload ::
  "(string \<Rightarrow> string) \<Rightarrow> (string \<Rightarrow> string) \<Rightarrow> nat \<Rightarrow> string \<Rightarrow> string \<Rightarrow> string \<Rightarrow> string \<Rightarrow> json list option" where
  "driveUpload bytesToBase64 sha256Hex cs upload_id name mime_type buf = do {
     chunks \<leftarrow> chunk_loop bytesToBase64 cs upload_id 0 buf;
     Some (start_frame upload_id name mime_type (int (length buf)) (sha256Hex buf)
           # chunks @ [end_frame upload_id])
   }"


section \<open>Where files may be\<close>

text \<open>A confined path is a single, safe, bounded name in the directory for uploads.\<close>

definition confined :: "'t UploadEnv \<Rightarrow> string \<Rightarrow> bool" where
  "confined env p \<longleftrightarrow> (\<exists>c. p = uploads_dir env @ ''/'' @ c \<and> list_all safe_char c \<and> c \<noteq> ''.'' \<and> c \<noteq> ''..''
     \<and> c \<noteq> [] \<and> length c \<le> 64 + 2 + 128)"

lemma safe_char_no_slash: "safe_char c \<Longrightarrow> c \<noteq> CHR ''/''"
  by (auto simp: safe_char_def)

lemma SafeComponent_safe: "list_all safe_char (SafeComponent raw) \<and> length (SafeComponent raw) \<le> 128"
proof -
  let ?out = "map (\<lambda>c. if safe_char c then c else CHR ''_'') raw"
  let ?named = "if ?out = [] \<or> ?out = ''.'' \<or> ?out = ''..'' then ''upload'' else ?out"
  have "list_all safe_char ?out" by (induction raw) (simp_all add: safe_char_def)
  then have "list_all safe_char ?named" by (simp add: safe_char_def)
  then show ?thesis unfolding SafeComponent_def Let_def by (simp only: list_all_take split: if_split) simp
qed

lemma SafeId_safe: "list_all safe_char (SafeId raw) \<and> length (SafeId raw) \<le> 64"
  using SafeComponent_safe [of raw] by (simp add: SafeId_def Let_def list_all_take)

lemma confined_upload_path: "confined env (upload_path env (SafeId raw_id) (SafeComponent name))"
proof -
  let ?c = "SafeId raw_id @ ''__'' @ SafeComponent name"
  have "list_all safe_char ?c"
    using SafeId_safe [of raw_id] SafeComponent_safe [of name] by (simp add: safe_char_def)
  moreover have "length ?c \<le> 64 + 2 + 128"
    using SafeId_safe [of raw_id] SafeComponent_safe [of name] by simp
  moreover have "?c \<noteq> ''.''" "?c \<noteq> ''..''" "?c \<noteq> []"
    by (auto simp: append_eq_Cons_conv)
  ultimately show ?thesis unfolding confined_def upload_path_def by blast
qed

section \<open>Invariant\<close>

definition upload_ok :: "'t UploadEnv \<Rightarrow> Upload \<Rightarrow> bool" where
  "upload_ok env up \<longleftrightarrow> confined env (up_path up) \<and> 0 < declared_size up \<and> declared_size up \<le> kMaxUploadBytes
     \<and> 0 \<le> received up \<and> received up \<le> declared_size up \<and> 0 \<le> writes_in_flight up"

fun task_ok :: "'t UploadEnv \<Rightarrow> pool_task \<Rightarrow> bool" where
  "task_ok env (Pt_AppendChunk path bytes upload_id first_chunk) \<longleftrightarrow> confined env path"
| "task_ok env (Pt_HashFile path upload_id) \<longleftrightarrow> confined env path"
| "task_ok env (Pt_DeleteFile path) \<longleftrightarrow> confined env path"
| "task_ok env (Pt_DeleteTree dir) \<longleftrightarrow> dir = uploads_dir env"

fun job_ok :: "'t UploadEnv \<Rightarrow> 't ui_job \<Rightarrow> bool" where
  "job_ok env (Uj_OnFinalised upload_id path hash sz ok) \<longleftrightarrow> confined env path"
| "job_ok env _ \<longleftrightarrow> True"

fun call_ok :: "'t UploadEnv \<Rightarrow> 't up_call \<Rightarrow> bool" where
  "call_ok env (FileSelected listener path shown mode) \<longleftrightarrow> confined env path"
| "call_ok env _ \<longleftrightarrow> True"

definition up_invar :: "'t UploadEnv \<Rightarrow> 't Receiver \<Rightarrow> bool" where
  "up_invar env s \<longleftrightarrow>
     (\<forall>upload_id up. uploads s upload_id = Some up \<longrightarrow> upload_ok env up)
     \<and> (\<forall>t \<in> set (up_pool s). task_ok env t) \<and> (\<forall>j \<in> set (up_ui s). job_ok env j)
     \<and> (\<forall>p. disk s p \<noteq> None \<longrightarrow> confined env p) \<and> (\<forall>c \<in> set (up_out s). call_ok env c)
     \<and> (pending_listener s \<noteq> None \<longrightarrow> chooser_deadline s)"

lemma up_Send_fields [simp]:
  "uploads (up_Send env d s) = uploads s" "up_pool (up_Send env d s) = up_pool s"
  "up_ui (up_Send env d s) = up_ui s" "disk (up_Send env d s) = disk s"
  "pending_listener (up_Send env d s) = pending_listener s" "session_bytes (up_Send env d s) = session_bytes s"
  "chooser_deadline (up_Send env d s) = chooser_deadline s" "pending_mode (up_Send env d s) = pending_mode s"
  "up_out (up_Send env d s) =
     up_out s @ (case up_wr env (JDict d) of None \<Rightarrow> [] | Some t \<Rightarrow> [Files_SendAsync t])"
  by (simp_all add: up_Send_def up_emit_def split: option.split)

lemmas reply_defs = ReplyError_def ReplyProgress_def ReplyComplete_def

lemma up_invar_Send: "up_invar env s \<Longrightarrow> up_invar env (up_Send env' d s)"
  by (auto simp: up_invar_def split: option.split)

lemma up_invar_CancelChooser: "up_invar env s \<Longrightarrow> up_invar env (CancelChooser s)"
  by (auto simp: up_invar_def CancelChooser_def up_emit_def Let_def split: option.split)

lemma up_invar_update:
  "up_invar env s \<Longrightarrow> (\<And>up. u = Some up \<Longrightarrow> upload_ok env up)
   \<Longrightarrow> up_invar env (s\<lparr>uploads := (uploads s)(upload_id := u)\<rparr>)"
  by (auto simp: up_invar_def)

lemma up_invar_post: "up_invar env s \<Longrightarrow> task_ok env t \<Longrightarrow> up_invar env (post_pool t s)"
  by (auto simp: up_invar_def post_pool_def)

lemma up_invar_Abandon:
  "up_invar env s \<Longrightarrow> upload_ok env up \<Longrightarrow> up_invar env (AbandonUpload env upload_id up code message s)"
  by (auto simp: AbandonUpload_def reply_defs upload_ok_def
      intro!: up_invar_Send up_invar_post up_invar_update)

lemma up_invarD: "up_invar env s \<Longrightarrow> uploads s upload_id = Some up \<Longrightarrow> upload_ok env up"
  by (simp add: up_invar_def)

lemma up_invar_path: "up_invar env s \<Longrightarrow> uploads s upload_id = Some up \<Longrightarrow> confined env (up_path up)"
  by (simp add: up_invar_def upload_ok_def)

lemma up_invar_Finalise: "up_invar env s \<Longrightarrow> up_invar env (FinaliseUpload upload_id s)"
  by (simp add: FinaliseUpload_def up_invar_post up_invar_path split: option.split)

lemmas up_invar_intros =
  up_invar_Send up_invar_CancelChooser up_invar_update up_invar_post up_invar_Abandon up_invar_Finalise

lemma up_invar_HandleStart:
  assumes "up_invar env s"
  shows "up_invar env (HandleStart env data s)"
proof -
  have "up_invar env (ReplyError env upload_id code message s)" for upload_id code message
    using assms by (simp add: reply_defs up_invar_Send)
  with assms show ?thesis
    by (auto simp: HandleStart_def Let_def upload_ok_def confined_upload_path
        intro!: up_invar_update split: option.split)
qed

lemma up_invar_HandleChunk:
  assumes "up_invar env s"
  shows "up_invar env (HandleChunk env data s)"
proof -
  have abandon: "up_invar env (AbandonUpload env upload_id up code message s)"
    if "uploads s upload_id = Some up" for upload_id up code message
    using assms that by (simp add: up_invar_Abandon up_invarD)
  have accept: "up_invar env (post_pool (Pt_AppendChunk (up_path up) bytes upload_id first)
      (s\<lparr>uploads := (uploads s)(upload_id \<mapsto> up\<lparr>next_chunk := k, received := received up + int (length bytes),
          writes_in_flight := writes_in_flight up + 1\<rparr>)\<rparr>))"
    if "uploads s upload_id = Some up" "received up + int (length bytes) \<le> declared_size up"
    for upload_id up bytes first k
    using that up_invarD [OF assms that(1)]
    by (intro up_invar_post up_invar_update assms) (auto simp: upload_ok_def)
  show ?thesis
    using assms abandon accept by (simp add: HandleChunk_def Let_def split: option.split)
qed

lemma up_invar_HandleEnd:
  assumes "up_invar env s"
  shows "up_invar env (HandleEnd env data s)"
proof -
  have "up_invar env (s\<lparr>uploads := (uploads s)(upload_id \<mapsto> up\<lparr>end_pending := True\<rparr>)\<rparr>)"
    if "uploads s upload_id = Some up" for upload_id up
    using up_invarD [OF assms that] by (intro up_invar_update assms) (auto simp: upload_ok_def)
  then show ?thesis
    using assms by (simp add: HandleEnd_def Let_def up_invar_Finalise split: option.split)
qed

lemma up_invar_HandleCancel:
  assumes "up_invar env s"
  shows "up_invar env (HandleCancel env data s)"
proof -
  let ?s = "CancelChooser s"
  have s: "up_invar env ?s" using assms by (rule up_invar_CancelChooser)
  have "up_invar env (AbandonUpload env upload_id up code message ?s)" if "uploads ?s upload_id = Some up"
    for upload_id up code message
    by (rule up_invar_Abandon [OF s up_invarD [OF s that]])
  then show ?thesis
    using assms s by (simp add: HandleCancel_def reply_defs Let_def up_invar_Send split: option.split)
qed

lemma up_invar_HandleEnvelope: "up_invar env s \<Longrightarrow> up_invar env (HandleEnvelope env json s)"
  by (simp add: HandleEnvelope_def up_invar_HandleStart up_invar_HandleChunk up_invar_HandleEnd
      up_invar_HandleCancel split: option.split json.split)

lemma up_invar_OnChunkWritten:
  assumes "up_invar env s"
  shows "up_invar env (OnChunkWritten env upload_id ok s)"
proof (cases "uploads s upload_id")
  case (Some up)
  let ?up = "if writes_in_flight up > 0 then up\<lparr>writes_in_flight := writes_in_flight up - 1\<rparr> else up"
  have ok: "upload_ok env ?up" using up_invarD [OF assms Some] by (simp add: upload_ok_def)
  have s1: "up_invar env (s\<lparr>uploads := (uploads s)(upload_id \<mapsto> ?up)\<rparr>)"
    by (rule up_invar_update [OF assms]) (use ok in simp)
  then show ?thesis
    using Some ok
    by (simp add: OnChunkWritten_def reply_defs Let_def up_invar_Abandon up_invar_Send up_invar_Finalise)
qed (use assms in \<open>simp add: OnChunkWritten_def\<close>)

lemma up_invar_OnFinalised:
  assumes "up_invar env s" and "confined env path"
  shows "up_invar env (OnFinalised env upload_id path hash sz ok s)"
proof (cases "uploads s upload_id")
  case (Some up)
  have abandon: "up_invar env (AbandonUpload env upload_id up code message s)" for code message
    using assms(1) Some by (simp add: up_invar_Abandon up_invarD)
  have "up_invar env (snd (ResolveChooserWith path shown (s\<lparr>uploads := (uploads s)(upload_id := None), session_bytes := n\<rparr>)))"
    for shown n
    using assms by (auto simp: up_invar_def ResolveChooserWith_def up_emit_def split: option.split)
  with Some abandon show ?thesis
    by (simp add: OnFinalised_def reply_defs Let_def case_prod_unfold up_invar_Send)
qed (use assms in \<open>simp add: OnFinalised_def\<close>)

lemma up_invar_pool:
  assumes "up_invar env s" and "task_ok env t"
  shows "up_invar env (run_pool_task env io_ok t s)"
proof (cases t)
  case (Pt_AppendChunk path bytes upload_id first_chunk)
  with assms show ?thesis
    by (cases "io_ok \<and> (first_chunk \<or> disk s path \<noteq> None)")
      (auto simp: up_invar_def AppendChunk_def split: option.split)
next
  case (Pt_HashFile path upload_id)
  obtain hash sz where "HashFile env io_ok path (disk s) = (hash, sz)" by fastforce
  with assms Pt_HashFile show ?thesis by (auto simp: up_invar_def)
qed (use assms in \<open>auto simp: up_invar_def\<close>)

lemma up_invar_step:
  assumes "up_invar env s"
  shows "up_invar env (up_step env e s)"
proof (cases e)
  case (Ue_Message json binary)
  with assms show ?thesis by (auto simp: up_OnMessage_def up_invar_def)
next
  case Ue_Ui
  show ?thesis
  proof (cases "up_ui s")
    case (Cons j js)
    then have "up_invar env (s\<lparr>up_ui := js\<rparr>)" "job_ok env j" using assms by (auto simp: up_invar_def)
    with Cons Ue_Ui show ?thesis
      by (cases j) (simp_all add: up_invar_HandleEnvelope up_invar_OnChunkWritten up_invar_OnFinalised)
  qed (use assms Ue_Ui in simp)
next
  case (Ue_Pool n io_ok)
  show ?thesis
  proof (cases "n < length (up_pool s)")
    case True
    have "up_invar env (s\<lparr>up_pool := take n (up_pool s) @ drop (Suc n) (up_pool s)\<rparr>)"
      using assms by (auto simp: up_invar_def dest: in_set_takeD in_set_dropD)
    moreover have "task_ok env (up_pool s ! n)" using assms True by (auto simp: up_invar_def)
    ultimately show ?thesis using True Ue_Pool by (simp add: up_invar_pool)
  qed (use assms Ue_Pool in simp)
next
  case (Ue_BeginChooser listener mode)
  with up_invar_CancelChooser [OF assms] show ?thesis by (auto simp: BeginChooser_def up_invar_def)
next
  case Ue_Reset
  with up_invar_CancelChooser [OF assms] show ?thesis
    by (auto simp: ResetForNewSession_def up_invar_def post_pool_def)
qed (simp_all add: assms up_invar_CancelChooser)

interpretation up_machine: invariant_machine "\<lambda>s. s = new_receiver" "up_step env" "up_invar env"
  for env
  by unfold_locales (auto simp: up_invar_step, simp add: up_invar_def new_receiver_def)


section \<open>Every chooser is answered once\<close>

fun resolves :: "nat \<Rightarrow> 't up_call \<Rightarrow> bool" where
  "resolves n (FileSelectionCanceled m) \<longleftrightarrow> n = m"
| "resolves n (FileSelected m path shown mode) \<longleftrightarrow> n = m"
| "resolves n (Files_SendAsync t) \<longleftrightarrow> False"

definition answers :: "nat \<Rightarrow> 't Receiver \<Rightarrow> nat" where
  "answers n s = length (filter (resolves n) (up_out s))"

definition waiting :: "nat \<Rightarrow> 't Receiver \<Rightarrow> nat" where
  "waiting n s = (if pending_listener s = Some n then 1 else 0)"

definition account :: "nat \<Rightarrow> 't Receiver \<Rightarrow> nat" where
  "account n s = answers n s + waiting n s"

fun begins :: "nat \<Rightarrow> 't up_event \<Rightarrow> bool" where
  "begins n (Ue_BeginChooser m mode) \<longleftrightarrow> n = m"
| "begins n _ \<longleftrightarrow> False"

lemma account_same:
  "up_out s' = up_out s \<Longrightarrow> pending_listener s' = pending_listener s \<Longrightarrow> account n s' = account n s"
  by (simp add: account_def answers_def waiting_def)

lemma account_simps [simp]:
  "account n (up_Send env d s) = account n s"
  "account n (post_pool t s) = account n s"
  "account n (s\<lparr>uploads := u\<rparr>) = account n s"
  "account n (s\<lparr>session_bytes := b\<rparr>) = account n s"
  "account n (s\<lparr>up_ui := ui\<rparr>) = account n s"
  "account n (s\<lparr>up_pool := p\<rparr>) = account n s"
  "account n (s\<lparr>disk := d'\<rparr>) = account n s"
  "account n (CancelChooser s) = account n s"
  "account n (snd (ResolveChooserWith path shown s)) = account n s"
  by (simp_all add: account_def answers_def waiting_def post_pool_def CancelChooser_def
      ResolveChooserWith_def up_emit_def Let_def split: option.split)

lemma account_ops [simp]:
  "account n (AbandonUpload env upload_id up code message s) = account n s"
  "account n (FinaliseUpload upload_id s) = account n s"
  "account n (HandleStart env data s) = account n s"
  by (simp_all add: AbandonUpload_def FinaliseUpload_def HandleStart_def reply_defs Let_def split: option.split)

lemma account_frames [simp]:
  "account n (HandleChunk env data s) = account n s"
  "account n (HandleEnd env data s) = account n s"
  "account n (HandleCancel env data s) = account n s"
  by (simp_all add: HandleChunk_def HandleEnd_def HandleCancel_def reply_defs Let_def split: option.split)

lemma account_jobs [simp]:
  "account n (HandleEnvelope env json s) = account n s"
  "account n (OnChunkWritten env upload_id ok s) = account n s"
  "account n (OnFinalised env upload_id path hash sz ok s) = account n s"
  by (simp_all add: HandleEnvelope_def OnChunkWritten_def OnFinalised_def reply_defs Let_def case_prod_unfold
      split: option.split json.split)

lemma account_pool [simp]: "account n (run_pool_task env io_ok t s) = account n s"
  by (cases t) (simp_all add: case_prod_unfold)

lemma account_step: "account n (up_step env e s) = account n s + (if begins n e then 1 else 0)"
proof (cases e)
  case Ue_Ui
  show ?thesis
  proof (cases "up_ui s")
    case (Cons j js)
    with Ue_Ui show ?thesis by (cases j) simp_all
  qed (use Ue_Ui in simp)
next
  case (Ue_BeginChooser m mode)
  have "pending_listener (CancelChooser s) = None"
    by (simp add: CancelChooser_def up_emit_def Let_def split: option.split)
  then have "account n (BeginChooser m mode s) = account n (CancelChooser s) + (if n = m then 1 else 0)"
    by (auto simp: account_def answers_def waiting_def BeginChooser_def)
  with Ue_BeginChooser show ?thesis by simp
qed (simp_all add: up_OnMessage_def ResetForNewSession_def)

lemma account_run:
  "account n (fold (up_step env) es s) = account n s + length (filter (begins n) es)"
  by (induction es arbitrary: s) (simp_all add: account_step del: up_step.simps)

section \<open>Properties of every run\<close>


text \<open>
  C19. Every file chooser is answered exactly once or is still waiting: over every run, each
  listener was handed over as often as it was answered (with a file or with a cancellation),
  plus one when it is the one waiting, and then its deadline is running.
\<close>

theorem choosers_answered_once:
  assumes "s = fold (up_step env) es new_receiver"
  shows "answers n s + waiting n s = length (filter (begins n) es)
    \<and> (pending_listener s \<noteq> None \<longrightarrow> chooser_deadline s)"
proof -
  have "account n s = length (filter (begins n) es)"
    by (simp add: assms account_run) (simp add: account_def answers_def waiting_def new_receiver_def)
  moreover have "up_invar env s" unfolding assms by (rule up_machine.invar_reached) blast
  ultimately show ?thesis by (simp add: account_def up_invar_def)
qed

end
