(* ===== verification/Cb_File_Transfer.thy ===== *)
theory Cb_File_Transfer
  imports Cb_File_Upload
begin

text \<open>
  A whole file upload: the frames the viewer's loop sends
  (\<^verbatim>\<open>client/src/file-upload.ts\<close>), the receiver's handlers, the thread pool and the disk
  together. The first part shows when the loop ends and what it sends. The second part follows
  one transfer through its phases, with a bound on the work left, and shows that it completes
  under every schedule in which the pool keeps the order of its tasks. The last part shows that
  this order is needed.
\<close>

section \<open>The sender's loop\<close>

fun part_frames :: "(string \<Rightarrow> string) \<Rightarrow> string \<Rightarrow> int \<Rightarrow> string list \<Rightarrow> json list" where
  "part_frames b64 raw_id seq [] = []"
| "part_frames b64 raw_id seq (p # ps) = chunk_frame raw_id seq (b64 p) # part_frames b64 raw_id (seq + 1) ps"

lemma length_part_frames [simp]: "length (part_frames b64 raw_id seq ps) = length ps"
  by (induction ps arbitrary: seq) simp_all

text \<open>The slices the loop cuts a file into.\<close>

definition slices :: "nat \<Rightarrow> string \<Rightarrow> string list \<Rightarrow> bool" where
  "slices cs view ps \<longleftrightarrow> concat ps = view \<and> list_all (\<lambda>p. p \<noteq> [] \<and> length p \<le> cs) ps"

lemma chunk_loop_returns:
  assumes "0 < cs"
  shows "\<exists>ps. slices cs view ps \<and> chunk_loop b64 cs raw_id seq view = Some (part_frames b64 raw_id seq ps)"
proof (induction "length view" arbitrary: view seq rule: less_induct)
  case less
  show ?case
  proof (cases "view = []")
    case True
    then have "slices cs view [] \<and> chunk_loop b64 cs raw_id seq view = Some (part_frames b64 raw_id seq [])"
      by (subst chunk_loop.simps) (simp add: slices_def)
    then show ?thesis ..
  next
    case False
    with assms have "length (drop cs view) < length view" by simp
    from less [OF this, of "seq + 1"] obtain ps where "slices cs (drop cs view) ps"
      and "chunk_loop b64 cs raw_id (seq + 1) (drop cs view) = Some (part_frames b64 raw_id (seq + 1) ps)"
      by blast
    with False assms have "slices cs view (take cs view # ps)
        \<and> chunk_loop b64 cs raw_id seq view = Some (part_frames b64 raw_id seq (take cs view # ps))"
      by (subst chunk_loop.simps) (simp add: slices_def)
    then show ?thesis ..
  qed
qed

lemma chunk_loop_needs_size: "chunk_loop b64 cs raw_id seq view = Some frames \<Longrightarrow> 0 < cs \<or> view = []"
proof (induction rule: chunk_loop.raw_induct [rotated, consumes 1])
  case (1 loop b64 cs raw_id seq view frames)
  then show ?case
    by (cases "loop b64 cs raw_id (seq + 1) (drop cs view)") (fastforce split: if_splits)+
qed

text \<open>
  C26. The viewer's upload loop ends exactly when the chunk size is positive or the file is
  empty. It then sends a start frame with the size of the file, numbered chunk frames whose
  contents are slices of at most the chunk size that add up to the file, and an end frame.
\<close>

theorem driveUpload_ends:
  "(0 < cs \<or> buf = [] \<longrightarrow>
      (\<exists>ps. slices cs buf ps \<and>
         driveUpload b64 sha cs raw_id name mime buf =
           Some (start_frame raw_id name mime (int (length buf)) (sha buf)
                 # part_frames b64 raw_id 0 ps @ [end_frame raw_id])))
   \<and> (\<not> (0 < cs \<or> buf = []) \<longrightarrow> driveUpload b64 sha cs raw_id name mime buf = None)"
proof (cases "0 < cs \<or> buf = []")
  case True
  have "\<exists>ps. slices cs buf ps \<and> chunk_loop b64 cs raw_id 0 buf = Some (part_frames b64 raw_id 0 ps)"
  proof (cases "0 < cs")
    case False
    with True have "slices cs buf [] \<and> chunk_loop b64 cs raw_id 0 buf = Some (part_frames b64 raw_id 0 [])"
      by (subst chunk_loop.simps) (simp add: slices_def)
    then show ?thesis ..
  qed (rule chunk_loop_returns)
  with True show ?thesis by (auto simp: driveUpload_def)
next
  case False
  then have "chunk_loop b64 cs raw_id 0 buf = None"
    using chunk_loop_needs_size [of b64 cs raw_id 0 buf] by (cases "chunk_loop b64 cs raw_id 0 buf") auto
  with False show ?thesis by (simp add: driveUpload_def)
qed

theorem driveUpload_ends_witness:
  "\<exists>ps. slices 2 ''abc'' ps \<and>
     driveUpload (\<lambda>x. x) (\<lambda>x. []) 2 ''u1'' ''f'' ''text/plain'' ''abc'' =
       Some (start_frame ''u1'' ''f'' ''text/plain'' 3 [] # part_frames (\<lambda>x. x) ''u1'' 0 ps @ [end_frame ''u1''])"
  using driveUpload_ends [of 2 "''abc''" "\<lambda>x. x" "\<lambda>x. []" "''u1''" "''f''" "''text/plain''"] by simp

section \<open>A whole transfer\<close>

text \<open>The frames of the sender, handled by the receiver.\<close>

lemmas frame_simps = HandleEnvelope_def start_frame_def chunk_frame_def end_frame_def

definition fresh_upload :: "'t UploadEnv \<Rightarrow> string \<Rightarrow> string \<Rightarrow> string \<Rightarrow> int \<Rightarrow> Upload" where
  "fresh_upload env raw_id name sha sz =
     \<lparr>up_name = SafeComponent name, display_name = UTF8ToUTF16 env name, up_sha256 = map ToLowerASCII sha,
      declared_size = sz, received = 0, next_chunk = 0,
      up_path = upload_path env (SafeId raw_id) (SafeComponent name), writes_in_flight = 0,
      end_pending = False\<rparr>"

lemma handle_start:
  assumes "up_rd env t = Some (start_frame raw_id name mime sz sha)"
    and "0 < sz" "sz \<le> kMaxUploadBytes" "session_bytes s + sz \<le> kMaxSessionUploadBytes"
  shows "HandleEnvelope env t s = s\<lparr>uploads := (uploads s)(SafeId raw_id \<mapsto> fresh_upload env raw_id name sha sz)\<rparr>"
  using assms
  by (simp add: frame_simps HandleStart_def FindDouble_def GetIfDouble_def to_integer_def fresh_upload_def Let_def)

lemma handle_chunk:
  assumes "up_rd env t = Some (chunk_frame raw_id seq b64)" "uploads s (SafeId raw_id) = Some up"
    and "next_chunk up = seq" "Base64Decode env b64 = Some bytes"
    and "received up + int (length bytes) \<le> declared_size up"
  shows "HandleEnvelope env t s = post_pool (Pt_AppendChunk (up_path up) bytes (SafeId raw_id) (seq = 0))
    (s\<lparr>uploads := (uploads s)(SafeId raw_id \<mapsto> up\<lparr>next_chunk := seq + 1,
        received := received up + int (length bytes), writes_in_flight := writes_in_flight up + 1\<rparr>)\<rparr>)"
  using assms by (simp add: frame_simps HandleChunk_def Let_def)

lemma handle_end:
  assumes "up_rd env t = Some (end_frame raw_id)"
  shows "HandleEnvelope env t s = HandleEnd env [(''upload_id'', JString raw_id)] s"
  using assms by (simp add: frame_simps HandleEnd_def)

record 't Transfer =
  tr_env :: "'t UploadEnv"
  tr_b64 :: "string \<Rightarrow> string"
  tr_raw_id :: string
  tr_name :: string
  tr_mime :: string
  tr_sha :: string
  tr_parts :: "string list"

definition tr_id :: "'t Transfer \<Rightarrow> string" where
  "tr_id T = SafeId (tr_raw_id T)"

definition tr_buf :: "'t Transfer \<Rightarrow> string" where
  "tr_buf T = concat (tr_parts T)"

definition tr_path :: "'t Transfer \<Rightarrow> string" where
  "tr_path T = upload_path (tr_env T) (tr_id T) (SafeComponent (tr_name T))"

definition transfer_ok :: "'t Transfer \<Rightarrow> bool" where
  "transfer_ok T \<longleftrightarrow> tr_buf T \<noteq> [] \<and> int (length (tr_buf T)) \<le> kMaxUploadBytes
     \<and> (\<forall>p \<in> set (tr_parts T). Base64Decode (tr_env T) (tr_b64 T p) = Some p)
     \<and> (tr_sha T = [] \<or> tr_sha T = Sha256Hex (tr_env T) (tr_buf T))
     \<and> Sha256Hex (tr_env T) (tr_buf T) \<noteq> []"

text \<open>The upload after \<open>c\<close> chunks, with \<open>n\<close> writes in flight.\<close>

definition upload_after :: "'t Transfer \<Rightarrow> nat \<Rightarrow> nat \<Rightarrow> bool \<Rightarrow> Upload" where
  "upload_after T c n e =
     (fresh_upload (tr_env T) (tr_raw_id T) (tr_name T) (tr_sha T) (int (length (tr_buf T))))
       \<lparr>received := int (length (concat (take c (tr_parts T)))), next_chunk := int c,
        writes_in_flight := int n, end_pending := e\<rparr>"

definition append_task :: "'t Transfer \<Rightarrow> nat \<Rightarrow> pool_task" where
  "append_task T i = Pt_AppendChunk (tr_path T) (tr_parts T ! i) (tr_id T) (i = 0)"

text \<open>What the UI thread has queued: frames, and results of writes.\<close>

fun envelopes :: "'t ui_job list \<Rightarrow> 't list" where
  "envelopes [] = []"
| "envelopes (Uj_HandleEnvelope t # js) = t # envelopes js"
| "envelopes (_ # js) = envelopes js"

definition acks :: "string \<Rightarrow> 't ui_job list \<Rightarrow> nat" where
  "acks i js = length (filter (\<lambda>j. j = Uj_OnChunkWritten i True) js)"

fun transfer_job :: "string \<Rightarrow> 't ui_job \<Rightarrow> bool" where
  "transfer_job i (Uj_HandleEnvelope t) \<longleftrightarrow> True"
| "transfer_job i (Uj_OnChunkWritten k ok) \<longleftrightarrow> k = i \<and> ok"
| "transfer_job i (Uj_OnFinalised k path hash sz ok) \<longleftrightarrow> False"

definition frames_left :: "'t Transfer \<Rightarrow> nat \<Rightarrow> json list" where
  "frames_left T c =
     part_frames (tr_b64 T) (tr_raw_id T) (int c) (drop c (tr_parts T)) @ [end_frame (tr_raw_id T)]"

definition all_frames :: "'t Transfer \<Rightarrow> json list" where
  "all_frames T =
     start_frame (tr_raw_id T) (tr_name T) (tr_mime T) (int (length (tr_buf T))) (tr_sha T) # frames_left T 0"

definition same_chooser :: "'t Receiver \<Rightarrow> 't Receiver \<Rightarrow> bool" where
  "same_chooser s0 s \<longleftrightarrow> session_bytes s = session_bytes s0 \<and> pending_listener s = pending_listener s0
     \<and> pending_mode s = pending_mode s0 \<and> (\<exists>ps. up_out s = up_out s0 @ map Files_SendAsync ps)"

definition selection :: "'t Transfer \<Rightarrow> 't Receiver \<Rightarrow> 't up_call list" where
  "selection T s0 =
     (case pending_listener s0 of
        None \<Rightarrow> []
      | Some l \<Rightarrow> [FileSelected l (tr_path T) (UTF8ToUTF16 (tr_env T) (tr_name T)) (pending_mode s0)])
     @ (case up_wr (tr_env T) (JDict (complete_reply (tr_id T) (tr_path T) (pending_listener s0 \<noteq> None))) of
          None \<Rightarrow> [] | Some t \<Rightarrow> [Files_SendAsync t])"

text \<open>The phase in which chunks arrive: \<open>c\<close> have been handled and \<open>w\<close> are written.\<close>

definition receiving :: "'t Transfer \<Rightarrow> 't Receiver \<Rightarrow> 't list \<Rightarrow> 't Receiver \<Rightarrow> nat \<Rightarrow> nat \<Rightarrow> bool \<Rightarrow> bool" where
  "receiving T s0 todo s c w e \<longleftrightarrow>
      uploads s (tr_id T) = Some (upload_after T c (c - w + acks (tr_id T) (up_ui s)) e)
    \<and> map (up_rd (tr_env T)) (envelopes (up_ui s) @ todo) = map Some (if e then [] else frames_left T c)
    \<and> w \<le> c \<and> c \<le> length (tr_parts T)
    \<and> (e \<longrightarrow> c = length (tr_parts T) \<and> 0 < c - w + acks (tr_id T) (up_ui s))
    \<and> up_pool s = map (append_task T) [w..<c] \<and> list_all (transfer_job (tr_id T)) (up_ui s)
    \<and> (0 < w \<longrightarrow> disk s (tr_path T) = Some (concat (take w (tr_parts T)))) \<and> same_chooser s0 s"

definition receiving_work :: "'t Transfer \<Rightarrow> 't list \<Rightarrow> 't Receiver \<Rightarrow> nat \<Rightarrow> nat \<Rightarrow> nat" where
  "receiving_work T todo s c w =
     3 * length (envelopes (up_ui s) @ todo) + 2 * (c - w) + acks (tr_id T) (up_ui s) + 2"

text \<open>
  The phases of a transfer that began in \<open>s0\<close>, with the texts still to be delivered and a bound on
  the tasks still to be run.
\<close>

inductive transfer :: "'t Transfer \<Rightarrow> 't Receiver \<Rightarrow> 't list \<Rightarrow> 't Receiver \<Rightarrow> nat \<Rightarrow> bool"
  for T :: "'t Transfer" and s0 :: "'t Receiver" where
  Announced: "\<lbrakk>map (up_rd (tr_env T)) (envelopes (up_ui s) @ todo) = map Some (all_frames T);
      list_all (transfer_job (tr_id T)) (up_ui s); acks (tr_id T) (up_ui s) = 0; up_pool s = [];
      same_chooser s0 s; k = 3 * length (envelopes (up_ui s) @ todo) + 2\<rbrakk>
    \<Longrightarrow> transfer T s0 todo s k"
| Receiving: "receiving T s0 todo s c w e \<Longrightarrow> transfer T s0 todo s (receiving_work T todo s c w)"
| Hashing: "\<lbrakk>uploads s (tr_id T) = Some (upload_after T (length (tr_parts T)) 0 e);
      up_ui s = []; up_pool s = [Pt_HashFile (tr_path T) (tr_id T)];
      disk s (tr_path T) = Some (tr_buf T); same_chooser s0 s\<rbrakk>
    \<Longrightarrow> transfer T s0 [] s 2"
| Finalising: "\<lbrakk>uploads s (tr_id T) = Some (upload_after T (length (tr_parts T)) 0 e);
      up_ui s = [Uj_OnFinalised (tr_id T) (tr_path T) (map ToLowerASCII (Sha256Hex (tr_env T) (tr_buf T)))
        (int (length (tr_buf T))) True]; up_pool s = [];
      disk s (tr_path T) = Some (tr_buf T); same_chooser s0 s\<rbrakk>
    \<Longrightarrow> transfer T s0 [] s 1"
| Done: "\<lbrakk>uploads s (tr_id T) = None; up_ui s = []; up_pool s = []; disk s (tr_path T) = Some (tr_buf T);
      session_bytes s = session_bytes s0 + int (length (tr_buf T)); pending_listener s = None;
      up_out s = up_out s0 @ map Files_SendAsync ps @ selection T s0\<rbrakk>
    \<Longrightarrow> transfer T s0 [] s 0"

lemma envelopes_append [simp]: "envelopes (xs @ ys) = envelopes xs @ envelopes ys"
  by (induction xs rule: envelopes.induct) simp_all

lemma acks_simps [simp]:
  "acks i [] = 0" "acks i (xs @ ys) = acks i xs + acks i ys"
  "acks i (Uj_HandleEnvelope t # js) = acks i js"
  "acks i (Uj_OnChunkWritten i True # js) = Suc (acks i js)"
  by (simp_all add: acks_def)

text \<open>Delivering the next text.\<close>

lemma transfer_message:
  assumes "transfer T s0 (t # todo) s k"
  shows "transfer T s0 todo (up_step env (Ue_Message t False) s) k"
  using assms
proof cases
  case Announced
  then show ?thesis by (intro transfer.Announced) (simp_all add: up_OnMessage_def same_chooser_def)
next
  case (Receiving c w e)
  then have "receiving T s0 todo (up_step env (Ue_Message t False) s) c w e"
    by (auto simp: receiving_def up_OnMessage_def same_chooser_def)
  from transfer.Receiving [OF this] Receiving show ?thesis
    by (simp add: receiving_work_def up_OnMessage_def)
qed

text \<open>Running a task of the pool.\<close>

lemma parts_split: "c < length ps \<Longrightarrow> concat (take (Suc c) ps) = concat (take c ps) @ ps ! c"
  by (simp add: take_Suc_conv_app_nth)

lemma transfer_pool:
  assumes ok: "transfer_ok T" and t: "transfer T s0 todo s k"
  shows "\<exists>k'. transfer T s0 todo (up_step (tr_env T) (Ue_Pool 0 True) s) k'
    \<and> (k' < k \<or> up_pool s = [] \<and> k' = k)"
  using t
proof cases
  case Announced
  then show ?thesis using t by auto
next
  case (Receiving c w e)
  show ?thesis
  proof (cases "w < c")
    case False
    with Receiving t show ?thesis by (auto simp: receiving_def)
  next
    case True
    then have pool: "up_pool s = append_task T w # map (append_task T) [Suc w..<c]"
      using Receiving by (simp add: receiving_def upt_conv_Cons)
    let ?d = "(disk s)(tr_path T \<mapsto> concat (take (Suc w) (tr_parts T)))"
    have step: "up_step (tr_env T) (Ue_Pool 0 True) s =
        s\<lparr>up_pool := map (append_task T) [Suc w..<c], disk := ?d,
          up_ui := up_ui s @ [Uj_OnChunkWritten (tr_id T) True]\<rparr>"
    proof -
      have "w < length (tr_parts T)" "0 < w \<longrightarrow> disk s (tr_path T) = Some (concat (take w (tr_parts T)))"
        using Receiving True by (simp_all add: receiving_def)
      then show ?thesis by (cases "w = 0") (simp_all add: pool append_task_def AppendChunk_def parts_split)
    qed
    have "receiving T s0 todo (up_step (tr_env T) (Ue_Pool 0 True) s) c (Suc w) e"
      unfolding step using Receiving True
      by (simp add: receiving_def same_chooser_def Suc_diff_Suc [symmetric] del: Suc_diff_Suc)
    then have "transfer T s0 todo (up_step (tr_env T) (Ue_Pool 0 True) s)
        (receiving_work T todo (up_step (tr_env T) (Ue_Pool 0 True) s) c (Suc w))" by (rule transfer.Receiving)
    moreover have "receiving_work T todo (up_step (tr_env T) (Ue_Pool 0 True) s) c (Suc w) < k"
      unfolding step Receiving(1) receiving_work_def using True by simp
    ultimately show ?thesis by blast
  qed
next
  case (Hashing e)
  then have "transfer T s0 [] (up_step (tr_env T) (Ue_Pool 0 True) s) 1"
    using ok by (intro transfer.Finalising [where e = e]) (simp_all add: HashFile_def same_chooser_def transfer_ok_def)
  with Hashing show ?thesis by auto
next
  case (Finalising e)
  then show ?thesis using t by auto
next
  case (Done ps)
  then show ?thesis using t by auto
qed


text \<open>Running a task of the UI thread.\<close>

lemma queue_empty: "list_all (transfer_job i) js \<Longrightarrow> envelopes js = [] \<Longrightarrow> acks i js = 0 \<Longrightarrow> js = []"
  by (cases js; cases "hd js") auto

lemma upload_after_simps [simp]:
  "next_chunk (upload_after T c n e) = int c" "writes_in_flight (upload_after T c n e) = int n"
  "end_pending (upload_after T c n e) = e" "up_path (upload_after T c n e) = tr_path T"
  "received (upload_after T c n e) = int (length (concat (take c (tr_parts T))))"
  "declared_size (upload_after T c n e) = int (length (tr_buf T))"
  "up_sha256 (upload_after T c n e) = map ToLowerASCII (tr_sha T)"
  "display_name (upload_after T c n e) = UTF8ToUTF16 (tr_env T) (tr_name T)"
  by (simp_all add: upload_after_def fresh_upload_def tr_path_def tr_id_def)

lemma upload_after_ack: "(upload_after T c (Suc n) e)\<lparr>writes_in_flight := int n\<rparr> = upload_after T c n e"
  by (simp add: upload_after_def)

lemma upload_after_end: "(upload_after T c n e)\<lparr>end_pending := e'\<rparr> = upload_after T c n e'"
  by (simp add: upload_after_def)

lemma upload_after_chunk:
  "c < length (tr_parts T) \<Longrightarrow>
   (upload_after T c n e)\<lparr>next_chunk := int c + 1,
      received := int (length (concat (take c (tr_parts T)))) + int (length (tr_parts T ! c)),
      writes_in_flight := int n + 1\<rparr> = upload_after T (Suc c) (Suc n) e"
  by (simp add: upload_after_def parts_split)

lemma upload_after_fresh:
  "fresh_upload (tr_env T) (tr_raw_id T) (tr_name T) (tr_sha T) (int (length (tr_buf T))) = upload_after T 0 0 False"
  by (simp add: upload_after_def fresh_upload_def)

lemma length_parts_le: "c < length ps \<Longrightarrow> length (concat (take c ps)) + length (ps ! c) \<le> length (concat ps)"
proof -
  assume "c < length ps"
  then have "concat ps = concat (take c ps) @ ps ! c @ concat (drop (Suc c) ps)"
    by (metis append_take_drop_id concat_append concat.simps(2) id_take_nth_drop)
  then show ?thesis by simp
qed

lemma same_chooser_simps [simp]:
  "same_chooser s0 (s\<lparr>uploads := u\<rparr>) = same_chooser s0 s" "same_chooser s0 (s\<lparr>up_ui := ui\<rparr>) = same_chooser s0 s"
  "same_chooser s0 (post_pool t s) = same_chooser s0 s" "same_chooser s0 (s\<lparr>up_pool := p\<rparr>) = same_chooser s0 s"
  by (simp_all add: same_chooser_def post_pool_def)

lemma same_chooser_Send: "same_chooser s0 s \<Longrightarrow> same_chooser s0 (up_Send env d s)"
  by (auto simp: same_chooser_def split: option.split intro: exI [of _ "_ @ [_]"])

lemma transfer_hashing:
  assumes "transfer_ok T" "same_chooser s0 s" "up_pool s = []" "up_ui s = []"
    and "uploads s (tr_id T) = Some (upload_after T (length (tr_parts T)) 0 e)"
    and "0 < w \<longrightarrow> disk s (tr_path T) = Some (concat (take w (tr_parts T)))" "w = length (tr_parts T)"
  shows "transfer T s0 [] (FinaliseUpload (tr_id T) s) 2"
proof -
  have "0 < length (tr_parts T)" using assms(1) by (auto simp: transfer_ok_def tr_buf_def)
  with assms show ?thesis
    by (intro transfer.Hashing [where e = e]) (simp_all add: FinaliseUpload_def post_pool_def tr_buf_def same_chooser_def)
qed

lemma frames_left_Cons:
  "c < length (tr_parts T) \<Longrightarrow>
   frames_left T c = chunk_frame (tr_raw_id T) (int c) (tr_b64 T (tr_parts T ! c)) # frames_left T (Suc c)"
  by (simp add: frames_left_def Cons_nth_drop_Suc [symmetric] algebra_simps)

lemma receiving_chunk:
  assumes ok: "transfer_ok T" and r: "receiving T s0 todo s c w e"
    and ui: "up_ui s = Uj_HandleEnvelope t # js" and c: "c < length (tr_parts T)"
  shows "receiving T s0 todo (up_step (tr_env T) Ue_Ui s) (Suc c) w e"
proof -
  let ?p = "tr_parts T ! c" and ?s = "s\<lparr>up_ui := js\<rparr>"
  from r ui have e: "\<not> e" by (auto simp: receiving_def)
  with r ui c have t: "up_rd (tr_env T) t = Some (chunk_frame (tr_raw_id T) (int c) (tr_b64 T ?p))"
    and rest: "map (up_rd (tr_env T)) (envelopes js @ todo) = map Some (frames_left T (Suc c))"
    by (simp_all add: receiving_def frames_left_Cons)
  have b64: "Base64Decode (tr_env T) (tr_b64 T ?p) = Some ?p" using ok c by (simp add: transfer_ok_def)
  let ?n = "c - w + acks (tr_id T) js"
  have up: "uploads ?s (SafeId (tr_raw_id T)) = Some (upload_after T c ?n e)"
    using r ui by (simp add: receiving_def tr_id_def)
  have "HandleEnvelope (tr_env T) t ?s = post_pool (append_task T c)
      (?s\<lparr>uploads := (uploads s)(tr_id T \<mapsto> upload_after T (Suc c) (Suc ?n) e)\<rparr>)"
    using handle_chunk [OF t up _ b64] length_parts_le [OF c] upload_after_chunk [where n = ?n and e = e, OF c]
    by (simp add: append_task_def tr_id_def tr_buf_def del: of_nat_add)
  with ui have step: "up_step (tr_env T) Ue_Ui s = post_pool (append_task T c)
      (?s\<lparr>uploads := (uploads s)(tr_id T \<mapsto> upload_after T (Suc c) (Suc ?n) e)\<rparr>)" by simp
  show ?thesis
    unfolding step using r ui e c rest by (auto simp: receiving_def post_pool_def Suc_diff_le)
qed

lemma receiving_end:
  assumes ok: "transfer_ok T" and r: "receiving T s0 todo s c w e"
    and ui: "up_ui s = Uj_HandleEnvelope t # js" and c: "c = length (tr_parts T)"
  shows "receiving T s0 todo (up_step (tr_env T) Ue_Ui s) c w True
    \<or> todo = [] \<and> transfer T s0 [] (up_step (tr_env T) Ue_Ui s) 2"
proof -
  let ?s = "s\<lparr>up_ui := js\<rparr>" and ?n = "c - w + acks (tr_id T) js"
  from r ui have e: "\<not> e" by (auto simp: receiving_def)
  with r ui c have t: "up_rd (tr_env T) t = Some (end_frame (tr_raw_id T))"
    and rest: "envelopes js = []" "todo = []"
    by (simp_all add: receiving_def frames_left_def)
  have up: "uploads ?s (tr_id T) = Some (upload_after T c ?n e)" using r ui by (simp add: receiving_def)
  have step: "up_step (tr_env T) Ue_Ui s =
      (if 0 < ?n then ?s\<lparr>uploads := (uploads s)(tr_id T \<mapsto> upload_after T c ?n True)\<rparr>
       else FinaliseUpload (tr_id T) ?s)"
    using ui up handle_end [OF t, of ?s]
    by (simp add: HandleEnd_def tr_id_def [symmetric] upload_after_end Let_def)
  show ?thesis
  proof (cases "0 < ?n")
    case True
    with r ui e c rest show ?thesis unfolding step by (simp add: receiving_def)
  next
    case False
    with r ui have "js = []" "w = c" using queue_empty [of "tr_id T" js] rest by (simp_all add: receiving_def)
    with False r ui up c rest ok have "transfer T s0 [] (FinaliseUpload (tr_id T) ?s) 2"
      by (intro transfer_hashing [where e = e and w = w]) (simp_all add: receiving_def)
    with False rest show ?thesis unfolding step by simp
  qed
qed

lemma receiving_ack:
  assumes ok: "transfer_ok T" and r: "receiving T s0 todo s c w e"
    and ui: "up_ui s = Uj_OnChunkWritten (tr_id T) True # js"
  shows "receiving T s0 todo (up_step (tr_env T) Ue_Ui s) c w e
    \<or> todo = [] \<and> transfer T s0 [] (up_step (tr_env T) Ue_Ui s) 2"
proof -
  let ?n = "c - w + acks (tr_id T) js"
  let ?s = "up_Send (tr_env T) (progress_reply (tr_id T) (int (length (concat (take c (tr_parts T))))) (int (length (tr_buf T))))
      (s\<lparr>up_ui := js, uploads := (uploads s)(tr_id T \<mapsto> upload_after T c ?n e)\<rparr>)"
  have up: "uploads s (tr_id T) = Some (upload_after T c (Suc ?n) e)" using r ui by (simp add: receiving_def)
  have step: "up_step (tr_env T) Ue_Ui s = (if e \<and> ?n = 0 then FinaliseUpload (tr_id T) ?s else ?s)"
    using ui up upload_after_ack [where T = T and c = c and n = ?n and e = e]
    by (simp add: OnChunkWritten_def reply_defs Let_def of_nat_diff del: of_nat_add)
  have same: "same_chooser s0 ?s" using r by (intro same_chooser_Send) (simp add: receiving_def)
  show ?thesis
  proof (cases "e \<and> ?n = 0")
    case False
    with r ui show ?thesis unfolding step using same by (auto simp: receiving_def)
  next
    case True
    with r ui have empty: "envelopes js = []" "todo = []" by (simp_all add: receiving_def)
    with True r ui have "js = []" "w = c" using queue_empty [of "tr_id T" js] by (simp_all add: receiving_def)
    with True r ui same ok empty have "transfer T s0 [] (FinaliseUpload (tr_id T) ?s) 2"
      by (intro transfer_hashing [where e = e and w = w]) (simp_all add: receiving_def)
    with True empty show ?thesis unfolding step by simp
  qed
qed

text \<open>No task of the UI thread adds to its own queue.\<close>

lemma up_ui_post [simp]: "up_ui (post_pool t s) = up_ui s"
  by (simp add: post_pool_def)

lemma up_ui_chooser [simp]:
  "up_ui (CancelChooser s) = up_ui s" "up_ui (snd (ResolveChooserWith path shown s)) = up_ui s"
  "up_ui (FinaliseUpload i s) = up_ui s" "up_ui (AbandonUpload env i up code message s) = up_ui s"
  by (simp_all add: CancelChooser_def ResolveChooserWith_def FinaliseUpload_def AbandonUpload_def up_emit_def
      reply_defs Let_def split: option.split)

lemma up_ui_frames [simp]:
  "up_ui (HandleStart env data s) = up_ui s" "up_ui (HandleChunk env data s) = up_ui s"
  "up_ui (HandleEnd env data s) = up_ui s" "up_ui (HandleCancel env data s) = up_ui s"
  by (simp_all add: HandleStart_def HandleChunk_def HandleEnd_def HandleCancel_def reply_defs Let_def
      split: option.split)

lemma up_ui_run [simp]: "up_ui (run_ui_job env j s) = up_ui s"
  by (cases j) (simp_all add: HandleEnvelope_def OnChunkWritten_def OnFinalised_def reply_defs Let_def
      case_prod_unfold split: option.split json.split)

lemma up_ui_step: "up_ui (up_step env Ue_Ui s) = tl (up_ui s)"
  by (simp split: list.split)

lemma receiving_ui:
  assumes ok: "transfer_ok T" and r: "receiving T s0 todo s c w e"
  shows "\<exists>k'. transfer T s0 todo (up_step (tr_env T) Ue_Ui s) k'
    \<and> (k' < receiving_work T todo s c w \<or> up_ui s = [] \<and> k' = receiving_work T todo s c w)"
proof (cases "up_ui s")
  case Nil
  with transfer.Receiving [OF r] show ?thesis by auto
next
  case (Cons j js)
  let ?s = "up_step (tr_env T) Ue_Ui s"
  have less: "receiving_work T todo ?s c' w < receiving_work T todo s c w"
    if "j = Uj_HandleEnvelope t \<and> c' \<le> Suc c \<or> j = Uj_OnChunkWritten (tr_id T) True \<and> c' = c" for c' t
    using that Cons unfolding receiving_work_def up_ui_step by auto
  have finish: "2 < receiving_work T todo s c w"
    if "j = Uj_HandleEnvelope t \<or> j = Uj_OnChunkWritten (tr_id T) True" for t
    using that Cons unfolding receiving_work_def by auto
  from r have job: "transfer_job (tr_id T) j" using Cons by (simp add: receiving_def)
  show ?thesis
  proof (cases j)
    case (Uj_HandleEnvelope t)
    note ui = Cons [unfolded Uj_HandleEnvelope]
    show ?thesis
    proof (cases "c < length (tr_parts T)")
      case True
      with receiving_chunk [OF ok r ui] less [of t "Suc c"] Uj_HandleEnvelope show ?thesis
        by (blast intro: transfer.Receiving)
    next
      case False
      with r have "c = length (tr_parts T)" by (simp add: receiving_def)
      from receiving_end [OF ok r ui this] less [of t c] finish [of t] Uj_HandleEnvelope show ?thesis
        by (auto simp del: up_step.simps intro: transfer.Receiving)
    qed
  next
    case (Uj_OnChunkWritten i a)
    with job have ui: "up_ui s = Uj_OnChunkWritten (tr_id T) True # js" using Cons by simp
    with Cons receiving_ack [OF ok r ui] less [of _ c] finish show ?thesis
      by (auto simp del: up_step.simps intro: transfer.Receiving)
  qed (use job in simp)
qed

lemma announced_ui:
  assumes ok: "transfer_ok T" and quota: "session_bytes s0 + int (length (tr_buf T)) \<le> kMaxSessionUploadBytes"
    and frames: "map (up_rd (tr_env T)) (envelopes (up_ui s) @ todo) = map Some (all_frames T)"
    and jobs: "list_all (transfer_job (tr_id T)) (up_ui s)" "acks (tr_id T) (up_ui s) = 0"
    and s: "up_pool s = []" "same_chooser s0 s" and ui: "up_ui s = j # js"
  shows "receiving T s0 todo (up_step (tr_env T) Ue_Ui s) 0 0 False"
proof -
  from jobs ui obtain t where j: "j = Uj_HandleEnvelope t" by (cases j) auto
  let ?s = "s\<lparr>up_ui := js\<rparr>"
  have t: "up_rd (tr_env T) t =
      Some (start_frame (tr_raw_id T) (tr_name T) (tr_mime T) (int (length (tr_buf T))) (tr_sha T))"
    using frames ui j by (simp add: all_frames_def)
  have "HandleEnvelope (tr_env T) t ?s = ?s\<lparr>uploads := (uploads s)(tr_id T \<mapsto> upload_after T 0 0 False)\<rparr>"
    using handle_start [OF t, of ?s] ok quota s
    by (simp add: transfer_ok_def same_chooser_def upload_after_fresh tr_id_def)
  with ui j have step: "up_step (tr_env T) Ue_Ui s = ?s\<lparr>uploads := (uploads s)(tr_id T \<mapsto> upload_after T 0 0 False)\<rparr>"
    by simp
  show ?thesis unfolding step using frames jobs s ui j by (simp add: receiving_def all_frames_def)
qed

lemma finalising_ui:
  assumes ok: "transfer_ok T" and up: "uploads s (tr_id T) = Some (upload_after T c 0 e)"
    and ui: "up_ui s = [Uj_OnFinalised (tr_id T) (tr_path T) (map ToLowerASCII (Sha256Hex (tr_env T) (tr_buf T)))
        (int (length (tr_buf T))) True]"
    and s: "up_pool s = []" "disk s (tr_path T) = Some (tr_buf T)" "same_chooser s0 s"
  shows "transfer T s0 [] (up_step (tr_env T) Ue_Ui s) 0"
proof -
  from s obtain ps where out: "up_out s = up_out s0 @ map Files_SendAsync ps" by (auto simp: same_chooser_def)
  show ?thesis
    using ok up ui s out
    by (intro transfer.Done [where ps = ps])
      (auto simp: OnFinalised_def ResolveChooserWith_def up_emit_def reply_defs same_chooser_def transfer_ok_def
        selection_def Let_def split: option.split)
qed

lemma transfer_ui:
  assumes ok: "transfer_ok T" and quota: "session_bytes s0 + int (length (tr_buf T)) \<le> kMaxSessionUploadBytes"
    and t: "transfer T s0 todo s k"
  shows "\<exists>k'. transfer T s0 todo (up_step (tr_env T) Ue_Ui s) k' \<and> (k' < k \<or> up_ui s = [] \<and> k' = k)"
  using t
proof cases
  case Announced
  show ?thesis
  proof (cases "up_ui s")
    case Nil
    with t show ?thesis by auto
  next
    case (Cons j js)
    with announced_ui [OF ok quota] Announced
    have r: "receiving T s0 todo (up_step (tr_env T) Ue_Ui s) 0 0 False" by blast
    have "receiving_work T todo (up_step (tr_env T) Ue_Ui s) 0 0 < k"
      using Announced Cons unfolding receiving_work_def up_ui_step by (cases j) auto
    with transfer.Receiving [OF r] show ?thesis by blast
  qed
next
  case (Receiving c w e)
  with receiving_ui [OF ok] show ?thesis by blast
next
  case (Hashing e)
  with t show ?thesis by auto
next
  case (Finalising e)
  with finalising_ui [OF ok] show ?thesis by blast
next
  case (Done ps)
  with t show ?thesis by auto
qed

section \<open>The transfer as a whole\<close>

fun deliveries :: "'t up_event list \<Rightarrow> 't list" where
  "deliveries [] = []"
| "deliveries (Ue_Message t binary # es) = t # deliveries es"
| "deliveries (_ # es) = deliveries es"

text \<open>The events of a schedule in which the pool runs its tasks in order and the disk works.\<close>

fun in_order :: "'t up_event \<Rightarrow> bool" where
  "in_order (Ue_Message t binary) \<longleftrightarrow> \<not> binary"
| "in_order Ue_Ui \<longleftrightarrow> True"
| "in_order (Ue_Pool n io_ok) \<longleftrightarrow> n = 0 \<and> io_ok"
| "in_order _ \<longleftrightarrow> False"

definition drain :: "nat \<Rightarrow> 't up_event list" where
  "drain n = concat (replicate n [Ue_Ui, Ue_Pool 0 True])"

lemma transfer_run:
  assumes ok: "transfer_ok T" and quota: "session_bytes s0 + int (length (tr_buf T)) \<le> kMaxSessionUploadBytes"
  shows "transfer T s0 (deliveries es) s k \<Longrightarrow> list_all in_order es
    \<Longrightarrow> \<exists>k' \<le> k. transfer T s0 [] (fold (up_step (tr_env T)) es s) k'"
proof (induction es arbitrary: s k)
  case (Cons e es)
  have "\<exists>k' \<le> k. transfer T s0 (deliveries es) (up_step (tr_env T) e s) k'"
  proof (cases e)
    case (Ue_Message t binary)
    with Cons.prems show ?thesis using transfer_message [of T s0 t "deliveries es" s k "tr_env T"] by auto
  next
    case Ue_Ui
    with Cons.prems(1) show ?thesis
      using transfer_ui [OF ok quota, of "deliveries es" s k] by (auto simp del: up_step.simps intro: less_imp_le)
  next
    case (Ue_Pool n io_ok)
    with Cons.prems show ?thesis
      using transfer_pool [OF ok, of s0 "deliveries es" s k] by (auto simp del: up_step.simps intro: less_imp_le)
  qed (use Cons.prems in simp_all)
  then obtain k1 where k1: "k1 \<le> k" "transfer T s0 (deliveries es) (up_step (tr_env T) e s) k1" by blast
  moreover obtain k2 where "k2 \<le> k1" "transfer T s0 [] (fold (up_step (tr_env T)) es (up_step (tr_env T) e s)) k2"
    using Cons.IH [OF k1(2)] Cons.prems(2) by auto
  ultimately show ?case by (auto intro: le_trans)
qed auto

lemma transfer_not_stuck: "transfer T s0 [] s k \<Longrightarrow> up_ui s = [] \<Longrightarrow> up_pool s = [] \<Longrightarrow> k = 0"
  by (induction rule: transfer.cases) (auto simp: receiving_def all_frames_def frames_left_def split: if_splits)

lemma transfer_pair:
  assumes ok: "transfer_ok T" and quota: "session_bytes s0 + int (length (tr_buf T)) \<le> kMaxSessionUploadBytes"
    and t: "transfer T s0 [] s k"
  shows "\<exists>k'. transfer T s0 [] (fold (up_step (tr_env T)) [Ue_Ui, Ue_Pool 0 True] s) k' \<and> (k' < k \<or> k' = 0)"
proof -
  obtain k1 where k1: "transfer T s0 [] (up_step (tr_env T) Ue_Ui s) k1" "k1 < k \<or> up_ui s = [] \<and> k1 = k"
    using transfer_ui [OF ok quota t] by blast
  obtain k2 where k2: "transfer T s0 [] (fold (up_step (tr_env T)) [Ue_Ui, Ue_Pool 0 True] s) k2"
    and le: "k2 < k1 \<or> up_pool (up_step (tr_env T) Ue_Ui s) = [] \<and> k2 = k1"
    using transfer_pool [OF ok k1(1)] by (auto simp del: up_step.simps)
  have "k2 < k \<or> k2 = 0"
  proof (cases "k2 < k1 \<or> k1 < k")
    case True
    with le k1(2) show ?thesis by auto
  next
    case False
    with le k1(2) have "up_ui (up_step (tr_env T) Ue_Ui s) = []" "up_pool (up_step (tr_env T) Ue_Ui s) = []" "k2 = k1"
      by (auto simp: up_ui_step simp del: up_step.simps)
    with transfer_not_stuck [OF k1(1)] show ?thesis by simp
  qed
  with k2 show ?thesis by blast
qed

lemma transfer_drain:
  assumes ok: "transfer_ok T" and quota: "session_bytes s0 + int (length (tr_buf T)) \<le> kMaxSessionUploadBytes"
  shows "transfer T s0 [] s k \<Longrightarrow> k \<le> n \<Longrightarrow> transfer T s0 [] (fold (up_step (tr_env T)) (drain n) s) 0"
proof (induction n arbitrary: s k)
  case (Suc n)
  obtain k' where k': "transfer T s0 [] (fold (up_step (tr_env T)) [Ue_Ui, Ue_Pool 0 True] s) k'" "k' < k \<or> k' = 0"
    using transfer_pair [OF ok quota Suc.prems(1)] by blast
  with Suc.IH [OF k'(1)] Suc.prems(2) show ?case by (auto simp: drain_def simp del: up_step.simps)
qed (simp add: drain_def)

lemma transfer_done:
  assumes "transfer T s0 todo s 0"
  shows "uploads s (tr_id T) = None \<and> up_ui s = [] \<and> up_pool s = [] \<and> disk s (tr_path T) = Some (tr_buf T)
    \<and> session_bytes s = session_bytes s0 + int (length (tr_buf T)) \<and> pending_listener s = None
    \<and> (\<exists>ps. up_out s = up_out s0 @ map Files_SendAsync ps @ selection T s0)"
  using assms by cases (auto simp: receiving_work_def)

text \<open>What the two ends take from their libraries: Base64 decodes what was encoded, and the digests agree.\<close>

definition libraries_agree :: "'t UploadEnv \<Rightarrow> (string \<Rightarrow> string) \<Rightarrow> (string \<Rightarrow> string) \<Rightarrow> bool" where
  "libraries_agree env b64 sha \<longleftrightarrow>
     (\<forall>p. Base64Decode env (b64 p) = Some p) \<and> (\<forall>f. Sha256Hex env f \<noteq> [] \<and> sha f = Sha256Hex env f)"

lemma transfer_of_driveUpload:
  assumes "driveUpload b64 sha cs raw_id name mime buf = Some frames" "buf \<noteq> []"
    and "libraries_agree env b64 sha" "int (length buf) \<le> kMaxUploadBytes"
  obtains T where "transfer_ok T" "tr_env T = env" "tr_buf T = buf" "tr_id T = SafeId raw_id" "tr_name T = name"
    "all_frames T = frames" "slices cs buf (tr_parts T)"
proof -
  have "0 < cs" using assms(1,2) chunk_loop_needs_size [of b64 cs raw_id 0 buf]
    by (cases "chunk_loop b64 cs raw_id 0 buf") (auto simp: driveUpload_def)
  then obtain ps where ps: "slices cs buf ps" "chunk_loop b64 cs raw_id 0 buf = Some (part_frames b64 raw_id 0 ps)"
    using chunk_loop_returns by blast
  let ?T = "\<lparr>tr_env = env, tr_b64 = b64, tr_raw_id = raw_id, tr_name = name, tr_mime = mime, tr_sha = sha buf,
    tr_parts = ps\<rparr>"
  have "tr_buf ?T = buf" using ps by (simp add: tr_buf_def slices_def)
  moreover have "transfer_ok ?T"
    using assms calculation by (simp add: transfer_ok_def libraries_agree_def)
  moreover have "all_frames ?T = frames"
    using assms(1) ps calculation by (simp add: all_frames_def frames_left_def driveUpload_def)
  ultimately show ?thesis using ps by (intro that [of ?T]) (simp_all add: tr_id_def)
qed

lemma transfer_begin:
  assumes "map (up_rd (tr_env T)) texts = map Some (all_frames T)" "up_ui s0 = []" "up_pool s0 = []"
  shows "transfer T s0 texts s0 (3 * length texts + 2)"
  using assms by (intro transfer.Announced) (simp_all add: same_chooser_def exI [of _ "[]"])

text \<open>
  C5. An upload succeeds: however the delivery of the viewer's frames, the UI thread and the pool
  interleave, as long as the pool runs its tasks in the order they were posted, once the threads
  have run their queues empty the file on disk is the file the viewer sent. The upload is closed
  and counted against the session, a chooser that was waiting gets the file, and the last reply
  is the completion.
\<close>

theorem upload_completes:
  assumes "driveUpload b64 sha cs raw_id name mime buf = Some frames" "buf \<noteq> []"
    and "libraries_agree env b64 sha" "int (length buf) \<le> kMaxUploadBytes"
    and "session_bytes s0 + int (length buf) \<le> kMaxSessionUploadBytes"
    and "up_ui s0 = []" "up_pool s0 = []"
    and "map (up_rd env) texts = map Some frames"
    and "list_all in_order es" "deliveries es = texts" "3 * length texts + 2 \<le> n"
    and "path = upload_path env (SafeId raw_id) (SafeComponent name)"
    and "s = fold (up_step env) (es @ drain n) s0"
  shows "disk s path = Some buf \<and> uploads s (SafeId raw_id) = None \<and> up_ui s = [] \<and> up_pool s = []
    \<and> session_bytes s = session_bytes s0 + int (length buf) \<and> pending_listener s = None
    \<and> (\<exists>ps. up_out s = up_out s0 @ map Files_SendAsync ps
         @ (case pending_listener s0 of
              None \<Rightarrow> [] | Some l \<Rightarrow> [FileSelected l path (UTF8ToUTF16 env name) (pending_mode s0)])
         @ (case up_wr env (JDict (complete_reply (SafeId raw_id) path (pending_listener s0 \<noteq> None))) of
              None \<Rightarrow> [] | Some t \<Rightarrow> [Files_SendAsync t]))"
proof -
  obtain T where T: "transfer_ok T" "tr_env T = env" "tr_buf T = buf" "tr_id T = SafeId raw_id" "tr_name T = name"
    "all_frames T = frames"
    using transfer_of_driveUpload [OF assms(1-4)] by metis
  have quota: "session_bytes s0 + int (length (tr_buf T)) \<le> kMaxSessionUploadBytes" using assms(5) T by simp
  have "transfer T s0 (deliveries es) s0 (3 * length texts + 2)" using transfer_begin [of T texts s0] assms T by simp
  from transfer_run [OF T(1) quota this assms(9)]
  obtain k where "k \<le> n" "transfer T s0 [] (fold (up_step env) es s0) k"
    using assms(11) T(2) by (metis le_trans)
  from transfer_drain [OF T(1) quota this(2,1)] have "transfer T s0 [] s 0"
    using assms(13) T(2) by simp
  from transfer_done [OF this] show ?thesis
    unfolding selection_def tr_path_def T assms(12) by (simp only: append_assoc simp_thms)
qed

text \<open>A concrete pair of ends: texts are the JSON values themselves and Base64 is the identity.\<close>

definition sample_env :: "json UploadEnv" where
  "sample_env = \<lparr>up_rd = Some, up_wr = Some, Base64Decode = Some, Sha256Hex = (\<lambda>f. ''e3'' @ f),
     UTF8ToUTF16 = (\<lambda>x. x), uploads_dir = ''/tmp/up''\<rparr>"

definition sample_texts :: "json list" where
  "sample_texts = [start_frame ''u1'' ''../f'' ''text/plain'' 3 ''e3abc'', chunk_frame ''u1'' 0 ''ab'',
     chunk_frame ''u1'' 1 ''c'', end_frame ''u1'']"

definition sample_path :: string where
  "sample_path = ''/tmp/up/u1__.._f''"

lemma sample_names: "SafeId ''u1'' = ''u1''" "SafeComponent ''../f'' = ''.._f''"
  by code_simp+

lemma sample_upload_path: "upload_path sample_env (SafeId ''u1'') (SafeComponent ''../f'') = sample_path"
  by (simp add: sample_names upload_path_def sample_env_def sample_path_def)

lemma sample_driveUpload:
  "driveUpload (\<lambda>x. x) (\<lambda>f. ''e3'' @ f) 2 ''u1'' ''../f'' ''text/plain'' ''abc'' = Some sample_texts"
  by (simp add: driveUpload_def chunk_loop.simps sample_texts_def)

lemma sample_libraries: "libraries_agree sample_env (\<lambda>x. x) (\<lambda>f. ''e3'' @ f)"
  by (simp add: libraries_agree_def sample_env_def)

lemma sample_rd [simp]: "up_rd sample_env = Some" "UTF8ToUTF16 sample_env x = x"
  by (simp_all add: sample_env_def)

lemma begun [simp]:
  "session_bytes (BeginChooser l m new_receiver) = 0" "up_ui (BeginChooser l m new_receiver) = []"
  "up_pool (BeginChooser l m new_receiver) = []" "pending_listener (BeginChooser l m new_receiver) = Some l"
  "pending_mode (BeginChooser l m new_receiver) = m" "disk (BeginChooser l m new_receiver) = Map.empty"
  "up_out (BeginChooser l m new_receiver) = []"
  by (simp_all add: BeginChooser_def CancelChooser_def new_receiver_def)

definition sample_schedule :: "json up_event list" where
  "sample_schedule =
     [Ue_Message (sample_texts ! 0) False, Ue_Ui, Ue_Message (sample_texts ! 1) False,
      Ue_Message (sample_texts ! 2) False, Ue_Ui, Ue_Ui, Ue_Message (sample_texts ! 3) False, Ue_Pool 0 True]"

theorem upload_completes_witness:
  "let s = fold (up_step sample_env) (sample_schedule @ drain 14) (BeginChooser 7 0 new_receiver)
   in disk s sample_path = Some ''abc'' \<and> uploads s ''u1'' = None \<and> session_bytes s = 3
      \<and> FileSelected 7 sample_path ''../f'' 0 \<in> set (up_out s)"
proof -
  define s where "s = fold (up_step sample_env) (sample_schedule @ drain 14) (BeginChooser 7 0 new_receiver)"
  have order: "list_all in_order sample_schedule" "deliveries sample_schedule = sample_texts"
    by (simp_all add: sample_schedule_def sample_texts_def)
  have len: "3 * length sample_texts + 2 \<le> 14" by (simp add: sample_texts_def)
  have "disk s sample_path = Some ''abc'' \<and> uploads s ''u1'' = None \<and> session_bytes s = 3
      \<and> (\<exists>ps qs. up_out s = map Files_SendAsync ps @ [FileSelected 7 sample_path ''../f'' 0] @ qs)"
    using upload_completes [OF sample_driveUpload _ sample_libraries _ _ _ _ _ order len
        sample_upload_path [symmetric] s_def]
    by (simp add: sample_names kMaxUploadBytes_def kMaxSessionUploadBytes_def) blast
  then show ?thesis unfolding Let_def s_def [symmetric] by auto
qed


theorem choosers_answered_once_witness:
  "let s = fold (up_step sample_env) [Ue_BeginChooser 7 0, Ue_BeginChooser 8 0] new_receiver
   in answers 7 s = 1 \<and> waiting 8 s = 1 \<and> chooser_deadline s"
proof -
  define s where "s = fold (up_step sample_env) [Ue_BeginChooser 7 0, Ue_BeginChooser 8 0] new_receiver"
  have "pending_listener s = Some 8" by (simp add: s_def BeginChooser_def)
  with choosers_answered_once [OF s_def, of 7] choosers_answered_once [OF s_def, of 8] show ?thesis
    unfolding Let_def s_def [symmetric] by (simp add: waiting_def)
qed

section \<open>A pool that reorders\<close>

lemma disk_chooser [simp]:
  "disk (post_pool t s) = disk s" "disk (CancelChooser s) = disk s"
  "disk (snd (ResolveChooserWith path shown s)) = disk s"
  by (simp_all add: post_pool_def CancelChooser_def ResolveChooserWith_def up_emit_def Let_def split: option.split)

lemma disk_upload [simp]:
  "disk (FinaliseUpload i s) = disk s" "disk (AbandonUpload env i up code message s) = disk s"
  by (simp_all add: FinaliseUpload_def AbandonUpload_def reply_defs split: option.split)

lemma disk_frames [simp]:
  "disk (HandleStart env data s) = disk s" "disk (HandleChunk env data s) = disk s"
  "disk (HandleEnd env data s) = disk s" "disk (HandleCancel env data s) = disk s"
  by (simp_all add: HandleStart_def HandleChunk_def HandleEnd_def HandleCancel_def reply_defs Let_def
      split: option.split)

lemma disk_run [simp]: "disk (run_ui_job env j s) = disk s"
  by (cases j) (simp_all add: HandleEnvelope_def OnChunkWritten_def OnFinalised_def reply_defs Let_def
      case_prod_unfold split: option.split json.split)

lemma disk_ui: "disk (up_step env Ue_Ui s) = disk s"
  by (simp split: list.split)

lemma slices_two: "slices cs view ps \<Longrightarrow> cs < length view \<Longrightarrow> 2 \<le> length ps"
  by (cases ps; cases "tl ps") (auto simp: slices_def)

text \<open>After the first two chunks, both writes are in the pool and nothing is on the disk.\<close>

lemma two_writes_in_flight:
  assumes ok: "transfer_ok T" and quota: "session_bytes s0 + int (length (tr_buf T)) \<le> kMaxSessionUploadBytes"
    and two: "2 \<le> length (tr_parts T)" and s0: "up_ui s0 = []" "up_pool s0 = []"
    and texts: "map (up_rd (tr_env T)) texts = map Some (all_frames T)"
    and s: "s = fold (up_step (tr_env T)) (map (\<lambda>t. Ue_Message t False) (take 3 texts) @ [Ue_Ui, Ue_Ui, Ue_Ui]) s0"
  shows "receiving T s0 (drop 3 texts) s 2 0 False \<and> up_ui s = [] \<and> disk s = disk s0"
proof -
  let ?step = "up_step (tr_env T)" and ?todo = "drop 3 texts"
  have "4 \<le> length texts"
    using two arg_cong [OF texts, of length] by (simp add: all_frames_def frames_left_def)
  then obtain t1 t2 t3 rest where split: "texts = t1 # t2 # t3 # rest"
    by (auto simp: numeral_eq_Suc Suc_le_length_iff)
  then have t: "take 3 texts = [t1, t2, t3]" "?todo = rest" by (simp_all add: numeral_eq_Suc)
  define s1 where "s1 = s0\<lparr>up_ui := map Uj_HandleEnvelope [t1, t2, t3]\<rparr>"
  have s1: "s = ?step Ue_Ui (?step Ue_Ui (?step Ue_Ui s1))"
    unfolding s t(1) using s0 by (simp add: s1_def up_OnMessage_def)
  have r1: "receiving T s0 ?todo (?step Ue_Ui s1) 0 0 False"
    using texts s0 split t(2) by (intro announced_ui [OF ok quota]) (simp_all add: s1_def same_chooser_def exI [of _ "[]"])
  have ui1: "up_ui (?step Ue_Ui s1) = [Uj_HandleEnvelope t2, Uj_HandleEnvelope t3]"
    by (simp add: up_ui_step s1_def del: up_step.simps)
  have r2: "receiving T s0 ?todo (?step Ue_Ui (?step Ue_Ui s1)) (Suc 0) 0 False"
    by (rule receiving_chunk [OF ok r1 ui1]) (use two in linarith)
  have ui2: "up_ui (?step Ue_Ui (?step Ue_Ui s1)) = [Uj_HandleEnvelope t3]"
    by (simp add: up_ui_step s1_def del: up_step.simps)
  have "receiving T s0 ?todo s (Suc (Suc 0)) 0 False"
    unfolding s1 by (rule receiving_chunk [OF ok r2 ui2]) (use two in linarith)
  moreover have "up_ui s = []" unfolding s1 by (simp add: up_ui_step s1_def del: up_step.simps)
  moreover have "disk s = disk s0" unfolding s1 by (simp add: disk_ui s1_def del: up_step.simps)
  ultimately show ?thesis by (simp add: numeral_2_eq_2)
qed

text \<open>
  Chunks written out of order lose the upload: a viewer that sends its next chunk before the
  first is on disk, as it does, has two writes in the pool, and nothing keeps their order. If the
  second runs first, the file does not exist yet: its write is refused and the upload is dropped
  as failed, though both ends and the disk did what they should.
\<close>

theorem reordered_writes_fail:
  assumes "driveUpload b64 sha cs raw_id name mime buf = Some frames" "cs < length buf"
    and "libraries_agree env b64 sha" "int (length buf) \<le> kMaxUploadBytes"
    and "session_bytes s0 + int (length buf) \<le> kMaxSessionUploadBytes"
    and "up_ui s0 = []" "up_pool s0 = []" "disk s0 path = None"
    and "map (up_rd env) texts = map Some frames"
    and "path = upload_path env (SafeId raw_id) (SafeComponent name)"
    and "s = fold (up_step env)
      (map (\<lambda>t. Ue_Message t False) (take 3 texts) @ [Ue_Ui, Ue_Ui, Ue_Ui] @ [Ue_Pool 1 True, Ue_Ui]) s0"
  shows "uploads s (SafeId raw_id) = None
    \<and> (\<forall>t. up_wr env (JDict (error_reply (SafeId raw_id) ''write_failed'' (''could not write to '' @ path))) = Some t
         \<longrightarrow> last (up_out s) = Files_SendAsync t)"
proof -
  have "buf \<noteq> []" using assms(2) by auto
  from transfer_of_driveUpload [OF assms(1) this assms(3,4)]
  obtain T where T: "transfer_ok T" "tr_env T = env" "tr_buf T = buf" "tr_id T = SafeId raw_id" "tr_name T = name"
    "all_frames T = frames" "slices cs buf (tr_parts T)" by metis
  define s1 where "s1 = fold (up_step env) (map (\<lambda>t. Ue_Message t False) (take 3 texts) @ [Ue_Ui, Ue_Ui, Ue_Ui]) s0"
  have s: "s = up_step env Ue_Ui (up_step env (Ue_Pool 1 True) s1)" unfolding assms(11) s1_def by simp
  have path: "tr_path T = path" using T assms(10) by (simp add: tr_path_def)
  have s1: "receiving T s0 (drop 3 texts) s1 2 0 False" "up_ui s1 = []" "disk s1 path = None"
    using two_writes_in_flight [of T s0 texts s1] slices_two [OF T(7) assms(2)] assms(5-9) T s1_def by simp_all
  have pool: "up_pool s1 = [append_task T 0, append_task T 1]"
    and up: "uploads s1 (SafeId raw_id) = Some (upload_after T 2 2 False)"
    using s1 T by (simp_all add: receiving_def numeral_2_eq_2)
  have "up_step env (Ue_Pool 1 True) s1 =
      s1\<lparr>up_pool := [append_task T 0], up_ui := [Uj_OnChunkWritten (SafeId raw_id) False]\<rparr>"
    using pool s1 path T by (simp add: append_task_def AppendChunk_def)
  with s have "s = OnChunkWritten env (SafeId raw_id) False (s1\<lparr>up_pool := [append_task T 0], up_ui := []\<rparr>)" by simp
  then show ?thesis
    using up path by (simp add: OnChunkWritten_def AbandonUpload_def post_pool_def reply_defs Let_def)
qed

theorem reordered_writes_fail_witness:
  "uploads (fold (up_step sample_env) (map (\<lambda>t. Ue_Message t False) (take 3 sample_texts)
      @ [Ue_Ui, Ue_Ui, Ue_Ui] @ [Ue_Pool 1 True, Ue_Ui]) (BeginChooser 7 0 new_receiver)) ''u1'' = None"
proof -
  define s where "s = fold (up_step sample_env) (map (\<lambda>t. Ue_Message t False) (take 3 sample_texts)
      @ [Ue_Ui, Ue_Ui, Ue_Ui] @ [Ue_Pool 1 True, Ue_Ui]) (BeginChooser 7 0 new_receiver)"
  have "uploads s ''u1'' = None"
    using reordered_writes_fail [OF sample_driveUpload _ sample_libraries _ _ _ _ _ _ sample_upload_path [symmetric] s_def]
    by (simp add: sample_names kMaxUploadBytes_def kMaxSessionUploadBytes_def)
  then show ?thesis by (simp only: s_def)
qed

end
