(* ===== verification/Cb_Input_Channel.thy ===== *)
theory Cb_Input_Channel
  imports Cb_Prelude
begin

text \<open>
  The viewer's side of the input channel, \<^verbatim>\<open>client/src/input.ts\<close>: the calls that queue an input
  event, coalescing of moves, the flush on an animation frame, the phases of a wheel gesture,
  and the handlers of the DOM events. Coordinates arrive as the caller maps them; a handler
  reads the clock once. \<open>ch_throws\<close> says whether \<^verbatim>\<open>send\<close> of the data channel throws.
\<close>

section \<open>State\<close>

record ViewerEnvelope =
  ve_type :: string
  ve_t :: int
  ve_seq :: nat
  ve_data :: json_dict

record InputOptions =
  coalesceThreshold :: int
  bufferedAmountThreshold :: int
  wheelMomentumGapMs :: int
  has_raf :: bool

definition default_input_options :: InputOptions where
  "default_input_options = \<lparr>coalesceThreshold = 4, bufferedAmountThreshold = 64 * 1024, wheelMomentumGapMs = 100, has_raf = True\<rparr>"

record SendableChannel =
  ch_open :: bool
  ch_bufferedAmount :: int
  ch_throws :: bool

record InputChannel =
  ic_seq :: nat
  pendingMove :: "(int \<times> int) option"
  pendingDragOver :: "(int \<times> int) option"
  pendingTouchMoves :: "(int \<times> json_dict) list"
  wheel_active :: bool
  wheelLastEventNow :: int
  wheelPrevAbsDelta :: int
  wheelEndTimer :: bool
  wheelLastPos :: "int \<times> int \<times> int"
  pendingOther :: "ViewerEnvelope list"
  raf_armed :: bool
  droppedSinceLastFlush :: nat
  wire_frames :: "ViewerEnvelope list"
  send_errors :: "ViewerEnvelope list"
  coalesce_reports :: "nat list"

definition new_input_channel :: InputChannel where
  "new_input_channel =
     \<lparr>ic_seq = 0, pendingMove = None, pendingDragOver = None, pendingTouchMoves = [], wheel_active = False,
      wheelLastEventNow = 0, wheelPrevAbsDelta = 0, wheelEndTimer = False, wheelLastPos = (0, 0, 0),
      pendingOther = [], raf_armed = False, droppedSinceLastFlush = 0, wire_frames = [], send_errors = [],
      coalesce_reports = []\<rparr>"

text \<open>\<^verbatim>\<open>Math.round\<close>: halves go up.\<close>

definition Math_round :: "rat \<Rightarrow> int" where
  "Math_round x = \<lfloor>x + 1 / 2\<rfloor>"

section \<open>Flushing\<close>

definition ic_dispatch :: "SendableChannel \<Rightarrow> ViewerEnvelope \<Rightarrow> InputChannel \<Rightarrow> InputChannel" where
  "ic_dispatch ch env s =
     (let env1 = env\<lparr>ve_seq := ic_seq s\<rparr>; s1 = s\<lparr>ic_seq := ic_seq s + 1\<rparr> in
      if ch_throws ch then s1\<lparr>send_errors := send_errors s1 @ [env1]\<rparr>
      else s1\<lparr>wire_frames := wire_frames s1 @ [env1]\<rparr>)"

definition move_data :: "int \<times> int \<Rightarrow> json_dict" where
  "move_data p = [(''x'', JInt (fst p)), (''y'', JInt (snd p))]"

definition envelope_of :: "int \<Rightarrow> string \<Rightarrow> json_dict \<Rightarrow> ViewerEnvelope" where
  "envelope_of now ty data = \<lparr>ve_type = ty, ve_t = now, ve_seq = 0, ve_data = data\<rparr>"

definition flush_move :: "SendableChannel \<Rightarrow> int \<Rightarrow> InputChannel \<Rightarrow> InputChannel" where
  "flush_move ch now s =
     (case pendingMove s of
        None \<Rightarrow> s
      | Some p \<Rightarrow> ic_dispatch ch (envelope_of now ''mouse_move'' (move_data p)) (s\<lparr>pendingMove := None\<rparr>))"

definition flush_drag_over :: "SendableChannel \<Rightarrow> int \<Rightarrow> InputChannel \<Rightarrow> InputChannel" where
  "flush_drag_over ch now s =
     (case pendingDragOver s of
        None \<Rightarrow> s
      | Some p \<Rightarrow> ic_dispatch ch (envelope_of now ''drag_over'' (move_data p)) (s\<lparr>pendingDragOver := None\<rparr>))"

definition flush_touch :: "SendableChannel \<Rightarrow> int \<Rightarrow> int \<Rightarrow> InputChannel \<Rightarrow> InputChannel" where
  "flush_touch ch now i s =
     (case map_of (pendingTouchMoves s) i of
        None \<Rightarrow> s
      | Some data \<Rightarrow>
          ic_dispatch ch (envelope_of now ''touch_move'' data)
            (s\<lparr>pendingTouchMoves := AList.delete i (pendingTouchMoves s)\<rparr>))"

definition report_coalesced :: "InputOptions \<Rightarrow> InputChannel \<Rightarrow> InputChannel" where
  "report_coalesced cfg s =
     (let s1 = (if droppedSinceLastFlush s > 0
                then s\<lparr>coalesce_reports := coalesce_reports s @ [droppedSinceLastFlush s], droppedSinceLastFlush := 0\<rparr> else s)
      in if int (length (pendingOther s1)) > coalesceThreshold cfg
         then s1\<lparr>coalesce_reports := coalesce_reports s1 @ [length (pendingOther s1)]\<rparr> else s1)"

definition doFlush :: "InputOptions \<Rightarrow> SendableChannel \<Rightarrow> int \<Rightarrow> InputChannel \<Rightarrow> InputChannel" where
  "doFlush cfg ch now s =
     (if \<not> ch_open ch
      then s\<lparr>pendingMove := None, pendingDragOver := None, pendingTouchMoves := [], pendingOther := [],
             droppedSinceLastFlush := 0\<rparr>
      else
        let s1 = fold (ic_dispatch ch) (pendingOther s) (s\<lparr>pendingOther := []\<rparr>);
            s2 = flush_drag_over ch now (flush_move ch now s1);
            s3 = fold (flush_touch ch now) (sort (map fst (pendingTouchMoves s2))) s2
        in report_coalesced cfg s3)"

definition scheduleFlush :: "InputOptions \<Rightarrow> SendableChannel \<Rightarrow> int \<Rightarrow> InputChannel \<Rightarrow> InputChannel" where
  "scheduleFlush cfg ch now s =
     (if raf_armed s then s
      else if has_raf cfg then s\<lparr>raf_armed := True\<rparr>
      else doFlush cfg ch now s)"

definition enqueue ::
  "InputOptions \<Rightarrow> SendableChannel \<Rightarrow> int \<Rightarrow> string \<Rightarrow> json_dict \<Rightarrow> InputChannel \<Rightarrow> InputChannel" where
  "enqueue cfg ch now ty data s =
     scheduleFlush cfg ch now (s\<lparr>pendingOther := pendingOther s @ [envelope_of now ty data]\<rparr>)"

text \<open>\<^verbatim>\<open>flush()\<close> and the animation frame.\<close>

definition flush_now :: "InputOptions \<Rightarrow> SendableChannel \<Rightarrow> int \<Rightarrow> InputChannel \<Rightarrow> InputChannel" where
  "flush_now cfg ch now s = doFlush cfg ch now (s\<lparr>raf_armed := False\<rparr>)"

section \<open>Calls\<close>

definition count_dropped :: "InputOptions \<Rightarrow> SendableChannel \<Rightarrow> bool \<Rightarrow> InputChannel \<Rightarrow> InputChannel" where
  "count_dropped cfg ch replaced s =
     s\<lparr>droppedSinceLastFlush := droppedSinceLastFlush s
         + (if ch_bufferedAmount ch > bufferedAmountThreshold cfg then 1 else 0) + (if replaced then 1 else 0)\<rparr>"

definition sendMouseMove :: "InputOptions \<Rightarrow> SendableChannel \<Rightarrow> int \<Rightarrow> rat \<Rightarrow> rat \<Rightarrow> InputChannel \<Rightarrow> InputChannel" where
  "sendMouseMove cfg ch now x y s =
     scheduleFlush cfg ch now
       ((count_dropped cfg ch (pendingMove s \<noteq> None) s)\<lparr>pendingMove := Some (Math_round x, Math_round y)\<rparr>)"

definition sendDragOver :: "InputOptions \<Rightarrow> SendableChannel \<Rightarrow> int \<Rightarrow> rat \<Rightarrow> rat \<Rightarrow> InputChannel \<Rightarrow> InputChannel" where
  "sendDragOver cfg ch now x y s =
     scheduleFlush cfg ch now
       ((count_dropped cfg ch (pendingDragOver s \<noteq> None) s)\<lparr>pendingDragOver := Some (Math_round x, Math_round y)\<rparr>)"

definition deltaModeName :: "int \<Rightarrow> string" where
  "deltaModeName mode = (if mode = 0 then ''pixel'' else if mode = 1 then ''line'' else ''page'')"

definition wheel_data :: "int \<Rightarrow> int \<Rightarrow> int \<Rightarrow> int \<Rightarrow> int \<Rightarrow> string \<Rightarrow> bool \<Rightarrow> json_dict" where
  "wheel_data dx dy mode x y phase momentum =
     [(''dx'', JInt dx), (''dy'', JInt dy), (''mode'', JInt mode), (''x'', JInt x), (''y'', JInt y),
      (''delta_mode'', JString (deltaModeName mode)), (''phase'', JString phase), (''momentum'', JBool momentum)]"

definition sendMouseWheel ::
  "InputOptions \<Rightarrow> SendableChannel \<Rightarrow> int \<Rightarrow> rat \<Rightarrow> rat \<Rightarrow> int \<Rightarrow> rat \<Rightarrow> rat \<Rightarrow> InputChannel \<Rightarrow> InputChannel" where
  "sendMouseWheel cfg ch now dx dy mode x y s =
     (let rdx = Math_round dx; rdy = Math_round dy; rx = Math_round x; ry = Math_round y;
          absDelta = \<bar>rdx\<bar> + \<bar>rdy\<bar>
      in if \<not> wheel_active s \<and> absDelta = 0 then s
         else
           let phase = (if wheel_active s then ''changed'' else ''start'');
               s1 = (if wheel_active s then s else s\<lparr>wheel_active := True, wheelPrevAbsDelta := 0\<rparr>);
               gap = now - wheelLastEventNow s1;
               momentum = (phase = ''changed'' \<and> gap > 0 \<and> gap < wheelMomentumGapMs cfg
                 \<and> absDelta > 0 \<and> absDelta < wheelPrevAbsDelta s1);
               s2 = s1\<lparr>wheelLastEventNow := now, wheelPrevAbsDelta := absDelta, wheelLastPos := (rx, ry, mode)\<rparr>;
               s3 = enqueue cfg ch now ''mouse_wheel'' (wheel_data rdx rdy mode rx ry phase momentum) s2
           in s3\<lparr>wheelEndTimer := True\<rparr>)"

definition emitWheelEnd :: "InputOptions \<Rightarrow> SendableChannel \<Rightarrow> int \<Rightarrow> InputChannel \<Rightarrow> InputChannel" where
  "emitWheelEnd cfg ch now s =
     (if \<not> wheel_active s then s
      else case wheelLastPos s of (x, y, mode) \<Rightarrow>
        enqueue cfg ch now ''mouse_wheel'' (wheel_data 0 0 mode x y ''end'' False)
          (s\<lparr>wheel_active := False, wheelPrevAbsDelta := 0, wheelEndTimer := False\<rparr>))"

record DragItem =
  di_kind :: string
  di_type :: string
  di_data :: "string option"

definition drag_item_json :: "DragItem \<Rightarrow> json" where
  "drag_item_json i =
     JDict ([(''kind'', JString (di_kind i)), (''type'', JString (di_type i))]
       @ (case di_data i of None \<Rightarrow> [] | Some d \<Rightarrow> [(''data'', JString d)]))"

definition drag_data :: "rat \<Rightarrow> rat \<Rightarrow> string list \<Rightarrow> DragItem list \<Rightarrow> json_dict" where
  "drag_data x y types items =
     [(''x'', JInt (Math_round x)), (''y'', JInt (Math_round y)), (''types'', JList (map JString types)),
      (''items'', JList (map drag_item_json items))]"

record TouchData =
  t_identifier :: int
  t_x :: rat
  t_y :: rat
  t_radius_x :: rat
  t_radius_y :: rat
  t_force :: rat
  t_twist :: rat

definition touch_data :: "TouchData \<Rightarrow> json_dict" where
  "touch_data t =
     [(''identifier'', JInt (t_identifier t)), (''x'', JInt (Math_round (t_x t))), (''y'', JInt (Math_round (t_y t))),
      (''radius_x'', JInt (max 1 (Math_round (t_radius_x t)))), (''radius_y'', JInt (max 1 (Math_round (t_radius_y t)))),
      (''force'', JDouble (t_force t)), (''twist'', JInt (Math_round (t_twist t)))]"

definition sendTouchMove :: "InputOptions \<Rightarrow> SendableChannel \<Rightarrow> int \<Rightarrow> TouchData \<Rightarrow> InputChannel \<Rightarrow> InputChannel" where
  "sendTouchMove cfg ch now t s =
     scheduleFlush cfg ch now
       ((count_dropped cfg ch (map_of (pendingTouchMoves s) (t_identifier t) \<noteq> None) s)
         \<lparr>pendingTouchMoves := AList.update (t_identifier t) (touch_data t) (pendingTouchMoves s)\<rparr>)"

definition sendTouchEnd :: "InputOptions \<Rightarrow> SendableChannel \<Rightarrow> int \<Rightarrow> int \<Rightarrow> InputChannel \<Rightarrow> InputChannel" where
  "sendTouchEnd cfg ch now i s =
     (let s1 = (case map_of (pendingTouchMoves s) i of
            None \<Rightarrow> s
          | Some data \<Rightarrow>
              s\<lparr>pendingTouchMoves := AList.delete i (pendingTouchMoves s),
                pendingOther := pendingOther s @ [envelope_of now ''touch_move'' data]\<rparr>)
      in enqueue cfg ch now ''touch_end'' [(''identifier'', JInt i)] s1)"

definition sendTouchCancel :: "InputOptions \<Rightarrow> SendableChannel \<Rightarrow> int \<Rightarrow> int \<Rightarrow> InputChannel \<Rightarrow> InputChannel" where
  "sendTouchCancel cfg ch now i s =
     enqueue cfg ch now ''touch_cancel'' [(''identifier'', JInt i)]
       (s\<lparr>pendingTouchMoves := AList.delete i (pendingTouchMoves s)\<rparr>)"

record CompositionData =
  cd_data :: string
  cd_selection :: "(int \<times> int) option"
  cd_rect :: "(int \<times> int \<times> int \<times> int) option"

definition composition_data :: "CompositionData \<Rightarrow> json_dict" where
  "composition_data c =
     [(''data'', JString (cd_data c))]
     @ (case cd_rect c of None \<Rightarrow> []
        | Some (x, y, w, h) \<Rightarrow> [(''rect'', JDict [(''x'', JInt x), (''y'', JInt y), (''w'', JInt w), (''h'', JInt h)])])
     @ (case cd_selection c of None \<Rightarrow> []
        | Some (a, b) \<Rightarrow> [(''selection_start'', JInt a), (''selection_end'', JInt b)])"

definition key_data :: "string \<Rightarrow> string \<Rightarrow> int \<Rightarrow> json_dict" where
  "key_data code key mods = [(''code'', JString code), (''key'', JString key), (''mods'', JInt mods)]"

definition button_data :: "int \<Rightarrow> string \<Rightarrow> rat \<Rightarrow> rat \<Rightarrow> json_dict" where
  "button_data button action x y =
     [(''button'', JInt button), (''action'', JString action), (''x'', JInt (Math_round x)), (''y'', JInt (Math_round y))]"

text \<open>The public calls.\<close>

datatype input_call =
    MouseMove rat rat
  | MouseButton int string rat rat
  | MouseWheel rat rat int rat rat
  | KeyDown string string int
  | KeyUp string string int
  | Composition string CompositionData
  | CompositionCancel
  | ClipboardPaste string
  | ClipboardCopyRequest
  | DragStart rat rat "string list" "DragItem list"
  | DragOver rat rat
  | Drop rat rat "string list" "DragItem list"
  | DragEnd bool
  | TouchStart TouchData
  | TouchMove TouchData
  | TouchEnd int
  | TouchCancel int

text \<open>What a call that only queues one envelope queues.\<close>

fun queued :: "input_call \<Rightarrow> (string \<times> json_dict) option" where
  "queued (MouseButton b a x y) = Some (''mouse_button'', button_data b a x y)"
| "queued (KeyDown code key mods) = Some (''key_down'', key_data code key mods)"
| "queued (KeyUp code key mods) = Some (''key_up'', key_data code key mods)"
| "queued (Composition phase c) = Some (''composition_'' @ phase, composition_data c)"
| "queued CompositionCancel = Some (''composition_cancel'', [])"
| "queued (ClipboardPaste t) = Some (''clipboard_paste'', [(''text'', JString t)])"
| "queued ClipboardCopyRequest = Some (''clipboard_copy_request'', [])"
| "queued (DragStart x y types items) = Some (''drag_start'', drag_data x y types items)"
| "queued (Drop x y types items) = Some (''drop'', drag_data x y types items)"
| "queued (DragEnd ok) = Some (''drag_end'', [(''success'', JBool ok)])"
| "queued (TouchStart t) = Some (''touch_start'', touch_data t)"
| "queued _ = None"

fun perform :: "InputOptions \<Rightarrow> SendableChannel \<Rightarrow> int \<Rightarrow> input_call \<Rightarrow> InputChannel \<Rightarrow> InputChannel" where
  "perform cfg ch now (MouseMove x y) s = sendMouseMove cfg ch now x y s"
| "perform cfg ch now (MouseWheel dx dy mode x y) s = sendMouseWheel cfg ch now dx dy mode x y s"
| "perform cfg ch now (DragOver x y) s = sendDragOver cfg ch now x y s"
| "perform cfg ch now (TouchMove t) s = sendTouchMove cfg ch now t s"
| "perform cfg ch now (TouchEnd i) s = sendTouchEnd cfg ch now i s"
| "perform cfg ch now (TouchCancel i) s = sendTouchCancel cfg ch now i s"
| "perform cfg ch now c s = (case queued c of None \<Rightarrow> s | Some (ty, data) \<Rightarrow> enqueue cfg ch now ty data s)"

text \<open>A call, an animation frame, the wheel timer and \<^verbatim>\<open>flush()\<close>, with the channel and the clock they meet.\<close>

datatype input_event = Call input_call | Animation_Frame | Wheel_Timer | Flush

fun input_step :: "InputOptions \<Rightarrow> SendableChannel \<times> int \<times> input_event \<Rightarrow> InputChannel \<Rightarrow> InputChannel" where
  "input_step cfg (ch, now, Call c) s = perform cfg ch now c s"
| "input_step cfg (ch, now, Animation_Frame) s = flush_now cfg ch now s"
| "input_step cfg (ch, now, Wheel_Timer) s = (if wheelEndTimer s then emitWheelEnd cfg ch now s else s)"
| "input_step cfg (ch, now, Flush) s = flush_now cfg ch now s"

definition input_run :: "InputOptions \<Rightarrow> (SendableChannel \<times> int \<times> input_event) list \<Rightarrow> InputChannel" where
  "input_run cfg es = fold (input_step cfg) es new_input_channel"

section \<open>DOM handlers\<close>

definition modsFromEvent :: "bool \<Rightarrow> bool \<Rightarrow> bool \<Rightarrow> bool \<Rightarrow> int" where
  "modsFromEvent shift ctrl alt meta =
     (if shift then 1 else 0) + (if ctrl then 2 else 0) + (if alt then 4 else 0) + (if meta then 8 else 0)"

record KeyTarget =
  kt_tagName :: string
  kt_isContentEditable :: bool
  kt_closest :: "string list"

definition keyBelongsToClient :: "KeyTarget option \<Rightarrow> bool" where
  "keyBelongsToClient target =
     (case target of
        None \<Rightarrow> False
      | Some t \<Rightarrow>
          List.member (map (map ToLowerASCII) [''INPUT'', ''TEXTAREA'', ''SELECT'', ''BUTTON''])
            (map ToLowerASCII (kt_tagName t))
          \<or> kt_isContentEditable t
          \<or> list_ex (List.member (kt_closest t)) [''.cb-control-overlay'', ''.cb-filepick''])"

record KeyboardEvent =
  k_code :: string
  k_key :: string
  k_shift :: bool
  k_ctrl :: bool
  k_alt :: bool
  k_meta :: bool
  k_isComposing :: bool
  k_keyCode :: int
  k_target :: "KeyTarget option"

record DataTransfer =
  dt_types :: "string list"
  dt_items :: "(string \<times> string) list"
  dt_getData :: "string \<Rightarrow> string"

definition extractDragItems :: "DataTransfer option \<Rightarrow> string list \<times> DragItem list" where
  "extractDragItems dt =
     (case dt of
        None \<Rightarrow> ([], [])
      | Some t \<Rightarrow>
          if dt_items t \<noteq> []
          then (dt_types t, List.map_filter (\<lambda>(kind, type).
                 let mime = map ToLowerASCII type in
                 if kind = ''string'' then Some \<lparr>di_kind = ''string'', di_type = mime, di_data = Some (dt_getData t mime)\<rparr>
                 else if kind = ''file'' then Some \<lparr>di_kind = ''file'', di_type = mime, di_data = None\<rparr>
                 else None) (dt_items t))
          else (dt_types t, map (\<lambda>type. \<lparr>di_kind = ''string'', di_type = map ToLowerASCII type,
                 di_data = Some (dt_getData t type)\<rparr>) (dt_types t)))"

definition domButton :: "int \<Rightarrow> int" where
  "domButton b = (if b = 0 \<or> b = 1 \<or> b = 2 \<or> b = 3 \<or> b = 4 then b else 0)"

definition or_default :: "rat \<Rightarrow> rat \<Rightarrow> rat" where
  "or_default v d = (if v = 0 then d else v)"

definition touch_of :: "TouchData \<Rightarrow> TouchData" where
  "touch_of t = t\<lparr>t_radius_x := or_default (t_radius_x t) 1, t_radius_y := or_default (t_radius_y t) 1\<rparr>"

datatype dom_event =
    Dom_MouseMove rat rat
  | Dom_MouseDown int rat rat
  | Dom_MouseUp int rat rat
  | Dom_Wheel rat rat int rat rat
  | Dom_KeyDown KeyboardEvent
  | Dom_KeyUp KeyboardEvent
  | Dom_CompositionStart string "(rat \<times> rat \<times> rat \<times> rat) option"
  | Dom_CompositionUpdate string "(int \<times> int) option"
  | Dom_CompositionEnd string
  | Dom_Copy
  | Dom_DragEnter rat rat "DataTransfer option"
  | Dom_DragOver rat rat
  | Dom_Drop rat rat "DataTransfer option"
  | Dom_DragEnd "string option"
  | Dom_TouchStart "TouchData list"
  | Dom_TouchMove "TouchData list"
  | Dom_TouchEnd "int list"
  | Dom_TouchCancel "int list"

record DomState =
  dom_composing :: bool
  dragInFlight :: bool

definition isComposingKey :: "DomState \<Rightarrow> KeyboardEvent \<Rightarrow> bool" where
  "isComposingKey d e \<longleftrightarrow> dom_composing d \<or> k_isComposing e \<or> k_keyCode e = 229"

definition onKeyDown :: "(KeyboardEvent \<Rightarrow> bool) \<Rightarrow> KeyboardEvent \<Rightarrow> DomState \<Rightarrow> input_call list" where
  "onKeyDown shouldForwardKey e d =
     (if isComposingKey d e then []
      else if \<not> shouldForwardKey e then []
      else if dom_composing d \<and> k_key e = ''Escape'' then [CompositionCancel]
      else [KeyDown (k_code e) (k_key e) (modsFromEvent (k_shift e) (k_ctrl e) (k_alt e) (k_meta e))])"

definition onKeyUp :: "(KeyboardEvent \<Rightarrow> bool) \<Rightarrow> KeyboardEvent \<Rightarrow> DomState \<Rightarrow> input_call list" where
  "onKeyUp shouldForwardKey e d =
     (if isComposingKey d e then []
      else if \<not> shouldForwardKey e then []
      else [KeyUp (k_code e) (k_key e) (modsFromEvent (k_shift e) (k_ctrl e) (k_alt e) (k_meta e))])"

definition onCompStart :: "string \<Rightarrow> (rat \<times> rat \<times> rat \<times> rat) option \<Rightarrow> input_call" where
  "onCompStart text caret =
     Composition ''start'' \<lparr>cd_data = text, cd_selection = None,
       cd_rect = (case caret of None \<Rightarrow> None
         | Some (x, y, w, h) \<Rightarrow> if w > 0 \<or> h > 0 then Some (Math_round x, Math_round y, Math_round w, Math_round h) else None)\<rparr>"

definition onCompUpdate :: "(string \<Rightarrow> int) \<Rightarrow> string \<Rightarrow> (int \<times> int) option \<Rightarrow> input_call" where
  "onCompUpdate js_length text sel =
     Composition ''update'' \<lparr>cd_data = text,
       cd_selection = (case sel of
           Some (a, b) \<Rightarrow>
             if 0 \<le> a \<and> a \<le> js_length text \<and> 0 \<le> b \<and> b \<le> js_length text then Some (a, b)
             else Some (js_length text, js_length text)
         | None \<Rightarrow> Some (js_length text, js_length text)),
       cd_rect = None\<rparr>"

definition onCompEnd :: "string \<Rightarrow> input_call" where
  "onCompEnd text =
     (if text = [] then CompositionCancel
      else Composition ''end'' \<lparr>cd_data = text, cd_selection = None, cd_rect = None\<rparr>)"

fun on_dom ::
  "(KeyboardEvent \<Rightarrow> bool) \<Rightarrow> (string \<Rightarrow> int) \<Rightarrow> dom_event \<Rightarrow> DomState \<Rightarrow> DomState \<times> input_call list" where
  "on_dom fwd len (Dom_MouseMove x y) d = (d, [MouseMove x y])"
| "on_dom fwd len (Dom_MouseDown b x y) d = (d, [MouseButton (domButton b) ''down'' x y])"
| "on_dom fwd len (Dom_MouseUp b x y) d = (d, [MouseButton (domButton b) ''up'' x y])"
| "on_dom fwd len (Dom_Wheel dx dy mode x y) d = (d, [MouseWheel dx dy mode x y])"
| "on_dom fwd len (Dom_KeyDown e) d = (d, onKeyDown fwd e d)"
| "on_dom fwd len (Dom_KeyUp e) d = (d, onKeyUp fwd e d)"
| "on_dom fwd len (Dom_CompositionStart t caret) d = (d\<lparr>dom_composing := True\<rparr>, [onCompStart t caret])"
| "on_dom fwd len (Dom_CompositionUpdate t sel) d = (d, [onCompUpdate len t sel])"
| "on_dom fwd len (Dom_CompositionEnd t) d = (d\<lparr>dom_composing := False\<rparr>, [onCompEnd t])"
| "on_dom fwd len Dom_Copy d = (d, [ClipboardCopyRequest])"
| "on_dom fwd len (Dom_DragEnter x y dt) d =
     (d\<lparr>dragInFlight := True\<rparr>, [DragStart x y (fst (extractDragItems dt)) (snd (extractDragItems dt))])"
| "on_dom fwd len (Dom_DragOver x y) d = (d, if dragInFlight d then [DragOver x y] else [])"
| "on_dom fwd len (Dom_Drop x y dt) d =
     (d\<lparr>dragInFlight := False\<rparr>, [Drop x y (fst (extractDragItems dt)) (snd (extractDragItems dt)), DragEnd True])"
| "on_dom fwd len (Dom_DragEnd dropEffect) d =
     (if dragInFlight d then (d\<lparr>dragInFlight := False\<rparr>, [DragEnd (dropEffect \<noteq> Some ''none'')]) else (d, []))"
| "on_dom fwd len (Dom_TouchStart ts) d = (d, map (TouchStart \<circ> touch_of) ts)"
| "on_dom fwd len (Dom_TouchMove ts) d = (d, map (TouchMove \<circ> touch_of) ts)"
| "on_dom fwd len (Dom_TouchEnd ids) d = (d, map TouchEnd ids)"
| "on_dom fwd len (Dom_TouchCancel ids) d = (d, map TouchCancel ids)"

section \<open>What the channel delivers\<close>

definition healthy :: "SendableChannel \<Rightarrow> bool" where
  "healthy ch \<longleftrightarrow> ch_open ch \<and> \<not> ch_throws ch"

text \<open>The stream: what was sent, then what waits in the queue. It only grows at its end.\<close>

definition entry_of :: "ViewerEnvelope \<Rightarrow> string \<times> json_dict" where
  "entry_of f = (ve_type f, ve_data f)"

definition stream :: "InputChannel \<Rightarrow> (string \<times> json_dict) list" where
  "stream s = map entry_of (wire_frames s @ pendingOther s)"

definition coalesced_types :: "string list" where
  "coalesced_types = [''mouse_move'', ''drag_over'', ''touch_move'']"

definition uncoalesced :: "(string \<times> json_dict) list \<Rightarrow> (string \<times> json_dict) list" where
  "uncoalesced l = filter (\<lambda>x. \<not> List.member coalesced_types (fst x)) l"

definition discrete :: "(string \<times> json_dict) list \<Rightarrow> (string \<times> json_dict) list" where
  "discrete l = filter (\<lambda>x. fst x \<noteq> ''mouse_wheel'') (uncoalesced l)"

text \<open>The envelope a call stands for.\<close>

fun promised :: "input_event \<Rightarrow> (string \<times> json_dict) list" where
  "promised (Call (TouchEnd i)) = [(''touch_end'', [(''identifier'', JInt i)])]"
| "promised (Call (TouchCancel i)) = [(''touch_cancel'', [(''identifier'', JInt i)])]"
| "promised (Call c) = (case queued c of None \<Rightarrow> [] | Some x \<Rightarrow> [x])"
| "promised _ = []"

text \<open>The movement of a wheel entry and of a wheel call, in pixels.\<close>

definition mode_scale :: "string \<Rightarrow> int" where
  "mode_scale m = (if m = ''line'' then 16 else if m = ''page'' then 800 else 1)"

definition entry_scroll :: "string \<Rightarrow> string \<times> json_dict \<Rightarrow> int" where
  "entry_scroll axis x =
     (if fst x = ''mouse_wheel''
      then (case (FindInt (snd x) axis, FindString (snd x) ''delta_mode'') of
              (Some d, Some m) \<Rightarrow> mode_scale m * d | _ \<Rightarrow> 0)
      else 0)"

fun call_scroll :: "string \<Rightarrow> input_event \<Rightarrow> int" where
  "call_scroll axis (Call (MouseWheel dx dy mode x y)) =
     mode_scale (deltaModeName mode) * Math_round (if axis = ''dx'' then dx else dy)"
| "call_scroll axis _ = 0"

fun call_move :: "input_event \<Rightarrow> (int \<times> int) option" where
  "call_move (Call (MouseMove x y)) = Some (Math_round x, Math_round y)"
| "call_move _ = None"

text \<open>The last pointer position the stream reports, and the last the calls gave.\<close>

definition last_move_entry :: "(string \<times> json_dict) list \<Rightarrow> json_dict option" where
  "last_move_entry l = map_of (rev l) ''mouse_move''"

definition last_move_call :: "input_event list \<Rightarrow> (int \<times> int) option" where
  "last_move_call es = fold (\<lambda>e p. case call_move e of None \<Rightarrow> p | Some q \<Rightarrow> Some q) es None"

lemma ic_dispatch_healthy:
  assumes "healthy ch"
  shows "ic_dispatch ch env s =
     s\<lparr>ic_seq := ic_seq s + 1, wire_frames := wire_frames s @ [env\<lparr>ve_seq := ic_seq s\<rparr>]\<rparr>"
  using assms by (simp add: ic_dispatch_def healthy_def Let_def)

lemma entry_of_simps [simp]:
  "entry_of (f\<lparr>ve_seq := n\<rparr>) = entry_of f"
  "entry_of (envelope_of now ty data) = (ty, data)"
  by (simp_all add: entry_of_def envelope_of_def)

text \<open>The frames on the wire are numbered from zero.\<close>

definition seq_ok :: "InputChannel \<Rightarrow> bool" where
  "seq_ok s \<longleftrightarrow> map ve_seq (wire_frames s) = [0..<ic_seq s]"

lemma fold_dispatch:
  assumes "healthy ch"
  shows "map entry_of (wire_frames (fold (ic_dispatch ch) l s)) = map entry_of (wire_frames s) @ map entry_of l
    \<and> (seq_ok s \<longrightarrow> seq_ok (fold (ic_dispatch ch) l s))
    \<and> pendingOther (fold (ic_dispatch ch) l s) = pendingOther s
    \<and> pendingMove (fold (ic_dispatch ch) l s) = pendingMove s
    \<and> pendingDragOver (fold (ic_dispatch ch) l s) = pendingDragOver s
    \<and> pendingTouchMoves (fold (ic_dispatch ch) l s) = pendingTouchMoves s"
proof (induction l arbitrary: s)
  case (Cons f l)
  have "seq_ok s \<Longrightarrow> seq_ok (ic_dispatch ch f s)"
    by (simp add: seq_ok_def ic_dispatch_healthy [OF assms])
  then show ?case
    using Cons.IH [of "ic_dispatch ch f s"] by (simp add: ic_dispatch_healthy [OF assms])
qed simp

text \<open>\<open>l\<close> is what one step adds to the stream.\<close>

definition adds :: "(string \<times> json_dict) list \<Rightarrow> InputChannel \<Rightarrow> InputChannel \<Rightarrow> bool" where
  "adds l s s' \<longleftrightarrow> stream s' = stream s @ l \<and> (seq_ok s \<longrightarrow> seq_ok s')"

lemma adds_trans: "adds l s s' \<Longrightarrow> adds l' s' s'' \<Longrightarrow> adds (l @ l') s s''"
  by (simp add: adds_def)

lemma adds_same [simp]: "adds [] s s"
  by (simp add: adds_def)

definition move_entries :: "InputChannel \<Rightarrow> (string \<times> json_dict) list" where
  "move_entries s = (case pendingMove s of None \<Rightarrow> [] | Some p \<Rightarrow> [(''mouse_move'', move_data p)])"

lemma adds_flush_move:
  assumes "healthy ch" "pendingOther s = []"
  shows "adds (move_entries s) s (flush_move ch now s) \<and> pendingOther (flush_move ch now s) = []
    \<and> pendingMove (flush_move ch now s) = None"
  using assms
  by (auto simp: flush_move_def move_entries_def adds_def stream_def seq_ok_def ic_dispatch_healthy split: option.split)

lemma adds_flush_drag_over:
  assumes "healthy ch" "pendingOther s = []"
  shows "\<exists>l. adds l s (flush_drag_over ch now s) \<and> (\<forall>x \<in> set l. fst x = ''drag_over'')
    \<and> pendingOther (flush_drag_over ch now s) = [] \<and> pendingMove (flush_drag_over ch now s) = pendingMove s"
proof (cases "pendingDragOver s")
  case (Some p)
  show ?thesis
    by (rule exI [of _ "[(''drag_over'', move_data p)]"])
      (use assms Some in \<open>simp add: flush_drag_over_def adds_def stream_def seq_ok_def ic_dispatch_healthy\<close>)
qed (use assms in \<open>auto simp: flush_drag_over_def intro: exI [of _ "[]"]\<close>)

lemma adds_flush_touch:
  assumes "healthy ch" "pendingOther s = []"
  shows "\<exists>l. adds l s (flush_touch ch now i s) \<and> (\<forall>x \<in> set l. fst x = ''touch_move'')
    \<and> pendingOther (flush_touch ch now i s) = [] \<and> pendingMove (flush_touch ch now i s) = pendingMove s"
proof (cases "map_of (pendingTouchMoves s) i")
  case (Some d)
  show ?thesis
    by (rule exI [of _ "[(''touch_move'', d)]"])
      (use assms Some in \<open>simp add: flush_touch_def adds_def stream_def seq_ok_def ic_dispatch_healthy\<close>)
qed (use assms in \<open>auto simp: flush_touch_def intro: exI [of _ "[]"]\<close>)

lemma adds_flush_touches:
  assumes "healthy ch" "pendingOther s = []"
  shows "\<exists>l. adds l s (fold (flush_touch ch now) ids s) \<and> (\<forall>x \<in> set l. fst x = ''touch_move'')
    \<and> pendingOther (fold (flush_touch ch now) ids s) = []
    \<and> pendingMove (fold (flush_touch ch now) ids s) = pendingMove s"
  using assms(2)
proof (induction ids arbitrary: s)
  case Nil
  then show ?case by (auto intro: exI [of _ "[]"])
next
  case (Cons i ids)
  let ?s = "flush_touch ch now i s"
  obtain l where l: "adds l s ?s" "\<forall>x \<in> set l. fst x = ''touch_move''"
      "pendingOther ?s = []" "pendingMove ?s = pendingMove s"
    using adds_flush_touch [OF assms(1) Cons.prems] by blast
  obtain l' where l': "adds l' ?s (fold (flush_touch ch now) ids ?s)" "\<forall>x \<in> set l'. fst x = ''touch_move''"
      "pendingOther (fold (flush_touch ch now) ids ?s) = []"
      "pendingMove (fold (flush_touch ch now) ids ?s) = pendingMove ?s"
    using Cons.IH [OF l(3)] by blast
  show ?case
    by (rule exI [of _ "l @ l'"]) (use l l' adds_trans [OF l(1) l'(1)] in auto)
qed

lemma report_coalesced_fields [simp]:
  "stream (report_coalesced cfg s) = stream s"
  "seq_ok (report_coalesced cfg s) = seq_ok s"
  "pendingMove (report_coalesced cfg s) = pendingMove s"
  "pendingOther (report_coalesced cfg s) = pendingOther s"
  by (simp_all add: report_coalesced_def Let_def stream_def seq_ok_def)

text \<open>A flush sends the queue, then the pending pointer move, then drag and touch moves.\<close>

lemma adds_doFlush:
  assumes ch: "healthy ch"
  shows "\<exists>l. adds (move_entries s @ l) s (doFlush cfg ch now s)
    \<and> (\<forall>x \<in> set l. fst x = ''drag_over'' \<or> fst x = ''touch_move'')
    \<and> pendingMove (doFlush cfg ch now s) = None \<and> pendingOther (doFlush cfg ch now s) = []"
proof -
  define s1 where "s1 = fold (ic_dispatch ch) (pendingOther s) (s\<lparr>pendingOther := []\<rparr>)"
  define s2 where "s2 = flush_move ch now s1"
  define s3 where "s3 = flush_drag_over ch now s2"
  define s4 where "s4 = fold (flush_touch ch now) (sort (map fst (pendingTouchMoves s3))) s3"
  have s1: "adds [] s s1" "pendingOther s1 = []" "pendingMove s1 = pendingMove s"
    using fold_dispatch [OF ch, of "pendingOther s" "s\<lparr>pendingOther := []\<rparr>"]
    by (auto simp: s1_def adds_def stream_def seq_ok_def)
  have s2: "adds (move_entries s1) s1 s2" "pendingOther s2 = []" "pendingMove s2 = None"
    using adds_flush_move [OF ch s1(2)] by (simp_all add: s2_def)
  obtain l3 where s3: "adds l3 s2 s3" "\<forall>x \<in> set l3. fst x = ''drag_over''" "pendingOther s3 = []" "pendingMove s3 = None"
    using adds_flush_drag_over [OF ch s2(2), of now] s2(3) unfolding s3_def by metis
  obtain l4 where s4: "adds l4 s3 s4" "\<forall>x \<in> set l4. fst x = ''touch_move''" "pendingOther s4 = []" "pendingMove s4 = None"
    using adds_flush_touches [OF ch s3(3), of now] s3(4) unfolding s4_def by metis
  have eq: "doFlush cfg ch now s = report_coalesced cfg s4"
    using ch by (simp add: doFlush_def healthy_def Let_def s1_def s2_def s3_def s4_def)
  have "adds (move_entries s @ (l3 @ l4)) s s4"
    using adds_trans [OF adds_trans [OF adds_trans [OF s1(1) s2(1)] s3(1)] s4(1)] s1(3) by (simp add: move_entries_def)
  then show ?thesis
    using s3 s4 unfolding eq by (intro exI [of _ "l3 @ l4"]) (auto simp: adds_def)
qed

text \<open>The pointer position a client of the channel relies on: the pending one, else the last sent.\<close>

definition position :: "InputChannel \<Rightarrow> json_dict option" where
  "position s = (case pendingMove s of Some p \<Rightarrow> Some (move_data p) | None \<Rightarrow> last_move_entry (stream s))"

definition scroll :: "string \<Rightarrow> (string \<times> json_dict) list \<Rightarrow> int" where
  "scroll axis l = sum_list (map (entry_scroll axis) l)"

text \<open>A step that adds \<open>x\<close> to the stream, up to coalesced moves, and keeps the pointer position.\<close>

definition queues :: "(string \<times> json_dict) list \<Rightarrow> InputChannel \<Rightarrow> InputChannel \<Rightarrow> bool" where
  "queues x s s' \<longleftrightarrow>
     (\<exists>l. adds l s s' \<and> uncoalesced l = uncoalesced x) \<and> position s' = position s"

lemma uncoalesced_append [simp]: "uncoalesced [] = []" "uncoalesced (l @ l') = uncoalesced l @ uncoalesced l'"
  by (simp_all add: uncoalesced_def)

lemma discrete_simps [simp]:
  "discrete [] = []" "discrete (l @ l') = discrete l @ discrete l'"
  by (simp_all add: discrete_def)

lemma scroll_simps [simp]:
  "scroll a [] = 0" "scroll a (l @ l') = scroll a l + scroll a l'" "scroll a (e # l) = entry_scroll a e + scroll a l"
  by (simp_all add: scroll_def)

lemma queues_trans:
  assumes "queues x s s'" "queues y s' s''"
  shows "queues (x @ y) s s''"
proof -
  obtain l where l: "adds l s s'" "uncoalesced l = uncoalesced x"
    using assms(1) unfolding queues_def by blast
  obtain l' where l': "adds l' s' s''" "uncoalesced l' = uncoalesced y"
    using assms(2) unfolding queues_def by blast
  show ?thesis
    unfolding queues_def using adds_trans [OF l(1) l'(1)] l(2) l'(2) assms
    by (intro conjI exI [of _ "l @ l'"]) (simp_all add: queues_def)
qed

lemma last_move_entry_append:
  "last_move_entry (l @ l') = (case last_move_entry l' of None \<Rightarrow> last_move_entry l | Some d \<Rightarrow> Some d)"
  by (simp add: last_move_entry_def map_add_def split: option.split)

lemma last_move_entry_simps [simp]:
  "last_move_entry [] = None"
  "last_move_entry ((ty, d) # l) =
     (case last_move_entry l of None \<Rightarrow> (if ty = ''mouse_move'' then Some d else None) | Some d' \<Rightarrow> Some d')"
  by (simp_all add: last_move_entry_def map_add_def split: option.split)

lemma last_move_entry_none: "\<forall>x \<in> set l. fst x \<noteq> ''mouse_move'' \<Longrightarrow> last_move_entry l = None"
  by (auto simp: last_move_entry_def map_of_eq_None_iff)

lemma coalesced_silent:
  "\<forall>x \<in> set l. fst x = ''mouse_move'' \<or> fst x = ''drag_over'' \<or> fst x = ''touch_move'' \<Longrightarrow> uncoalesced l = []"
  by (auto simp: uncoalesced_def coalesced_types_def filter_empty_conv)

lemma scroll_uncoalesced: "scroll axis (uncoalesced l) = scroll axis l"
  by (induction l) (auto simp: uncoalesced_def coalesced_types_def entry_scroll_def scroll_def)

lemma queues_doFlush:
  assumes ch: "healthy ch"
  shows "queues [] s (doFlush cfg ch now s)"
proof -
  let ?t = "doFlush cfg ch now s"
  obtain l where l: "adds (move_entries s @ l) s ?t" "\<forall>x \<in> set l. fst x = ''drag_over'' \<or> fst x = ''touch_move''"
      "pendingMove ?t = None"
    using adds_doFlush [OF ch] by metis
  have "\<forall>x \<in> set (move_entries s @ l). fst x = ''mouse_move'' \<or> fst x = ''drag_over'' \<or> fst x = ''touch_move''"
    using l(2) by (auto simp: move_entries_def split: option.splits)
  note silent = coalesced_silent [OF this]
  have "last_move_entry l = None"
    by (rule last_move_entry_none) (use l(2) in auto)
  then have "position ?t = position s"
    using l(1,3)
    by (cases "pendingMove s") (simp_all add: position_def adds_def last_move_entry_append move_entries_def)
  with l(1) silent show ?thesis
    unfolding queues_def by (auto simp del: uncoalesced_append(2))
qed

lemma queues_same:
  "stream s' = stream s \<Longrightarrow> (seq_ok s \<Longrightarrow> seq_ok s') \<Longrightarrow> pendingMove s' = pendingMove s \<Longrightarrow> queues [] s s'"
  unfolding queues_def by (intro conjI exI [of _ "[]"]) (simp_all add: adds_def position_def split: option.split)

lemma queues_scheduleFlush: "healthy ch \<Longrightarrow> queues [] s (scheduleFlush cfg ch now s)"
  by (cases "raf_armed s"; cases "has_raf cfg")
    (simp_all add: scheduleFlush_def queues_doFlush, (rule queues_same; simp add: stream_def seq_ok_def)+)

lemma queues_flush_now:
  assumes "healthy ch"
  shows "queues [] s (flush_now cfg ch now s)"
proof -
  have "queues [] s (s\<lparr>raf_armed := False\<rparr>)"
    by (rule queues_same) (simp_all add: stream_def seq_ok_def)
  from queues_trans [OF this queues_doFlush [OF assms]] show ?thesis
    by (simp add: flush_now_def)
qed

text \<open>Putting an envelope on the queue.\<close>

lemma queues_push:
  assumes "ty \<noteq> ''mouse_move''" "stream s' = stream s @ [(ty, data)]" "seq_ok s \<Longrightarrow> seq_ok s'" "pendingMove s' = pendingMove s"
  shows "queues [(ty, data)] s s'"
proof -
  have "position s' = position s"
    using assms(1,2,4)
    by (simp add: position_def last_move_entry_append split: option.split)
  then show ?thesis
    unfolding queues_def using assms(2,3) by (intro conjI exI [of _ "[(ty, data)]"]) (auto simp: adds_def)
qed

lemma queues_enqueue:
  assumes "healthy ch" "ty \<noteq> ''mouse_move''"
  shows "queues [(ty, data)] s (enqueue cfg ch now ty data s)"
proof -
  have "queues [(ty, data)] s (s\<lparr>pendingOther := pendingOther s @ [envelope_of now ty data]\<rparr>)"
    by (rule queues_push) (use assms(2) in \<open>simp_all add: stream_def seq_ok_def\<close>)
  from queues_trans [OF this queues_scheduleFlush [OF assms(1)]] show ?thesis
    by (simp add: enqueue_def)
qed

text \<open>What every step does to the stream and the pointer position.\<close>

definition wheel_ok :: "string \<times> json_dict \<Rightarrow> bool" where
  "wheel_ok e \<longleftrightarrow> (fst e = ''mouse_wheel'' \<longrightarrow>
     (\<exists>dx dy mode x y phase m. snd e = wheel_data dx dy mode x y phase m \<and> (phase = ''end'' \<longrightarrow> dx = 0 \<and> dy = 0)))"

definition tracks :: "input_event \<Rightarrow> InputChannel \<Rightarrow> InputChannel \<Rightarrow> bool" where
  "tracks ev s s' \<longleftrightarrow>
     (\<exists>l. adds l s s' \<and> discrete l = promised ev \<and> (\<forall>x \<in> set l. wheel_ok x)
        \<and> scroll ''dx'' l = call_scroll ''dx'' ev \<and> scroll ''dy'' l = call_scroll ''dy'' ev)
     \<and> position s' = (case call_move ev of None \<Rightarrow> position s | Some p \<Rightarrow> Some (move_data p))"

lemma wheel_ok_other: "fst x \<noteq> ''mouse_wheel'' \<Longrightarrow> wheel_ok x"
  by (simp add: wheel_ok_def)

lemma wheel_ok_uncoalesced: "(\<forall>x \<in> set (uncoalesced l). wheel_ok x) \<longleftrightarrow> (\<forall>x \<in> set l. wheel_ok x)"
proof -
  have "wheel_ok x" if "List.member coalesced_types (fst x)" for x :: "string \<times> json_dict"
    by (rule wheel_ok_other) (use that in \<open>auto simp: coalesced_types_def\<close>)
  then show ?thesis
    unfolding uncoalesced_def set_filter mem_Collect_eq by blast
qed

lemma wheel_ok_wheel:
  "(phase = ''end'' \<longrightarrow> dx = 0 \<and> dy = 0) \<Longrightarrow> wheel_ok (''mouse_wheel'', wheel_data dx dy mode x y phase m)"
  unfolding wheel_ok_def fst_conv snd_conv by blast

lemma queues_tracks:
  assumes "queues x s s'" "discrete x = promised ev" "scroll ''dx'' x = call_scroll ''dx'' ev"
    "scroll ''dy'' x = call_scroll ''dy'' ev" "call_move ev = None" "\<forall>e \<in> set x. wheel_ok e"
  shows "tracks ev s s'"
proof -
  obtain l where l: "adds l s s'" "uncoalesced l = uncoalesced x"
    using assms(1) unfolding queues_def by blast
  have "discrete l = discrete x" "scroll axis l = scroll axis x" "\<forall>e \<in> set l. wheel_ok e" for axis
    using l(2) scroll_uncoalesced [of axis] wheel_ok_uncoalesced assms(6) by (simp add: discrete_def, metis, metis)
  then show ?thesis
    unfolding tracks_def using assms l(1) by (intro conjI exI [of _ l]) (simp_all add: queues_def)
qed

lemma queues_fields:
  "stream t = stream s \<Longrightarrow> seq_ok t = seq_ok s \<Longrightarrow> pendingMove t = pendingMove s \<Longrightarrow> queues x t s' \<Longrightarrow> queues x s s'"
  using queues_trans [of "[]" s t x s'] queues_same [of t s] by simp

lemma count_dropped_fields [simp]:
  "stream (count_dropped cfg ch r s) = stream s" "seq_ok (count_dropped cfg ch r s) = seq_ok s"
  "pendingMove (count_dropped cfg ch r s) = pendingMove s"
  by (simp_all add: count_dropped_def stream_def seq_ok_def)

lemma stream_updates [simp]:
  "stream (s\<lparr>pendingMove := a\<rparr>) = stream s" "stream (s\<lparr>pendingDragOver := a\<rparr>) = stream s"
  "stream (s\<lparr>pendingTouchMoves := b\<rparr>) = stream s" "stream (s\<lparr>wheelEndTimer := c\<rparr>) = stream s"
  "seq_ok (s\<lparr>pendingMove := a\<rparr>) = seq_ok s" "seq_ok (s\<lparr>pendingDragOver := a\<rparr>) = seq_ok s"
  "seq_ok (s\<lparr>pendingTouchMoves := b\<rparr>) = seq_ok s" "seq_ok (s\<lparr>wheelEndTimer := c\<rparr>) = seq_ok s"
  by (simp_all add: stream_def seq_ok_def)

lemma tracks_sendMouseMove:
  assumes ch: "healthy ch"
  shows "tracks (Call (MouseMove x y)) s (sendMouseMove cfg ch now x y s)"
proof -
  let ?p = "(Math_round x, Math_round y)"
  let ?t = "(count_dropped cfg ch (pendingMove s \<noteq> None) s)\<lparr>pendingMove := Some ?p\<rparr>"
  have q: "queues [] ?t (sendMouseMove cfg ch now x y s)"
    unfolding sendMouseMove_def by (rule queues_scheduleFlush [OF ch])
  then obtain l where l: "adds l ?t (sendMouseMove cfg ch now x y s)" "uncoalesced l = []"
    unfolding queues_def by auto
  moreover have "discrete l = []" "scroll axis l = 0" "\<forall>e \<in> set l. wheel_ok e" for axis
    using l(2) scroll_uncoalesced [of axis l] wheel_ok_uncoalesced [of l] by (simp_all add: discrete_def)
  moreover have "position (sendMouseMove cfg ch now x y s) = Some (move_data ?p)"
    using q by (simp add: queues_def position_def)
  ultimately show ?thesis
    unfolding tracks_def by (intro conjI exI [of _ l]) (simp_all add: adds_def)
qed

lemma queues_sendDragOver: "healthy ch \<Longrightarrow> queues [] s (sendDragOver cfg ch now x y s)"
  unfolding sendDragOver_def by (rule queues_fields [OF _ _ _ queues_scheduleFlush]) simp_all

lemma queues_sendTouchMove: "healthy ch \<Longrightarrow> queues [] s (sendTouchMove cfg ch now t s)"
  unfolding sendTouchMove_def by (rule queues_fields [OF _ _ _ queues_scheduleFlush]) simp_all

lemma queues_sendTouchCancel:
  "healthy ch \<Longrightarrow> queues [(''touch_cancel'', [(''identifier'', JInt i)])] s (sendTouchCancel cfg ch now i s)"
  unfolding sendTouchCancel_def by (rule queues_fields [OF _ _ _ queues_enqueue]) simp_all

lemma queues_sendTouchEnd:
  assumes ch: "healthy ch"
  shows "\<exists>l. queues (l @ [(''touch_end'', [(''identifier'', JInt i)])]) s (sendTouchEnd cfg ch now i s)
    \<and> (\<forall>x \<in> set l. fst x = ''touch_move'')"
proof (cases "map_of (pendingTouchMoves s) i")
  case None
  then show ?thesis
    using queues_enqueue [OF ch] by (intro exI [of _ "[]"]) (simp add: sendTouchEnd_def)
next
  case (Some d)
  let ?t = "s\<lparr>pendingTouchMoves := AList.delete i (pendingTouchMoves s),
              pendingOther := pendingOther s @ [envelope_of now ''touch_move'' d]\<rparr>"
  have "queues [(''touch_move'', d)] s ?t"
    by (rule queues_push) (simp_all add: stream_def seq_ok_def)
  from queues_trans [OF this queues_enqueue [OF ch]] Some show ?thesis
    by (intro exI [of _ "[(''touch_move'', d)]"]) (simp add: sendTouchEnd_def)
qed

lemma wheel_scroll:
  "entry_scroll ''dx'' (''mouse_wheel'', wheel_data dx dy mode x y phase m) = mode_scale (deltaModeName mode) * dx"
  "entry_scroll ''dy'' (''mouse_wheel'', wheel_data dx dy mode x y phase m) = mode_scale (deltaModeName mode) * dy"
  by (simp_all add: entry_scroll_def wheel_data_def)

lemma tracks_wheel:
  assumes "queues [(''mouse_wheel'', wheel_data (Math_round dx) (Math_round dy) mode p q phase m)] s s'" "phase \<noteq> ''end''"
  shows "tracks (Call (MouseWheel dx dy mode x y)) s s'"
  using assms(2) by (intro queues_tracks [OF assms(1)]) (simp_all add: wheel_scroll discrete_def uncoalesced_def wheel_ok_wheel)

lemma tracks_sendMouseWheel:
  assumes ch: "healthy ch"
  shows "tracks (Call (MouseWheel dx dy mode x y)) s (sendMouseWheel cfg ch now dx dy mode x y s)"
proof (cases "\<not> wheel_active s \<and> \<bar>Math_round dx\<bar> + \<bar>Math_round dy\<bar> = 0")
  case True
  then have "Math_round dx = 0" "Math_round dy = 0"
    by linarith+
  then show ?thesis
    using True by (intro queues_tracks [OF queues_same]) (simp_all add: sendMouseWheel_def Let_def)
next
  case False
  let ?s1 = "if wheel_active s then s else s\<lparr>wheel_active := True, wheelPrevAbsDelta := 0\<rparr>"
  let ?s2 = "?s1\<lparr>wheelLastEventNow := now, wheelPrevAbsDelta := \<bar>Math_round dx\<bar> + \<bar>Math_round dy\<bar>,
      wheelLastPos := (Math_round x, Math_round y, mode)\<rparr>"
  obtain phase m where ph: "phase \<noteq> ''end''" and t: "sendMouseWheel cfg ch now dx dy mode x y s =
      (enqueue cfg ch now ''mouse_wheel''
        (wheel_data (Math_round dx) (Math_round dy) mode (Math_round x) (Math_round y) phase m) ?s2)\<lparr>wheelEndTimer := True\<rparr>"
    by (rule that [rotated], unfold sendMouseWheel_def Let_def if_not_P [OF False], rule refl) simp
  let ?d = "wheel_data (Math_round dx) (Math_round dy) mode (Math_round x) (Math_round y) phase m"
  have "queues [(''mouse_wheel'', ?d)] s (enqueue cfg ch now ''mouse_wheel'' ?d ?s2)"
    by (rule queues_fields [OF _ _ _ queues_enqueue [OF ch]]) (simp_all add: stream_def seq_ok_def)
  moreover have "queues [] r (r\<lparr>wheelEndTimer := True\<rparr>)" for r
    by (rule queues_same) simp_all
  ultimately have "queues [(''mouse_wheel'', ?d)] s (sendMouseWheel cfg ch now dx dy mode x y s)"
    unfolding t using queues_trans by fastforce
  then show ?thesis
    by (rule tracks_wheel) (rule ph)
qed

lemma tracks_emitWheelEnd:
  assumes ch: "healthy ch"
  shows "tracks Wheel_Timer s (emitWheelEnd cfg ch now s)"
proof (cases "wheel_active s")
  case False
  then show ?thesis
    by (intro queues_tracks [OF queues_same]) (simp_all add: emitWheelEnd_def)
next
  case True
  obtain x y mode where p: "wheelLastPos s = (x, y, mode)"
    by (cases "wheelLastPos s") auto
  have "queues [(''mouse_wheel'', wheel_data 0 0 mode x y ''end'' False)] s (emitWheelEnd cfg ch now s)"
    unfolding emitWheelEnd_def p using True
    by (simp, intro queues_fields [OF _ _ _ queues_enqueue [OF ch]]) (simp_all add: stream_def seq_ok_def)
  then show ?thesis
    by (rule queues_tracks) (simp_all add: wheel_scroll discrete_def uncoalesced_def wheel_ok_wheel)
qed

lemma queued_types:
  "queued c = Some (ty, data) \<Longrightarrow> ty \<noteq> ''mouse_move'' \<and> ty \<noteq> ''mouse_wheel'' \<and> \<not> List.member coalesced_types ty"
  by (cases c) (auto simp: coalesced_types_def)

lemma tracks_queued:
  assumes ch: "healthy ch" and c: "queued c = Some (ty, data)"
  shows "tracks (Call c) s (perform cfg ch now c s)"
proof -
  have p: "perform cfg ch now c s = enqueue cfg ch now ty data s" "promised (Call c) = [(ty, data)]"
      "call_scroll axis (Call c) = 0" "call_move (Call c) = None" for axis
    using c by (cases c; simp)+
  show ?thesis
    unfolding p(1)
    by (rule queues_tracks [OF queues_enqueue [OF ch]])
      (use queued_types [OF c] in \<open>simp_all add: p discrete_def uncoalesced_def entry_scroll_def wheel_ok_def\<close>)
qed

lemma tracks_sendTouchEnd:
  assumes ch: "healthy ch"
  shows "tracks (Call (TouchEnd i)) s (sendTouchEnd cfg ch now i s)"
proof -
  obtain l where l: "queues (l @ [(''touch_end'', [(''identifier'', JInt i)])]) s (sendTouchEnd cfg ch now i s)"
      "\<forall>x \<in> set l. fst x = ''touch_move''"
    using queues_sendTouchEnd [OF ch] by blast
  have "uncoalesced l = []"
    using l(2) by (intro coalesced_silent) simp
  then have "discrete l = []" "scroll axis l = 0" for axis
    using scroll_uncoalesced [of axis l] by (simp_all add: discrete_def)
  then show ?thesis
    using l(2)
    by (intro queues_tracks [OF l(1)]) (auto simp: discrete_def uncoalesced_def coalesced_types_def entry_scroll_def wheel_ok_def)
qed

lemma tracks_call:
  assumes ch: "healthy ch"
  shows "tracks (Call c) s (perform cfg ch now c s)"
proof (cases "queued c")
  case (Some x)
  then show ?thesis using tracks_queued [OF ch] by (cases x) blast
next
  case None
  then show ?thesis
    using tracks_sendMouseMove [OF ch] tracks_sendMouseWheel [OF ch] tracks_sendTouchEnd [OF ch]
      queues_tracks [OF queues_sendDragOver [OF ch]] queues_tracks [OF queues_sendTouchMove [OF ch]]
      queues_tracks [OF queues_sendTouchCancel [OF ch]]
    by (cases c) (simp_all add: discrete_def uncoalesced_def coalesced_types_def entry_scroll_def wheel_ok_def)
qed

lemma tracks_step:
  assumes "healthy ch"
  shows "tracks ev s (input_step cfg (ch, now, ev) s)"
proof (cases ev)
  case (Call c)
  then show ?thesis using tracks_call [OF assms] by simp
next
  case Wheel_Timer
  then show ?thesis
    using tracks_emitWheelEnd [OF assms] queues_tracks [OF queues_same, of s s Wheel_Timer] by simp
qed (simp_all add: queues_tracks [OF queues_flush_now [OF assms]])

definition calls_of :: "(SendableChannel \<times> int \<times> input_event) list \<Rightarrow> input_event list" where
  "calls_of es = map (snd \<circ> snd) es"

definition all_healthy :: "(SendableChannel \<times> int \<times> input_event) list \<Rightarrow> bool" where
  "all_healthy es \<longleftrightarrow> list_all (healthy \<circ> fst) es"

text \<open>What holds of the channel after the calls \<open>cs\<close>.\<close>

definition delivered :: "input_event list \<Rightarrow> InputChannel \<Rightarrow> bool" where
  "delivered cs s \<longleftrightarrow> seq_ok s \<and> (\<forall>x \<in> set (stream s). wheel_ok x) \<and> discrete (stream s) = concat (map promised cs)
     \<and> scroll ''dx'' (stream s) = sum_list (map (call_scroll ''dx'') cs)
     \<and> scroll ''dy'' (stream s) = sum_list (map (call_scroll ''dy'') cs)
     \<and> position s = map_option move_data (last_move_call cs)"

lemma delivered_new: "delivered [] new_input_channel"
  by (simp add: delivered_def new_input_channel_def seq_ok_def stream_def position_def last_move_call_def)

lemma delivered_step:
  assumes "delivered cs s" "healthy ch"
  shows "delivered (cs @ [ev]) (input_step cfg (ch, now, ev) s)"
proof -
  let ?t = "input_step cfg (ch, now, ev) s"
  obtain l where l: "adds l s ?t" "discrete l = promised ev" "\<forall>x \<in> set l. wheel_ok x"
      "scroll ''dx'' l = call_scroll ''dx'' ev" "scroll ''dy'' l = call_scroll ''dy'' ev"
      "position ?t = (case call_move ev of None \<Rightarrow> position s | Some p \<Rightarrow> Some (move_data p))"
    using tracks_step [OF assms(2), of ev s cfg now] unfolding tracks_def by blast
  show ?thesis
    using assms(1) l by (auto simp: delivered_def adds_def last_move_call_def split: option.split)
qed

lemma delivered_fold:
  "delivered cs s \<Longrightarrow> all_healthy es \<Longrightarrow> delivered (cs @ calls_of es) (fold (input_step cfg) es s)"
proof (induction es arbitrary: cs s)
  case (Cons e es)
  obtain ch now ev where e: "e = (ch, now, ev)"
    by (cases e) auto
  have "delivered (cs @ [ev]) (input_step cfg e s)"
    unfolding e by (rule delivered_step) (use Cons.prems e in \<open>simp_all add: all_healthy_def\<close>)
  from Cons.IH [OF this] Cons.prems(2) show ?case
    by (simp add: e all_healthy_def calls_of_def)
qed (simp add: calls_of_def)

lemma delivered_run: "all_healthy es \<Longrightarrow> delivered (calls_of es) (input_run cfg es)"
  using delivered_fold [OF delivered_new] by (simp add: input_run_def)

text \<open>The calls and a flush after them.\<close>

definition sent_frames ::
  "InputOptions \<Rightarrow> (SendableChannel \<times> int \<times> input_event) list \<Rightarrow> SendableChannel \<Rightarrow> int \<Rightarrow> ViewerEnvelope list" where
  "sent_frames cfg es ch now = wire_frames (input_run cfg (es @ [(ch, now, Animation_Frame)]))"

lemma sent_frames_stream:
  fixes cfg es now
  assumes "healthy ch"
  defines "s \<equiv> input_run cfg (es @ [(ch, now, Animation_Frame)])"
  shows "stream s = map entry_of (wire_frames s) \<and> position s = last_move_entry (map entry_of (wire_frames s))"
proof -
  have s: "s = doFlush cfg ch now ((input_run cfg es)\<lparr>raf_armed := False\<rparr>)"
    by (simp add: s_def input_run_def flush_now_def)
  have "pendingMove s = None" "pendingOther s = []"
    unfolding s using adds_doFlush [OF assms(1)] by metis+
  then show ?thesis
    by (simp add: stream_def position_def)
qed

lemma delivered_sent:
  fixes cfg es ch now
  assumes "all_healthy es" "healthy ch"
  defines "w \<equiv> sent_frames cfg es ch now"
  shows "map ve_seq w = [0..<length w]"
    "discrete (map entry_of w) = concat (map promised (calls_of es))"
    "scroll ''dx'' (map entry_of w) = sum_list (map (call_scroll ''dx'') (calls_of es))"
    "scroll ''dy'' (map entry_of w) = sum_list (map (call_scroll ''dy'') (calls_of es))"
    "last_move_entry (map entry_of w) = map_option move_data (last_move_call (calls_of es))"
    "\<forall>f \<in> set w. wheel_ok (entry_of f)"
proof -
  let ?s = "input_run cfg (es @ [(ch, now, Animation_Frame)])"
  have d: "delivered (calls_of es @ [Animation_Frame]) ?s"
    using delivered_run [of "es @ [(ch, now, Animation_Frame)]" cfg] assms(1,2)
    by (simp add: all_healthy_def calls_of_def)
  have w: "w = wire_frames ?s"
    by (simp add: w_def sent_frames_def)
  have "length w = ic_seq ?s"
    using d by (simp add: delivered_def seq_ok_def w) (metis length_map length_upt minus_nat.diff_0)
  then show "map ve_seq w = [0..<length w]"
    "discrete (map entry_of w) = concat (map promised (calls_of es))"
    "scroll ''dx'' (map entry_of w) = sum_list (map (call_scroll ''dx'') (calls_of es))"
    "scroll ''dy'' (map entry_of w) = sum_list (map (call_scroll ''dy'') (calls_of es))"
    "last_move_entry (map entry_of w) = map_option move_data (last_move_call (calls_of es))"
    "\<forall>f \<in> set w. wheel_ok (entry_of f)"
    using d sent_frames_stream [OF assms(2), of cfg es now]
    by (simp_all add: w delivered_def seq_ok_def last_move_call_def)
qed

text \<open>
  C8. While the data channel is open and takes what is sent, the viewer loses no input: after a
  flush the frames on the wire are numbered from zero without gaps, the presses, keys,
  compositions, drags and touch starts and ends are exactly those of the calls, in their order,
  the wheel movement on the wire adds up to that of the calls, and the last pointer position on
  the wire is that of the last call.
\<close>

theorem input_delivered:
  assumes "all_healthy es" "healthy ch"
  shows "map ve_seq (sent_frames cfg es ch now) = [0..<length (sent_frames cfg es ch now)]
    \<and> discrete (map entry_of (sent_frames cfg es ch now)) = concat (map promised (calls_of es))
    \<and> scroll ''dx'' (map entry_of (sent_frames cfg es ch now)) = sum_list (map (call_scroll ''dx'') (calls_of es))
    \<and> scroll ''dy'' (map entry_of (sent_frames cfg es ch now)) = sum_list (map (call_scroll ''dy'') (calls_of es))
    \<and> last_move_entry (map entry_of (sent_frames cfg es ch now)) = map_option move_data (last_move_call (calls_of es))"
  using delivered_sent [OF assms] by blast

definition open_channel :: SendableChannel where
  "open_channel = \<lparr>ch_open = True, ch_bufferedAmount = 0, ch_throws = False\<rparr>"

text \<open>A press during a pending move, a scroll and a release.\<close>

definition demo_input :: "(SendableChannel \<times> int \<times> input_event) list" where
  "demo_input = map (\<lambda>ev. (open_channel, 1000, ev))
     [Call (MouseMove 10 20), Call (MouseButton 0 ''down'' 30 40), Call (MouseWheel 0 3 1 30 40), Animation_Frame,
      Wheel_Timer, Call (MouseButton 0 ''up'' 31 40)]"

lemma Math_round_int [simp]: "Math_round (of_int i) = i" "Math_round 0 = 0" "Math_round (numeral n) = numeral n"
  by (simp_all add: Math_round_def floor_eq_iff)

lemma demo_input_healthy: "all_healthy demo_input" "healthy open_channel"
  by (simp_all add: demo_input_def all_healthy_def healthy_def open_channel_def)

theorem input_delivered_witness:
  "all_healthy demo_input \<and> healthy open_channel
   \<and> discrete (map entry_of (sent_frames default_input_options demo_input open_channel 1100))
       = [(''mouse_button'', button_data 0 ''down'' 30 40), (''mouse_button'', button_data 0 ''up'' 31 40)]
   \<and> scroll ''dy'' (map entry_of (sent_frames default_input_options demo_input open_channel 1100)) = 48"
  using input_delivered [OF demo_input_healthy, of default_input_options 1100] demo_input_healthy
  by (simp add: demo_input_def calls_of_def mode_scale_def deltaModeName_def)

section \<open>What the handlers forward\<close>

definition dom_step ::
  "(KeyboardEvent \<Rightarrow> bool) \<Rightarrow> (string \<Rightarrow> int) \<Rightarrow> dom_event \<Rightarrow> DomState \<times> input_call list \<Rightarrow> DomState \<times> input_call list" where
  "dom_step fwd len ev p = (case on_dom fwd len ev (fst p) of (d, cs) \<Rightarrow> (d, snd p @ cs))"

definition dom_run ::
  "(KeyboardEvent \<Rightarrow> bool) \<Rightarrow> (string \<Rightarrow> int) \<Rightarrow> dom_event list \<Rightarrow> DomState \<Rightarrow> DomState \<times> input_call list" where
  "dom_run fwd len evs d = fold (dom_step fwd len) evs (d, [])"

fun is_key_call :: "input_call \<Rightarrow> bool" where
  "is_key_call (KeyDown code key mods) = True"
| "is_key_call (KeyUp code key mods) = True"
| "is_key_call _ = False"

fun is_composition_end :: "dom_event \<Rightarrow> bool" where
  "is_composition_end (Dom_CompositionEnd t) = True"
| "is_composition_end _ = False"

lemma on_dom_composing:
  assumes "dom_composing d" "\<not> is_composition_end ev"
  shows "dom_composing (fst (on_dom fwd len ev d)) \<and> list_all (\<lambda>c. \<not> is_key_call c) (snd (on_dom fwd len ev d))"
  using assms
  by (cases ev) (simp_all add: onKeyDown_def onKeyUp_def isComposingKey_def onCompStart_def onCompUpdate_def list_all_iff)

text \<open>From the start of a composition to its end no key is forwarded.\<close>

lemma no_keys_while_composing:
  assumes "dom_composing d" "list_all (\<lambda>ev. \<not> is_composition_end ev) evs"
  shows "list_all (\<lambda>c. \<not> is_key_call c) (snd (dom_run fwd len evs d))"
proof -
  have "dom_composing (fst (fold (dom_step fwd len) evs p)) \<and> list_all (\<lambda>c. \<not> is_key_call c) (snd (fold (dom_step fwd len) evs p))"
    if "dom_composing (fst p)" "list_all (\<lambda>c. \<not> is_key_call c) (snd p)" for p
    using that assms(2)
  proof (induction evs arbitrary: p)
    case (Cons ev evs)
    then have "dom_composing (fst (dom_step fwd len ev p)) \<and> list_all (\<lambda>c. \<not> is_key_call c) (snd (dom_step fwd len ev p))"
      using on_dom_composing [of "fst p" ev fwd len] by (cases "on_dom fwd len ev (fst p)") (simp add: dom_step_def)
    with Cons show ?case by simp
  qed simp
  from this [of "(d, [])"] assms(1) show ?thesis
    by (simp add: dom_run_def)
qed

text \<open>The handler's branch that turns Escape into a cancelled composition is never taken.\<close>

lemma escape_never_cancels: "CompositionCancel \<notin> set (onKeyDown fwd e d)"
  by (simp add: onKeyDown_def isComposingKey_def)

text \<open>With the viewer's policy, what is typed into its own fields stays there.\<close>

lemma client_keys_stay:
  assumes "keyBelongsToClient (k_target e)"
  shows "onKeyDown (\<lambda>k. \<not> keyBelongsToClient (k_target k)) e d = [] \<and> onKeyUp (\<lambda>k. \<not> keyBelongsToClient (k_target k)) e d = []"
  using assms by (simp add: onKeyDown_def onKeyUp_def)

end
