(* ===== verification/Cb_Input_Dispatch.thy ===== *)
theory Cb_Input_Dispatch
  imports Cb_Cursor_Policy "HOL-Library.Word"
begin

text \<open>
  The worker's side of the input channel, \<^verbatim>\<open>capture/build-integration/cb_input_dispatch*.cc\<close>: the
  decoder of an envelope, the six typed dispatchers (mouse, keyboard, composition, touch, drag,
  clipboard) and the delegate that hands an envelope to each. What they hand to Chromium is the
  list \<open>out\<close>; Chromium itself is the record of functions \<open>ChromiumLib\<close>, and what the browser
  has to dispatch into when an event arrives is \<open>Target\<close>. A bit mask of modifiers is the set of
  its bits.
\<close>

section \<open>Chromium\<close>

datatype Modifier =
    kShiftKey | kControlKey | kAltKey | kMetaKey
  | kLeftButtonDown | kMiddleButtonDown | kRightButtonDown | kBackButtonDown | kForwardButtonDown

datatype Button = kNoButton | kLeft | kMiddle | kRight | kBack | kForward

text \<open>The active contents and its widget; a widget reports its device scale factor.\<close>

datatype View = No_Resolver | No_Contents | No_View | No_Widget | Widget rat

text \<open>\<open>focused_frame\<close> and \<open>main_frame\<close>: whether the frame's view, if there is a frame, has a widget.\<close>

record Target =
  active_view :: View
  focused_frame :: "bool option"
  main_frame :: "bool option"
  tick :: int

record DropData =
  dd_text :: "16 word list option"
  dd_html :: "16 word list option"
  url_infos :: "string list"
  custom_data :: "(16 word list \<times> 16 word list) list"
  dd_filenames :: nat

record ChromiumLib =
  to_float :: "rat \<Rightarrow> rat"
  UTF8ToUTF16 :: "string \<Rightarrow> 16 word list"
  kTextLengthCap :: nat
  CodeStringToDomCode :: "string \<Rightarrow> int"
  KeyStringToDomKey :: "string \<Rightarrow> int"
  map_order :: "int list \<Rightarrow> int list"
  modifier_mask :: "Modifier set \<Rightarrow> nat"
  FilterDropData :: "DropData \<Rightarrow> DropData"

section \<open>Envelope\<close>

definition kProtocolVersion :: int where
  "kProtocolVersion = 1"

definition kMaxSafeJsonInteger :: rat where
  "kMaxSafeJsonInteger = 9007199254740991"

definition kKnownInputTypes :: "string list" where
  "kKnownInputTypes =
     [''clipboard_copy_request'', ''clipboard_paste'', ''composition_cancel'', ''composition_end'',
      ''composition_start'', ''composition_update'', ''drag_end'', ''drag_over'', ''drag_start'', ''drop'',
      ''key_down'', ''key_up'', ''mouse_button'', ''mouse_enter'', ''mouse_leave'', ''mouse_move'',
      ''mouse_wheel'', ''touch_cancel'', ''touch_end'', ''touch_move'', ''touch_start'']"

definition IsKnownInputType :: "string \<Rightarrow> bool" where
  "IsKnownInputType type \<longleftrightarrow> List.member kKnownInputTypes type"

definition FindSafeJsonInteger :: "json_dict \<Rightarrow> string \<Rightarrow> int option" where
  "FindSafeJsonInteger dict key =
     (case FindInt dict key of
        Some i \<Rightarrow> Some i
      | None \<Rightarrow>
          (case FindDouble dict key of
             None \<Rightarrow> None
           | Some r \<Rightarrow>
               if r < - kMaxSafeJsonInteger \<or> r > kMaxSafeJsonInteger \<or> of_int \<lfloor>r\<rfloor> \<noteq> r then None
               else Some \<lfloor>r\<rfloor>))"

record InputEnvelope =
  ie_type :: string
  ie_t :: int
  ie_seq :: int
  ie_data :: json_dict

datatype decode_error =
    Invalid_Json | Not_An_Object | Bad_Version | Unsupported_Version int | Bad_Type | Bad_T | Bad_Seq | Bad_Data

definition DecodeEnvelope :: "('t \<Rightarrow> json option) \<Rightarrow> 't \<Rightarrow> decode_error + InputEnvelope" where
  "DecodeEnvelope read_json raw =
     (case read_json raw of
        None \<Rightarrow> Inl Invalid_Json
      | Some parsed \<Rightarrow>
     (case GetIfDict parsed of
        None \<Rightarrow> Inl Not_An_Object
      | Some envelope \<Rightarrow>
     (case FindInt envelope ''v'' of
        None \<Rightarrow> Inl Bad_Version
      | Some v \<Rightarrow>
        if v \<noteq> kProtocolVersion then Inl (Unsupported_Version v)
        else
     (case FindString envelope ''type'' of
        None \<Rightarrow> Inl Bad_Type
      | Some type \<Rightarrow>
        if type = [] then Inl Bad_Type
        else
     (case FindSafeJsonInteger envelope ''t'' of
        None \<Rightarrow> Inl Bad_T
      | Some t \<Rightarrow>
     (case FindSafeJsonInteger envelope ''seq'' of
        None \<Rightarrow> Inl Bad_Seq
      | Some seq \<Rightarrow>
     (case FindDict envelope ''data'' of
        None \<Rightarrow> Inl Bad_Data
      | Some data \<Rightarrow> Inr \<lparr>ie_type = type, ie_t = t, ie_seq = seq, ie_data = data\<rparr>)))))))"

section \<open>State\<close>

record MouseEvent =
  me_kind :: string
  me_x :: rat
  me_y :: rat
  me_button :: Button
  me_click_count :: int
  me_modifiers :: "Modifier set"
  me_time :: int

datatype Phase = kPhaseNone | kPhaseBegan | kPhaseChanged | kPhaseEnded

record WheelEvent =
  we_x :: rat
  we_y :: rat
  we_delta_x :: rat
  we_delta_y :: rat
  wheel_ticks_x :: rat
  wheel_ticks_y :: rat
  we_phase :: Phase
  momentum_phase :: Phase
  we_modifiers :: "Modifier set"
  we_time :: int

datatype KeyKind = kRawKeyDown | kKeyUp | kChar

record KeyEvent =
  ke_kind :: KeyKind
  ke_modifiers :: "Modifier set"
  windows_key_code :: int
  ke_dom_code :: int
  ke_dom_key :: int
  ke_text :: "16 word list"
  ke_time :: int

datatype TouchState = kStatePressed | kStateMoved | kStateStationary | kStateReleased | kStateCancelled

record TouchPoint =
  tp_id :: int
  tp_state :: TouchState
  tp_x :: rat
  tp_y :: rat
  tp_radius_x :: rat
  tp_radius_y :: rat
  rotation_angle :: rat
  tp_force :: rat

datatype TouchKind = kTouchStart | kTouchMove | kTouchEnd | kTouchCancel

record TouchEvent =
  te_kind :: TouchKind
  te_touches :: "TouchPoint list"
  moved_beyond_slop_region :: bool
  te_time :: int

text \<open>The composition spans are one span over the whole text, or none.\<close>

datatype Forwarded =
    WasShown
  | Focus
  | Mouse MouseEvent
  | Wheel WheelEvent
  | Key KeyEvent
  | Touch TouchEvent
  | ImeSetComposition "16 word list" "(nat \<times> nat) list" int int
  | ImeCommitText "16 word list" "(nat \<times> nat) list"
  | ImeCancelComposition
  | DragTargetDragEnter DropData rat rat int "Modifier set"
  | DragTargetDragOver rat rat int "Modifier set"
  | DragTargetDrop DropData rat rat "Modifier set"
  | DragTargetDragLeave rat rat

record ClickRamp =
  protocol_button :: int
  lc_x :: int
  lc_y :: int
  lc_at :: int
  lc_count :: int

record CbActiveTouchPoint =
  ap_identifier :: int
  ap_x :: int
  ap_y :: int
  ap_radius_x :: int
  ap_radius_y :: int
  ap_force :: rat
  ap_twist :: int
  last_event_time :: int

datatype CbDragPhase = kIdle | kActive | kAwaitingEnd

record CbDragItem =
  cdi_kind :: string
  cdi_type :: string
  cdi_data :: string

record Dispatcher =
  held_buttons_blink :: "Modifier set"
  held_modifiers_blink :: "Modifier set"
  last_click :: ClickRamp
  wheel_in_gesture :: bool
  mouse_front :: bool
  last_pointer :: LastPointer
  shared_modifiers :: "Modifier set"
  is_composing :: bool
  last_committed :: "(16 word list \<times> int) option"
  active_points :: "(int \<times> CbActiveTouchPoint) list"
  touch_front :: bool
  drag_phase :: CbDragPhase
  cached_items :: "CbDragItem list"
  cached_types :: "string list"
  last_widget_pos :: "rat \<times> rat"
  drag_front :: bool
  copy_gestures :: nat
  out :: "Forwarded list"

definition new_dispatcher :: Dispatcher where
  "new_dispatcher =
     \<lparr>held_buttons_blink = {}, held_modifiers_blink = {},
      last_click = \<lparr>protocol_button = -1, lc_x = 0, lc_y = 0, lc_at = 0, lc_count = 0\<rparr>,
      wheel_in_gesture = False, mouse_front = False, last_pointer = new_last_pointer, shared_modifiers = {},
      is_composing = False, last_committed = None, active_points = [], touch_front = False,
      drag_phase = kIdle, cached_items = [], cached_types = [], last_widget_pos = (0, 0), drag_front = False,
      copy_gestures = 0, out = []\<rparr>"

definition forward_event :: "Forwarded \<Rightarrow> Dispatcher \<Rightarrow> Dispatcher" where
  "forward_event e s = s\<lparr>out := out s @ [e]\<rparr>"

text \<open>\<^verbatim>\<open>WasShown\<close> and, where the contents has a view, \<^verbatim>\<open>Focus\<close>.\<close>

definition bring_to_front :: "View \<Rightarrow> Dispatcher \<Rightarrow> Dispatcher" where
  "bring_to_front view s =
     (let s1 = forward_event WasShown s in if view = No_View then s1 else forward_event Focus s1)"

definition ContentToWidget :: "ChromiumLib \<Rightarrow> rat \<Rightarrow> int \<Rightarrow> int \<Rightarrow> rat \<times> rat" where
  "ContentToWidget L view_dsf content_x content_y =
     (let dsf = (if view_dsf > 0 then view_dsf else 1) in
      (to_float L (to_float L (of_int content_x) / dsf), to_float L (to_float L (of_int content_y) / dsf)))"

section \<open>Mouse\<close>

definition ProtocolButtonToBlink :: "int \<Rightarrow> Button" where
  "ProtocolButtonToBlink b =
     (if b = 0 then kLeft else if b = 1 then kMiddle else if b = 2 then kRight else if b = 3 then kBack
      else if b = 4 then kForward else kNoButton)"

definition ProtocolButtonToBlinkHeldBit :: "int \<Rightarrow> Modifier set" where
  "ProtocolButtonToBlinkHeldBit b =
     (if b = 0 then {kLeftButtonDown} else if b = 1 then {kMiddleButtonDown} else if b = 2 then {kRightButtonDown}
      else if b = 3 then {kBackButtonDown} else if b = 4 then {kForwardButtonDown} else {})"

definition ButtonFromHeldBits :: "Modifier set \<Rightarrow> Button" where
  "ButtonFromHeldBits held =
     (if kLeftButtonDown \<in> held then kLeft else if kRightButtonDown \<in> held then kRight
      else if kMiddleButtonDown \<in> held then kMiddle else if kBackButtonDown \<in> held then kBack
      else if kForwardButtonDown \<in> held then kForward else kNoButton)"

definition WheelScalingFor :: "int \<Rightarrow> string option \<Rightarrow> rat" where
  "WheelScalingFor mode delta_mode =
     (if delta_mode = Some ''pixel'' then 1 else if delta_mode = Some ''line'' then 16
      else if delta_mode = Some ''page'' then 800
      else if mode = 0 then 1 else if mode = 1 then 16 else if mode = 2 then 800 else 1)"

definition mouse_to_front :: "View \<Rightarrow> Dispatcher \<Rightarrow> Dispatcher" where
  "mouse_to_front view s =
     (if mouse_front s then s else (bring_to_front view s)\<lparr>mouse_front := True\<rparr>)"

definition update_pointer :: "ChromiumLib \<Rightarrow> rat \<times> rat \<Rightarrow> int \<Rightarrow> Dispatcher \<Rightarrow> Dispatcher" where
  "update_pointer L widget now s =
     s\<lparr>last_pointer := Update (fst widget) (snd widget) (modifier_mask L (held_buttons_blink s)) now (last_pointer s)\<rparr>"

text \<open>A move, a press or release and a wheel turn, once the envelope's fields are read.\<close>

definition mouse_move_to :: "ChromiumLib \<Rightarrow> rat \<Rightarrow> int \<Rightarrow> int \<Rightarrow> int \<Rightarrow> Dispatcher \<Rightarrow> Dispatcher" where
  "mouse_move_to L dsf now x y s =
     (let widget = ContentToWidget L dsf x y in
      update_pointer L widget now
        (forward_event (Mouse \<lparr>me_kind = ''move'', me_x = fst widget, me_y = snd widget,
           me_button = ButtonFromHeldBits (held_buttons_blink s), me_click_count = 0,
           me_modifiers = held_buttons_blink s \<union> held_modifiers_blink s, me_time = now\<rparr>) s))"

definition DispatchMouseMove :: "ChromiumLib \<Rightarrow> Target \<Rightarrow> json_dict \<Rightarrow> Dispatcher \<Rightarrow> Dispatcher" where
  "DispatchMouseMove L e data s =
     (case active_view e of
        Widget dsf \<Rightarrow>
          let s1 = mouse_to_front (active_view e) s in
          (case (FindInt data ''x'', FindInt data ''y'') of
             (Some x, Some y) \<Rightarrow> mouse_move_to L dsf (tick e) x y s1
           | _ \<Rightarrow> s1)
      | _ \<Rightarrow> s)"

definition kClickRampWindow :: int where
  "kClickRampWindow = 500"

definition kClickRampSlopPx :: int where
  "kClickRampSlopPx = 5"

text \<open>The click ramp: the count of a press, and the count a release reports.\<close>

definition ramp_down :: "int \<Rightarrow> int \<Rightarrow> int \<Rightarrow> int \<Rightarrow> ClickRamp \<Rightarrow> ClickRamp" where
  "ramp_down b x y now c =
     \<lparr>protocol_button = b, lc_x = x, lc_y = y, lc_at = now,
      lc_count = (if protocol_button c = b \<and> now - lc_at c \<le> kClickRampWindow
         \<and> \<bar>x - lc_x c\<bar> \<le> kClickRampSlopPx \<and> \<bar>y - lc_y c\<bar> \<le> kClickRampSlopPx \<and> lc_count c > 0
         then lc_count c + 1 else 1)\<rparr>"

definition ramp_up :: "int \<Rightarrow> ClickRamp \<Rightarrow> int" where
  "ramp_up b c = (if protocol_button c = b \<and> lc_count c > 0 then lc_count c else 1)"

definition mouse_press :: "ChromiumLib \<Rightarrow> rat \<Rightarrow> int \<Rightarrow> int \<Rightarrow> bool \<Rightarrow> int \<Rightarrow> int \<Rightarrow> Dispatcher \<Rightarrow> Dispatcher" where
  "mouse_press L dsf now b pressed x y s =
     (let held_bit = ProtocolButtonToBlinkHeldBit b;
          click = (if pressed then ramp_down b x y now (last_click s) else last_click s);
          click_count = (if pressed then lc_count click else ramp_up b (last_click s));
          held = (if pressed then held_buttons_blink s \<union> held_bit else held_buttons_blink s - held_bit);
          s1 = s\<lparr>last_click := click, held_buttons_blink := held\<rparr>;
          widget = ContentToWidget L dsf x y
      in update_pointer L widget now
           (forward_event (Mouse \<lparr>me_kind = (if pressed then ''down'' else ''up''), me_x = fst widget, me_y = snd widget,
              me_button = ProtocolButtonToBlink b, me_click_count = click_count,
              me_modifiers = held_buttons_blink s1 \<union> held_modifiers_blink s1, me_time = now\<rparr>) s1))"

definition DispatchMouseButton :: "ChromiumLib \<Rightarrow> Target \<Rightarrow> json_dict \<Rightarrow> Dispatcher \<Rightarrow> Dispatcher" where
  "DispatchMouseButton L e data s =
     (case active_view e of
        Widget dsf \<Rightarrow>
          let s1 = mouse_to_front (active_view e) s in
          (case (FindInt data ''button'', FindString data ''action'', FindInt data ''x'', FindInt data ''y'') of
             (Some b, Some action, Some x, Some y) \<Rightarrow>
               if action \<noteq> ''down'' \<and> action \<noteq> ''up'' then s1
               else mouse_press L dsf (tick e) b (action = ''down'') x y s1
           | _ \<Rightarrow> s1)
      | _ \<Rightarrow> s)"

text \<open>The wheel event of a delta; \<open>ticks\<close> are the raw counts of the line and page modes.\<close>

definition wheel_scaled :: "ChromiumLib \<Rightarrow> rat \<Rightarrow> int \<Rightarrow> rat" where
  "wheel_scaled L scale d = - to_float L (to_float L (of_int d) * scale)"

definition wheel_ticks :: "ChromiumLib \<Rightarrow> rat \<Rightarrow> rat \<Rightarrow> int \<Rightarrow> rat" where
  "wheel_ticks L scale scaled d = (if scale = 1 then scaled else - to_float L (of_int d))"

definition wheel_event ::
  "ChromiumLib \<Rightarrow> rat \<times> rat \<Rightarrow> rat \<Rightarrow> rat \<Rightarrow> rat \<Rightarrow> int \<Rightarrow> int \<Rightarrow> Phase \<Rightarrow> bool \<Rightarrow> Modifier set \<Rightarrow> int \<Rightarrow> WheelEvent" where
  "wheel_event L widget scale scaled_dx scaled_dy dx dy phase momentum mods now =
     \<lparr>we_x = fst widget, we_y = snd widget, we_delta_x = scaled_dx, we_delta_y = scaled_dy,
      wheel_ticks_x = wheel_ticks L scale scaled_dx dx, wheel_ticks_y = wheel_ticks L scale scaled_dy dy,
      we_phase = phase, momentum_phase = (if momentum then kPhaseChanged else kPhaseNone),
      we_modifiers = mods, we_time = now\<rparr>"

definition mouse_wheel_by ::
  "ChromiumLib \<Rightarrow> rat \<Rightarrow> int \<Rightarrow> int \<Rightarrow> int \<Rightarrow> rat \<Rightarrow> int \<Rightarrow> int \<Rightarrow> string option \<Rightarrow> bool \<Rightarrow> Dispatcher \<Rightarrow> Dispatcher" where
  "mouse_wheel_by L dsf now dx dy scale x y phase momentum s =
     (let widget = ContentToWidget L dsf x y;
          mods = held_buttons_blink s \<union> held_modifiers_blink s;
          blink_phase = (if phase = Some ''start'' then kPhaseBegan
                         else if phase = Some ''end'' then kPhaseEnded else kPhaseChanged);
          synth_zero_delta = (phase = Some ''start'' \<or> phase = Some ''end'');
          emit_start_delta = (phase = Some ''start'' \<and> (dx \<noteq> 0 \<or> dy \<noteq> 0));
          s1 = (if phase = Some ''start'' then s\<lparr>wheel_in_gesture := True\<rparr>
                else if phase = Some ''end'' then s\<lparr>wheel_in_gesture := False\<rparr> else s);
          scaled_dx = (if synth_zero_delta then 0 else wheel_scaled L scale dx);
          scaled_dy = (if synth_zero_delta then 0 else wheel_scaled L scale dy);
          s2 = forward_event (Wheel (wheel_event L widget scale scaled_dx scaled_dy dx dy blink_phase momentum mods now)) s1;
          s3 = (if emit_start_delta
                then forward_event (Wheel (wheel_event L widget scale (wheel_scaled L scale dx) (wheel_scaled L scale dy) dx dy
                       kPhaseChanged momentum mods now)) s2
                else s2)
      in update_pointer L widget now s3)"

definition DispatchMouseWheel :: "ChromiumLib \<Rightarrow> Target \<Rightarrow> json_dict \<Rightarrow> Dispatcher \<Rightarrow> Dispatcher" where
  "DispatchMouseWheel L e data s =
     (case active_view e of
        Widget dsf \<Rightarrow>
          let s1 = mouse_to_front (active_view e) s in
          (case (FindInt data ''dx'', FindInt data ''dy'', FindInt data ''mode'', FindInt data ''x'', FindInt data ''y'') of
             (Some dx, Some dy, Some mode, Some x, Some y) \<Rightarrow>
               mouse_wheel_by L dsf (tick e) dx dy (WheelScalingFor mode (FindString data ''delta_mode'')) x y
                 (FindString data ''phase'') (FindBool data ''momentum'' = Some True) s1
           | _ \<Rightarrow> s1)
      | _ \<Rightarrow> s)"

definition mouse_OnInputEvent :: "ChromiumLib \<Rightarrow> Target \<Rightarrow> InputEnvelope \<Rightarrow> Dispatcher \<Rightarrow> Dispatcher" where
  "mouse_OnInputEvent L e env s =
     (if ie_type env = ''mouse_move'' then DispatchMouseMove L e (ie_data env) s
      else if ie_type env = ''mouse_button'' then DispatchMouseButton L e (ie_data env) s
      else if ie_type env = ''mouse_wheel'' then DispatchMouseWheel L e (ie_data env) s else s)"

section \<open>Keyboard\<close>

definition KeyToBlinkModifier :: "string \<Rightarrow> string \<Rightarrow> Modifier set" where
  "KeyToBlinkModifier key code =
     (if key = ''Shift'' then {kShiftKey}
      else if key = ''Control'' then {kControlKey}
      else if key = ''Alt'' then {kAltKey}
      else if key = ''Meta'' \<or> key = ''OS'' \<or> key = ''Super'' then {kMetaKey}
      else if code = ''ShiftLeft'' \<or> code = ''ShiftRight'' then {kShiftKey}
      else if code = ''ControlLeft'' \<or> code = ''ControlRight'' then {kControlKey}
      else if code = ''AltLeft'' \<or> code = ''AltRight'' then {kAltKey}
      else if code = ''MetaLeft'' \<or> code = ''MetaRight'' \<or> code = ''OSLeft'' \<or> code = ''OSRight'' then {kMetaKey}
      else {})"

definition ProtocolModsToBlink :: "int \<Rightarrow> Modifier set" where
  "ProtocolModsToBlink mods =
     (if bit mods 0 then {kShiftKey} else {}) \<union> (if bit mods 1 then {kControlKey} else {})
     \<union> (if bit mods 2 then {kAltKey} else {}) \<union> (if bit mods 3 then {kMetaKey} else {})"

definition char_code :: "char \<Rightarrow> int" where
  "char_code c = int (of_char c :: nat)"

definition scancode_table :: "(string \<times> int) list" where
  "scancode_table =
     [(''Enter'', 13), (''Tab'', 9), (''Backspace'', 8), (''Space'', 32), (''Escape'', 27), (''Delete'', 46),
      (''Insert'', 45), (''Home'', 36), (''End'', 35), (''PageUp'', 33), (''PageDown'', 34), (''ArrowLeft'', 37),
      (''ArrowUp'', 38), (''ArrowRight'', 39), (''ArrowDown'', 40), (''ShiftLeft'', 160), (''ShiftRight'', 161),
      (''ControlLeft'', 162), (''ControlRight'', 163), (''AltLeft'', 164), (''AltRight'', 165),
      (''MetaLeft'', 91), (''OSLeft'', 91), (''MetaRight'', 92), (''OSRight'', 92)]"

definition MapCodeToScancode :: "string \<Rightarrow> int option" where
  "MapCodeToScancode code =
     (if length code = 4 \<and> take 3 code = ''Key'' \<and> 65 \<le> char_code (code ! 3) \<and> char_code (code ! 3) \<le> 90
      then Some (65 + (char_code (code ! 3) - 65))
      else if length code = 6 \<and> take 5 code = ''Digit'' \<and> 48 \<le> char_code (code ! 5) \<and> char_code (code ! 5) \<le> 57
      then Some (48 + (char_code (code ! 5) - 48))
      else (case map_of scancode_table code of
          Some k \<Rightarrow> Some k
        | None \<Rightarrow>
            if length code = 2 \<and> take 1 code = ''F'' \<and> 49 \<le> char_code (code ! 1) \<and> char_code (code ! 1) \<le> 57
            then Some (112 + (char_code (code ! 1) - 49))
            else if length code = 3 \<and> take 2 code = ''F1'' \<and> 48 \<le> char_code (code ! 2) \<and> char_code (code ! 2) \<le> 50
            then Some (121 + (char_code (code ! 2) - 48))
            else None))"

definition SynthesizedTextFor :: "string \<Rightarrow> string" where
  "SynthesizedTextFor key =
     (if key = ''Enter'' then [CHR 0x0D]
      else if key = ''Tab'' then [CHR 0x09]
      else if key = ''Backspace'' then [CHR 0x08]
      else if key = [] then []
      else if length key = 1 then
        (if 32 \<le> char_code (hd key) \<and> char_code (hd key) < 127 then key else [])
      else if char_code (hd key) \<ge> 128 then key else [])"

definition key_event ::
  "ChromiumLib \<Rightarrow> int \<Rightarrow> string \<Rightarrow> string \<Rightarrow> int option \<Rightarrow> bool \<Rightarrow> Dispatcher \<Rightarrow> Dispatcher" where
  "key_event L now key code mods_envelope pressed s =
     (let mod_bit = KeyToBlinkModifier key code;
          held = (if pressed then shared_modifiers s \<union> mod_bit else shared_modifiers s - mod_bit);
          s1 = s\<lparr>shared_modifiers := held\<rparr>;
          modifiers = held \<union> (case mods_envelope of None \<Rightarrow> {} | Some m \<Rightarrow> ProtocolModsToBlink m);
          dom_code = CodeStringToDomCode L code;
          dom_key = KeyStringToDomKey L key;
          s2 = (case MapCodeToScancode code of
              None \<Rightarrow> s1
            | Some vk \<Rightarrow> forward_event (Key \<lparr>ke_kind = (if pressed then kRawKeyDown else kKeyUp), ke_modifiers = modifiers,
                windows_key_code = vk, ke_dom_code = dom_code, ke_dom_key = dom_key, ke_text = [], ke_time = now\<rparr>) s1);
          text = SynthesizedTextFor key
      in if pressed \<and> text \<noteq> []
         then forward_event (Key \<lparr>ke_kind = kChar, ke_modifiers = modifiers,
           windows_key_code = (case MapCodeToScancode code of None \<Rightarrow> 0 | Some vk \<Rightarrow> vk),
           ke_dom_code = dom_code, ke_dom_key = dom_key,
           ke_text = take (kTextLengthCap L) (UTF8ToUTF16 L text), ke_time = now\<rparr>) s2
         else s2)"

definition DispatchKey :: "ChromiumLib \<Rightarrow> Target \<Rightarrow> json_dict \<Rightarrow> bool \<Rightarrow> Dispatcher \<Rightarrow> Dispatcher" where
  "DispatchKey L e data pressed s =
     (case active_view e of
        Widget dsf \<Rightarrow>
          if FindString data ''key'' = None \<and> FindString data ''code'' = None then s
          else key_event L (tick e)
            (case FindString data ''key'' of None \<Rightarrow> [] | Some k \<Rightarrow> k)
            (case FindString data ''code'' of None \<Rightarrow> [] | Some c \<Rightarrow> c)
            (FindInt data ''mods'') pressed s
      | _ \<Rightarrow> s)"

definition keyboard_OnInputEvent :: "ChromiumLib \<Rightarrow> Target \<Rightarrow> InputEnvelope \<Rightarrow> Dispatcher \<Rightarrow> Dispatcher" where
  "keyboard_OnInputEvent L e env s =
     (if ie_type env = ''key_down'' then DispatchKey L e (ie_data env) True s
      else if ie_type env = ''key_up'' then DispatchKey L e (ie_data env) False s else s)"

section \<open>Composition\<close>

definition BuildDefaultCompositionSpans :: "nat \<Rightarrow> (nat \<times> nat) list" where
  "BuildDefaultCompositionSpans n = (if n = 0 then [] else [(0, n)])"

definition ReadDataAsU16 :: "ChromiumLib \<Rightarrow> json_dict \<Rightarrow> 16 word list" where
  "ReadDataAsU16 L dict =
     (case FindString dict ''data'' of None \<Rightarrow> [] | Some s \<Rightarrow> if s = [] then [] else UTF8ToUTF16 L s)"

definition ClampInt :: "int \<Rightarrow> int \<Rightarrow> int \<Rightarrow> int" where
  "ClampInt v lo hi = max lo (min hi v)"

definition ResolveFocusedRenderWidgetHost :: "Target \<Rightarrow> bool" where
  "ResolveFocusedRenderWidgetHost e =
     (active_view e \<noteq> No_Resolver \<and> active_view e \<noteq> No_Contents
      \<and> (case focused_frame e of Some w \<Rightarrow> w | None \<Rightarrow> (case main_frame e of Some w \<Rightarrow> w | None \<Rightarrow> False)))"

text \<open>The selection a composition envelope asks for, clamped to its text.\<close>

definition composition_selection :: "json_dict \<Rightarrow> int \<Rightarrow> int \<times> int" where
  "composition_selection data len =
     (let start0 = (case FindInt data ''selection_start'' of None \<Rightarrow> len | Some v \<Rightarrow> ClampInt v 0 len);
          end0 = (case FindInt data ''selection_end'' of None \<Rightarrow> start0 | Some v \<Rightarrow> ClampInt v 0 len)
      in (start0, end0))"

definition DispatchCompositionUpdate :: "ChromiumLib \<Rightarrow> Target \<Rightarrow> json_dict \<Rightarrow> Dispatcher \<Rightarrow> Dispatcher" where
  "DispatchCompositionUpdate L e data s =
     (if \<not> ResolveFocusedRenderWidgetHost e then s
      else
        let text = ReadDataAsU16 L data;
            sel = composition_selection data (int (length text))
        in (forward_event (ImeSetComposition text (BuildDefaultCompositionSpans (length text)) (fst sel) (snd sel)) s)
             \<lparr>is_composing := True\<rparr>)"

definition DispatchCompositionEnd :: "ChromiumLib \<Rightarrow> Target \<Rightarrow> json_dict \<Rightarrow> Dispatcher \<Rightarrow> Dispatcher" where
  "DispatchCompositionEnd L e data s =
     (if \<not> ResolveFocusedRenderWidgetHost e then s\<lparr>is_composing := False\<rparr>
      else
        let text = ReadDataAsU16 L data
        in (forward_event (ImeCommitText text (BuildDefaultCompositionSpans (length text))) s)
             \<lparr>is_composing := False, last_committed := Some (text, tick e)\<rparr>)"

definition DispatchCompositionCancel :: "Target \<Rightarrow> Dispatcher \<Rightarrow> Dispatcher" where
  "DispatchCompositionCancel e s =
     (if \<not> ResolveFocusedRenderWidgetHost e then s\<lparr>is_composing := False\<rparr>
      else (forward_event ImeCancelComposition s)\<lparr>is_composing := False\<rparr>)"

definition ime_OnInputEvent :: "ChromiumLib \<Rightarrow> Target \<Rightarrow> InputEnvelope \<Rightarrow> Dispatcher \<Rightarrow> Dispatcher" where
  "ime_OnInputEvent L e env s =
     (if ie_type env = ''composition_start'' then DispatchCompositionUpdate L e (ie_data env) s
      else if ie_type env = ''composition_update'' then DispatchCompositionUpdate L e (ie_data env) s
      else if ie_type env = ''composition_end'' then DispatchCompositionEnd L e (ie_data env) s
      else if ie_type env = ''composition_cancel'' then DispatchCompositionCancel e s else s)"

section \<open>Touch\<close>

definition kBlinkTouchPointsCap :: nat where
  "kBlinkTouchPointsCap = 16"

definition RadiusOrDefault :: "int \<Rightarrow> int" where
  "RadiusOrDefault raw = (if raw > 0 then raw else 1)"

definition FindIntOr :: "json_dict \<Rightarrow> string \<Rightarrow> int \<Rightarrow> int" where
  "FindIntOr d k fallback = (case FindInt d k of None \<Rightarrow> fallback | Some v \<Rightarrow> v)"

definition FindDoubleOr :: "json_dict \<Rightarrow> string \<Rightarrow> rat \<Rightarrow> rat" where
  "FindDoubleOr d k fallback = (case FindDouble d k of None \<Rightarrow> fallback | Some v \<Rightarrow> v)"

definition ParseTouchPointData :: "ChromiumLib \<Rightarrow> json_dict \<Rightarrow> int \<Rightarrow> CbActiveTouchPoint option" where
  "ParseTouchPointData L data now =
     (case (FindInt data ''identifier'', FindInt data ''x'', FindInt data ''y'') of
        (Some i, Some x, Some y) \<Rightarrow>
          Some \<lparr>ap_identifier = i, ap_x = x, ap_y = y,
            ap_radius_x = RadiusOrDefault (FindIntOr data ''radius_x'' 1),
            ap_radius_y = RadiusOrDefault (FindIntOr data ''radius_y'' 1),
            ap_force = to_float L (FindDoubleOr data ''force'' 0), ap_twist = FindIntOr data ''twist'' 0,
            last_event_time = now\<rparr>
      | _ \<Rightarrow> None)"

definition FillWebTouchPoint :: "ChromiumLib \<Rightarrow> CbActiveTouchPoint \<Rightarrow> rat \<times> rat \<Rightarrow> TouchState \<Rightarrow> TouchPoint" where
  "FillWebTouchPoint L p widget state =
     \<lparr>tp_id = ap_identifier p, tp_state = state, tp_x = fst widget, tp_y = snd widget,
      tp_radius_x = to_float L (of_int (ap_radius_x p)), tp_radius_y = to_float L (of_int (ap_radius_y p)),
      rotation_angle = to_float L (of_int (ap_twist p)), tp_force = ap_force p\<rparr>"

text \<open>The touches of an event: the fingers that are down, in the map's order, then the lifted one.\<close>

definition AssembleTouchEvent ::
  "ChromiumLib \<Rightarrow> rat \<Rightarrow> TouchKind \<Rightarrow> int \<Rightarrow> TouchState \<Rightarrow> CbActiveTouchPoint option \<Rightarrow> int
   \<Rightarrow> (int \<times> CbActiveTouchPoint) list \<Rightarrow> TouchEvent option" where
  "AssembleTouchEvent L dsf kind changed state released now points =
     (if length points + (if released = None then 0 else 1) > kBlinkTouchPointsCap then None
      else
        let down = List.map_filter (\<lambda>i. map_option (\<lambda>p.
              FillWebTouchPoint L p (ContentToWidget L dsf (ap_x p) (ap_y p))
                (if i = changed then state else kStateStationary)) (map_of points i)) (map_order L (map fst points));
            lifted = (case released of None \<Rightarrow> []
              | Some p \<Rightarrow> [FillWebTouchPoint L p (ContentToWidget L dsf (ap_x p) (ap_y p)) state])
        in Some \<lparr>te_kind = kind, te_touches = down @ lifted, moved_beyond_slop_region = (kind = kTouchMove), te_time = now\<rparr>)"

definition forward_touch :: "TouchEvent option \<Rightarrow> Dispatcher \<Rightarrow> Dispatcher" where
  "forward_touch ev s = (case ev of None \<Rightarrow> s | Some t \<Rightarrow> forward_event (Touch t) s)"

definition touch_to_front :: "View \<Rightarrow> Dispatcher \<Rightarrow> Dispatcher" where
  "touch_to_front view s = (if touch_front s then s else (bring_to_front view s)\<lparr>touch_front := True\<rparr>)"

text \<open>Forwarding a touch event, where there is a widget.\<close>

definition send_touch ::
  "ChromiumLib \<Rightarrow> Target \<Rightarrow> TouchKind \<Rightarrow> int \<Rightarrow> TouchState \<Rightarrow> CbActiveTouchPoint option \<Rightarrow> Dispatcher \<Rightarrow> Dispatcher" where
  "send_touch L e kind i state released s =
     (case active_view e of
        Widget dsf \<Rightarrow> forward_touch (AssembleTouchEvent L dsf kind i state released (tick e) (active_points s)) s
      | _ \<Rightarrow> s)"

definition DispatchTouchStart :: "ChromiumLib \<Rightarrow> Target \<Rightarrow> json_dict \<Rightarrow> Dispatcher \<Rightarrow> Dispatcher" where
  "DispatchTouchStart L e data s =
     (case ParseTouchPointData L data (tick e) of
        None \<Rightarrow> s
      | Some p \<Rightarrow>
          let i = ap_identifier p in
          if map_of (active_points s) i = None \<and> length (active_points s) \<ge> kBlinkTouchPointsCap then s
          else
            let s1 = s\<lparr>active_points := AList.update i p (active_points s)\<rparr> in
            if active_view e = No_Resolver \<or> active_view e = No_Contents then s1
            else send_touch L e kTouchStart i kStatePressed None (touch_to_front (active_view e) s1))"

definition DispatchTouchMove :: "ChromiumLib \<Rightarrow> Target \<Rightarrow> json_dict \<Rightarrow> Dispatcher \<Rightarrow> Dispatcher" where
  "DispatchTouchMove L e data s =
     (case ParseTouchPointData L data (tick e) of
        None \<Rightarrow> s
      | Some p \<Rightarrow>
          let i = ap_identifier p in
          if map_of (active_points s) i = None then s
          else send_touch L e kTouchMove i kStateMoved None (s\<lparr>active_points := AList.update i p (active_points s)\<rparr>))"

definition DispatchTouchEnd :: "ChromiumLib \<Rightarrow> Target \<Rightarrow> json_dict \<Rightarrow> bool \<Rightarrow> Dispatcher \<Rightarrow> Dispatcher" where
  "DispatchTouchEnd L e data cancel s =
     (case FindInt data ''identifier'' of
        None \<Rightarrow> s
      | Some i \<Rightarrow>
          (case map_of (active_points s) i of
             None \<Rightarrow> s
           | Some released \<Rightarrow>
               send_touch L e (if cancel then kTouchCancel else kTouchEnd) i
                 (if cancel then kStateCancelled else kStateReleased) (Some released)
                 (s\<lparr>active_points := AList.delete i (active_points s)\<rparr>)))"

definition touch_OnInputEvent :: "ChromiumLib \<Rightarrow> Target \<Rightarrow> InputEnvelope \<Rightarrow> Dispatcher \<Rightarrow> Dispatcher" where
  "touch_OnInputEvent L e env s =
     (if ie_type env = ''touch_start'' then DispatchTouchStart L e (ie_data env) s
      else if ie_type env = ''touch_move'' then DispatchTouchMove L e (ie_data env) s
      else if ie_type env = ''touch_end'' then DispatchTouchEnd L e (ie_data env) False s
      else if ie_type env = ''touch_cancel'' then DispatchTouchEnd L e (ie_data env) True s else s)"

section \<open>Drag\<close>

definition parse_item :: "json \<Rightarrow> CbDragItem list" where
  "parse_item v =
     (case GetIfDict v of
        None \<Rightarrow> []
      | Some d \<Rightarrow>
          (case (FindString d ''kind'', FindString d ''type'') of
             (Some kind, Some type) \<Rightarrow>
               [\<lparr>cdi_kind = kind, cdi_type = type,
                 cdi_data = (if kind = ''string'' then (case FindString d ''data'' of None \<Rightarrow> [] | Some t \<Rightarrow> t) else [])\<rparr>]
           | _ \<Rightarrow> []))"

definition ParseItems :: "json list option \<Rightarrow> CbDragItem list" where
  "ParseItems items = (case items of None \<Rightarrow> [] | Some l \<Rightarrow> concat (map parse_item l))"

definition ParseTypes :: "json list option \<Rightarrow> string list" where
  "ParseTypes types = (case types of None \<Rightarrow> [] | Some l \<Rightarrow> List.map_filter GetIfString l)"

definition add_drop_item :: "ChromiumLib \<Rightarrow> CbDragItem \<Rightarrow> DropData \<Rightarrow> DropData" where
  "add_drop_item L item d =
     (if cdi_kind item = ''file'' then d\<lparr>dd_filenames := dd_filenames d + 1\<rparr>
      else
        let data16 = UTF8ToUTF16 L (cdi_data item);
            custom = AList.update (UTF8ToUTF16 L (cdi_type item)) data16 (custom_data d)
        in if cdi_type item = ''text/plain'' then d\<lparr>dd_text := Some data16\<rparr>
           else if cdi_type item = ''text/html'' then d\<lparr>dd_html := Some data16\<rparr>
           else if cdi_type item = ''text/uri-list'' then d\<lparr>url_infos := url_infos d @ [cdi_data item], custom_data := custom\<rparr>
           else d\<lparr>custom_data := custom\<rparr>)"

definition BuildDropData :: "ChromiumLib \<Rightarrow> CbDragItem list \<Rightarrow> DropData" where
  "BuildDropData L items =
     fold (add_drop_item L) items \<lparr>dd_text = None, dd_html = None, url_infos = [], custom_data = [], dd_filenames = 0\<rparr>"

definition kDragOperationCopyV1 :: int where
  "kDragOperationCopyV1 = 1"

definition CurrentModifiersBlink :: "Dispatcher \<Rightarrow> Modifier set" where
  "CurrentModifiersBlink s = held_modifiers_blink s \<inter> {kShiftKey, kControlKey, kAltKey, kMetaKey}"

definition drag_to_front :: "View \<Rightarrow> Dispatcher \<Rightarrow> Dispatcher" where
  "drag_to_front view s = (if drag_front s then s else (bring_to_front view s)\<lparr>drag_front := True\<rparr>)"

definition drag_leave :: "Dispatcher \<Rightarrow> Dispatcher" where
  "drag_leave s = forward_event (DragTargetDragLeave (fst (last_widget_pos s)) (snd (last_widget_pos s))) s"

definition drag_enter ::
  "ChromiumLib \<Rightarrow> rat \<Rightarrow> int \<Rightarrow> int \<Rightarrow> CbDragItem list \<Rightarrow> string list \<Rightarrow> Dispatcher \<Rightarrow> Dispatcher" where
  "drag_enter L dsf x y items types s =
     (let s1 = (if drag_phase s \<noteq> kIdle
                then (drag_leave s)\<lparr>drag_phase := kIdle, cached_items := [], cached_types := []\<rparr> else s);
          widget = ContentToWidget L dsf x y;
          s2 = s1\<lparr>cached_items := items, cached_types := types, last_widget_pos := widget\<rparr>
      in (forward_event (DragTargetDragEnter (FilterDropData L (BuildDropData L items)) (fst widget) (snd widget)
            kDragOperationCopyV1 (CurrentModifiersBlink s2)) s2)\<lparr>drag_phase := kActive\<rparr>)"

definition DispatchDragStart :: "ChromiumLib \<Rightarrow> Target \<Rightarrow> json_dict \<Rightarrow> Dispatcher \<Rightarrow> Dispatcher" where
  "DispatchDragStart L e data s =
     (case active_view e of
        Widget dsf \<Rightarrow>
          let s1 = drag_to_front (active_view e) s in
          (case (FindInt data ''x'', FindInt data ''y'') of
             (Some x, Some y) \<Rightarrow>
               drag_enter L dsf x y (ParseItems (FindList data ''items'')) (ParseTypes (FindList data ''types'')) s1
           | _ \<Rightarrow> s1)
      | _ \<Rightarrow> s)"

definition drag_move :: "ChromiumLib \<Rightarrow> rat \<Rightarrow> int \<Rightarrow> int \<Rightarrow> Dispatcher \<Rightarrow> Dispatcher" where
  "drag_move L dsf x y s =
     (let widget = ContentToWidget L dsf x y; s1 = s\<lparr>last_widget_pos := widget\<rparr>
      in forward_event (DragTargetDragOver (fst widget) (snd widget) kDragOperationCopyV1 (CurrentModifiersBlink s1)) s1)"

definition DispatchDragOver :: "ChromiumLib \<Rightarrow> Target \<Rightarrow> json_dict \<Rightarrow> Dispatcher \<Rightarrow> Dispatcher" where
  "DispatchDragOver L e data s =
     (if drag_phase s \<noteq> kActive then s
      else case active_view e of
        Widget dsf \<Rightarrow>
          (case (FindInt data ''x'', FindInt data ''y'') of
             (Some x, Some y) \<Rightarrow> drag_move L dsf x y s
           | _ \<Rightarrow> s)
      | _ \<Rightarrow> s)"

definition drag_drop :: "ChromiumLib \<Rightarrow> rat \<Rightarrow> int \<Rightarrow> int \<Rightarrow> Dispatcher \<Rightarrow> Dispatcher" where
  "drag_drop L dsf x y s =
     (let widget = ContentToWidget L dsf x y; s1 = s\<lparr>last_widget_pos := widget\<rparr>
      in (forward_event (DragTargetDrop (FilterDropData L (BuildDropData L (cached_items s1))) (fst widget) (snd widget)
            (CurrentModifiersBlink s1)) s1)\<lparr>drag_phase := kAwaitingEnd\<rparr>)"

definition DispatchDrop :: "ChromiumLib \<Rightarrow> Target \<Rightarrow> json_dict \<Rightarrow> Dispatcher \<Rightarrow> Dispatcher" where
  "DispatchDrop L e data s =
     (case active_view e of
        Widget dsf \<Rightarrow>
          let s1 = (drag_to_front (active_view e) s)
                \<lparr>cached_items := ParseItems (FindList data ''items''), cached_types := ParseTypes (FindList data ''types'')\<rparr>
          in (case (FindInt data ''x'', FindInt data ''y'') of
                (Some x, Some y) \<Rightarrow> drag_drop L dsf x y s1
              | _ \<Rightarrow> s1)
      | _ \<Rightarrow> s)"

definition DispatchDragEnd :: "Target \<Rightarrow> json_dict \<Rightarrow> Dispatcher \<Rightarrow> Dispatcher" where
  "DispatchDragEnd e data s =
     (let success = (FindBool data ''success'' = Some True);
          has_widget = (case active_view e of Widget dsf \<Rightarrow> True | _ \<Rightarrow> False);
          s1 = (if has_widget then drag_leave s else s);
          done_with = (\<lambda>s. s\<lparr>drag_phase := kIdle, cached_items := [], cached_types := []\<rparr>)
      in case drag_phase s of
           kIdle \<Rightarrow> s
         | kActive \<Rightarrow> done_with s1
         | kAwaitingEnd \<Rightarrow> done_with (if success then s else s1))"

definition drag_OnInputEvent :: "ChromiumLib \<Rightarrow> Target \<Rightarrow> InputEnvelope \<Rightarrow> Dispatcher \<Rightarrow> Dispatcher" where
  "drag_OnInputEvent L e env s =
     (if ie_type env = ''drag_start'' then DispatchDragStart L e (ie_data env) s
      else if ie_type env = ''drag_over'' then DispatchDragOver L e (ie_data env) s
      else if ie_type env = ''drop'' then DispatchDrop L e (ie_data env) s
      else if ie_type env = ''drag_end'' then DispatchDragEnd e (ie_data env) s else s)"

section \<open>Clipboard and the composite\<close>

definition DispatchCopy :: "Target \<Rightarrow> Dispatcher \<Rightarrow> Dispatcher" where
  "DispatchCopy e s =
     (case active_view e of
        Widget dsf \<Rightarrow>
          let key = \<lparr>ke_kind = kRawKeyDown, ke_modifiers = {kControlKey}, windows_key_code = 67, ke_dom_code = 0,
                ke_dom_key = 0, ke_text = [], ke_time = tick e\<rparr>
          in forward_event (Key (key\<lparr>ke_kind := kKeyUp\<rparr>)) (forward_event (Key key) s)
      | _ \<Rightarrow> s)"

definition clipboard_OnInputEvent :: "Target \<Rightarrow> InputEnvelope \<Rightarrow> Dispatcher \<Rightarrow> Dispatcher" where
  "clipboard_OnInputEvent e env s = (if ie_type env \<noteq> ''clipboard_copy_request'' then s else DispatchCopy e s)"

definition IsCopyGesture :: "InputEnvelope \<Rightarrow> bool" where
  "IsCopyGesture env =
     (if ie_type env = ''clipboard_copy_request'' then True
      else if ie_type env \<noteq> ''key_down'' then False
      else FindString (ie_data env) ''code'' = Some ''KeyC''
        \<and> (case FindInt (ie_data env) ''mods'' of None \<Rightarrow> False | Some m \<Rightarrow> bit m 1 \<or> bit m 3))"

definition OnInputEvent :: "ChromiumLib \<Rightarrow> Target \<Rightarrow> InputEnvelope \<Rightarrow> Dispatcher \<Rightarrow> Dispatcher" where
  "OnInputEvent L e env s =
     (let s0 = (if IsCopyGesture env then s\<lparr>copy_gestures := copy_gestures s + 1\<rparr> else s)
      in clipboard_OnInputEvent e env (drag_OnInputEvent L e env (touch_OnInputEvent L e env
           (ime_OnInputEvent L e env (keyboard_OnInputEvent L e env (mouse_OnInputEvent L e env s0))))))"

text \<open>A frame of the channel, and the task it posts to the UI thread; \<open>Inl\<close> is an unusable frame.\<close>

datatype input_task =
    Dispatch InputEnvelope
  | Decode_Error decode_error
  | Binary_Frame
  | Unknown_Type string int

definition input_OnMessage :: "('t \<Rightarrow> json option) \<Rightarrow> bool \<Rightarrow> 't \<Rightarrow> input_task" where
  "input_OnMessage read_json binary raw =
     (if binary then Binary_Frame
      else case DecodeEnvelope read_json raw of
        Inl reason \<Rightarrow> Decode_Error reason
      | Inr env \<Rightarrow> if IsKnownInputType (ie_type env) then Dispatch env else Unknown_Type (ie_type env) (ie_seq env))"

fun run_task :: "ChromiumLib \<Rightarrow> Target \<times> input_task \<Rightarrow> Dispatcher \<Rightarrow> Dispatcher" where
  "run_task L (e, Dispatch env) s = OnInputEvent L e env s"
| "run_task L (e, _) s = s"

end
