(* ===== verification/Cb_Input_Worker.thy ===== *)
theory Cb_Input_Worker
  imports Cb_Input_Dispatch "HOL-Library.Multiset"
begin

text \<open>
  What the worker's input dispatchers guarantee whatever frames arrive: an envelope reaches one
  dispatcher, and three invariants of their state (touch events Blink takes, pointer events
  without key modifiers, bracketed drags), each an instance of the contract
  \<open>dispatcher_invariant\<close>.
\<close>

section \<open>What each dispatcher leaves alone\<close>

lemma forward_event_fields [simp]:
  "held_buttons_blink (forward_event f s) = held_buttons_blink s" "held_modifiers_blink (forward_event f s) = held_modifiers_blink s"
  "shared_modifiers (forward_event f s) = shared_modifiers s" "active_points (forward_event f s) = active_points s"
  "drag_phase (forward_event f s) = drag_phase s" "out (forward_event f s) = out s @ [f]"
  "mouse_front (forward_event f s) = mouse_front s" "touch_front (forward_event f s) = touch_front s" "drag_front (forward_event f s) = drag_front s"
  "last_click (forward_event f s) = last_click s" "last_widget_pos (forward_event f s) = last_widget_pos s"
  by (simp_all add: forward_event_def)

lemma update_pointer_fields [simp]:
  "held_buttons_blink (update_pointer L w n s) = held_buttons_blink s"
  "held_modifiers_blink (update_pointer L w n s) = held_modifiers_blink s"
  "shared_modifiers (update_pointer L w n s) = shared_modifiers s" "active_points (update_pointer L w n s) = active_points s"
  "drag_phase (update_pointer L w n s) = drag_phase s" "out (update_pointer L w n s) = out s"
  "last_click (update_pointer L w n s) = last_click s" "mouse_front (update_pointer L w n s) = mouse_front s"
  by (simp_all add: update_pointer_def)

lemma to_front_fields [simp]:
  "held_buttons_blink (mouse_to_front v s) = held_buttons_blink s" "held_modifiers_blink (mouse_to_front v s) = held_modifiers_blink s"
  "shared_modifiers (mouse_to_front v s) = shared_modifiers s" "active_points (mouse_to_front v s) = active_points s"
  "drag_phase (mouse_to_front v s) = drag_phase s" "last_click (mouse_to_front v s) = last_click s"
  "held_buttons_blink (touch_to_front v s) = held_buttons_blink s" "held_modifiers_blink (touch_to_front v s) = held_modifiers_blink s"
  "shared_modifiers (touch_to_front v s) = shared_modifiers s" "active_points (touch_to_front v s) = active_points s"
  "drag_phase (touch_to_front v s) = drag_phase s"
  "held_buttons_blink (drag_to_front v s) = held_buttons_blink s" "held_modifiers_blink (drag_to_front v s) = held_modifiers_blink s"
  "shared_modifiers (drag_to_front v s) = shared_modifiers s" "active_points (drag_to_front v s) = active_points s"
  "drag_phase (drag_to_front v s) = drag_phase s" "last_widget_pos (drag_to_front v s) = last_widget_pos s"
  by (simp_all add: mouse_to_front_def touch_to_front_def drag_to_front_def bring_to_front_def Let_def)

text \<open>An envelope reaches the dispatcher of its type only.\<close>

definition routed :: "ChromiumLib \<Rightarrow> Target \<Rightarrow> string \<Rightarrow> json_dict \<Rightarrow> Dispatcher \<Rightarrow> Dispatcher" where
  "routed L e ty data s =
     (if ty = ''mouse_move'' then DispatchMouseMove L e data s
      else if ty = ''mouse_button'' then DispatchMouseButton L e data s
      else if ty = ''mouse_wheel'' then DispatchMouseWheel L e data s
      else if ty = ''key_down'' then DispatchKey L e data True s
      else if ty = ''key_up'' then DispatchKey L e data False s
      else if ty = ''composition_start'' \<or> ty = ''composition_update'' then DispatchCompositionUpdate L e data s
      else if ty = ''composition_end'' then DispatchCompositionEnd L e data s
      else if ty = ''composition_cancel'' then DispatchCompositionCancel e s
      else if ty = ''touch_start'' then DispatchTouchStart L e data s
      else if ty = ''touch_move'' then DispatchTouchMove L e data s
      else if ty = ''touch_end'' then DispatchTouchEnd L e data False s
      else if ty = ''touch_cancel'' then DispatchTouchEnd L e data True s
      else if ty = ''drag_start'' then DispatchDragStart L e data s
      else if ty = ''drag_over'' then DispatchDragOver L e data s
      else if ty = ''drop'' then DispatchDrop L e data s
      else if ty = ''drag_end'' then DispatchDragEnd e data s
      else if ty = ''clipboard_copy_request'' then DispatchCopy e s
      else s)"

definition mouse_types :: "string list" where
  "mouse_types = [''mouse_move'', ''mouse_button'', ''mouse_wheel'']"

definition key_types :: "string list" where
  "key_types = [''key_down'', ''key_up'']"

definition ime_types :: "string list" where
  "ime_types = [''composition_start'', ''composition_update'', ''composition_end'', ''composition_cancel'']"

definition touch_types :: "string list" where
  "touch_types = [''touch_start'', ''touch_move'', ''touch_end'', ''touch_cancel'']"

definition drag_types :: "string list" where
  "drag_types = [''drag_start'', ''drag_over'', ''drop'', ''drag_end'']"

lemma mouse_routed:
  "mouse_OnInputEvent L e env s = (if ie_type env \<in> set mouse_types then routed L e (ie_type env) (ie_data env) s else s)"
  by (simp add: mouse_OnInputEvent_def routed_def mouse_types_def)

lemma keyboard_routed:
  "keyboard_OnInputEvent L e env s = (if ie_type env \<in> set key_types then routed L e (ie_type env) (ie_data env) s else s)"
  by (simp add: keyboard_OnInputEvent_def routed_def key_types_def)

lemma ime_routed:
  "ime_OnInputEvent L e env s = (if ie_type env \<in> set ime_types then routed L e (ie_type env) (ie_data env) s else s)"
  by (simp add: ime_OnInputEvent_def routed_def ime_types_def)

lemma touch_routed:
  "touch_OnInputEvent L e env s = (if ie_type env \<in> set touch_types then routed L e (ie_type env) (ie_data env) s else s)"
  by (simp add: touch_OnInputEvent_def routed_def touch_types_def)

lemma drag_routed:
  "drag_OnInputEvent L e env s = (if ie_type env \<in> set drag_types then routed L e (ie_type env) (ie_data env) s else s)"
  by (simp add: drag_OnInputEvent_def routed_def drag_types_def)

lemma clipboard_routed:
  "clipboard_OnInputEvent e env s =
     (if ie_type env = ''clipboard_copy_request'' then routed L e (ie_type env) (ie_data env) s else s)"
  by (simp add: clipboard_OnInputEvent_def routed_def)

lemma routed_other:
  assumes "ty \<notin> set mouse_types" "ty \<notin> set key_types" "ty \<notin> set ime_types" "ty \<notin> set touch_types"
    "ty \<notin> set drag_types" "ty \<noteq> ''clipboard_copy_request''"
  shows "routed L e ty data s = s"
  using assms
  unfolding mouse_types_def key_types_def ime_types_def touch_types_def drag_types_def list.set insert_iff empty_iff
    de_Morgan_disj
  by (simp add: routed_def)

lemma types_apart:
  "set mouse_types \<inter> set key_types = {}" "set mouse_types \<inter> set ime_types = {}" "set mouse_types \<inter> set touch_types = {}"
  "set mouse_types \<inter> set drag_types = {}" "set key_types \<inter> set ime_types = {}" "set key_types \<inter> set touch_types = {}"
  "set key_types \<inter> set drag_types = {}" "set ime_types \<inter> set touch_types = {}" "set ime_types \<inter> set drag_types = {}"
  "set touch_types \<inter> set drag_types = {}"
  "''clipboard_copy_request'' \<notin> set mouse_types \<union> set key_types \<union> set ime_types \<union> set touch_types \<union> set drag_types"
  by (simp_all add: mouse_types_def key_types_def ime_types_def touch_types_def drag_types_def)

lemma routed_chain:
  "clipboard_OnInputEvent e env (drag_OnInputEvent L e env (touch_OnInputEvent L e env
     (ime_OnInputEvent L e env (keyboard_OnInputEvent L e env (mouse_OnInputEvent L e env s)))))
   = routed L e (ie_type env) (ie_data env) s"
proof -
  let ?ty = "ie_type env"
  consider "?ty \<in> set mouse_types" | "?ty \<in> set key_types" | "?ty \<in> set ime_types" | "?ty \<in> set touch_types"
    | "?ty \<in> set drag_types" | "?ty = ''clipboard_copy_request''"
    | "?ty \<notin> set mouse_types \<and> ?ty \<notin> set key_types \<and> ?ty \<notin> set ime_types \<and> ?ty \<notin> set touch_types
        \<and> ?ty \<notin> set drag_types \<and> ?ty \<noteq> ''clipboard_copy_request''"
    by blast
  then show ?thesis
    unfolding mouse_routed keyboard_routed ime_routed touch_routed drag_routed clipboard_routed [where L = L]
    by cases (use types_apart in \<open>auto simp: disjoint_iff routed_other\<close>)
qed

lemma OnInputEvent_routed:
  "OnInputEvent L e env s =
     routed L e (ie_type env) (ie_data env)
       (if IsCopyGesture env then s\<lparr>copy_gestures := copy_gestures s + 1\<rparr> else s)"
  by (simp only: OnInputEvent_def Let_def routed_chain)

section \<open>Invariants of the dispatcher\<close>

text \<open>
  The contract between the dispatchers and an invariant of their state: the actions a handler
  takes once it has read an envelope keep it. \<open>E\<close> restricts what the browser has to dispatch into.
  What follows is that every frame of the channel keeps it.
\<close>

locale dispatcher_invariant =
  fixes L :: ChromiumLib
    and E :: "Target \<Rightarrow> bool"
    and I :: "Dispatcher \<Rightarrow> bool"
  assumes I_new: "I new_dispatcher"
    and I_copied: "I s \<Longrightarrow> I (s\<lparr>copy_gestures := n\<rparr>)"
    and I_mouse_to_front: "I s \<Longrightarrow> I (mouse_to_front v s)"
    and I_touch_to_front: "I s \<Longrightarrow> I (touch_to_front v s)"
    and I_drag_to_front: "I s \<Longrightarrow> I (drag_to_front v s)"
    and I_move: "I s \<Longrightarrow> I (mouse_move_to L dsf now x y s)"
    and I_press: "I s \<Longrightarrow> I (mouse_press L dsf now b pressed x y s)"
    and I_wheel: "I s \<Longrightarrow> I (mouse_wheel_by L dsf now dx dy scale x y phase momentum s)"
    and I_key: "I s \<Longrightarrow> I (key_event L now key code mods pressed s)"
    and I_compose: "I s \<Longrightarrow> I (DispatchCompositionUpdate L e data s)"
    and I_commit: "I s \<Longrightarrow> I (DispatchCompositionEnd L e data s)"
    and I_cancel: "I s \<Longrightarrow> I (DispatchCompositionCancel e s)"
    and I_set_point: "I s \<Longrightarrow> map_of (active_points s) (ap_identifier p) \<noteq> None \<or> length (active_points s) < kBlinkTouchPointsCap
      \<Longrightarrow> I (s\<lparr>active_points := AList.update (ap_identifier p) p (active_points s)\<rparr>)"
    and I_touched: "I s \<Longrightarrow> i \<in> fst ` set (active_points s) \<Longrightarrow> st \<noteq> kStateStationary \<Longrightarrow> I (send_touch L e kind i st None s)"
    and I_lift: "I s \<Longrightarrow> map_of (active_points s) i = Some p \<Longrightarrow> st \<noteq> kStateStationary
      \<Longrightarrow> I (send_touch L e kind i st (Some p) (s\<lparr>active_points := AList.delete i (active_points s)\<rparr>))"
    and I_cached: "I s \<Longrightarrow> I (s\<lparr>cached_items := items, cached_types := types\<rparr>)"
    and I_drag_enter: "I s \<Longrightarrow> I (drag_enter L dsf x y items types s)"
    and I_drag_move: "I s \<Longrightarrow> drag_phase s = kActive \<Longrightarrow> I (drag_move L dsf x y s)"
    and I_drag_drop: "I s \<Longrightarrow> I (drag_drop L dsf x y s)"
    and I_drag_end: "E e \<Longrightarrow> I s \<Longrightarrow> I (DispatchDragEnd e data s)"
    and I_copy: "I s \<Longrightarrow> I (DispatchCopy e s)"
begin

lemma I_mouse:
  assumes "I s"
  shows "I (DispatchMouseMove L e data s)" "I (DispatchMouseButton L e data s)" "I (DispatchMouseWheel L e data s)"
  using assms
  by (simp_all add: DispatchMouseMove_def DispatchMouseButton_def DispatchMouseWheel_def Let_def
      I_mouse_to_front I_move I_press I_wheel split: View.split option.split)

lemma I_keyboard: "I s \<Longrightarrow> I (DispatchKey L e data pressed s)"
  by (simp add: DispatchKey_def I_key split: View.split)

lemma I_touch_start:
  assumes "I s"
  shows "I (DispatchTouchStart L e data s)"
proof (cases "ParseTouchPointData L data (tick e)")
  case (Some p)
  let ?s1 = "s\<lparr>active_points := AList.update (ap_identifier p) p (active_points s)\<rparr>"
  show ?thesis
  proof (cases "map_of (active_points s) (ap_identifier p) = None \<and> length (active_points s) \<ge> kBlinkTouchPointsCap")
    case False
    then have "I ?s1"
      using I_set_point [OF assms, of p] by (meson not_le)
    moreover have "I (send_touch L e kTouchStart (ap_identifier p) kStatePressed None (touch_to_front v ?s1))" for v
      by (rule I_touched [OF I_touch_to_front]) (simp_all add: \<open>I ?s1\<close> dom_update)
    ultimately show ?thesis
      using Some assms by (simp add: DispatchTouchStart_def Let_def)
  qed (use Some assms in \<open>simp add: DispatchTouchStart_def\<close>)
qed (use assms in \<open>simp add: DispatchTouchStart_def\<close>)

lemma I_touch_move:
  assumes "I s"
  shows "I (DispatchTouchMove L e data s)"
proof (cases "ParseTouchPointData L data (tick e)")
  case (Some p)
  let ?s1 = "s\<lparr>active_points := AList.update (ap_identifier p) p (active_points s)\<rparr>"
  show ?thesis
  proof (cases "map_of (active_points s) (ap_identifier p) = None")
    case False
    have "I (send_touch L e kTouchMove (ap_identifier p) kStateMoved None ?s1)"
      by (rule I_touched [OF I_set_point [OF assms]])
        (simp_all add: False dom_update)
    then show ?thesis
      using Some assms by (simp add: DispatchTouchMove_def Let_def)
  qed (use Some assms in \<open>simp add: DispatchTouchMove_def\<close>)
qed (use assms in \<open>simp add: DispatchTouchMove_def\<close>)

lemma I_touch_end: "I s \<Longrightarrow> I (DispatchTouchEnd L e data cancel s)"
  by (simp add: DispatchTouchEnd_def I_lift split: option.split)

lemma I_drag:
  assumes "I s"
  shows "I (DispatchDragStart L e data s)" "I (DispatchDragOver L e data s)" "I (DispatchDrop L e data s)"
  using assms
  by (simp_all add: DispatchDragStart_def DispatchDragOver_def DispatchDrop_def Let_def
      I_drag_to_front I_drag_enter I_drag_move I_cached I_drag_drop split: View.split option.split)

lemma I_routed: "E e \<Longrightarrow> I s \<Longrightarrow> I (routed L e ty data s)"
  by (simp add: routed_def I_mouse I_keyboard I_compose I_commit I_cancel I_touch_start I_touch_move I_touch_end
      I_drag I_drag_end I_copy)

lemma I_task: "E (fst t) \<Longrightarrow> I s \<Longrightarrow> I (run_task L t s)"
  by (cases "(L, t, s)" rule: run_task.cases)
    (simp_all add: OnInputEvent_routed I_routed I_copied)

lemma I_run: "list_all (E \<circ> fst) ts \<Longrightarrow> I s \<Longrightarrow> I (fold (run_task L) ts s)"
  by (induction ts arbitrary: s) (simp_all add: I_task)

lemma I_reached: "list_all (E \<circ> fst) ts \<Longrightarrow> I (fold (run_task L) ts new_dispatcher)"
  by (rule I_run [OF _ I_new])

end

section \<open>Touch events\<close>

text \<open>The map of active fingers is visited once per finger, in some order.\<close>

definition visits_each_once :: "ChromiumLib \<Rightarrow> bool" where
  "visits_each_once L \<longleftrightarrow> (\<forall>l. mset (map_order L l) = mset l)"

text \<open>A touch event as Blink takes it: at most 16 points of different fingers, of which one changed.\<close>

definition wf_touch :: "TouchEvent \<Rightarrow> bool" where
  "wf_touch t \<longleftrightarrow> length (te_touches t) \<le> kBlinkTouchPointsCap \<and> distinct (map tp_id (te_touches t))
     \<and> length (filter (\<lambda>p. tp_state p \<noteq> kStateStationary) (te_touches t)) = 1"

definition wf_points :: "(int \<times> CbActiveTouchPoint) list \<Rightarrow> bool" where
  "wf_points ps \<longleftrightarrow> distinct (map fst ps) \<and> (\<forall>i p. map_of ps i = Some p \<longrightarrow> ap_identifier p = i)"

fun forwarded_ok :: "Forwarded \<Rightarrow> bool" where
  "forwarded_ok (Touch t) = wf_touch t"
| "forwarded_ok _ = True"

definition touch_ok :: "Dispatcher \<Rightarrow> bool" where
  "touch_ok s \<longleftrightarrow> length (active_points s) \<le> kBlinkTouchPointsCap \<and> wf_points (active_points s)
     \<and> list_all forwarded_ok (out s)"

definition touch_down_points ::
  "ChromiumLib \<Rightarrow> rat \<Rightarrow> int \<Rightarrow> TouchState \<Rightarrow> (int \<times> CbActiveTouchPoint) list \<Rightarrow> int list \<Rightarrow> TouchPoint list" where
  "touch_down_points L dsf changed st points ids =
     List.map_filter (\<lambda>i. map_option (\<lambda>p. FillWebTouchPoint L p (ContentToWidget L dsf (ap_x p) (ap_y p))
       (if i = changed then st else kStateStationary)) (map_of points i)) ids"

lemma touch_down_ids:
  assumes "wf_points points" "set ids \<subseteq> fst ` set points"
  shows "map tp_id (touch_down_points L dsf changed st points ids) = ids"
  using assms(2)
proof (induction ids)
  case (Cons i ids)
  then obtain p where p: "map_of points i = Some p"
    by (metis insert_subset list.simps(15) not_Some_eq map_of_eq_None_iff)
  then have "ap_identifier p = i"
    using assms(1) by (simp add: wf_points_def)
  with p Cons show ?case
    by (simp add: touch_down_points_def map_filter_simps FillWebTouchPoint_def)
qed (simp add: touch_down_points_def map_filter_simps)

lemma touch_down_changed:
  assumes "set ids \<subseteq> fst ` set points" "st \<noteq> kStateStationary"
  shows "length (filter (\<lambda>p. tp_state p \<noteq> kStateStationary) (touch_down_points L dsf changed st points ids))
    = count_list ids changed"
  using assms(1)
proof (induction ids)
  case (Cons i ids)
  then obtain p where p: "map_of points i = Some p"
    by (metis insert_subset list.simps(15) not_Some_eq map_of_eq_None_iff)
  with Cons assms(2) show ?case
    by (simp add: touch_down_points_def map_filter_simps FillWebTouchPoint_def)
qed (simp add: touch_down_points_def map_filter_simps)

lemma AssembleTouchEvent_touches:
  "AssembleTouchEvent L dsf kind changed st released now points = Some t \<Longrightarrow>
     te_touches t = touch_down_points L dsf changed st points (map_order L (map fst points))
       @ (case released of None \<Rightarrow> []
          | Some p \<Rightarrow> [FillWebTouchPoint L p (ContentToWidget L dsf (ap_x p) (ap_y p)) st])
     \<and> length points + (if released = None then 0 else 1) \<le> kBlinkTouchPointsCap"
  by (auto simp: AssembleTouchEvent_def touch_down_points_def Let_def split: if_splits)

lemma map_order_facts:
  assumes "visits_each_once L" "wf_points points"
  shows "set (map_order L (map fst points)) = fst ` set points" "distinct (map_order L (map fst points))"
    "length (map_order L (map fst points)) = length points"
proof -
  have m: "mset (map_order L (map fst points)) = mset (map fst points)"
    using assms(1) by (simp add: visits_each_once_def)
  show "set (map_order L (map fst points)) = fst ` set points"
    using mset_eq_setD [OF m] by simp
  show "distinct (map_order L (map fst points))"
    using mset_eq_imp_distinct_iff [OF m] assms(2) by (simp add: wf_points_def)
  show "length (map_order L (map fst points)) = length points"
    using mset_eq_length [OF m] by simp
qed

lemma count_list_distinct: "distinct xs \<Longrightarrow> x \<in> set xs \<Longrightarrow> count_list xs x = 1"
  by (induction xs) (auto simp: count_list_0_iff)

lemma wf_touch_down:
  assumes t: "AssembleTouchEvent L dsf kind changed st None now points = Some t"
    and "visits_each_once L" "wf_points points" "changed \<in> fst ` set points" "st \<noteq> kStateStationary"
  shows "wf_touch t"
proof -
  let ?ids = "map_order L (map fst points)"
  note ids = map_order_facts [OF assms(2,3)]
  note down = touch_down_ids [OF assms(3) equalityD1 [OF ids(1)], of L dsf changed st]
  have "count_list ?ids changed = 1"
    using count_list_distinct [of ?ids changed] ids assms(4) by simp
  with down touch_down_changed [OF equalityD1 [OF ids(1)] assms(5), of L dsf changed] AssembleTouchEvent_touches [OF t] ids
  show ?thesis
    by (simp add: wf_touch_def) (metis ids(3) length_map)
qed

lemma wf_touch_lifted:
  assumes t: "AssembleTouchEvent L dsf kind i st (Some p) now points = Some t"
    and "visits_each_once L" "wf_points points" "i \<notin> fst ` set points" "ap_identifier p = i" "st \<noteq> kStateStationary"
  shows "wf_touch t"
proof -
  let ?ids = "map_order L (map fst points)"
  note ids = map_order_facts [OF assms(2,3)]
  note down = touch_down_ids [OF assms(3) equalityD1 [OF ids(1)], of L dsf i st]
  have "count_list ?ids i = 0"
    using ids(1) assms(4) by (simp add: count_list_0_iff)
  with down touch_down_changed [OF equalityD1 [OF ids(1)] assms(6), of L dsf i] AssembleTouchEvent_touches [OF t] ids assms(4-6)
  show ?thesis
    by (simp add: wf_touch_def FillWebTouchPoint_def) (metis Suc_eq_plus1 ids(3) length_map)
qed

lemma wf_points_update: "wf_points ps \<Longrightarrow> wf_points (AList.update (ap_identifier p) p ps)"
  by (simp add: wf_points_def distinct_update update_conv')

lemma wf_points_delete: "wf_points ps \<Longrightarrow> wf_points (AList.delete i ps)"
  by (simp add: wf_points_def distinct_delete delete_conv')

lemma length_AList_update:
  "length (AList.update k v ps) = (if k \<in> fst ` set ps then length ps else Suc (length ps))"
  by (induction ps) auto

lemma send_touch_fields [simp]:
  "active_points (send_touch L e kind i st r s) = active_points s" "held_modifiers_blink (send_touch L e kind i st r s) = held_modifiers_blink s"
  "drag_phase (send_touch L e kind i st r s) = drag_phase s" "held_buttons_blink (send_touch L e kind i st r s) = held_buttons_blink s"
  by (simp_all add: send_touch_def forward_touch_def split: View.split option.split)

lemma send_touch_out:
  obtains "out (send_touch L e kind i st r s) = out s"
  | dsf t where "AssembleTouchEvent L dsf kind i st r (tick e) (active_points s) = Some t"
      "out (send_touch L e kind i st r s) = out s @ [Touch t]"
proof (cases "active_view e")
  case (Widget dsf)
  then show ?thesis
    using that by (cases "AssembleTouchEvent L dsf kind i st r (tick e) (active_points s)")
      (simp_all add: send_touch_def forward_touch_def)
qed (use that(1) in \<open>simp_all add: send_touch_def\<close>)

lemma touch_ok_touched:
  assumes "touch_ok s" "visits_each_once L" "i \<in> fst ` set (active_points s)" "st \<noteq> kStateStationary"
  shows "touch_ok (send_touch L e kind i st None s)"
  using assms
  by (cases rule: send_touch_out [of L e kind i st None s]) (auto simp: touch_ok_def wf_touch_down)

lemma touch_ok_lift:
  assumes "touch_ok s" "visits_each_once L" "map_of (active_points s) i = Some p" "st \<noteq> kStateStationary"
  shows "touch_ok (send_touch L e kind i st (Some p) (s\<lparr>active_points := AList.delete i (active_points s)\<rparr>))"
proof -
  let ?ps = "AList.delete i (active_points s)"
  have pts: "wf_points (active_points s)" "length (active_points s) \<le> kBlinkTouchPointsCap"
    using assms(1) by (simp_all add: touch_ok_def)
  have "ap_identifier p = i"
    using pts(1) assms(3) by (simp add: wf_points_def)
  with pts have ps: "wf_points ?ps" "ap_identifier p = i" "length ?ps \<le> kBlinkTouchPointsCap"
    using length_delete_le [of i "active_points s"] by (auto intro: wf_points_delete)
  have notin: "i \<notin> fst ` set ?ps"
    by (auto simp: AList.delete_eq)
  show ?thesis
  proof (cases rule: send_touch_out [of L e kind i st "Some p" "s\<lparr>active_points := ?ps\<rparr>"])
    case 1
    with assms(1) ps show ?thesis by (simp add: touch_ok_def)
  next
    case (2 dsf t)
    then have "wf_touch t"
      using wf_touch_lifted assms(2,4) ps notin by simp
    with 2 assms(1) ps show ?thesis by (simp add: touch_ok_def)
  qed
qed

lemma touch_ok_set_point:
  assumes "touch_ok s"
    "map_of (active_points s) (ap_identifier p) \<noteq> None \<or> length (active_points s) < kBlinkTouchPointsCap"
  shows "touch_ok (s\<lparr>active_points := AList.update (ap_identifier p) p (active_points s)\<rparr>)"
  using assms by (auto simp: touch_ok_def wf_points_update length_AList_update map_of_eq_None_iff)

lemmas action_defs = mouse_move_to_def mouse_press_def mouse_wheel_by_def key_event_def DispatchCompositionUpdate_def
  DispatchCompositionEnd_def DispatchCompositionCancel_def drag_enter_def drag_move_def drag_drop_def drag_leave_def
  DispatchDragEnd_def DispatchCopy_def Let_def

lemma touch_ok_new: "touch_ok new_dispatcher"
  by (simp add: touch_ok_def new_dispatcher_def wf_points_def)

lemma touch_ok_actions:
  assumes "touch_ok s"
  shows "touch_ok (s\<lparr>copy_gestures := n\<rparr>)" "touch_ok (mouse_to_front v s)" "touch_ok (touch_to_front v s)"
    "touch_ok (drag_to_front v s)" "touch_ok (mouse_move_to L dsf now x y s)"
    "touch_ok (mouse_press L dsf now b pressed x y s)"
    "touch_ok (s\<lparr>cached_items := items, cached_types := types\<rparr>)"
    "touch_ok (drag_move L dsf x y s)" "touch_ok (drag_drop L dsf x y s)"
  using assms
  by (simp_all add: touch_ok_def action_defs mouse_to_front_def touch_to_front_def drag_to_front_def bring_to_front_def
      forward_event_def update_pointer_def)

lemma touch_ok_drag:
  assumes "touch_ok s"
  shows "touch_ok (drag_enter L dsf x y items types s)" "touch_ok (DispatchDragEnd e data s)"
  using assms
  by (simp_all add: touch_ok_def action_defs forward_event_def split: CbDragPhase.split View.split)

lemma touch_ok_text:
  assumes "touch_ok s"
  shows "touch_ok (DispatchCompositionUpdate L e data s)" "touch_ok (DispatchCompositionEnd L e data s)"
    "touch_ok (DispatchCompositionCancel e s)" "touch_ok (DispatchCopy e s)"
  using assms by (simp_all add: touch_ok_def action_defs forward_event_def split: View.split)

lemma touch_ok_wheel: "touch_ok s \<Longrightarrow> touch_ok (mouse_wheel_by L dsf now dx dy scale x y phase momentum s)"
  by (simp add: touch_ok_def mouse_wheel_by_def Let_def)

lemma touch_ok_key: "touch_ok s \<Longrightarrow> touch_ok (key_event L now key code mods pressed s)"
  by (simp add: touch_ok_def key_event_def Let_def split: option.split)

interpretation touches: dispatcher_invariant L "\<lambda>e. True" "\<lambda>s. visits_each_once L \<longrightarrow> touch_ok s" for L
  by unfold_locales
    (blast intro: touch_ok_new touch_ok_actions touch_ok_drag touch_ok_text touch_ok_wheel touch_ok_key
      touch_ok_set_point touch_ok_touched touch_ok_lift)+

section \<open>Modifiers\<close>

definition key_modifiers :: "Modifier set" where
  "key_modifiers = {kShiftKey, kControlKey, kAltKey, kMetaKey}"

fun pointer_modifiers :: "Forwarded \<Rightarrow> Modifier set" where
  "pointer_modifiers (Mouse m) = me_modifiers m"
| "pointer_modifiers (Wheel w) = we_modifiers w"
| "pointer_modifiers (DragTargetDragEnter d x y ops m) = m"
| "pointer_modifiers (DragTargetDragOver x y ops m) = m"
| "pointer_modifiers (DragTargetDrop d x y m) = m"
| "pointer_modifiers _ = {}"

definition unmodified :: "Dispatcher \<Rightarrow> bool" where
  "unmodified s \<longleftrightarrow> held_modifiers_blink s = {} \<and> held_buttons_blink s \<inter> key_modifiers = {}
     \<and> list_all (\<lambda>f. pointer_modifiers f \<inter> key_modifiers = {}) (out s)"

lemma held_bit_apart [simp]: "ProtocolButtonToBlinkHeldBit b \<inter> key_modifiers = {}"
  by (simp add: ProtocolButtonToBlinkHeldBit_def key_modifiers_def)

lemma unmodified_front:
  assumes "unmodified s"
  shows "unmodified (s\<lparr>copy_gestures := n\<rparr>)" "unmodified (mouse_to_front v s)" "unmodified (touch_to_front v s)"
    "unmodified (drag_to_front v s)" "unmodified (s\<lparr>cached_items := items, cached_types := types\<rparr>)"
    "unmodified (s\<lparr>active_points := ps\<rparr>)"
  using assms
  by (simp_all add: unmodified_def mouse_to_front_def touch_to_front_def drag_to_front_def bring_to_front_def forward_event_def Let_def)

lemma unmodified_mouse:
  assumes "unmodified s"
  shows "unmodified (mouse_move_to L dsf now x y s)" "unmodified (mouse_press L dsf now b pressed x y s)"
    "unmodified (mouse_wheel_by L dsf now dx dy scale x y phase momentum s)"
proof -
  have "(held_buttons_blink s - ProtocolButtonToBlinkHeldBit b) \<inter> key_modifiers = {}"
    using assms by (auto simp: unmodified_def)
  then show "unmodified (mouse_move_to L dsf now x y s)" "unmodified (mouse_press L dsf now b pressed x y s)"
    "unmodified (mouse_wheel_by L dsf now dx dy scale x y phase momentum s)"
    using assms
    by (simp_all add: unmodified_def mouse_move_to_def mouse_press_def mouse_wheel_by_def wheel_event_def Let_def Int_Un_distrib2)
qed

lemma unmodified_text:
  assumes "unmodified s"
  shows "unmodified (DispatchCompositionUpdate L e data s)" "unmodified (DispatchCompositionEnd L e data s)"
    "unmodified (DispatchCompositionCancel e s)" "unmodified (DispatchCopy e s)"
    "unmodified (key_event L now key code mods pressed s)" "unmodified (send_touch L e kind i st r s)"
  using assms
  by (simp_all add: unmodified_def action_defs forward_event_def send_touch_def forward_touch_def split: View.split option.split)

lemma unmodified_drag:
  assumes "unmodified s"
  shows "unmodified (drag_enter L dsf x y items types s)" "unmodified (drag_move L dsf x y s)"
    "unmodified (drag_drop L dsf x y s)" "unmodified (DispatchDragEnd e data s)"
  using assms
  by (simp_all add: unmodified_def action_defs CurrentModifiersBlink_def forward_event_def split: CbDragPhase.split View.split)

interpretation pointer: dispatcher_invariant L "\<lambda>e. True" unmodified for L
proof unfold_locales
  show "unmodified new_dispatcher"
    by (simp add: unmodified_def new_dispatcher_def)
qed (blast intro: unmodified_front unmodified_mouse unmodified_text unmodified_drag)+

section \<open>Drags\<close>

text \<open>
  What the renderer sees of a drag: it is inside a drag from an enter to a leave or a drop.
  \<open>None\<close> stands for an enter inside a drag, or a move outside one.
\<close>

fun drag_view :: "Forwarded \<Rightarrow> bool option \<Rightarrow> bool option" where
  "drag_view (DragTargetDragEnter d x y ops m) v = (if v = Some False then Some True else None)"
| "drag_view (DragTargetDragOver x y ops m) v = (if v = Some True then v else None)"
| "drag_view (DragTargetDrop d x y m) v = map_option (\<lambda>_. False) v"
| "drag_view (DragTargetDragLeave x y) v = map_option (\<lambda>_. False) v"
| "drag_view _ v = v"

definition drag_seen :: "Forwarded list \<Rightarrow> bool option" where
  "drag_seen l = fold drag_view l (Some False)"

definition drag_ok :: "Dispatcher \<Rightarrow> bool" where
  "drag_ok s \<longleftrightarrow> drag_seen (out s) = Some (drag_phase s = kActive)"

lemma drag_seen_simps [simp]: "drag_seen [] = Some False" "drag_seen (l @ l') = fold drag_view l' (drag_seen l)"
  by (simp_all add: drag_seen_def)

definition has_widget :: "Target \<Rightarrow> bool" where
  "has_widget e \<longleftrightarrow> (case active_view e of Widget dsf \<Rightarrow> True | _ \<Rightarrow> False)"

lemma drag_ok_front:
  assumes "drag_ok s"
  shows "drag_ok (s\<lparr>copy_gestures := n\<rparr>)" "drag_ok (mouse_to_front v s)" "drag_ok (touch_to_front v s)"
    "drag_ok (drag_to_front v s)" "drag_ok (s\<lparr>cached_items := items, cached_types := types\<rparr>)"
    "drag_ok (s\<lparr>active_points := ps\<rparr>)"
  using assms
  by (simp_all add: drag_ok_def mouse_to_front_def touch_to_front_def drag_to_front_def bring_to_front_def forward_event_def Let_def)

lemma drag_ok_mouse:
  assumes "drag_ok s"
  shows "drag_ok (mouse_move_to L dsf now x y s)" "drag_ok (mouse_press L dsf now b pressed x y s)"
    "drag_ok (mouse_wheel_by L dsf now dx dy scale x y phase momentum s)"
  using assms by (simp_all add: drag_ok_def mouse_move_to_def mouse_press_def mouse_wheel_by_def Let_def)

lemma drag_ok_text:
  assumes "drag_ok s"
  shows "drag_ok (DispatchCompositionUpdate L e data s)" "drag_ok (DispatchCompositionEnd L e data s)"
    "drag_ok (DispatchCompositionCancel e s)" "drag_ok (DispatchCopy e s)"
    "drag_ok (key_event L now key code mods pressed s)" "drag_ok (send_touch L e kind i st r s)"
  using assms
  by (simp_all add: drag_ok_def action_defs forward_event_def send_touch_def forward_touch_def split: View.split option.split)

lemma drag_ok_drag:
  assumes "drag_ok s"
  shows "drag_ok (drag_enter L dsf x y items types s)" "drag_phase s = kActive \<Longrightarrow> drag_ok (drag_move L dsf x y s)"
    "drag_ok (drag_drop L dsf x y s)" "has_widget e \<Longrightarrow> drag_ok (DispatchDragEnd e data s)"
  using assms
  by (simp_all add: drag_ok_def action_defs forward_event_def has_widget_def split: CbDragPhase.split View.split)

interpretation drags: dispatcher_invariant L has_widget drag_ok for L
proof unfold_locales
  show "drag_ok new_dispatcher"
    by (simp add: drag_ok_def new_dispatcher_def)
qed (blast intro: drag_ok_front drag_ok_mouse drag_ok_text drag_ok_drag)+

section \<open>Fingers and buttons\<close>

text \<open>The fingers and buttons a dispatcher tracks after an envelope.\<close>

lemma DispatchTouchStart_points:
  "active_points (DispatchTouchStart L e data s) =
     (case ParseTouchPointData L data (tick e) of
        None \<Rightarrow> active_points s
      | Some p \<Rightarrow>
          if map_of (active_points s) (ap_identifier p) = None \<and> length (active_points s) \<ge> kBlinkTouchPointsCap
          then active_points s else AList.update (ap_identifier p) p (active_points s))"
  by (simp add: DispatchTouchStart_def Let_def split: option.split)

lemma DispatchTouchMove_points:
  "active_points (DispatchTouchMove L e data s) =
     (case ParseTouchPointData L data (tick e) of
        None \<Rightarrow> active_points s
      | Some p \<Rightarrow>
          if map_of (active_points s) (ap_identifier p) = None then active_points s
          else AList.update (ap_identifier p) p (active_points s))"
  by (simp add: DispatchTouchMove_def Let_def split: option.split)

lemma DispatchTouchEnd_points:
  "active_points (DispatchTouchEnd L e data cancel s) =
     (case FindInt data ''identifier'' of
        None \<Rightarrow> active_points s
      | Some i \<Rightarrow>
          (case map_of (active_points s) i of None \<Rightarrow> active_points s
           | Some p \<Rightarrow> AList.delete i (active_points s)))"
  by (simp add: DispatchTouchEnd_def split: option.split)

lemma mouse_actions_points [simp]:
  "active_points (mouse_move_to L dsf now x y s) = active_points s"
  "active_points (mouse_press L dsf now b pressed x y s) = active_points s"
  "active_points (mouse_wheel_by L dsf now dx dy scale x y phase m s) = active_points s"
  by (simp_all add: mouse_move_to_def mouse_press_def mouse_wheel_by_def Let_def)

lemma mouse_actions_buttons [simp]:
  "held_buttons_blink (mouse_move_to L dsf now x y s) = held_buttons_blink s"
  "held_buttons_blink (mouse_press L dsf now b pressed x y s) =
     (if pressed then held_buttons_blink s \<union> ProtocolButtonToBlinkHeldBit b
      else held_buttons_blink s - ProtocolButtonToBlinkHeldBit b)"
  "held_buttons_blink (mouse_wheel_by L dsf now dx dy scale x y phase m s) = held_buttons_blink s"
  by (simp_all add: mouse_move_to_def mouse_press_def mouse_wheel_by_def Let_def)

lemma mouse_points [simp]:
  "active_points (DispatchMouseMove L e data s) = active_points s"
  "active_points (DispatchMouseButton L e data s) = active_points s"
  "active_points (DispatchMouseWheel L e data s) = active_points s"
  by (simp_all add: DispatchMouseMove_def DispatchMouseButton_def DispatchMouseWheel_def Let_def split: View.split option.split)

lemma mouse_buttons [simp]:
  "held_buttons_blink (DispatchMouseMove L e data s) = held_buttons_blink s"
  "held_buttons_blink (DispatchMouseWheel L e data s) = held_buttons_blink s"
  by (simp_all add: DispatchMouseMove_def DispatchMouseWheel_def Let_def split: View.split option.split)

lemma key_event_fields [simp]:
  "active_points (key_event L now key code mods pressed s) = active_points s"
  "held_buttons_blink (key_event L now key code mods pressed s) = held_buttons_blink s"
  by (simp_all add: key_event_def Let_def split: option.split)

lemma text_fields [simp]:
  "active_points (DispatchKey L e data pressed s) = active_points s"
  "held_buttons_blink (DispatchKey L e data pressed s) = held_buttons_blink s"
  "active_points (DispatchCompositionUpdate L e data s) = active_points s"
  "held_buttons_blink (DispatchCompositionUpdate L e data s) = held_buttons_blink s"
  "active_points (DispatchCompositionEnd L e data s) = active_points s"
  "held_buttons_blink (DispatchCompositionEnd L e data s) = held_buttons_blink s"
  "active_points (DispatchCompositionCancel e s) = active_points s"
  "held_buttons_blink (DispatchCompositionCancel e s) = held_buttons_blink s"
  "active_points (DispatchCopy e s) = active_points s"
  "held_buttons_blink (DispatchCopy e s) = held_buttons_blink s"
  by (simp_all add: DispatchKey_def DispatchCompositionUpdate_def DispatchCompositionEnd_def DispatchCompositionCancel_def
      DispatchCopy_def Let_def split: View.split)

lemma touch_buttons [simp]:
  "held_buttons_blink (DispatchTouchStart L e data s) = held_buttons_blink s"
  "held_buttons_blink (DispatchTouchMove L e data s) = held_buttons_blink s"
  "held_buttons_blink (DispatchTouchEnd L e data cancel s) = held_buttons_blink s"
  by (simp_all add: DispatchTouchStart_def DispatchTouchMove_def DispatchTouchEnd_def Let_def split: option.split)

lemma drag_actions_fields [simp]:
  "active_points (drag_enter L dsf x y items types s) = active_points s"
  "held_buttons_blink (drag_enter L dsf x y items types s) = held_buttons_blink s"
  "active_points (drag_move L dsf x y s) = active_points s" "held_buttons_blink (drag_move L dsf x y s) = held_buttons_blink s"
  "active_points (drag_drop L dsf x y s) = active_points s" "held_buttons_blink (drag_drop L dsf x y s) = held_buttons_blink s"
  by (simp_all add: drag_enter_def drag_move_def drag_drop_def drag_leave_def Let_def)

lemma drag_fields [simp]:
  "active_points (DispatchDragStart L e data s) = active_points s"
  "held_buttons_blink (DispatchDragStart L e data s) = held_buttons_blink s"
  "active_points (DispatchDragOver L e data s) = active_points s"
  "held_buttons_blink (DispatchDragOver L e data s) = held_buttons_blink s"
  "active_points (DispatchDrop L e data s) = active_points s"
  "held_buttons_blink (DispatchDrop L e data s) = held_buttons_blink s"
  "active_points (DispatchDragEnd e data s) = active_points s"
  "held_buttons_blink (DispatchDragEnd e data s) = held_buttons_blink s"
  by (simp_all add: DispatchDragStart_def DispatchDragOver_def DispatchDrop_def DispatchDragEnd_def drag_leave_def Let_def
      split: View.split option.split CbDragPhase.split)

lemma routed_buttons:
  assumes "ty \<noteq> ''mouse_button''"
  shows "held_buttons_blink (routed L e ty data s) = held_buttons_blink s"
  using assms by (simp add: routed_def)

lemma routed_points:
  assumes "ty \<noteq> ''touch_start''" "ty \<noteq> ''touch_move''" "ty \<noteq> ''touch_end''" "ty \<noteq> ''touch_cancel''"
  shows "active_points (routed L e ty data s) = active_points s"
  using assms by (simp add: routed_def)

lemma routed_touch [simp]:
  "routed L e ''touch_start'' data s = DispatchTouchStart L e data s"
  "routed L e ''touch_move'' data s = DispatchTouchMove L e data s"
  "routed L e ''touch_end'' data s = DispatchTouchEnd L e data False s"
  "routed L e ''touch_cancel'' data s = DispatchTouchEnd L e data True s"
  by (simp_all add: routed_def)

lemma routed_button [simp]: "routed L e ''mouse_button'' data s = DispatchMouseButton L e data s"
  by (simp add: routed_def)

section \<open>What the page receives\<close>

text \<open>A library for the examples: exact numbers, bytes as UTF-16, the map in insertion order.\<close>

definition demo_lib :: ChromiumLib where
  "demo_lib = \<lparr>to_float = (\<lambda>r. r), UTF8ToUTF16 = map of_char, kTextLengthCap = 4, CodeStringToDomCode = (\<lambda>c. 0),
     KeyStringToDomKey = (\<lambda>k. 0), map_order = (\<lambda>l. l), modifier_mask = (\<lambda>m. 0), FilterDropData = (\<lambda>d. d)\<rparr>"

definition demo_target :: "int \<Rightarrow> Target" where
  "demo_target now = \<lparr>active_view = Widget 1, focused_frame = None, main_frame = Some True, tick = now\<rparr>"

definition demo_task :: "int \<Rightarrow> string \<Rightarrow> json_dict \<Rightarrow> Target \<times> input_task" where
  "demo_task now ty data = (demo_target now, Dispatch \<lparr>ie_type = ty, ie_t = now, ie_seq = now, ie_data = data\<rparr>)"

definition pos_data :: "int \<Rightarrow> int \<Rightarrow> json_dict" where
  "pos_data x y = [(''x'', JInt x), (''y'', JInt y)]"

text \<open>The dispatcher after a list of frames.\<close>

definition dispatched :: "ChromiumLib \<Rightarrow> (Target \<times> input_task) list \<Rightarrow> Dispatcher" where
  "dispatched L ts = fold (run_task L) ts new_dispatcher"

lemma demo_lib_order: "visits_each_once demo_lib"
  by (simp add: visits_each_once_def demo_lib_def)

lemma run_task_routed:
  "ty \<noteq> ''key_down'' \<Longrightarrow> ty \<noteq> ''clipboard_copy_request'' \<Longrightarrow>
     run_task L (demo_task now ty data) s = routed L (demo_target now) ty data s"
  by (simp add: demo_task_def OnInputEvent_routed IsCopyGesture_def)

text \<open>
  C9. Whatever frames arrive, and whatever the browser has to dispatch into, the worker tracks at
  most sixteen fingers, each once, and every touch event it forwards is one Blink takes: at most
  sixteen points of different fingers, of which exactly one changed. The map of fingers may be
  visited in any order.
\<close>

theorem touch_events_wellformed:
  assumes "visits_each_once L"
  shows "length (active_points (dispatched L ts)) \<le> 16 \<and> distinct (map fst (active_points (dispatched L ts)))
    \<and> (\<forall>t. List.member (out (dispatched L ts)) (Touch t) \<longrightarrow>
         length (te_touches t) \<le> 16 \<and> distinct (map tp_id (te_touches t))
         \<and> length (filter (\<lambda>p. tp_state p \<noteq> kStateStationary) (te_touches t)) = 1)"
proof -
  have "touch_ok (dispatched L ts)"
    using touches.I_reached [of ts L] assms by (simp add: dispatched_def list_all_iff)
  then show ?thesis
    by (auto simp: touch_ok_def wf_points_def wf_touch_def kBlinkTouchPointsCap_def list_all_iff dest!: bspec)
qed

definition two_fingers :: "(Target \<times> input_task) list" where
  "two_fingers = [demo_task 1 ''touch_start'' ((''identifier'', JInt 7) # pos_data 10 20),
     demo_task 2 ''touch_start'' ((''identifier'', JInt 3) # pos_data 30 40),
     demo_task 3 ''touch_end'' [(''identifier'', JInt 7)]]"

theorem touch_events_wellformed_witness:
  "visits_each_once demo_lib
   \<and> length (active_points (dispatched demo_lib two_fingers)) \<le> 16
   \<and> distinct (map fst (active_points (dispatched demo_lib two_fingers)))
   \<and> map fst (active_points (dispatched demo_lib two_fingers)) = [3]"
proof -
  have "map fst (active_points (dispatched demo_lib two_fingers)) = [3]"
    by (simp add: two_fingers_def dispatched_def run_task_routed DispatchTouchStart_points DispatchTouchEnd_points
        ParseTouchPointData_def pos_data_def new_dispatcher_def kBlinkTouchPointsCap_def)
  then show ?thesis
    using touch_events_wellformed [OF demo_lib_order, of two_fingers] demo_lib_order by blast
qed

text \<open>
  C10. As long as there is a widget to dispatch into, the drag the page sees is well formed
  whatever order the viewer's drag envelopes arrive in: no enter while a drag is inside the
  page, and moves only between an enter and its leave or drop.
\<close>

theorem drags_bracketed:
  assumes "list_all (has_widget \<circ> fst) ts"
  shows "drag_seen (out (dispatched L ts)) \<noteq> None"
  using drags.I_reached [OF assms, of L] by (simp add: dispatched_def drag_ok_def)

definition two_drags :: "(Target \<times> input_task) list" where
  "two_drags = [demo_task 1 ''drag_over'' (pos_data 1 1), demo_task 2 ''drag_start'' (pos_data 10 20), demo_task 3 ''drag_over'' (pos_data 11 20),
     demo_task 4 ''drag_start'' (pos_data 30 40), demo_task 5 ''drop'' (pos_data 30 41), demo_task 6 ''drag_end'' [(''success'', JBool True)]]"

theorem drags_bracketed_witness:
  "list_all (has_widget \<circ> fst) two_drags \<and> drag_seen (out (dispatched demo_lib two_drags)) \<noteq> None"
proof -
  have "list_all (has_widget \<circ> fst) two_drags"
    by (simp add: two_drags_def demo_task_def demo_target_def has_widget_def)
  then show ?thesis
    using drags_bracketed by blast
qed

text \<open>
  C33. A press, a move, a wheel turn or a drag never carries Shift, Control, Alt or Meta to the
  page, even while the keyboard dispatcher records the key as held: the mouse dispatcher's own
  modifier state is never set.
\<close>

theorem pointer_without_modifiers:
  "list_all (\<lambda>f. pointer_modifiers f \<inter> {kShiftKey, kControlKey, kAltKey, kMetaKey} = {})
     (out (dispatched L ts))
   \<and> kShiftKey \<in> shared_modifiers
       (dispatched L [demo_task 1 ''key_down'' [(''code'', JString ''ShiftLeft''), (''key'', JString ''Shift'')]])"
proof
  show "list_all (\<lambda>f. pointer_modifiers f \<inter> {kShiftKey, kControlKey, kAltKey, kMetaKey} = {})
     (out (dispatched L ts))"
    using pointer.I_reached [of ts L] by (simp add: dispatched_def unmodified_def key_modifiers_def list_all_iff)
  show "kShiftKey \<in> shared_modifiers
       (dispatched L [demo_task 1 ''key_down'' [(''code'', JString ''ShiftLeft''), (''key'', JString ''Shift'')]])"
    by (simp add: dispatched_def demo_task_def OnInputEvent_routed IsCopyGesture_def routed_def DispatchKey_def demo_target_def
        key_event_def KeyToBlinkModifier_def Let_def split: option.split)
qed

end
