(* ===== verification/Cb_Json.thy ===== *)
theory Cb_Json
  imports Cb_Prelude
begin

text \<open>
  JSON between the two programs. The text is a parameter of the models; this theory says what
  one side reads of a value the other side wrote, and which accessors are not affected.
\<close>

section \<open>From the viewer to the worker\<close>

definition int32 :: "int \<Rightarrow> bool" where
  "int32 i \<longleftrightarrow> - (2 ^ 31) \<le> i \<and> i < 2 ^ 31"

text \<open>
  What Chromium's reader makes of a value that \<^verbatim>\<open>JSON.stringify\<close> wrote: a number is an integer
  when it is integral and fits 32 bits, and a double otherwise.
\<close>

fun as_read :: "json \<Rightarrow> json" where
  "as_read (JInt i) = (if int32 i then JInt i else JDouble (of_int i))"
| "as_read (JDouble r) = (if of_int \<lfloor>r\<rfloor> = r \<and> int32 \<lfloor>r\<rfloor> then JInt \<lfloor>r\<rfloor> else JDouble r)"
| "as_read (JList l) = JList (map as_read l)"
| "as_read (JDict d) = JDict (map (\<lambda>p. (fst p, as_read (snd p))) d)"
| "as_read v = v"

definition as_read_dict :: "json_dict \<Rightarrow> json_dict" where
  "as_read_dict d = map (\<lambda>p. (fst p, as_read (snd p))) d"

definition reads_json :: "('t \<Rightarrow> json option) \<Rightarrow> (json \<Rightarrow> 't) \<Rightarrow> bool" where
  "reads_json read_json stringify \<longleftrightarrow> (\<forall>v. read_json (stringify v) = Some (as_read v))"

lemma Find_as_read: "Find (as_read_dict d) k = map_option as_read (Find d k)"
  by (induction d) (auto simp: as_read_dict_def Find_def)

lemma FindString_as_read: "FindString (as_read_dict d) k = FindString d k"
proof (cases "Find d k")
  case (Some v)
  then show ?thesis
    by (cases v) (simp_all add: FindString_def Find_as_read GetIfString_def)
qed (simp add: FindString_def Find_as_read)

lemma FindBool_as_read: "FindBool (as_read_dict d) k = FindBool d k"
proof (cases "Find d k")
  case (Some v)
  then show ?thesis
    by (cases v) (simp_all add: FindBool_def Find_as_read GetIfBool_def)
qed (simp add: FindBool_def Find_as_read)

lemma FindDict_Cons [simp]: "FindDict ((k', v) # d) k = (if k = k' then GetIfDict v else FindDict d k)"
  by (simp add: FindDict_def)

lemma FindDict_as_read: "FindDict (as_read_dict d) k = map_option as_read_dict (FindDict d k)"
proof (cases "Find d k")
  case (Some v)
  then show ?thesis
    by (cases v) (simp_all add: FindDict_def Find_as_read GetIfDict_def, simp add: as_read_dict_def)
qed (simp add: FindDict_def Find_as_read)

lemma as_read_JDict: "as_read (JDict d) = JDict (as_read_dict d)"
  by (simp add: as_read_dict_def)

section \<open>From the worker to the viewer\<close>

text \<open>\<^verbatim>\<open>JSON.parse\<close> knows one kind of number; \<open>rnd\<close> takes a number to the nearest double.\<close>

fun js_value :: "(rat \<Rightarrow> rat) \<Rightarrow> json \<Rightarrow> json" where
  "js_value rnd (JInt i) = JDouble (rnd (of_int i))"
| "js_value rnd (JDouble r) = JDouble (rnd r)"
| "js_value rnd (JList l) = JList (map (js_value rnd) l)"
| "js_value rnd (JDict d) = JDict (map (\<lambda>p. (fst p, js_value rnd (snd p))) d)"
| "js_value rnd v = v"

definition js_dict :: "(rat \<Rightarrow> rat) \<Rightarrow> json_dict \<Rightarrow> json_dict" where
  "js_dict rnd d = map (\<lambda>p. (fst p, js_value rnd (snd p))) d"

definition parses_json :: "(rat \<Rightarrow> rat) \<Rightarrow> ('t \<Rightarrow> json option) \<Rightarrow> (json \<Rightarrow> 't option) \<Rightarrow> bool" where
  "parses_json rnd parse wr \<longleftrightarrow> rnd 1 = 1 \<and> (\<forall>v t. wr v = Some t \<longrightarrow> parse t = Some (js_value rnd v))"

lemma Find_js: "Find (js_dict rnd d) k = map_option (js_value rnd) (Find d k)"
  by (induction d) (auto simp: js_dict_def Find_def)

lemma FindString_js [simp]: "FindString (js_dict rnd d) k = FindString d k"
proof (cases "Find d k")
  case (Some v)
  then show ?thesis
    by (cases v) (simp_all add: FindString_def Find_js GetIfString_def)
qed (simp add: FindString_def Find_js)

lemma FindBool_js [simp]: "FindBool (js_dict rnd d) k = FindBool d k"
proof (cases "Find d k")
  case (Some v)
  then show ?thesis
    by (cases v) (simp_all add: FindBool_def Find_js GetIfBool_def)
qed (simp add: FindBool_def Find_js)

lemma js_value_JDict: "js_value rnd (JDict d) = JDict (js_dict rnd d)"
  by (simp add: js_dict_def)

lemma FindDict_js: "FindDict (js_dict rnd d) k = map_option (js_dict rnd) (FindDict d k)"
proof (cases "Find d k")
  case (Some v)
  then show ?thesis
    by (cases v) (simp_all add: FindDict_def Find_js GetIfDict_def, simp add: js_dict_def)
qed (simp add: FindDict_def Find_js)

lemma js_value_strings [simp]: "js_value rnd (JList (map JString l)) = JList (map JString l)"
  by simp

end
