(* ===== verification/Cb_Input.thy ===== *)
theory Cb_Input
  imports Cb_Input_Channel Cb_Input_Worker Cb_Json
begin

text \<open>
  The input channel end to end: the viewer's frames as JSON text, read and dispatched by the
  worker. The text is a parameter: \<open>reads_json\<close> says what Chromium's reader makes of a value the
  viewer wrote.
\<close>

section \<open>The wire\<close>

text \<open>The object an envelope is on the wire.\<close>

definition frame_json :: "ViewerEnvelope \<Rightarrow> json" where
  "frame_json f = JDict [(''v'', JInt 1), (''type'', JString (ve_type f)), (''t'', JInt (ve_t f)),
     (''seq'', JInt (int (ve_seq f))), (''data'', JDict (ve_data f))]"

text \<open>Its numbers are ones the worker reads: times and sequence numbers up to \<open>2^53 - 1\<close>, 32-bit data.\<close>

definition top_ints :: "json_dict \<Rightarrow> bool" where
  "top_ints d \<longleftrightarrow> list_all (\<lambda>p. case snd p of JInt i \<Rightarrow> int32 i | _ \<Rightarrow> True) d"

definition frame_fits :: "ViewerEnvelope \<Rightarrow> bool" where
  "frame_fits f \<longleftrightarrow> \<bar>ve_t f\<bar> \<le> 9007199254740991 \<and> int (ve_seq f) \<le> 9007199254740991
     \<and> List.member kKnownInputTypes (ve_type f) \<and> top_ints (ve_data f)"

lemma top_ints_Find: "top_ints d \<Longrightarrow> Find d k = Some (JInt i) \<Longrightarrow> int32 i"
  by (induction d) (auto simp: top_ints_def Find_def split: if_splits)

text \<open>Fields that are integers or strings on the wire are read as they were sent.\<close>

lemma FindInt_as_read:
  assumes "top_ints d" "\<And>r. Find d k \<noteq> Some (JDouble r)"
  shows "FindInt (as_read_dict d) k = FindInt d k"
proof (cases "Find d k")
  case (Some v)
  then show ?thesis
    using assms top_ints_Find [OF assms(1), of k]
    by (cases v) (simp_all add: FindInt_def Find_as_read GetIfInt_def)
qed (simp add: FindInt_def Find_as_read)

lemma FindSafeJsonInteger_read:
  assumes "\<bar>i\<bar> \<le> 9007199254740991" "Find d k = Some (as_read (JInt i))"
  shows "FindSafeJsonInteger d k = Some i"
proof -
  have "- (9007199254740991 :: rat) \<le> of_int i" "(of_int i :: rat) \<le> 9007199254740991"
    using assms(1) by (simp_all add: abs_le_iff)
  then show ?thesis
    using assms(2)
    by (cases "int32 i")
      (simp_all add: FindSafeJsonInteger_def FindInt_def FindDouble_def GetIfInt_def GetIfDouble_def kMaxSafeJsonInteger_def not_less)
qed

lemma Decode_frame:
  assumes "reads_json read_json stringify" "frame_fits f"
  shows "DecodeEnvelope read_json (stringify (frame_json f)) =
    Inr \<lparr>ie_type = ve_type f, ie_t = ve_t f, ie_seq = int (ve_seq f), ie_data = as_read_dict (ve_data f)\<rparr>"
proof -
  let ?d = "[(''v'', as_read (JInt 1)), (''type'', JString (ve_type f)), (''t'', as_read (JInt (ve_t f))),
     (''seq'', as_read (JInt (int (ve_seq f)))), (''data'', JDict (as_read_dict (ve_data f)))]"
  have t: "FindSafeJsonInteger ?d ''t'' = Some (ve_t f)" "FindSafeJsonInteger ?d ''seq'' = Some (int (ve_seq f))"
    using assms(2) by (intro FindSafeJsonInteger_read; simp add: frame_fits_def del: as_read.simps)+
  have ty: "ve_type f \<noteq> []"
    using assms(2) by (auto simp: frame_fits_def kKnownInputTypes_def)
  have "read_json (stringify (frame_json f)) = Some (JDict ?d)"
    using assms(1) by (simp add: reads_json_def frame_json_def as_read_dict_def)
  moreover have "as_read (JInt 1) = JInt 1"
    by (simp add: int32_def)
  ultimately show ?thesis
    using t ty
    by (simp add: DecodeEnvelope_def kProtocolVersion_def FindDict_def del: as_read.simps)
qed

lemma OnMessage_frame:
  assumes "reads_json read_json stringify" "frame_fits f"
  shows "input_OnMessage read_json False (stringify (frame_json f)) =
    Dispatch \<lparr>ie_type = ve_type f, ie_t = ve_t f, ie_seq = int (ve_seq f), ie_data = as_read_dict (ve_data f)\<rparr>"
  using assms(2) by (simp add: input_OnMessage_def Decode_frame [OF assms] IsKnownInputType_def frame_fits_def)

section \<open>The worker behind the wire\<close>

text \<open>
  The worker takes the frames in the order they were sent; \<open>tg\<close> is what the browser has to
  dispatch into when a frame arrives.
\<close>

definition serve ::
  "ChromiumLib \<Rightarrow> ('t \<Rightarrow> json option) \<Rightarrow> (json \<Rightarrow> 't) \<Rightarrow> (ViewerEnvelope \<Rightarrow> Target) \<Rightarrow> ViewerEnvelope
   \<Rightarrow> Dispatcher \<Rightarrow> Dispatcher" where
  "serve L read_json stringify tg f s =
     run_task L (tg f, input_OnMessage read_json False (stringify (frame_json f))) s"

definition served ::
  "ChromiumLib \<Rightarrow> ('t \<Rightarrow> json option) \<Rightarrow> (json \<Rightarrow> 't) \<Rightarrow> (ViewerEnvelope \<Rightarrow> Target) \<Rightarrow> ViewerEnvelope list \<Rightarrow> Dispatcher" where
  "served L read_json stringify tg fs = fold (serve L read_json stringify tg) fs new_dispatcher"

lemma serve_routed:
  assumes "reads_json read_json stringify" "frame_fits f"
  obtains n where "serve L read_json stringify tg f s =
    routed L (tg f) (ve_type f) (as_read_dict (ve_data f)) (s\<lparr>copy_gestures := n\<rparr>)"
proof (cases "IsCopyGesture \<lparr>ie_type = ve_type f, ie_t = ve_t f, ie_seq = int (ve_seq f), ie_data = as_read_dict (ve_data f)\<rparr>")
  case True
  then show ?thesis
    using that [of "copy_gestures s + 1"] by (simp add: serve_def OnMessage_frame [OF assms] OnInputEvent_routed)
next
  case False
  have "s\<lparr>copy_gestures := copy_gestures s\<rparr> = s"
    by simp
  then show ?thesis
    using that [of "copy_gestures s"] False by (simp add: serve_def OnMessage_frame [OF assms] OnInputEvent_routed)
qed

subsection \<open>Buttons\<close>

text \<open>The buttons that are down after the viewer's calls.\<close>

fun button_call :: "input_event \<Rightarrow> int set \<Rightarrow> int set" where
  "button_call (Call (MouseButton b a x y)) B =
     (if a = ''down'' then insert b B else if a = ''up'' then B - {b} else B)"
| "button_call _ B = B"

definition buttons_down :: "input_event list \<Rightarrow> int set" where
  "buttons_down cs = fold button_call cs {}"

fun button_entry :: "string \<times> json_dict \<Rightarrow> Modifier set \<Rightarrow> Modifier set" where
  "button_entry (ty, d) h =
     (if ty \<noteq> ''mouse_button'' then h
      else case (FindInt d ''button'', FindString d ''action'', FindInt d ''x'', FindInt d ''y'') of
        (Some b, Some a, Some x, Some y) \<Rightarrow>
          if a = ''down'' then h \<union> ProtocolButtonToBlinkHeldBit b
          else if a = ''up'' then h - ProtocolButtonToBlinkHeldBit b else h
      | _ \<Rightarrow> h)"

text \<open>No field that is read as an integer is a fraction.\<close>

definition int_field :: "json_dict \<Rightarrow> string \<Rightarrow> bool" where
  "int_field d k \<longleftrightarrow> (\<forall>r. Find d k \<noteq> Some (JDouble r))"

definition int_fields :: "string \<times> json_dict \<Rightarrow> bool" where
  "int_fields x \<longleftrightarrow> list_all (int_field (snd x)) [''button'', ''x'', ''y'', ''identifier'', ''dx'', ''dy'', ''mode'']"

lemma FindInt_frame:
  "frame_fits f \<Longrightarrow> int_field (ve_data f) k \<Longrightarrow> FindInt (as_read_dict (ve_data f)) k = FindInt (ve_data f) k"
  by (rule FindInt_as_read) (simp_all add: frame_fits_def int_field_def)

lemma has_widgetE: "has_widget e \<Longrightarrow> (\<And>dsf. active_view e = Widget dsf \<Longrightarrow> P) \<Longrightarrow> P"
  by (cases "active_view e") (simp_all add: has_widget_def)

lemma DispatchMouseButton_buttons:
  assumes "has_widget e"
  shows "held_buttons_blink (DispatchMouseButton L e d s) = button_entry (''mouse_button'', d) (held_buttons_blink s)"
proof -
  obtain dsf where "active_view e = Widget dsf"
    using assms by (rule has_widgetE)
  then show ?thesis
    by (simp add: DispatchMouseButton_def Let_def split: option.split)
qed

lemma serve_buttons:
  assumes "reads_json read_json stringify" "frame_fits f" "has_widget (tg f)"
    "ve_type f = ''mouse_button'' \<Longrightarrow> int_fields (entry_of f)"
  shows "held_buttons_blink (serve L read_json stringify tg f s) = button_entry (entry_of f) (held_buttons_blink s)"
proof -
  obtain n where n: "serve L read_json stringify tg f s =
      routed L (tg f) (ve_type f) (as_read_dict (ve_data f)) (s\<lparr>copy_gestures := n\<rparr>)"
    by (rule serve_routed [OF assms(1,2)])
  show ?thesis
  proof (cases "ve_type f = ''mouse_button''")
    case True
    have "FindInt (as_read_dict (ve_data f)) k = FindInt (ve_data f) k" if "k \<in> {''button'', ''x'', ''y''}" for k
      using FindInt_frame [OF assms(2), of k] assms(4) [OF True] that by (auto simp: int_fields_def entry_of_def)
    then have "button_entry (''mouse_button'', as_read_dict (ve_data f)) h = button_entry (''mouse_button'', ve_data f) h" for h
      by (simp add: FindString_as_read)
    then show ?thesis
      unfolding n
      by (simp add: True DispatchMouseButton_buttons [OF assms(3)] entry_of_def del: button_entry.simps)
  next
    case False
    then show ?thesis
      unfolding n by (simp add: routed_buttons entry_of_def)
  qed
qed

subsection \<open>Fingers\<close>

fun finger_call :: "input_event \<Rightarrow> int set \<Rightarrow> int set" where
  "finger_call (Call (TouchStart t)) F = insert (t_identifier t) F"
| "finger_call (Call (TouchEnd i)) F = F - {i}"
| "finger_call (Call (TouchCancel i)) F = F - {i}"
| "finger_call _ F = F"

definition fingers_down :: "input_event list \<Rightarrow> int set" where
  "fingers_down cs = fold finger_call cs {}"

text \<open>There are never more than sixteen fingers down.\<close>

fun within_cap :: "input_event list \<Rightarrow> int set \<Rightarrow> bool" where
  "within_cap [] F = True"
| "within_cap (c # cs) F = (card (finger_call c F) \<le> kBlinkTouchPointsCap \<and> within_cap cs (finger_call c F))"

fun finger_entry :: "string \<times> json_dict \<Rightarrow> int set \<Rightarrow> int set" where
  "finger_entry (ty, d) F =
     (if ty = ''touch_start'' then
        (case (FindInt d ''identifier'', FindInt d ''x'', FindInt d ''y'') of
           (Some i, Some x, Some y) \<Rightarrow> insert i F | _ \<Rightarrow> F)
      else if ty = ''touch_end'' \<or> ty = ''touch_cancel'' then
        (case FindInt d ''identifier'' of Some i \<Rightarrow> F - {i} | None \<Rightarrow> F)
      else F)"

definition tracked :: "Dispatcher \<Rightarrow> int set" where
  "tracked s = fst ` set (active_points s)"

lemma tracked_None: "map_of (active_points s) i = None \<longleftrightarrow> i \<notin> tracked s"
  by (simp add: map_of_eq_None_iff tracked_def)

lemma Parse_identifier:
  "ParseTouchPointData L d now = Some p \<Longrightarrow> FindInt d ''identifier'' = Some (ap_identifier p)"
  by (auto simp: ParseTouchPointData_def split: option.splits)

lemma Parse_None:
  "ParseTouchPointData L d now = None \<longleftrightarrow>
     FindInt d ''identifier'' = None \<or> FindInt d ''x'' = None \<or> FindInt d ''y'' = None"
  by (auto simp: ParseTouchPointData_def split: option.splits)

lemma touch_start_tracked:
  assumes "distinct (map fst (active_points s))" "card (finger_entry (''touch_start'', d) (tracked s)) \<le> kBlinkTouchPointsCap"
  shows "tracked (DispatchTouchStart L e d s) = finger_entry (''touch_start'', d) (tracked s)"
proof (cases "ParseTouchPointData L d (tick e)")
  case None
  then have "finger_entry (''touch_start'', d) F = F" for F
    by (auto simp: Parse_None split: option.split)
  then show ?thesis
    using None by (simp add: tracked_def DispatchTouchStart_points del: finger_entry.simps)
next
  case (Some p)
  let ?i = "ap_identifier p"
  have fe: "finger_entry (''touch_start'', d) F = insert ?i F" for F
    using Some Parse_identifier [OF Some] by (auto simp: ParseTouchPointData_def split: option.splits)
  have "length (active_points s) = card (tracked s)"
    using assms(1) distinct_card by (metis tracked_def length_map list.set_map)
  then have "\<not> (?i \<notin> tracked s \<and> length (active_points s) \<ge> kBlinkTouchPointsCap)"
    using assms(2) fe by (auto simp: tracked_def)
  then show ?thesis
    unfolding fe using Some
    by (auto simp: tracked_def DispatchTouchStart_points tracked_None [unfolded tracked_def] dom_update)
qed

lemma touch_move_tracked: "tracked (DispatchTouchMove L e d s) = tracked s"
  by (auto simp: tracked_def DispatchTouchMove_points dom_update map_of_eq_None_iff split: option.split)

lemma touch_end_tracked:
  "tracked (DispatchTouchEnd L e d cancel s) = (case FindInt d ''identifier'' of Some i \<Rightarrow> tracked s - {i} | None \<Rightarrow> tracked s)"
proof (cases "FindInt d ''identifier''")
  case (Some i)
  show ?thesis
  proof (cases "map_of (active_points s) i")
    case None
    then show ?thesis
      using Some tracked_None [of s i] by (simp add: tracked_def DispatchTouchEnd_points)
  next
    case (Some p)
    then show ?thesis
      using \<open>FindInt d ''identifier'' = Some i\<close> by (auto simp: tracked_def DispatchTouchEnd_points AList.delete_eq)
  qed
qed (simp add: tracked_def DispatchTouchEnd_points)

lemma serve_tracked:
  assumes "reads_json read_json stringify" "frame_fits f" "distinct (map fst (active_points s))"
    "card (finger_entry (entry_of f) (tracked s)) \<le> kBlinkTouchPointsCap"
    "ve_type f \<in> {''touch_start'', ''touch_end'', ''touch_cancel''} \<Longrightarrow> int_fields (entry_of f)"
  shows "tracked (serve L read_json stringify tg f s) = finger_entry (entry_of f) (tracked s)"
proof -
  obtain n where n: "serve L read_json stringify tg f s =
      routed L (tg f) (ve_type f) (as_read_dict (ve_data f)) (s\<lparr>copy_gestures := n\<rparr>)"
    by (rule serve_routed [OF assms(1,2)])
  let ?s = "s\<lparr>copy_gestures := n\<rparr>"
  have s: "tracked ?s = tracked s" "distinct (map fst (active_points ?s))"
    using assms(3) by (simp_all add: tracked_def)
  have read: "FindInt (as_read_dict (ve_data f)) k = FindInt (ve_data f) k"
    if "k \<in> {''identifier'', ''x'', ''y''}" "ve_type f \<in> {''touch_start'', ''touch_end'', ''touch_cancel''}" for k
    using FindInt_frame [OF assms(2), of k] assms(5) [OF that(2)] that(1) by (auto simp: int_fields_def entry_of_def)
  consider "ve_type f = ''touch_start''" | "ve_type f = ''touch_end''" | "ve_type f = ''touch_cancel''"
    | "ve_type f = ''touch_move''"
    | "ve_type f \<noteq> ''touch_start'' \<and> ve_type f \<noteq> ''touch_end'' \<and> ve_type f \<noteq> ''touch_cancel'' \<and> ve_type f \<noteq> ''touch_move''"
    by blast
  then show ?thesis
  proof cases
    case 1
    have "finger_entry (''touch_start'', as_read_dict (ve_data f)) F = finger_entry (entry_of f) F" for F
      using read 1 by (simp add: entry_of_def)
    then show ?thesis
      using touch_start_tracked [OF s(2), of "as_read_dict (ve_data f)" L "tg f"] assms(4)
      unfolding n by (simp only: 1 routed_touch s(1))
  next
    case 2
    then show ?thesis
      unfolding n using read by (simp add: touch_end_tracked s(1) entry_of_def split: option.split)
  next
    case 3
    then show ?thesis
      unfolding n using read by (simp add: touch_end_tracked s(1) entry_of_def split: option.split)
  next
    case 4
    then show ?thesis
      unfolding n by (simp add: touch_move_tracked s(1) entry_of_def)
  next
    case 5
    then have "tracked (routed L (tg f) (ve_type f) (as_read_dict (ve_data f)) ?s) = tracked ?s"
      by (simp add: tracked_def routed_points)
    with 5 show ?thesis
      unfolding n by (simp add: s(1) entry_of_def)
  qed
qed

lemma routed_distinct:
  assumes "distinct (map fst (active_points s))"
  shows "distinct (map fst (active_points (routed L e ty d s)))"
proof (cases "ty \<in> {''touch_start'', ''touch_move'', ''touch_end'', ''touch_cancel''}")
  case True
  then show ?thesis
    using assms
    by (auto simp: DispatchTouchStart_points DispatchTouchMove_points DispatchTouchEnd_points distinct_update distinct_delete
        split: option.split)
next
  case False
  then show ?thesis
    using assms by (simp add: routed_points)
qed

lemma serve_distinct:
  assumes "distinct (map fst (active_points s))"
  shows "distinct (map fst (active_points (serve L read_json stringify tg f s)))"
  using assms by (cases "input_OnMessage read_json False (stringify (frame_json f))")
    (simp_all add: serve_def OnInputEvent_routed routed_distinct)

subsection \<open>Runs\<close>

text \<open>Frames whose numbers the worker reads, met with a widget to dispatch into.\<close>

definition frames_ok :: "(ViewerEnvelope \<Rightarrow> Target) \<Rightarrow> ViewerEnvelope list \<Rightarrow> bool" where
  "frames_ok tg fs \<longleftrightarrow> list_all (\<lambda>f. frame_fits f \<and> has_widget (tg f)) fs"

definition fields_ok :: "ViewerEnvelope list \<Rightarrow> bool" where
  "fields_ok fs \<longleftrightarrow> list_all int_fields (discrete (map entry_of fs))"

lemma fields_ok_Cons: "fields_ok (f # fs) \<Longrightarrow> fields_ok fs"
  by (simp add: fields_ok_def discrete_def uncoalesced_def split: if_splits)

lemma fields_ok_button: "fields_ok (f # fs) \<Longrightarrow> ve_type f = ''mouse_button'' \<Longrightarrow> int_fields (entry_of f)"
  by (simp add: fields_ok_def discrete_def uncoalesced_def coalesced_types_def entry_of_def)

lemma fields_ok_touch:
  "fields_ok (f # fs) \<Longrightarrow> ve_type f \<in> {''touch_start'', ''touch_end'', ''touch_cancel''} \<Longrightarrow> int_fields (entry_of f)"
  by (auto simp add: fields_ok_def discrete_def uncoalesced_def coalesced_types_def entry_of_def)

lemma fold_buttons:
  assumes "reads_json read_json stringify" "frames_ok tg fs" "fields_ok fs"
  shows "held_buttons_blink (fold (serve L read_json stringify tg) fs s)
    = fold button_entry (map entry_of fs) (held_buttons_blink s)"
  using assms(2,3)
proof (induction fs arbitrary: s)
  case (Cons f fs)
  then have "held_buttons_blink (serve L read_json stringify tg f s) = button_entry (entry_of f) (held_buttons_blink s)"
    using fields_ok_button [OF Cons.prems(2)] by (intro serve_buttons [OF assms(1)]) (simp_all add: frames_ok_def)
  with Cons show ?case
    using fields_ok_Cons [OF Cons.prems(2)] by (simp add: frames_ok_def del: button_entry.simps)
qed simp

fun entries_within_cap :: "(string \<times> json_dict) list \<Rightarrow> int set \<Rightarrow> bool" where
  "entries_within_cap [] F = True"
| "entries_within_cap (x # xs) F =
     (card (finger_entry x F) \<le> kBlinkTouchPointsCap \<and> entries_within_cap xs (finger_entry x F))"

lemma fold_tracked:
  assumes "reads_json read_json stringify" "frames_ok tg fs" "fields_ok fs"
    "distinct (map fst (active_points s))" "entries_within_cap (map entry_of fs) (tracked s)"
  shows "tracked (fold (serve L read_json stringify tg) fs s) = fold finger_entry (map entry_of fs) (tracked s)"
  using assms(2-)
proof (induction fs arbitrary: s)
  case (Cons f fs)
  have "tracked (serve L read_json stringify tg f s) = finger_entry (entry_of f) (tracked s)"
    using fields_ok_touch [OF Cons.prems(2)] Cons.prems
    by (intro serve_tracked [OF assms(1)]) (simp_all add: frames_ok_def del: finger_entry.simps)
  then show ?case
    using Cons.IH [OF _ fields_ok_Cons [OF Cons.prems(2)] serve_distinct [OF Cons.prems(3), of L read_json stringify tg f]]
      Cons.prems(1,4)
    by (simp add: frames_ok_def del: finger_entry.simps)
qed simp

lemma fold_filter: "(\<And>x. \<not> P x \<Longrightarrow> f x = (\<lambda>s. s)) \<Longrightarrow> fold f (filter P l) = fold f l"
  by (induction l) (auto simp: fun_eq_iff)

lemma entry_other:
  "ty \<noteq> ''mouse_button'' \<Longrightarrow> button_entry (ty, d) = (\<lambda>h. h)"
  "ty \<notin> {''touch_start'', ''touch_end'', ''touch_cancel''} \<Longrightarrow> finger_entry (ty, d) = (\<lambda>F. F)"
  by (auto simp: fun_eq_iff)

lemma discrete_filter:
  "discrete l = filter (\<lambda>x. fst x \<noteq> ''mouse_wheel'' \<and> \<not> List.member coalesced_types (fst x)) l"
  unfolding discrete_def uncoalesced_def filter_filter by (rule filter_cong) auto

lemma fold_discrete:
  "fold button_entry (discrete l) = fold button_entry l" "fold finger_entry (discrete l) = fold finger_entry l"
proof -
  note d = discrete_filter [of l]
  show "fold button_entry (discrete l) = fold button_entry l"
    unfolding d by (rule fold_filter) (auto simp: entry_other coalesced_types_def simp del: button_entry.simps)
  show "fold finger_entry (discrete l) = fold finger_entry l"
    unfolding d by (rule fold_filter) (auto simp: entry_other coalesced_types_def simp del: finger_entry.simps)
qed

lemma entries_within_cap_discrete:
  "entries_within_cap (discrete l) F \<Longrightarrow> card F \<le> kBlinkTouchPointsCap \<Longrightarrow> entries_within_cap l F"
proof (induction l arbitrary: F)
  case (Cons x l)
  show ?case
  proof (cases "fst x \<noteq> ''mouse_wheel'' \<and> \<not> List.member coalesced_types (fst x)")
    case True
    then show ?thesis
      using Cons by (simp add: discrete_filter del: finger_entry.simps)
  next
    case False
    then have "finger_entry x = (\<lambda>F. F)"
      by (cases x) (auto simp: entry_other coalesced_types_def simp del: finger_entry.simps)
    moreover have "discrete (x # l) = discrete l"
      unfolding discrete_filter by (simp only: filter.simps if_not_P [OF False])
    ultimately show ?thesis
      using Cons by (simp del: finger_entry.simps)
  qed
qed simp

text \<open>The envelopes of the calls have integer fields, and do to the worker what the calls mean.\<close>

lemma promised_int_fields: "x \<in> set (promised ev) \<Longrightarrow> int_fields x"
proof (cases ev)
  case (Call c)
  then show "x \<in> set (promised ev) \<Longrightarrow> int_fields x"
    by (cases c)
      (auto simp: int_fields_def int_field_def button_data_def key_data_def composition_data_def drag_data_def touch_data_def
        split: option.splits)
qed simp_all

definition held_bits :: "int set \<Rightarrow> Modifier set" where
  "held_bits B = (\<Union>b \<in> B. ProtocolButtonToBlinkHeldBit b)"

lemma held_bits_simps:
  "held_bits {} = {}" "held_bits B \<union> ProtocolButtonToBlinkHeldBit b = held_bits (insert b B)"
  "held_bits B - ProtocolButtonToBlinkHeldBit b = held_bits (B - {b})"
  by (auto simp: held_bits_def ProtocolButtonToBlinkHeldBit_def split: if_splits)

lemma promised_buttons: "fold button_entry (promised ev) (held_bits B) = held_bits (button_call ev B)"
proof (cases ev)
  case (Call c)
  then show ?thesis
    by (cases c) (simp_all add: held_bits_simps button_data_def)
qed simp_all

lemma calls_buttons: "fold button_entry (concat (map promised cs)) (held_bits B) = held_bits (fold button_call cs B)"
  by (induction cs arbitrary: B) (simp_all add: promised_buttons)

lemma promised_fingers: "fold finger_entry (promised ev) F = finger_call ev F"
proof (cases ev)
  case (Call c)
  then show ?thesis
    by (cases c) (simp_all add: touch_data_def)
qed simp_all

lemma calls_fingers: "fold finger_entry (concat (map promised cs)) F = fold finger_call cs F"
  by (induction cs arbitrary: F) (simp_all add: promised_fingers)

lemma entries_within_cap_append:
  "entries_within_cap (l @ l') F \<longleftrightarrow> entries_within_cap l F \<and> entries_within_cap l' (fold finger_entry l F)"
  by (induction l arbitrary: F) (simp_all del: finger_entry.simps)

lemma promised_short: "promised ev = [] \<or> (\<exists>x. promised ev = [x])"
proof (cases ev)
  case (Call c)
  then show ?thesis by (cases c) simp_all
qed simp_all

lemma calls_within_cap: "within_cap cs F \<Longrightarrow> entries_within_cap (concat (map promised cs)) F"
proof (induction cs arbitrary: F)
  case (Cons c cs)
  have "entries_within_cap (promised c) F"
    using promised_short [of c] promised_fingers [of c F] Cons.prems by (auto simp del: finger_entry.simps)
  with Cons show ?case
    by (simp add: entries_within_cap_append promised_fingers)
qed simp

text \<open>
  C6. End to end, the worker mirrors the viewer: once the frames of the viewer's calls have been
  taken, the mouse buttons the worker holds down are those whose last call pressed them, and the
  fingers it tracks are those that were put down and not lifted. This is for an open channel, a
  page to dispatch into, numbers in the range of the protocol and at most sixteen fingers.
\<close>

theorem worker_mirrors_viewer:
  assumes "reads_json read_json stringify" "all_healthy es" "healthy ch"
    and "frames_ok tg (sent_frames cfg es ch now)" "within_cap (calls_of es) {}"
  shows "held_buttons_blink (served L read_json stringify tg (sent_frames cfg es ch now))
      = (\<Union>b \<in> buttons_down (calls_of es). ProtocolButtonToBlinkHeldBit b)
    \<and> tracked (served L read_json stringify tg (sent_frames cfg es ch now)) = fingers_down (calls_of es)"
proof -
  let ?w = "sent_frames cfg es ch now"
  note d = delivered_sent(2) [OF assms(2,3), of cfg now]
  have fields: "fields_ok ?w"
    using promised_int_fields by (auto simp: fields_ok_def d list_all_iff)
  have new: "held_buttons_blink new_dispatcher = held_bits {}" "tracked new_dispatcher = {}"
      "distinct (map fst (active_points new_dispatcher))"
    by (simp_all add: new_dispatcher_def held_bits_def tracked_def)
  have "entries_within_cap (map entry_of ?w) {}"
    by (rule entries_within_cap_discrete) (simp_all add: d calls_within_cap assms(5))
  then have "tracked (served L read_json stringify tg ?w) = fingers_down (calls_of es)"
    using fold_tracked [OF assms(1,4) fields new(3)]
    by (simp add: served_def new fold_discrete(2) [of "map entry_of ?w", unfolded d, symmetric] calls_fingers fingers_down_def)
  moreover have "held_buttons_blink (served L read_json stringify tg ?w) = held_bits (buttons_down (calls_of es))"
    using fold_buttons [OF assms(1,4) fields]
    by (simp add: served_def new fold_discrete(1) [of "map entry_of ?w", unfolded d, symmetric] calls_buttons buttons_down_def)
  ultimately show ?thesis
    by (simp add: held_bits_def)
qed

section \<open>Scrolling\<close>

fun wheel_delta :: "string \<Rightarrow> Forwarded \<Rightarrow> rat" where
  "wheel_delta axis (Wheel w) = (if axis = ''dx'' then we_delta_x w else we_delta_y w)"
| "wheel_delta axis _ = 0"

definition scrolled :: "string \<Rightarrow> Dispatcher \<Rightarrow> rat" where
  "scrolled axis s = sum_list (map (wheel_delta axis) (out s))"

text \<open>Integers up to \<open>2^24\<close> are floats.\<close>

definition floats_exact :: "ChromiumLib \<Rightarrow> bool" where
  "floats_exact L \<longleftrightarrow> (\<forall>i. \<bar>i\<bar> \<le> 2 ^ 24 \<longrightarrow> to_float L (of_int i) = of_int i)"

lemma scrolled_forward [simp]: "scrolled axis (forward_event f s) = scrolled axis s + wheel_delta axis f"
  by (simp add: scrolled_def)

lemma scrolled_updates [simp]:
  "scrolled axis (update_pointer L w n s) = scrolled axis s" "scrolled axis (s\<lparr>copy_gestures := c\<rparr>) = scrolled axis s"
  "scrolled axis (s\<lparr>wheel_in_gesture := b\<rparr>) = scrolled axis s" "scrolled axis (s\<lparr>last_click := k, held_buttons_blink := h\<rparr>) = scrolled axis s"
  "scrolled axis (s\<lparr>shared_modifiers := h\<rparr>) = scrolled axis s" "scrolled axis (s\<lparr>is_composing := b\<rparr>) = scrolled axis s"
  "scrolled axis (s\<lparr>is_composing := b, last_committed := t\<rparr>) = scrolled axis s" "scrolled axis (s\<lparr>active_points := ps\<rparr>) = scrolled axis s"
  "scrolled axis (s\<lparr>drag_phase := p\<rparr>) = scrolled axis s"
  "scrolled axis (s\<lparr>drag_phase := p, cached_items := i, cached_types := y\<rparr>) = scrolled axis s"
  "scrolled axis (s\<lparr>cached_items := i, cached_types := y, last_widget_pos := q\<rparr>) = scrolled axis s"
  "scrolled axis (s\<lparr>cached_items := i, cached_types := y\<rparr>) = scrolled axis s" "scrolled axis (s\<lparr>last_widget_pos := q\<rparr>) = scrolled axis s"
  by (simp_all add: scrolled_def)

lemma scrolled_front [simp]:
  "scrolled axis (mouse_to_front v s) = scrolled axis s" "scrolled axis (touch_to_front v s) = scrolled axis s"
  "scrolled axis (drag_to_front v s) = scrolled axis s"
  by (simp_all add: scrolled_def mouse_to_front_def touch_to_front_def drag_to_front_def bring_to_front_def Let_def)

lemma scrolled_actions [simp]:
  "scrolled axis (mouse_move_to L dsf now x y s) = scrolled axis s"
  "scrolled axis (mouse_press L dsf now b pressed x y s) = scrolled axis s"
  "scrolled axis (key_event L now key code mods pressed s) = scrolled axis s"
  "scrolled axis (send_touch L e kind i st r s) = scrolled axis s"
  "scrolled axis (drag_enter L dsf x y items types s) = scrolled axis s"
  "scrolled axis (drag_move L dsf x y s) = scrolled axis s" "scrolled axis (drag_drop L dsf x y s) = scrolled axis s"
  "scrolled axis (drag_leave s) = scrolled axis s"
  by (simp_all add: mouse_move_to_def mouse_press_def key_event_def send_touch_def forward_touch_def drag_enter_def drag_move_def
      drag_drop_def drag_leave_def Let_def split: option.split View.split)

lemma scrolled_dispatch [simp]:
  "scrolled axis (DispatchMouseMove L e data s) = scrolled axis s"
  "scrolled axis (DispatchMouseButton L e data s) = scrolled axis s"
  "scrolled axis (DispatchKey L e data pressed s) = scrolled axis s"
  "scrolled axis (DispatchCompositionUpdate L e data s) = scrolled axis s"
  "scrolled axis (DispatchCompositionEnd L e data s) = scrolled axis s"
  "scrolled axis (DispatchCompositionCancel e s) = scrolled axis s"
  "scrolled axis (DispatchCopy e s) = scrolled axis s"
  by (simp_all add: DispatchMouseMove_def DispatchMouseButton_def DispatchKey_def DispatchCompositionUpdate_def
      DispatchCompositionEnd_def DispatchCompositionCancel_def DispatchCopy_def Let_def split: View.split option.split)

lemma scrolled_touch [simp]:
  "scrolled axis (DispatchTouchStart L e data s) = scrolled axis s"
  "scrolled axis (DispatchTouchMove L e data s) = scrolled axis s"
  "scrolled axis (DispatchTouchEnd L e data cancel s) = scrolled axis s"
  by (simp_all add: DispatchTouchStart_def DispatchTouchMove_def DispatchTouchEnd_def Let_def split: option.split)

lemma scrolled_drag [simp]:
  "scrolled axis (DispatchDragStart L e data s) = scrolled axis s"
  "scrolled axis (DispatchDragOver L e data s) = scrolled axis s"
  "scrolled axis (DispatchDrop L e data s) = scrolled axis s"
  "scrolled axis (DispatchDragEnd e data s) = scrolled axis s"
  by (simp_all add: DispatchDragStart_def DispatchDragOver_def DispatchDrop_def DispatchDragEnd_def Let_def
      split: View.split option.split CbDragPhase.split)

lemma scrolled_other: "ty \<noteq> ''mouse_wheel'' \<Longrightarrow> scrolled axis (routed L e ty data s) = scrolled axis s"
  by (simp add: routed_def)

lemma wheel_scaled_exact:
  assumes "floats_exact L" "\<bar>m * d\<bar> \<le> 2 ^ 24" "1 \<le> m"
  shows "wheel_scaled L (of_int m) d = - of_int (m * d)"
proof -
  have "1 * \<bar>d\<bar> \<le> m * \<bar>d\<bar>"
    using assms(3) by (intro mult_right_mono) simp_all
  then have "\<bar>d\<bar> \<le> 2 ^ 24"
    using assms(2,3) by (simp add: abs_mult)
  then have "to_float L (of_int d) * of_int m = of_int (m * d)" "to_float L (of_int (m * d)) = of_int (m * d)"
    using assms(1,2) by (simp_all add: floats_exact_def del: of_int_mult) (simp add: mult.commute)
  then show ?thesis
    by (simp add: wheel_scaled_def del: of_int_mult)
qed

lemma WheelScalingFor_mode: "WheelScalingFor mode (Some (deltaModeName mode)) = of_int (mode_scale (deltaModeName mode))"
  by (simp add: WheelScalingFor_def deltaModeName_def mode_scale_def)

lemma mode_scale_pos: "1 \<le> mode_scale m"
  by (simp add: mode_scale_def)

lemma scrolled_wheel:
  assumes "floats_exact L" "\<bar>mode_scale m * dx\<bar> \<le> 2 ^ 24" "\<bar>mode_scale m * dy\<bar> \<le> 2 ^ 24"
    and "phase = ''end'' \<longrightarrow> dx = 0 \<and> dy = 0" "axis = ''dx'' \<or> axis = ''dy''"
  shows "scrolled axis (mouse_wheel_by L dsf now dx dy (of_int (mode_scale m)) x y (Some phase) momentum s)
    = scrolled axis s - of_int (mode_scale m * (if axis = ''dx'' then dx else dy))"
  using assms(4,5) wheel_scaled_exact [OF assms(1,2) mode_scale_pos] wheel_scaled_exact [OF assms(1,3) mode_scale_pos]
  by (auto simp: mouse_wheel_by_def wheel_event_def Let_def)

lemma wheel_data_read: "top_ints (wheel_data dx dy mode x y phase m) \<Longrightarrow>
    as_read_dict (wheel_data dx dy mode x y phase m) = wheel_data dx dy mode x y phase m"
  by (simp add: top_ints_def wheel_data_def as_read_dict_def)

lemma Dispatch_wheel_data:
  assumes "active_view e = Widget dsf"
  shows "DispatchMouseWheel L e (wheel_data dx dy mode x y phase m) s =
    mouse_wheel_by L dsf (tick e) dx dy (of_int (mode_scale (deltaModeName mode))) x y (Some phase) m
      (mouse_to_front (active_view e) s)"
proof -
  have "FindBool (wheel_data dx dy mode x y phase m) ''momentum'' = Some m"
    "FindString (wheel_data dx dy mode x y phase m) ''delta_mode'' = Some (deltaModeName mode)"
    "FindString (wheel_data dx dy mode x y phase m) ''phase'' = Some phase"
    by (simp_all add: wheel_data_def FindBool_def GetIfBool_def)
  moreover have "FindInt (wheel_data dx dy mode x y phase m) ''dx'' = Some dx"
    "FindInt (wheel_data dx dy mode x y phase m) ''dy'' = Some dy" "FindInt (wheel_data dx dy mode x y phase m) ''mode'' = Some mode"
    "FindInt (wheel_data dx dy mode x y phase m) ''x'' = Some x" "FindInt (wheel_data dx dy mode x y phase m) ''y'' = Some y"
    by (simp_all add: wheel_data_def)
  ultimately show ?thesis
    using assms by (simp add: DispatchMouseWheel_def Let_def WheelScalingFor_mode)
qed

definition scrolls_exactly :: "ViewerEnvelope list \<Rightarrow> bool" where
  "scrolls_exactly fs \<longleftrightarrow>
     list_all (\<lambda>f. \<bar>entry_scroll ''dx'' (entry_of f)\<bar> \<le> 2 ^ 24 \<and> \<bar>entry_scroll ''dy'' (entry_of f)\<bar> \<le> 2 ^ 24) fs"

lemma serve_scroll:
  assumes "reads_json read_json stringify" "frame_fits f" "has_widget (tg f)" "wheel_ok (entry_of f)" "floats_exact L"
    and "\<bar>entry_scroll ''dx'' (entry_of f)\<bar> \<le> 2 ^ 24" "\<bar>entry_scroll ''dy'' (entry_of f)\<bar> \<le> 2 ^ 24"
    and axis: "axis = ''dx'' \<or> axis = ''dy''"
  shows "scrolled axis (serve L read_json stringify tg f s) = scrolled axis s - of_int (entry_scroll axis (entry_of f))"
proof -
  obtain n where n: "serve L read_json stringify tg f s =
      routed L (tg f) (ve_type f) (as_read_dict (ve_data f)) (s\<lparr>copy_gestures := n\<rparr>)"
    by (rule serve_routed [OF assms(1,2)])
  show ?thesis
  proof (cases "ve_type f = ''mouse_wheel''")
    case False
    then show ?thesis
      unfolding n by (simp add: scrolled_other entry_scroll_def entry_of_def)
  next
    case True
    obtain dx dy mode x y phase m where d: "ve_data f = wheel_data dx dy mode x y phase m"
        "phase = ''end'' \<longrightarrow> dx = 0 \<and> dy = 0"
      using assms(4) True unfolding wheel_ok_def entry_of_def by auto
    have es: "entry_of f = (''mouse_wheel'', wheel_data dx dy mode x y phase m)"
      by (simp add: entry_of_def True d(1))
    have scroll: "entry_scroll axis (entry_of f) = mode_scale (deltaModeName mode) * (if axis = ''dx'' then dx else dy)"
      using axis unfolding es by (auto simp: wheel_scroll)
    obtain dsf where dsf: "active_view (tg f) = Widget dsf"
      using assms(3) by (rule has_widgetE)
    have rd: "as_read_dict (ve_data f) = wheel_data dx dy mode x y phase m"
      using assms(2) by (simp add: frame_fits_def d(1) wheel_data_read)
    have "routed L (tg f) ''mouse_wheel'' data t = DispatchMouseWheel L (tg f) data t" for data t
      by (simp add: routed_def)
    then show ?thesis
      using scrolled_wheel [OF assms(5) assms(6,7) [unfolded es wheel_scroll] d(2) axis]
      unfolding n True rd scroll by (simp add: Dispatch_wheel_data [OF dsf])
  qed
qed

lemma fold_scroll:
  assumes "reads_json read_json stringify" "frames_ok tg fs" "\<forall>f \<in> set fs. wheel_ok (entry_of f)" "floats_exact L"
    "scrolls_exactly fs" "axis = ''dx'' \<or> axis = ''dy''"
  shows "scrolled axis (fold (serve L read_json stringify tg) fs s) = scrolled axis s - of_int (scroll axis (map entry_of fs))"
  using assms(2,3,5)
proof (induction fs arbitrary: s)
  case (Cons f fs)
  have "scrolled axis (serve L read_json stringify tg f s) = scrolled axis s - of_int (entry_scroll axis (entry_of f))"
    by (rule serve_scroll [OF assms(1) _ _ _ assms(4) _ _ assms(6)])
      (use Cons.prems in \<open>simp_all add: frames_ok_def scrolls_exactly_def\<close>)
  with Cons show ?case
    by (simp add: frames_ok_def scrolls_exactly_def)
qed simp


section \<open>Examples\<close>

definition demo_stringify :: "json \<Rightarrow> json" where
  "demo_stringify v = v"

definition demo_read :: "json \<Rightarrow> json option" where
  "demo_read v = Some (as_read v)"

lemma demo_reads: "reads_json demo_read demo_stringify"
  by (simp add: reads_json_def demo_read_def demo_stringify_def)

lemma demo_floats: "floats_exact demo_lib"
  by (simp add: floats_exact_def demo_lib_def)

definition demo_tg :: "ViewerEnvelope \<Rightarrow> Target" where
  "demo_tg f = demo_target (int (ve_seq f))"

text \<open>The frames of the sample calls.\<close>

lemmas input_run_simps = sent_frames_def input_run_def demo_input_def open_channel_def default_input_options_def
  new_input_channel_def sendMouseMove_def sendMouseWheel_def enqueue_def scheduleFlush_def flush_now_def doFlush_def
  flush_move_def flush_drag_over_def report_coalesced_def count_dropped_def ic_dispatch_def envelope_of_def emitWheelEnd_def Let_def

lemma demo_input_frames:
  "map (\<lambda>f. (ve_type f, ve_t f, ve_seq f, ve_data f)) (sent_frames default_input_options demo_input open_channel 1100) =
     [(''mouse_button'', 1000, 0, button_data 0 ''down'' 30 40),
      (''mouse_wheel'', 1000, 1, wheel_data 0 3 1 30 40 ''start'' False),
      (''mouse_move'', 1000, 2, move_data (10, 20)),
      (''mouse_wheel'', 1000, 3, wheel_data 0 0 1 30 40 ''end'' False),
      (''mouse_button'', 1000, 4, button_data 0 ''up'' 31 40)]"
  by (simp add: input_run_simps)


lemma frames_ok_map:
  "frames_ok demo_tg fs \<longleftrightarrow> list_all (\<lambda>(ty, t, q, d). \<bar>t\<bar> \<le> 9007199254740991 \<and> int q \<le> 9007199254740991
     \<and> List.member kKnownInputTypes ty \<and> top_ints d) (map (\<lambda>f. (ve_type f, ve_t f, ve_seq f, ve_data f)) fs)"
  by (simp add: frames_ok_def frame_fits_def demo_tg_def demo_target_def has_widget_def list_all_iff)

lemma demo_frames_ok: "frames_ok demo_tg (sent_frames default_input_options demo_input open_channel 1100)"
  unfolding frames_ok_map demo_input_frames
  by (simp add: top_ints_def button_data_def wheel_data_def move_data_def int32_def kKnownInputTypes_def)

lemma demo_within_cap: "within_cap (calls_of demo_input) {}"
  by (simp add: calls_of_def demo_input_def kBlinkTouchPointsCap_def)

theorem worker_mirrors_viewer_witness:
  "reads_json demo_read demo_stringify \<and> all_healthy demo_input \<and> healthy open_channel
   \<and> frames_ok demo_tg (sent_frames default_input_options demo_input open_channel 1100) \<and> within_cap (calls_of demo_input) {}
   \<and> held_buttons_blink (served demo_lib demo_read demo_stringify demo_tg
       (sent_frames default_input_options demo_input open_channel 1100)) = {}"
  using worker_mirrors_viewer [OF demo_reads demo_input_healthy demo_frames_ok demo_within_cap, of demo_lib]
    demo_reads demo_input_healthy demo_frames_ok demo_within_cap
  by (simp add: buttons_down_def calls_of_def demo_input_def)

lemma demo_scrolls: "scrolls_exactly (sent_frames default_input_options demo_input open_channel 1100)"
proof -
  let ?w = "sent_frames default_input_options demo_input open_channel 1100"
  have "map entry_of ?w = map (\<lambda>(ty, t, q, d). (ty, d)) (map (\<lambda>f. (ve_type f, ve_t f, ve_seq f, ve_data f)) ?w)"
    by (simp add: entry_of_def)
  then have "list_all (\<lambda>x. \<bar>entry_scroll ''dx'' x\<bar> \<le> 2 ^ 24 \<and> \<bar>entry_scroll ''dy'' x\<bar> \<le> 2 ^ 24) (map entry_of ?w)"
    unfolding demo_input_frames by (simp add: wheel_scroll mode_scale_def deltaModeName_def) (simp add: entry_scroll_def)
  then show ?thesis
    by (simp add: scrolls_exactly_def list_all_iff)
qed


text \<open>A move and a press before the next frame, and the path of the pointer the page sees.\<close>

definition move_then_press :: "(SendableChannel \<times> int \<times> input_event) list" where
  "move_then_press = map (\<lambda>ev. (open_channel, 1000, ev)) [Call (MouseMove 10 20), Call (MouseButton 0 ''down'' 30 40)]"

definition pointer_path :: "Forwarded list \<Rightarrow> (string \<times> rat \<times> rat \<times> Modifier set) list" where
  "pointer_path l = List.map_filter (\<lambda>f. case f of Mouse m \<Rightarrow> Some (me_kind m, me_x m, me_y m, me_modifiers m) | _ \<Rightarrow> None) l"

lemma move_then_press_frames:
  "sent_frames default_input_options move_then_press open_channel 1010 =
     [\<lparr>ve_type = ''mouse_button'', ve_t = 1000, ve_seq = 0, ve_data = button_data 0 ''down'' 30 40\<rparr>,
      \<lparr>ve_type = ''mouse_move'', ve_t = 1010, ve_seq = 1, ve_data = move_data (10, 20)\<rparr>]"
  by (simp add: move_then_press_def input_run_simps)


end
