(* ===== verification/Cb_Control.thy ===== *)
theory Cb_Control
  imports Cb_File_Upload "HOL-Library.List_Lexorder" "HOL-Library.Word"
begin

text \<open>
  The worker's side of the control channel, on which the browser asks a person:
  \<^verbatim>\<open>cb_control_channel.cc\<close> with its requests, deadlines and answers, and the places that ask,
  \<^verbatim>\<open>cb_javascript_dialog_manager.cc\<close>, \<^verbatim>\<open>cb_permission_manager.cc\<close>, \<^verbatim>\<open>cb_login_delegate.cc\<close>, the
  certificate errors of \<^verbatim>\<open>content_browser_client.cc\<close> and the file chooser of
  \<^verbatim>\<open>cb_web_contents_delegate.cc\<close>, which holds the upload receiver of \<open>Cb_File_Upload\<close>.

  A callback of Chromium is a number; running it appends to \<open>ran_log\<close>. A closure bound with
  \<^verbatim>\<open>base::BindOnce\<close> is a value of \<open>Ask\<close> with what it binds. Work that a callback starts when it
  runs is an event after it. A new channel object is made for every session; \<open>cc_gen\<close> tells the
  objects apart, so that what is bound to an earlier one does nothing.
\<close>

section \<open>State\<close>

datatype PermissionStatus = GRANTED | DENIED | ASK

datatype Ask =
    Dialog_Closed nat bool
  | BeforeUnload_Closed nat
  | Permission_Decided nat nat
  | Certificate_Decided nat
  | Login_Answered nat
  | Chooser_Answered

text \<open>Callbacks of Chromium that have been run, with their arguments.\<close>

datatype Ran =
    Ran_Dialog nat bool "16 word list"
  | Ran_Permission nat "PermissionStatus list"
  | Ran_Certificate nat bool
  | Ran_Login nat "(16 word list \<times> 16 word list) option"
  | Ran_Chooser_Canceled nat

record PendingRequest =
  pr_ask :: Ask
  pr_kind :: string
  pr_deadline :: int

datatype cc_task =
    Resolve nat string json_dict
  | Login_Default nat

record 't Guest =
  has_channel :: bool
  dc_is_open :: bool
  cc_gen :: nat
  pending :: "(string \<times> PendingRequest) list"
  cc_next_seq :: nat
  next_request_id :: nat
  sent :: "(nat \<times> string \<times> Ask \<times> 't) list"
  notices :: "'t list"
  heard :: "(nat \<times> 't) list"
  cc_ui :: "cc_task list"
  logins :: "nat list"
  receiver :: "'t Receiver option"
  closed_receivers :: "'t Receiver list"
  ran_log :: "Ran list"

record 't ControlEnv =
  cc_rd :: "'t \<Rightarrow> json option"
  cc_wr :: "json \<Rightarrow> 't option"
  cc_bytes :: "'t \<Rightarrow> nat"
  cc_utf8 :: "16 word list \<Rightarrow> string"
  cc_utf16 :: "string \<Rightarrow> 16 word list"
  cc_upload :: "'t UploadEnv"

definition new_guest :: "'t Guest" where
  "new_guest =
     \<lparr>has_channel = False, dc_is_open = False, cc_gen = 0, pending = [], cc_next_seq = 0, next_request_id = 0,
      sent = [], notices = [], heard = [], cc_ui = [], logins = [], receiver = None, closed_receivers = [], ran_log = []\<rparr>"

definition run_back :: "Ran \<Rightarrow> 't Guest \<Rightarrow> 't Guest" where
  "run_back r s = s\<lparr>ran_log := ran_log s @ [r]\<rparr>"

section \<open>What the closures do with an answer\<close>

text \<open>An empty answer is the channel's way to say that nobody answered.\<close>

definition dialog_answer :: "'t ControlEnv \<Rightarrow> nat \<Rightarrow> bool \<Rightarrow> json_dict \<Rightarrow> 't Guest \<Rightarrow> 't Guest" where
  "dialog_answer env cb default_accept response s =
     (case FindBool response ''accept'' of
        None \<Rightarrow> run_back (Ran_Dialog cb default_accept []) s
      | Some accept \<Rightarrow>
          run_back (Ran_Dialog cb accept (case FindString response ''prompt_text'' of None \<Rightarrow> [] | Some t \<Rightarrow> cc_utf16 env t)) s)"

definition beforeunload_answer :: "nat \<Rightarrow> json_dict \<Rightarrow> 't Guest \<Rightarrow> 't Guest" where
  "beforeunload_answer cb response s =
     run_back (Ran_Dialog cb (case FindBool response ''accept'' of None \<Rightarrow> True | Some b \<Rightarrow> b) []) s"

definition permission_answer :: "nat \<Rightarrow> nat \<Rightarrow> json_dict \<Rightarrow> 't Guest \<Rightarrow> 't Guest" where
  "permission_answer cb count response s =
     run_back (Ran_Permission cb
       (replicate count (if FindBool response ''granted'' = Some True then GRANTED else DENIED))) s"

definition certificate_answer :: "nat \<Rightarrow> json_dict \<Rightarrow> 't Guest \<Rightarrow> 't Guest" where
  "certificate_answer cb response s = run_back (Ran_Certificate cb (FindBool response ''proceed'' = Some True)) s"

text \<open>A login delegate that has been destroyed, or has answered, is not in \<open>logins\<close>.\<close>

definition OnViewerResponded :: "'t ControlEnv \<Rightarrow> nat \<Rightarrow> json_dict \<Rightarrow> 't Guest \<Rightarrow> 't Guest" where
  "OnViewerResponded env login response s =
     (if \<not> List.member (logins s) login then s
      else
        let s1 = s\<lparr>logins := removeAll login (logins s)\<rparr> in
        case (FindString response ''username'', FindString response ''password'') of
          (Some username, Some password) \<Rightarrow> run_back (Ran_Login login (Some (cc_utf16 env username, cc_utf16 env password))) s1
        | _ \<Rightarrow> run_back (Ran_Login login None) s1)"

definition chooser_answer :: "json_dict \<Rightarrow> 't Guest \<Rightarrow> 't Guest" where
  "chooser_answer response s =
     (if FindBool response ''accept'' = Some True then s else s\<lparr>receiver := map_option CancelChooser (receiver s)\<rparr>)"

fun run_callback :: "'t ControlEnv \<Rightarrow> Ask \<Rightarrow> json_dict \<Rightarrow> 't Guest \<Rightarrow> 't Guest" where
  "run_callback env (Dialog_Closed cb default_accept) response s = dialog_answer env cb default_accept response s"
| "run_callback env (BeforeUnload_Closed cb) response s = beforeunload_answer cb response s"
| "run_callback env (Permission_Decided cb count) response s = permission_answer cb count response s"
| "run_callback env (Certificate_Decided cb) response s = certificate_answer cb response s"
| "run_callback env (Login_Answered login) response s = OnViewerResponded env login response s"
| "run_callback env Chooser_Answered response s = chooser_answer response s"

section \<open>The channel\<close>

definition kMaxInboundFrameBytes :: nat where
  "kMaxInboundFrameBytes = 64 * 1024"

definition control_envelope :: "string \<Rightarrow> int \<Rightarrow> nat \<Rightarrow> json_dict \<Rightarrow> json" where
  "control_envelope type now seq data =
     JDict [(''v'', JInt 1), (''type'', JString type), (''t'', JDouble (of_int now)), (''seq'', JDouble (of_nat seq)),
            (''data'', JDict data)]"

definition SendRequest ::
  "'t ControlEnv \<Rightarrow> int \<Rightarrow> string \<Rightarrow> json_dict \<Rightarrow> int \<Rightarrow> Ask \<Rightarrow> 't Guest \<Rightarrow> 't Guest" where
  "SendRequest env now kind payload deadline callback s =
     (if \<not> dc_is_open s then run_callback env callback [] s
      else
        let rid = NumberToString (int (next_request_id s + 1));
            data = DictSet ''deadline_ms'' (JInt deadline)
                     (DictSet ''kind'' (JString kind) (DictSet ''id'' (JString rid) payload));
            s1 = s\<lparr>next_request_id := next_request_id s + 1, cc_next_seq := cc_next_seq s + 1\<rparr>
        in case cc_wr env (control_envelope ''ui_request'' now (cc_next_seq s1) data) of
             None \<Rightarrow> run_callback env callback [] s1
           | Some json \<Rightarrow>
               s1\<lparr>pending := pending s1 @ [(rid, \<lparr>pr_ask = callback, pr_kind = kind, pr_deadline = deadline\<rparr>)],
                  sent := sent s1 @ [(cc_gen s1, rid, callback, json)]\<rparr>)"

definition SendEvent :: "'t ControlEnv \<Rightarrow> int \<Rightarrow> string \<Rightarrow> json_dict \<Rightarrow> 't Guest \<Rightarrow> 't Guest" where
  "SendEvent env now kind payload s =
     (if \<not> dc_is_open s then s
      else
        let s1 = s\<lparr>cc_next_seq := cc_next_seq s + 1\<rparr> in
        case cc_wr env (control_envelope ''ui_event'' now (cc_next_seq s1) (DictSet ''kind'' (JString kind) payload)) of
          None \<Rightarrow> s1
        | Some json \<Rightarrow> s1\<lparr>notices := notices s1 @ [json]\<rparr>)"

text \<open>The callbacks of a \<^verbatim>\<open>std::map\<close> run in the order of its keys.\<close>

definition CancelAllPending :: "'t ControlEnv \<Rightarrow> 't Guest \<Rightarrow> 't Guest" where
  "CancelAllPending env s =
     fold (\<lambda>p. run_callback env (pr_ask (snd p)) []) (sort_key fst (pending s)) (s\<lparr>pending := []\<rparr>)"

definition ResolvePending :: "'t ControlEnv \<Rightarrow> string \<Rightarrow> json_dict \<Rightarrow> 't Guest \<Rightarrow> 't Guest" where
  "ResolvePending env rid response s =
     (case map_of (pending s) rid of
        None \<Rightarrow> s
      | Some entry \<Rightarrow> run_callback env (pr_ask entry) response (s\<lparr>pending := AList.delete rid (pending s)\<rparr>))"

definition HandleInboundJson :: "('t \<Rightarrow> json option) \<Rightarrow> 't \<Rightarrow> (string \<times> json_dict) option" where
  "HandleInboundJson rd raw =
     (case rd raw of
        Some (JDict envelope) \<Rightarrow>
          if FindInt envelope ''v'' \<noteq> Some 1 \<or> FindString envelope ''type'' \<noteq> Some ''ui_response'' then None
          else
            (case FindDict envelope ''data'' of
               None \<Rightarrow> None
             | Some data \<Rightarrow>
                 (case FindString data ''id'' of
                    None \<Rightarrow> None
                  | Some rid \<Rightarrow> if rid = [] then None else Some (rid, data)))
      | _ \<Rightarrow> None)"

definition cc_OnMessage :: "'t ControlEnv \<Rightarrow> 't \<Rightarrow> bool \<Rightarrow> 't Guest \<Rightarrow> 't Guest" where
  "cc_OnMessage env raw binary s =
     (if binary \<or> cc_bytes env raw > kMaxInboundFrameBytes then s
      else
        case HandleInboundJson (cc_rd env) raw of
          None \<Rightarrow> s
        | Some (rid, data) \<Rightarrow>
            s\<lparr>heard := heard s @ [(cc_gen s, raw)], cc_ui := cc_ui s @ [Resolve (cc_gen s) rid data]\<rparr>)"

fun run_cc_task :: "'t ControlEnv \<Rightarrow> cc_task \<Rightarrow> 't Guest \<Rightarrow> 't Guest" where
  "run_cc_task env (Resolve gen rid data) s = (if gen = cc_gen s then ResolvePending env rid data s else s)"
| "run_cc_task env (Login_Default login) s = OnViewerResponded env login [] s"

text \<open>The completion of \<^verbatim>\<open>SendAsync\<close>, bound to the object that sent.\<close>

definition OnSent :: "'t ControlEnv \<Rightarrow> nat \<Rightarrow> string \<Rightarrow> bool \<Rightarrow> 't Guest \<Rightarrow> 't Guest" where
  "OnSent env gen rid ok s = (if ok \<or> gen \<noteq> cc_gen s then s else ResolvePending env rid [] s)"

section \<open>Who asks\<close>

datatype JavaScriptDialogType = JAVASCRIPT_DIALOG_TYPE_ALERT | JAVASCRIPT_DIALOG_TYPE_CONFIRM | JAVASCRIPT_DIALOG_TYPE_PROMPT

definition DialogTypeName :: "JavaScriptDialogType \<Rightarrow> string" where
  "DialogTypeName type =
     (case type of
        JAVASCRIPT_DIALOG_TYPE_ALERT \<Rightarrow> ''alert''
      | JAVASCRIPT_DIALOG_TYPE_CONFIRM \<Rightarrow> ''confirm''
      | JAVASCRIPT_DIALOG_TYPE_PROMPT \<Rightarrow> ''prompt'')"

definition DefaultAcceptFor :: "JavaScriptDialogType \<Rightarrow> bool" where
  "DefaultAcceptFor type \<longleftrightarrow> type = JAVASCRIPT_DIALOG_TYPE_ALERT"

definition kMaxMessageChars :: nat where
  "kMaxMessageChars = 4 * 1024"

text \<open>The three bytes of the ellipsis in UTF-8 come first.\<close>

definition TruncateUtf8 :: "'t ControlEnv \<Rightarrow> 16 word list \<Rightarrow> string" where
  "TruncateUtf8 env s =
     (if length s \<le> kMaxMessageChars then cc_utf8 env s
      else cc_utf8 env (take kMaxMessageChars s) @ [char_of (226 :: nat), char_of (128 :: nat), char_of (166 :: nat)] @ ''[truncated]'')"

definition AskOrDefault ::
  "'t ControlEnv \<Rightarrow> int \<Rightarrow> string \<Rightarrow> 16 word list \<Rightarrow> 16 word list \<Rightarrow> string \<Rightarrow> bool \<Rightarrow> nat \<Rightarrow> 't Guest \<Rightarrow> 't Guest" where
  "AskOrDefault env now type message default_prompt origin default_accept cb s =
     (if \<not> has_channel s then run_back (Ran_Dialog cb default_accept []) s
      else SendRequest env now ''js_dialog''
        [(''dialog_type'', JString type), (''message'', JString (TruncateUtf8 env message)),
         (''default_prompt'', JString (TruncateUtf8 env default_prompt)), (''origin'', JString origin)]
        60000 (Dialog_Closed cb default_accept) s)"

definition RunJavaScriptDialog ::
  "'t ControlEnv \<Rightarrow> int \<Rightarrow> string \<Rightarrow> JavaScriptDialogType \<Rightarrow> 16 word list \<Rightarrow> 16 word list \<Rightarrow> nat \<Rightarrow> 't Guest \<Rightarrow> 't Guest" where
  "RunJavaScriptDialog env now origin type message default_prompt cb s =
     AskOrDefault env now (DialogTypeName type) message default_prompt origin (DefaultAcceptFor type) cb s"

definition RunBeforeUnloadDialog :: "'t ControlEnv \<Rightarrow> int \<Rightarrow> string \<Rightarrow> bool \<Rightarrow> nat \<Rightarrow> 't Guest \<Rightarrow> 't Guest" where
  "RunBeforeUnloadDialog env now origin is_reload cb s =
     (if \<not> has_channel s then run_back (Ran_Dialog cb True []) s
      else SendRequest env now ''js_dialog''
        [(''is_reload'', JBool is_reload), (''dialog_type'', JString ''beforeunload''), (''message'', JString []),
         (''default_prompt'', JString []), (''origin'', JString origin)]
        60000 (BeforeUnload_Closed cb) s)"

definition CancelDialogs :: "'t ControlEnv \<Rightarrow> 't Guest \<Rightarrow> 't Guest" where
  "CancelDialogs env s = (if has_channel s then CancelAllPending env s else s)"

definition AskViewer :: "'t ControlEnv \<Rightarrow> int \<Rightarrow> string \<Rightarrow> string list \<Rightarrow> nat \<Rightarrow> 't Guest \<Rightarrow> 't Guest" where
  "AskViewer env now origin names cb s =
     (if names = [] then run_back (Ran_Permission cb []) s
      else if \<not> has_channel s then run_back (Ran_Permission cb (replicate (length names) DENIED)) s
      else SendRequest env now ''permission''
        [(''origin'', JString origin), (''permissions'', JList (map JString names))]
        90000 (Permission_Decided cb (length names)) s)"

text \<open>\<open>document\<close> is the origin of the frame that asks, if there is a frame.\<close>

definition RequestPermissions ::
  "'t ControlEnv \<Rightarrow> int \<Rightarrow> string \<Rightarrow> string option \<Rightarrow> string list \<Rightarrow> nat \<Rightarrow> 't Guest \<Rightarrow> 't Guest" where
  "RequestPermissions env now requesting_origin document names cb s =
     AskViewer env now
       (if requesting_origin = [] then (case document of None \<Rightarrow> [] | Some d \<Rightarrow> d) else requesting_origin) names cb s"

definition RequestPermissionsFromCurrentDocument ::
  "'t ControlEnv \<Rightarrow> int \<Rightarrow> string \<Rightarrow> string option \<Rightarrow> string list \<Rightarrow> nat \<Rightarrow> 't Guest \<Rightarrow> 't Guest" where
  "RequestPermissionsFromCurrentDocument env now requesting_origin document names cb s =
     AskViewer env now (case document of None \<Rightarrow> requesting_origin | Some d \<Rightarrow> d) names cb s"

text \<open>\<open>cert\<close> holds the display names of the subject and the issuer.\<close>

definition AllowCertificateError ::
  "'t ControlEnv \<Rightarrow> int \<Rightarrow> string \<Rightarrow> int \<Rightarrow> (string \<times> string) option \<Rightarrow> bool \<Rightarrow> bool \<Rightarrow> nat \<Rightarrow> 't Guest \<Rightarrow> 't Guest" where
  "AllowCertificateError env now url cert_error cert is_main_frame strict_enforcement cb s =
     (if \<not> has_channel s \<or> strict_enforcement then run_back (Ran_Certificate cb False) s
      else SendRequest env now ''cert_error''
        ([(''url'', JString url), (''cert_error'', JInt cert_error), (''is_main_frame'', JBool is_main_frame)]
          @ (case cert of None \<Rightarrow> [] | Some (subject, issuer) \<Rightarrow> [(''subject'', JString subject), (''issuer'', JString issuer)]))
        120000 (Certificate_Decided cb) s)"

definition CbLoginDelegate ::
  "'t ControlEnv \<Rightarrow> int \<Rightarrow> string \<Rightarrow> string \<Rightarrow> string \<Rightarrow> bool \<Rightarrow> bool \<Rightarrow> nat \<Rightarrow> 't Guest \<Rightarrow> 't Guest" where
  "CbLoginDelegate env now url realm scheme is_proxy first_attempt login s =
     (let s1 = s\<lparr>logins := login # logins s\<rparr> in
      if \<not> has_channel s1 then s1\<lparr>cc_ui := cc_ui s1 @ [Login_Default login]\<rparr>
      else SendRequest env now ''login''
        [(''url'', JString url), (''realm'', JString realm), (''scheme'', JString scheme), (''is_proxy'', JBool is_proxy),
         (''first_attempt'', JBool first_attempt)]
        120000 (Login_Answered login) s1)"

definition destroy_login :: "nat \<Rightarrow> 't Guest \<Rightarrow> 't Guest" where
  "destroy_login login s = s\<lparr>logins := removeAll login (logins s)\<rparr>"

text \<open>Modes 0 and 1 are to open one file and several; the others have no upload path.\<close>

definition RunFileChooser ::
  "'t ControlEnv \<Rightarrow> int \<Rightarrow> nat \<Rightarrow> nat \<Rightarrow> 16 word list list \<Rightarrow> 16 word list \<Rightarrow> 't Guest \<Rightarrow> 't Guest" where
  "RunFileChooser env now listener mode accept_types title s =
     (case receiver s of
        None \<Rightarrow> run_back (Ran_Chooser_Canceled listener) s
      | Some r \<Rightarrow>
          if mode \<noteq> 0 \<and> mode \<noteq> 1 then run_back (Ran_Chooser_Canceled listener) s
          else
            let r1 = BeginChooser listener mode r in
            if \<not> has_channel s then s\<lparr>receiver := Some (CancelChooser r1)\<rparr>
            else SendRequest env now ''file_chooser''
              [(''accept'', JList (map (JString \<circ> cc_utf8 env) accept_types)), (''multiple'', JBool (mode = 1)),
               (''title'', JString (cc_utf8 env title))]
              300000 Chooser_Answered (s\<lparr>receiver := Some r1\<rparr>))"

section \<open>Sessions\<close>

definition start_session :: "'t Guest \<Rightarrow> 't Guest" where
  "start_session s =
     s\<lparr>receiver := Some new_receiver, has_channel := True, dc_is_open := False, cc_gen := cc_gen s + 1, pending := [],
       cc_next_seq := 0, next_request_id := 0\<rparr>"

definition end_session :: "'t ControlEnv \<Rightarrow> 't Guest \<Rightarrow> 't Guest" where
  "end_session env s =
     (let s1 = CancelAllPending env (s\<lparr>has_channel := False\<rparr>) in
      s1\<lparr>cc_gen := cc_gen s1 + 1, dc_is_open := False, receiver := None,
         closed_receivers := closed_receivers s1
           @ (case receiver s1 of None \<Rightarrow> [] | Some r \<Rightarrow> [ResetForNewSession (cc_upload env) (CancelChooser r)])\<rparr>)"

section \<open>Events\<close>

text \<open>
  \<open>Cc_Open\<close>: the data channel opens or closes. \<open>Cc_Deadline\<close>: the timer of a pending request fires.
  \<open>Cc_Sent\<close>: a send completes. \<open>Cc_Ui\<close>: the next task posted to the UI thread runs.
\<close>

datatype 't control_event =
    Cc_Start
  | Cc_End
  | Cc_Open bool
  | Cc_Dialog nat string JavaScriptDialogType "16 word list" "16 word list"
  | Cc_BeforeUnload nat string bool
  | Cc_Permission nat bool string "string option" "string list"
  | Cc_Certificate nat string int "(string \<times> string) option" bool bool
  | Cc_Login nat string string string bool bool
  | Cc_Login_Destroyed nat
  | Cc_Chooser nat nat "16 word list list" "16 word list"
  | Cc_Cancel_Dialogs
  | Cc_Message 't bool
  | Cc_Ui
  | Cc_Deadline string
  | Cc_Sent nat string bool
  | Cc_Upload "'t up_event"

fun control_step :: "'t ControlEnv \<Rightarrow> int \<times> 't control_event \<Rightarrow> 't Guest \<Rightarrow> 't Guest" where
  "control_step env (now, Cc_Start) s = (if has_channel s then s else start_session s)"
| "control_step env (now, Cc_End) s = (if has_channel s then end_session env s else s)"
| "control_step env (now, Cc_Open is_open) s = (if has_channel s then s\<lparr>dc_is_open := is_open\<rparr> else s)"
| "control_step env (now, Cc_Dialog cb origin type message default_prompt) s =
     RunJavaScriptDialog env now origin type message default_prompt cb s"
| "control_step env (now, Cc_BeforeUnload cb origin is_reload) s = RunBeforeUnloadDialog env now origin is_reload cb s"
| "control_step env (now, Cc_Permission cb current requesting_origin document names) s =
     (if current then RequestPermissionsFromCurrentDocument env now requesting_origin document names cb s
      else RequestPermissions env now requesting_origin document names cb s)"
| "control_step env (now, Cc_Certificate cb url cert_error cert is_main_frame strict) s =
     AllowCertificateError env now url cert_error cert is_main_frame strict cb s"
| "control_step env (now, Cc_Login login url realm scheme is_proxy first_attempt) s =
     CbLoginDelegate env now url realm scheme is_proxy first_attempt login s"
| "control_step env (now, Cc_Login_Destroyed login) s = destroy_login login s"
| "control_step env (now, Cc_Chooser listener mode accept_types title) s =
     RunFileChooser env now listener mode accept_types title s"
| "control_step env (now, Cc_Cancel_Dialogs) s = CancelDialogs env s"
| "control_step env (now, Cc_Message raw binary) s = (if has_channel s then cc_OnMessage env raw binary s else s)"
| "control_step env (now, Cc_Ui) s = (case cc_ui s of [] \<Rightarrow> s | t # ts \<Rightarrow> run_cc_task env t (s\<lparr>cc_ui := ts\<rparr>))"
| "control_step env (now, Cc_Deadline rid) s = ResolvePending env rid [] s"
| "control_step env (now, Cc_Sent gen rid ok) s = OnSent env gen rid ok s"
| "control_step env (now, Cc_Upload e) s = s\<lparr>receiver := map_option (up_step (cc_upload env) e) (receiver s)\<rparr>"

end
