(* ===== verification/Cb_Control_Answers.thy ===== *)
theory Cb_Control_Answers
  imports Cb_Control "HOL-Library.Multiset"
begin

text \<open>
  What the control channel promises: request ids are never used twice by one channel object,
  every callback of Chromium runs exactly once, and what it is given is the default or the answer
  of a frame that named the question.
\<close>

section \<open>Request ids\<close>

lemma digits_of_not_Nil [simp]: "digits_of n \<noteq> []" "[] \<noteq> digits_of n"
  by (subst digits_of.simps, simp)+

lemma digits_of_step: "n \<ge> 10 \<Longrightarrow> digits_of n = digits_of (n div 10) @ [char_of (48 + n mod 10)]"
  by (subst digits_of.simps) simp

lemma digits_of_digit: "n < 10 \<Longrightarrow> digits_of n = [char_of (48 + n)]"
  by (subst digits_of.simps) simp

lemma char_of_digit_eq: "m < 10 \<Longrightarrow> n < 10 \<Longrightarrow> char_of (48 + m) = char_of (48 + n) \<longleftrightarrow> m = (n :: nat)"
  by (simp add: char_of_eq_iff take_bit_eq_mod)

lemma digits_of_inj: "digits_of m = digits_of n \<Longrightarrow> m = n"
proof (induction m arbitrary: n rule: less_induct)
  case (less m)
  show ?case
  proof (cases "m < 10 \<or> n < 10")
    case True
    with less.prems show ?thesis
      by (cases "m < 10"; cases "n < 10") (simp_all add: digits_of_digit digits_of_step char_of_digit_eq)
  next
    case False
    with less.prems have "digits_of (m div 10) = digits_of (n div 10)" "m mod 10 = n mod 10"
      by (simp_all add: digits_of_step char_of_digit_eq)
    moreover from False this(1) less.IH [of "m div 10" "n div 10"] have "m div 10 = n div 10" by simp
    ultimately show ?thesis by (metis div_mult_mod_eq)
  qed
qed

definition request_id :: "nat \<Rightarrow> string" where
  "request_id n = NumberToString (int n)"

lemma request_id_eq [simp]: "request_id m = request_id n \<longleftrightarrow> m = n"
  using digits_of_inj by (auto simp: request_id_def NumberToString_def)

lemma request_id_not_Nil [simp]: "request_id n \<noteq> []"
  by (simp add: request_id_def NumberToString_def)

lemmas request_id_fold = request_id_def [symmetric]

section \<open>Every question is answered once\<close>

text \<open>The callback an answer owes, for the questions whose callback Chromium has to see run.\<close>

fun asker :: "Ask \<Rightarrow> nat list" where
  "asker (Dialog_Closed cb _) = [cb]"
| "asker (BeforeUnload_Closed cb) = [cb]"
| "asker (Permission_Decided cb _) = [cb]"
| "asker (Certificate_Decided cb) = [cb]"
| "asker _ = []"

fun answered :: "Ran \<Rightarrow> nat list" where
  "answered (Ran_Dialog cb _ _) = [cb]"
| "answered (Ran_Permission cb _) = [cb]"
| "answered (Ran_Certificate cb _) = [cb]"
| "answered _ = []"

fun asks :: "'t control_event \<Rightarrow> nat list" where
  "asks (Cc_Dialog cb _ _ _ _) = [cb]"
| "asks (Cc_BeforeUnload cb _ _) = [cb]"
| "asks (Cc_Permission cb _ _ _ _) = [cb]"
| "asks (Cc_Certificate cb _ _ _ _ _) = [cb]"
| "asks _ = []"

definition ran_answers :: "'t Guest \<Rightarrow> nat multiset" where
  "ran_answers s = mset (concat (map answered (ran_log s)))"

definition cc_waiting :: "'t Guest \<Rightarrow> nat multiset" where
  "cc_waiting s = mset (concat (map (asker \<circ> pr_ask \<circ> snd) (pending s)))"

definition ledger :: "'t Guest \<Rightarrow> nat multiset" where
  "ledger s = ran_answers s + cc_waiting s"

lemma run_back_fields [simp]:
  "pending (run_back r s) = pending s" "ran_log (run_back r s) = ran_log s @ [r]" "sent (run_back r s) = sent s"
  "heard (run_back r s) = heard s" "cc_ui (run_back r s) = cc_ui s" "cc_gen (run_back r s) = cc_gen s"
  "has_channel (run_back r s) = has_channel s" "dc_is_open (run_back r s) = dc_is_open s"
  "next_request_id (run_back r s) = next_request_id s" "cc_next_seq (run_back r s) = cc_next_seq s"
  "receiver (run_back r s) = receiver s" "logins (run_back r s) = logins s"
  by (simp_all add: run_back_def)

lemmas answer_defs = dialog_answer_def beforeunload_answer_def permission_answer_def certificate_answer_def
  OnViewerResponded_def chooser_answer_def

lemma run_callback_fields [simp]:
  "pending (run_callback env a response s) = pending s" "sent (run_callback env a response s) = sent s"
  "heard (run_callback env a response s) = heard s" "cc_ui (run_callback env a response s) = cc_ui s"
  "cc_gen (run_callback env a response s) = cc_gen s" "has_channel (run_callback env a response s) = has_channel s"
  "dc_is_open (run_callback env a response s) = dc_is_open s"
  "next_request_id (run_callback env a response s) = next_request_id s"
  by (cases a; simp add: answer_defs Let_def split: option.split)+

lemma answers_callback: "ran_answers (run_callback env a response s) = ran_answers s + mset (asker a)"
  by (cases a) (simp_all add: ran_answers_def answer_defs Let_def split: option.split)

lemma fold_callback_fields:
  "pending (fold (\<lambda>p. run_callback env (pr_ask (snd p)) []) l s) = pending s"
  "sent (fold (\<lambda>p. run_callback env (pr_ask (snd p)) []) l s) = sent s"
  "heard (fold (\<lambda>p. run_callback env (pr_ask (snd p)) []) l s) = heard s"
  "cc_ui (fold (\<lambda>p. run_callback env (pr_ask (snd p)) []) l s) = cc_ui s"
  "cc_gen (fold (\<lambda>p. run_callback env (pr_ask (snd p)) []) l s) = cc_gen s"
  "has_channel (fold (\<lambda>p. run_callback env (pr_ask (snd p)) []) l s) = has_channel s"
  "dc_is_open (fold (\<lambda>p. run_callback env (pr_ask (snd p)) []) l s) = dc_is_open s"
  "next_request_id (fold (\<lambda>p. run_callback env (pr_ask (snd p)) []) l s) = next_request_id s"
  by (induction l arbitrary: s) simp_all

lemma Cancel_fields [simp]:
  "pending (CancelAllPending env s) = []" "sent (CancelAllPending env s) = sent s"
  "heard (CancelAllPending env s) = heard s" "cc_ui (CancelAllPending env s) = cc_ui s"
  "cc_gen (CancelAllPending env s) = cc_gen s" "has_channel (CancelAllPending env s) = has_channel s"
  "dc_is_open (CancelAllPending env s) = dc_is_open s" "next_request_id (CancelAllPending env s) = next_request_id s"
  by (simp_all add: CancelAllPending_def fold_callback_fields)

lemma answers_fold:
  "ran_answers (fold (\<lambda>p. run_callback env (pr_ask (snd p)) []) l s) = ran_answers s + mset (concat (map (asker \<circ> pr_ask \<circ> snd) l))"
  by (induction l arbitrary: s) (simp_all add: answers_callback add.assoc)

lemma mset_concat_map: "mset (concat (map f l)) = (\<Sum>x \<in># mset l. mset (f x))"
  by (induction l) simp_all

lemma answers_update [simp]: "ran_answers (s\<lparr>pending := p\<rparr>) = ran_answers s" "cc_waiting (s\<lparr>pending := []\<rparr>) = {#}"
  by (simp_all add: ran_answers_def cc_waiting_def)

lemma ledger_Cancel: "ledger (CancelAllPending env s) = ledger s"
  by (simp add: ledger_def CancelAllPending_def answers_fold cc_waiting_def fold_callback_fields mset_concat_map)

lemma ledger_callback: "ledger (run_callback env a response s) = ledger s + mset (asker a)"
  by (simp add: ledger_def answers_callback cc_waiting_def)

lemma ledger_cong: "ran_log s = ran_log s' \<Longrightarrow> pending s = pending s' \<Longrightarrow> ledger s = ledger s'"
  by (simp add: ledger_def ran_answers_def cc_waiting_def)

lemma mset_asker_delete:
  assumes "distinct (map fst l)" "map_of l rid = Some e"
  shows "mset (concat (map (asker \<circ> pr_ask \<circ> snd) l))
    = mset (asker (pr_ask e)) + mset (concat (map (asker \<circ> pr_ask \<circ> snd) (AList.delete rid l)))"
  using assms
proof (induction l)
  case (Cons p l)
  then show ?case
  proof (cases "fst p = rid")
    case True
    with Cons.prems have "AList.delete rid l = l"
      by (auto simp: delete_idem dom_map_of_conv_image_fst)
    with True Cons.prems show ?thesis by (cases p) auto
  qed (cases p, auto)
qed simp

lemma ledger_Resolve:
  assumes "distinct (map fst (pending s))"
  shows "ledger (ResolvePending env rid response s) = ledger s"
proof (cases "map_of (pending s) rid")
  case (Some e)
  then show ?thesis
    using mset_asker_delete [OF assms Some]
    by (simp add: ResolvePending_def ledger_callback) (simp add: ledger_def ran_answers_def cc_waiting_def)
qed (simp add: ResolvePending_def)

lemma ledger_SendRequest:
  "ledger (SendRequest env now kind payload deadline a s) = ledger s + mset (asker a)"
proof -
  have [simp]: "ledger (s\<lparr>next_request_id := n, cc_next_seq := m\<rparr>) = ledger s" for n m by (rule ledger_cong) simp_all
  show ?thesis
    by (auto simp: SendRequest_def ledger_callback Let_def split: option.split) (simp add: ledger_def ran_answers_def cc_waiting_def)
qed
section \<open>The channel's invariant\<close>

text \<open>
  Requests in flight have different ids, were sent by the present channel object, and there are
  none without a channel; an id is used once for each object.
\<close>

definition ids_ok :: "'t Guest \<Rightarrow> bool" where
  "ids_ok s \<longleftrightarrow> distinct (map fst (pending s))
     \<and> (\<not> has_channel s \<longrightarrow> pending s = [])
     \<and> (\<forall>(rid, e) \<in> set (pending s). \<exists>j. (cc_gen s, rid, pr_ask e, j) \<in> set (sent s))
     \<and> (\<forall>(g, rid, a, j) \<in> set (sent s). g \<le> cc_gen s
          \<and> (g = cc_gen s \<longrightarrow> (\<exists>n \<le> next_request_id s. rid = request_id n)))
     \<and> distinct (map (\<lambda>(g, rid, a, j). (g, rid)) (sent s))"

text \<open>The result a closure gives Chromium for an answer.\<close>

fun reply :: "'t ControlEnv \<Rightarrow> Ask \<Rightarrow> json_dict \<Rightarrow> Ran option" where
  "reply env (Dialog_Closed cb d) response =
     Some (case FindBool response ''accept'' of
        None \<Rightarrow> Ran_Dialog cb d []
      | Some accept \<Rightarrow> Ran_Dialog cb accept (case FindString response ''prompt_text'' of None \<Rightarrow> [] | Some t \<Rightarrow> cc_utf16 env t))"
| "reply env (BeforeUnload_Closed cb) response =
     Some (Ran_Dialog cb (case FindBool response ''accept'' of None \<Rightarrow> True | Some b \<Rightarrow> b) [])"
| "reply env (Permission_Decided cb n) response =
     Some (Ran_Permission cb (replicate n (if FindBool response ''granted'' = Some True then GRANTED else DENIED)))"
| "reply env (Certificate_Decided cb) response = Some (Ran_Certificate cb (FindBool response ''proceed'' = Some True))"
| "reply env (Login_Answered l) response =
     Some (case (FindString response ''username'', FindString response ''password'') of
        (Some u, Some p) \<Rightarrow> Ran_Login l (Some (cc_utf16 env u, cc_utf16 env p))
      | _ \<Rightarrow> Ran_Login l None)"
| "reply env Chooser_Answered response = None"

text \<open>Every answer Chromium got is the default, or that of a frame that named the question's id.\<close>

definition answer_heard :: "'t ControlEnv \<Rightarrow> 't Guest \<Rightarrow> Ask \<Rightarrow> json_dict \<Rightarrow> bool" where
  "answer_heard env s a response \<longleftrightarrow> response = []
     \<or> (\<exists>g rid j raw. (g, rid, a, j) \<in> set (sent s) \<and> (g, raw) \<in> set (heard s)
          \<and> HandleInboundJson (cc_rd env) raw = Some (rid, response))"

definition answer_ok :: "'t ControlEnv \<Rightarrow> 't Guest \<Rightarrow> Ran \<Rightarrow> bool" where
  "answer_ok env s r \<longleftrightarrow> (\<exists>l. r = Ran_Chooser_Canceled l)
     \<or> (\<exists>a response. reply env a response = Some r \<and> answer_heard env s a response)"

fun cc_task_ok :: "'t ControlEnv \<Rightarrow> 't Guest \<Rightarrow> cc_task \<Rightarrow> bool" where
  "cc_task_ok env s (Resolve g rid data) =
     (\<exists>raw. (g, raw) \<in> set (heard s) \<and> HandleInboundJson (cc_rd env) raw = Some (rid, data))"
| "cc_task_ok env s (Login_Default l) = True"

definition explained :: "'t ControlEnv \<Rightarrow> 't Guest \<Rightarrow> bool" where
  "explained env s \<longleftrightarrow> list_all (cc_task_ok env s) (cc_ui s) \<and> list_all (answer_ok env s) (ran_log s)"

lemma ids_okI:
  assumes "ids_ok s" "pending s' = pending s" "has_channel s' = has_channel s" "sent s' = sent s"
    "cc_gen s' = cc_gen s" "next_request_id s' = next_request_id s"
  shows "ids_ok s'"
  using assms by (simp add: ids_ok_def)

lemma ids_ok_callback [simp]: "ids_ok (run_callback env a response s) = ids_ok s"
  by (simp add: ids_ok_def)

lemma ids_ok_back [simp]: "ids_ok (run_back r s) = ids_ok s"
  by (simp add: ids_ok_def)

lemma ids_ok_cancel: "ids_ok s \<Longrightarrow> ids_ok (CancelAllPending env s)"
  by (simp add: ids_ok_def)

lemma ids_ok_delete: "ids_ok s \<Longrightarrow> ids_ok (s\<lparr>pending := AList.delete rid (pending s)\<rparr>)"
  by (auto simp: ids_ok_def AList.delete_eq distinct_map_filter)

lemma ids_ok_resolve: "ids_ok s \<Longrightarrow> ids_ok (ResolvePending env rid response s)"
  by (simp add: ResolvePending_def ids_ok_delete split: option.split)

lemma ids_ok_bump: "ids_ok s \<Longrightarrow> ids_ok (s\<lparr>next_request_id := next_request_id s + 1, cc_next_seq := m\<rparr>)"
  unfolding ids_ok_def by (fastforce intro: le_SucI)

lemma ids_ok_new:
  fixes e :: PendingRequest
  assumes "ids_ok s" "has_channel s" "rid = request_id (Suc (next_request_id s))"
  shows "ids_ok (s\<lparr>next_request_id := Suc (next_request_id s), cc_next_seq := m, pending := pending s @ [(rid, e)],
    sent := sent s @ [(cc_gen s, rid, pr_ask e, j)]\<rparr>)"
proof -
  have fresh: "(cc_gen s, rid, a, j') \<notin> set (sent s)" for a j'
    using assms(1,3) by (fastforce simp: ids_ok_def)
  have "rid \<notin> fst ` set (pending s)"
    using assms(1) fresh by (fastforce simp: ids_ok_def)
  moreover have "(cc_gen s, rid) \<notin> (\<lambda>(g, rid, a, j). (g, rid)) ` set (sent s)"
    using fresh by auto
  moreover have "\<forall>(g, rid, a, j) \<in> set (sent s). g \<le> cc_gen s
          \<and> (g = cc_gen s \<longrightarrow> (\<exists>n \<le> Suc (next_request_id s). rid = request_id n))"
    using assms(1) unfolding ids_ok_def by (fastforce intro: le_SucI)
  ultimately show ?thesis
    using assms unfolding ids_ok_def by (auto simp: image_iff)
qed

lemma ids_ok_send:
  assumes "ids_ok s" "has_channel s"
  shows "ids_ok (SendRequest env now kind payload deadline a s)"
  using ids_ok_bump [OF assms(1)]
    ids_ok_new [OF assms, where e = "\<lparr>pr_ask = a, pr_kind = kind, pr_deadline = deadline\<rparr>"]
  by (auto simp: SendRequest_def Let_def assms(1) request_id_def split: option.split)

lemma ran_callback:
  "set (ran_log (run_callback env a response s)) \<subseteq> set (ran_log s) \<union> set_option (reply env a response)"
  by (cases a) (auto simp: answer_defs Let_def split: option.splits if_splits)

lemma answer_heard_Nil [simp]: "answer_heard env s a []"
  by (simp add: answer_heard_def)

lemma answer_heard_mono:
  "answer_heard env s a response \<Longrightarrow> set (sent s) \<subseteq> set (sent s') \<Longrightarrow> set (heard s) \<subseteq> set (heard s') \<Longrightarrow>
     answer_heard env s' a response"
  unfolding answer_heard_def by blast

lemma answer_ok_mono:
  "answer_ok env s r \<Longrightarrow> set (sent s) \<subseteq> set (sent s') \<Longrightarrow> set (heard s) \<subseteq> set (heard s') \<Longrightarrow> answer_ok env s' r"
  unfolding answer_ok_def using answer_heard_mono by blast

lemma task_ok_mono: "cc_task_ok env s t \<Longrightarrow> set (heard s) \<subseteq> set (heard s') \<Longrightarrow> cc_task_ok env s' t"
  by (cases t) auto

lemma explained_mono:
  assumes "explained env s" "set (sent s) \<subseteq> set (sent s')" "set (heard s) \<subseteq> set (heard s')"
    "list_all (cc_task_ok env s') (cc_ui s')" "ran_log s' = ran_log s"
  shows "explained env s'"
  using assms answer_ok_mono [OF _ assms(2,3)] by (auto simp: explained_def list_all_iff)

lemma explained_tasks: "explained env s \<Longrightarrow> heard s' = heard s \<Longrightarrow> set (cc_ui s') \<subseteq> set (cc_ui s) \<Longrightarrow>
    list_all (cc_task_ok env s') (cc_ui s')"
proof -
  assume e: "explained env s" and h: "heard s' = heard s" and u: "set (cc_ui s') \<subseteq> set (cc_ui s)"
  have "cc_task_ok env s' t" if "t \<in> set (cc_ui s')" for t
    by (rule task_ok_mono [of env s]) (use e h subsetD [OF u that] in \<open>simp_all add: explained_def list_all_iff\<close>)
  then show ?thesis by (simp add: list_all_iff)
qed

lemma explained_callback:
  assumes "explained env s" "answer_heard env s a response"
  shows "explained env (run_callback env a response s)"
proof -
  let ?s = "run_callback env a response s"
  have ok: "answer_ok env s r" if "r \<in> set (ran_log ?s)" for r
    using that ran_callback [of env a response s] assms by (auto simp: explained_def list_all_iff answer_ok_def)
  have "answer_ok env ?s r" if "r \<in> set (ran_log ?s)" for r
    by (rule answer_ok_mono [OF ok [OF that]]) simp_all
  then show ?thesis
    using explained_tasks [OF assms(1), of ?s] by (simp add: explained_def list_all_iff)
qed

lemma explained_back:
  assumes "explained env s" "reply env a [] = Some r"
  shows "explained env (run_back r s)"
proof -
  have "answer_ok env s r" using assms(2) answer_heard_Nil unfolding answer_ok_def by blast
  then have "answer_ok env (run_back r s) x" if "x \<in> set (ran_log s) \<union> {r}" for x
    using that assms(1) by (auto simp: explained_def list_all_iff elim!: answer_ok_mono)
  then show ?thesis
    using explained_tasks [OF assms(1), of "run_back r s"] by (simp add: explained_def list_all_iff)
qed

lemma explained_eqI:
  assumes "explained env s" "sent s' = sent s" "heard s' = heard s" "cc_ui s' = cc_ui s" "ran_log s' = ran_log s"
  shows "explained env s'"
  by (rule explained_mono [OF assms(1)]) (use assms explained_tasks [OF assms(1,3)] in simp_all)

lemma explained_cancel: "explained env s \<Longrightarrow> explained env (CancelAllPending env s)"
proof -
  have "explained env s' \<Longrightarrow> explained env (fold (\<lambda>p. run_callback env (pr_ask (snd p)) []) l s')" for s' l
    by (induction l arbitrary: s') (simp_all add: explained_callback)
  moreover assume "explained env s"
  then have "explained env (s\<lparr>pending := []\<rparr>)" by (rule explained_eqI) simp_all
  ultimately show ?thesis by (simp add: CancelAllPending_def)
qed

lemma explained_resolve:
  assumes "explained env s" "\<And>e. map_of (pending s) rid = Some e \<Longrightarrow> answer_heard env s (pr_ask e) response"
  shows "explained env (ResolvePending env rid response s)"
proof (cases "map_of (pending s) rid")
  case (Some e)
  have "explained env (s\<lparr>pending := AList.delete rid (pending s)\<rparr>)"
    using assms(1) by (rule explained_eqI) simp_all
  then show ?thesis
    using Some assms(2) [OF Some] by (simp add: ResolvePending_def explained_callback answer_heard_def)
qed (simp add: ResolvePending_def assms(1))

lemma explained_send: "explained env s \<Longrightarrow> explained env (SendRequest env now kind payload deadline a s)"
proof -
  assume e: "explained env s"
  let ?s = "s\<lparr>next_request_id := next_request_id s + 1, cc_next_seq := cc_next_seq s + 1\<rparr>"
  have b: "explained env ?s" using e by (rule explained_eqI) simp_all
  have "explained env (?s\<lparr>pending := p, sent := sent s @ l\<rparr>)" for p l
    using explained_tasks [OF e, of "?s\<lparr>pending := p, sent := sent s @ l\<rparr>"] by (intro explained_mono [OF e]) auto
  then show ?thesis
    using explained_callback [OF e answer_heard_Nil] explained_callback [OF b answer_heard_Nil]
    by (simp add: SendRequest_def Let_def split: option.split)
qed

definition control_ok :: "'t ControlEnv \<Rightarrow> 't Guest \<Rightarrow> bool" where
  "control_ok env s \<longleftrightarrow> ids_ok s \<and> explained env s"

lemma control_okD: "control_ok env s \<Longrightarrow> ids_ok s" "control_ok env s \<Longrightarrow> explained env s"
  by (simp_all add: control_ok_def)

lemma control_ok_eqI:
  "control_ok env s \<Longrightarrow> pending s' = pending s \<Longrightarrow> has_channel s' = has_channel s \<Longrightarrow> sent s' = sent s \<Longrightarrow>
   cc_gen s' = cc_gen s \<Longrightarrow> next_request_id s' = next_request_id s \<Longrightarrow> heard s' = heard s \<Longrightarrow> cc_ui s' = cc_ui s \<Longrightarrow>
   ran_log s' = ran_log s \<Longrightarrow> control_ok env s'"
  unfolding control_ok_def by (blast intro: ids_okI explained_eqI)

lemma control_ok_back: "control_ok env s \<Longrightarrow> reply env a [] = Some r \<Longrightarrow> control_ok env (run_back r s)"
  by (simp add: control_ok_def explained_back)

lemma control_ok_canceled: "control_ok env s \<Longrightarrow> control_ok env (run_back (Ran_Chooser_Canceled l) s)"
proof -
  assume ok: "control_ok env s"
  then have "answer_ok env (run_back (Ran_Chooser_Canceled l) s) x" if "x \<in> set (ran_log s) \<union> {Ran_Chooser_Canceled l}" for x
    using that by (auto simp: control_ok_def explained_def list_all_iff answer_ok_def [of _ _ "Ran_Chooser_Canceled l"]
      elim!: answer_ok_mono)
  then show ?thesis
    using ok explained_tasks [OF control_okD(2) [OF ok], of "run_back (Ran_Chooser_Canceled l) s"]
    by (simp add: control_ok_def explained_def list_all_iff)
qed

lemma control_ok_send: "control_ok env s \<Longrightarrow> has_channel s \<Longrightarrow> control_ok env (SendRequest env now kind payload deadline a s)"
  by (simp add: control_ok_def ids_ok_send explained_send)

lemma control_ok_cancel: "control_ok env s \<Longrightarrow> control_ok env (CancelAllPending env s)"
  by (simp add: control_ok_def ids_ok_cancel explained_cancel)

lemma control_ok_default: "control_ok env s \<Longrightarrow> control_ok env (ResolvePending env rid [] s)"
  by (simp add: control_ok_def ids_ok_resolve explained_resolve)

lemma control_ok_responded: "control_ok env s \<Longrightarrow> control_ok env (OnViewerResponded env l [] s)"
  using ids_ok_callback [of env "Login_Answered l" "[]" s] explained_callback [of env s "Login_Answered l" "[]"]
  by (simp add: control_ok_def)

lemma control_ok_drop_task: "control_ok env s \<Longrightarrow> set ts \<subseteq> set (cc_ui s) \<Longrightarrow> control_ok env (s\<lparr>cc_ui := ts\<rparr>)"
  unfolding control_ok_def using explained_tasks [of env s "s\<lparr>cc_ui := ts\<rparr>"]
  by (auto intro: ids_okI intro!: explained_mono [of env s "s\<lparr>cc_ui := ts\<rparr>"])

lemma control_ok_task:
  assumes "control_ok env s" "cc_ui s = t # ts"
  shows "control_ok env (run_cc_task env t (s\<lparr>cc_ui := ts\<rparr>))"
proof -
  have ok: "control_ok env (s\<lparr>cc_ui := ts\<rparr>)" using assms by (intro control_ok_drop_task) auto
  show ?thesis
  proof (cases t)
    case (Resolve g rid data)
    have "answer_heard env (s\<lparr>cc_ui := ts\<rparr>) (pr_ask e) data" if "g = cc_gen s" "map_of (pending s) rid = Some e" for e
    proof -
      from map_of_SomeD [OF that(2)] control_okD(1) [OF assms(1)] obtain j where "(cc_gen s, rid, pr_ask e, j) \<in> set (sent s)"
        unfolding ids_ok_def by fastforce
      moreover from assms Resolve obtain raw where "(g, raw) \<in> set (heard s)" "HandleInboundJson (cc_rd env) raw = Some (rid, data)"
        by (auto simp: control_ok_def explained_def)
      ultimately show ?thesis using that(1) unfolding answer_heard_def by auto
    qed
    then show ?thesis
      using ok Resolve explained_resolve [OF control_okD(2) [OF ok]] by (simp add: control_ok_def ids_ok_resolve)
  qed (simp add: ok control_ok_responded)
qed

lemma control_ok_message: "control_ok env s \<Longrightarrow> control_ok env (cc_OnMessage env raw binary s)"
proof -
  assume ok: "control_ok env s"
  have "explained env (s\<lparr>heard := heard s @ [(cc_gen s, raw)], cc_ui := cc_ui s @ [Resolve (cc_gen s) rid data]\<rparr>)" (is "explained _ ?s")
    if r: "HandleInboundJson (cc_rd env) raw = Some (rid, data)" for rid data
  proof (rule explained_mono [OF control_okD(2) [OF ok]])
    have "cc_task_ok env ?s t" if "t \<in> set (cc_ui s)" for t
      by (rule task_ok_mono [of env s]) (use ok that in \<open>auto simp: control_ok_def explained_def list_all_iff\<close>)
    then show "list_all (cc_task_ok env ?s) (cc_ui ?s)" using r by (auto simp: list_all_iff)
  qed auto
  then show ?thesis
    using ok ids_okI [OF control_okD(1) [OF ok]]
    by (auto simp: cc_OnMessage_def control_ok_def split: option.split)
qed

lemma control_ok_start: "control_ok env s \<Longrightarrow> \<not> has_channel s \<Longrightarrow> control_ok env (start_session s)"
  unfolding control_ok_def start_session_def
  by (auto simp: ids_ok_def le_Suc_eq intro: explained_eqI)

lemma control_ok_end: "control_ok env s \<Longrightarrow> control_ok env (end_session env s)"
proof -
  assume ok: "control_ok env s"
  have "explained env (CancelAllPending env (s\<lparr>has_channel := False\<rparr>))"
    by (rule explained_cancel, rule explained_eqI [OF control_okD(2) [OF ok]]) simp_all
  then show ?thesis
    using ok unfolding end_session_def Let_def control_ok_def
    by (auto simp: ids_ok_def le_Suc_eq intro: explained_eqI)
qed

lemma control_ok_chooser:
  assumes "control_ok env s"
  shows "control_ok env (RunFileChooser env now listener mode accept_types title s)"
proof -
  have r: "control_ok env (s\<lparr>receiver := r\<rparr>)" for r using assms by (rule control_ok_eqI) simp_all
  show ?thesis
    by (auto simp: RunFileChooser_def Let_def r assms control_ok_send control_ok_canceled split: option.split)
qed

lemma control_ok_login:
  assumes "control_ok env s"
  shows "control_ok env (CbLoginDelegate env now url realm scheme is_proxy first_attempt login s)"
proof -
  have l: "control_ok env (s\<lparr>logins := l\<rparr>)" for l using assms by (rule control_ok_eqI) simp_all
  have "control_ok env (s\<lparr>logins := l, cc_ui := cc_ui s @ [Login_Default login]\<rparr>)" (is "control_ok _ ?s") for l
  proof -
    have "list_all (cc_task_ok env ?s) (cc_ui s)" 
      using explained_tasks [OF control_okD(2) [OF assms], of "s\<lparr>logins := l\<rparr>"]
      by (auto simp: list_all_iff intro: task_ok_mono)
    then show ?thesis
      using ids_okI [OF control_okD(1) [OF assms], of ?s] explained_mono [OF control_okD(2) [OF assms], of ?s]
      by (simp add: control_ok_def)
  qed
  then show ?thesis by (simp add: CbLoginDelegate_def Let_def l control_ok_send)
qed

lemma reply_defaults:
  "reply env (Dialog_Closed cb d) [] = Some (Ran_Dialog cb d [])"
  "reply env (BeforeUnload_Closed cb) [] = Some (Ran_Dialog cb True [])"
  "reply env (Permission_Decided cb n) [] = Some (Ran_Permission cb (replicate n DENIED))"
  "reply env (Certificate_Decided cb) [] = Some (Ran_Certificate cb False)"
  by (simp_all add: FindBool_def)

lemma control_ok_step: "control_ok env s \<Longrightarrow> control_ok env (control_step env e s)"
proof -
  assume ok: "control_ok env s"
  obtain now ev where e: "e = (now, ev)" by (cases e)
  have upd: "control_ok env (s\<lparr>dc_is_open := b\<rparr>)" "control_ok env (s\<lparr>receiver := r\<rparr>)" "control_ok env (s\<lparr>logins := l\<rparr>)" for b r l
    by (rule control_ok_eqI [OF ok]; simp)+
  note dflt = control_ok_back [OF ok reply_defaults(1)] control_ok_back [OF ok reply_defaults(2)]
    control_ok_back [OF ok reply_defaults(3)] control_ok_back [OF ok reply_defaults(4)]
  have back0: "control_ok env (run_back (Ran_Permission cb []) s)" for cb
    using control_ok_back [OF ok reply_defaults(3), of cb 0] by simp
  show ?thesis
    by (cases ev) (auto simp: e ok upd dflt back0 control_ok_start control_ok_end control_ok_send control_ok_cancel control_ok_task
      control_ok_message control_ok_default control_ok_chooser control_ok_login RunJavaScriptDialog_def AskOrDefault_def
      RunBeforeUnloadDialog_def RequestPermissions_def RequestPermissionsFromCurrentDocument_def AskViewer_def
      AllowCertificateError_def destroy_login_def CancelDialogs_def OnSent_def split: list.split)
qed

interpretation control: invariant_machine "\<lambda>s. s = new_guest" "control_step env" "control_ok env" for env :: "'t ControlEnv"
  by unfold_locales
    (simp_all add: control_ok_step, simp add: control_ok_def ids_ok_def explained_def new_guest_def)

section \<open>Answers\<close>

lemma ledger_eqI [simp]:
  "ledger (s\<lparr>dc_is_open := b\<rparr>) = ledger s" "ledger (s\<lparr>receiver := r\<rparr>) = ledger s" "ledger (s\<lparr>logins := l\<rparr>) = ledger s"
  "ledger (s\<lparr>cc_ui := u\<rparr>) = ledger s" "ledger (s\<lparr>heard := h\<rparr>) = ledger s" "ledger (s\<lparr>has_channel := c\<rparr>) = ledger s"
  by (simp_all add: ledger_def ran_answers_def cc_waiting_def)

lemma ledger_back: "ledger (run_back r s) = ledger s + mset (answered r)"
  by (simp add: ledger_def ran_answers_def cc_waiting_def)

lemma ledger_responded: "ledger (OnViewerResponded env l response s) = ledger s"
  using ledger_callback [of env "Login_Answered l" response s] by simp

lemma ledger_task: "ids_ok s \<Longrightarrow> ledger (run_cc_task env t (s\<lparr>cc_ui := ts\<rparr>)) = ledger s"
  using ledger_Resolve [of "s\<lparr>cc_ui := ts\<rparr>" env]
  by (cases t) (simp_all add: ledger_responded ids_ok_def)

lemma ledger_start: "ids_ok s \<Longrightarrow> \<not> has_channel s \<Longrightarrow> ledger (start_session s) = ledger s"
  by (simp add: start_session_def ids_ok_def ledger_def ran_answers_def cc_waiting_def)

lemma ledger_end: "ledger (end_session env s) = ledger s"
  using ledger_Cancel [of env "s\<lparr>has_channel := False\<rparr>"]
  by (simp add: end_session_def Let_def ledger_def ran_answers_def cc_waiting_def)

lemma ledger_step:
  assumes "ids_ok s"
  shows "ledger (control_step env (now, e) s) = ledger s + mset (asks e)"
proof -
  have d: "distinct (map fst (pending s))" using assms by (simp add: ids_ok_def)
  show ?thesis
    by (cases e)
      (simp_all add: assms d ledger_back ledger_SendRequest ledger_Resolve ledger_Cancel ledger_task ledger_start ledger_end
        RunJavaScriptDialog_def AskOrDefault_def RunBeforeUnloadDialog_def RequestPermissions_def CbLoginDelegate_def
        RequestPermissionsFromCurrentDocument_def AskViewer_def AllowCertificateError_def destroy_login_def RunFileChooser_def
        CancelDialogs_def OnSent_def cc_OnMessage_def Let_def split: list.split option.split prod.split)
qed

lemma ledger_run: "ledger (fold (control_step env) es new_guest) = mset (concat (map (asks \<circ> snd) es))"
proof (induction es rule: rev_induct)
  case (snoc e es)
  have "ids_ok (fold (control_step env) es new_guest)"
    by (rule control_okD(1) [OF control.invar_reached [OF refl]])
  with snoc show ?case
    using ledger_step [of "fold (control_step env) es new_guest" env "fst e" "snd e"] by simp
qed (simp add: ledger_def ran_answers_def cc_waiting_def new_guest_def)

lemma pending_Resolve: "pending (ResolvePending env rid response s) = AList.delete rid (pending s)"
  by (simp add: ResolvePending_def delete_idem dom_map_of_conv_image_fst map_of_eq_None_iff split: option.split)

lemma pending_deadlines:
  "pending (fold (\<lambda>rid. control_step env (now, Cc_Deadline rid)) ids s) = filter (\<lambda>p. fst p \<notin> set ids) (pending s)"
  by (induction ids arbitrary: s) (auto simp: pending_Resolve AList.delete_eq case_prod_unfold intro: filter_cong)

definition control_run :: "'t ControlEnv \<Rightarrow> (int \<times> 't control_event) list \<Rightarrow> 't Guest" where
  "control_run env es = fold (control_step env) es new_guest"

text \<open>The timers of all requests in flight fire.\<close>

definition deadlines_pass :: "'t ControlEnv \<Rightarrow> int \<Rightarrow> 't Guest \<Rightarrow> 't Guest" where
  "deadlines_pass env now s = fold (\<lambda>rid. control_step env (now, Cc_Deadline rid)) (map fst (pending s)) s"

text \<open>
  C0. Every question Chromium asks about a dialog, an unload, a permission or a certificate has its
  callback run exactly once: after any events the callbacks that have run and those of requests in
  flight are exactly those handed over, and once the deadlines of the requests in flight pass,
  none is left and each has run once. No session that ends, closed channel, failed send, repeated or
  forged answer or cancelled dialog loses one or runs it twice.
\<close>

theorem questions_answered_once:
  "ran_answers (control_run env es) + cc_waiting (control_run env es) = mset (concat (map (asks \<circ> snd) es))
   \<and> pending (deadlines_pass env now (control_run env es)) = []
   \<and> ran_answers (deadlines_pass env now (control_run env es)) = mset (concat (map (asks \<circ> snd) es))"
proof -
  let ?s = "control_run env es"
  let ?late = "deadlines_pass env now ?s"
  have none: "pending ?late = []"
    unfolding deadlines_pass_def pending_deadlines by simp
  have "?late = fold (control_step env) (es @ map (\<lambda>rid. (now, Cc_Deadline rid)) (map fst (pending ?s))) new_guest"
    by (simp add: deadlines_pass_def control_run_def fold_map comp_def)
  then have "ledger ?late = mset (concat (map (asks \<circ> snd) es))"
    using ledger_run [of env "es @ map (\<lambda>rid. (now, Cc_Deadline rid)) (map fst (pending ?s))"]
    by (simp add: comp_def)
  with none show ?thesis
    using ledger_run [of env es] by (simp add: control_run_def ledger_def cc_waiting_def)
qed

section \<open>Choosers\<close>

text \<open>Values as their own text.\<close>

definition demo_upload_env :: "json UploadEnv" where
  "demo_upload_env = \<lparr>up_rd = Some, up_wr = Some, Base64Decode = Some, Sha256Hex = (\<lambda>b. b), UTF8ToUTF16 = (\<lambda>b. b), uploads_dir = ''/u/''\<rparr>"

definition demo_control :: "json ControlEnv" where
  "demo_control = \<lparr>cc_rd = Some, cc_wr = Some, cc_bytes = (\<lambda>_. 100), cc_utf8 = map (\<lambda>w. char_of (unat w)),
     cc_utf16 = map (\<lambda>c. word_of_nat (of_char c)), cc_upload = demo_upload_env\<rparr>"

definition response_frame :: "string \<Rightarrow> json_dict \<Rightarrow> json" where
  "response_frame rid answer = JDict [(''v'', JInt 1), (''type'', JString ''ui_response''), (''data'', JDict ((''id'', JString rid) # answer))]"

lemma first_ids: "NumberToString 1 = ''1''" "NumberToString 2 = ''2''"
  by code_simp+

text \<open>
  C0. The answer to one file chooser is applied to another: a page opens a chooser and then a second
  one, which takes the place of the first, and when the viewer declines the first, the second is
  cancelled although nobody answered it.
\<close>

theorem decline_cancels_next_chooser:
  "let s = control_run demo_control
     [(0, Cc_Start), (0, Cc_Open True), (1, Cc_Chooser 1 0 [] []), (2, Cc_Chooser 2 0 [] []),
      (3, Cc_Message (response_frame ''1'' [(''accept'', JBool False)]) False), (3, Cc_Ui)]
   in map_option up_out (receiver s) = Some [FileSelectionCanceled 1, FileSelectionCanceled 2]
      \<and> map fst (pending s) = [''2'']"
  by (simp add: control_run_def new_guest_def start_session_def RunFileChooser_def BeginChooser_def CancelChooser_def
    new_receiver_def SendRequest_def demo_control_def up_emit_def cc_OnMessage_def response_frame_def HandleInboundJson_def
    kMaxInboundFrameBytes_def FindDict_def FindBool_def GetIfBool_def ResolvePending_def chooser_answer_def first_ids Let_def)

end
