(* ===== verification/Cb_Control_Viewer.thy ===== *)
theory Cb_Control_Viewer
  imports Cb_Json
begin

text \<open>
  The viewer's side of the control channel, \<^verbatim>\<open>client/src/control.ts\<close>: validation of requests, the
  handlers the page that embeds the client may install, the dialog it shows otherwise, and the
  answers it sends. A handler is asynchronous: between the call and its settling the request is in
  \<open>in_flight\<close>. The presenter is the one of the file, which shows at most one dialog.
\<close>

section \<open>Requests\<close>

text \<open>Length and slices of the language's strings count UTF-16 units.\<close>

record TextLib =
  js_length :: "string \<Rightarrow> nat"
  js_slice :: "nat \<Rightarrow> string \<Rightarrow> string"

definition MAX_TEXT_CHARS :: nat where
  "MAX_TEXT_CHARS = 8192"

definition nonempty_string :: "json_dict \<Rightarrow> string \<Rightarrow> bool" where
  "nonempty_string d k \<longleftrightarrow> (case FindString d k of None \<Rightarrow> False | Some x \<Rightarrow> x \<noteq> [])"

definition isValidRequest :: "json \<Rightarrow> bool" where
  "isValidRequest env \<longleftrightarrow>
     (case env of
        JDict e \<Rightarrow>
          FindDouble e ''v'' = Some 1 \<and> FindString e ''type'' = Some ''ui_request''
          \<and> FindDouble e ''t'' \<noteq> None \<and> FindDouble e ''seq'' \<noteq> None
          \<and> (case FindDict e ''data'' of
               None \<Rightarrow> False
             | Some d \<Rightarrow> nonempty_string d ''id'' \<and> nonempty_string d ''kind'')
      | _ \<Rightarrow> False)"

definition isValidEvent :: "json \<Rightarrow> bool" where
  "isValidEvent env \<longleftrightarrow>
     (case env of JDict e \<Rightarrow> FindDouble e ''v'' = Some 1 \<and> FindString e ''type'' = Some ''ui_event'' | _ \<Rightarrow> False)"

text \<open>The three bytes are the ellipsis in UTF-8.\<close>

definition clampText :: "TextLib \<Rightarrow> string option \<Rightarrow> string" where
  "clampText L text =
     (case text of
        None \<Rightarrow> []
      | Some x \<Rightarrow>
          if js_length L x \<le> MAX_TEXT_CHARS then x
          else js_slice L MAX_TEXT_CHARS x @ [char_of (226 :: nat), char_of (128 :: nat), char_of (166 :: nat)])"

record ControlPrompt =
  cp_id :: string
  cp_kind :: string
  cp_dialogType :: string
  cp_message :: string
  cp_defaultPrompt :: string
  cp_origin :: string

definition toPrompt :: "TextLib \<Rightarrow> string \<Rightarrow> string \<Rightarrow> json_dict \<Rightarrow> ControlPrompt" where
  "toPrompt L rid kind d =
     \<lparr>cp_id = rid, cp_kind = kind,
      cp_dialogType = (case FindString d ''dialog_type'' of None \<Rightarrow> ''confirm'' | Some t \<Rightarrow> t),
      cp_message = clampText L (FindString d ''message''), cp_defaultPrompt = clampText L (FindString d ''default_prompt''),
      cp_origin = clampText L (FindString d ''origin'')\<rparr>"

datatype ViewerAsk =
    FileChooserRequest string "string list" bool string
  | PermissionRequest string "string list" string
  | CertErrorRequest string string rat string string bool
  | LoginRequest string string string string bool bool

text \<open>\<^verbatim>\<open>Array.isArray(x) ? x.filter(string) : []\<close>\<close>

definition string_items :: "json_dict \<Rightarrow> string \<Rightarrow> string list" where
  "string_items d k = (case FindList d k of None \<Rightarrow> [] | Some l \<Rightarrow> List.map_filter GetIfString l)"

definition chooser_request :: "TextLib \<Rightarrow> string \<Rightarrow> json_dict \<Rightarrow> ViewerAsk" where
  "chooser_request L rid d =
     FileChooserRequest rid (string_items d ''accept'') (FindBool d ''multiple'' = Some True) (clampText L (FindString d ''title''))"

definition permission_request :: "TextLib \<Rightarrow> string \<Rightarrow> json_dict \<Rightarrow> ViewerAsk" where
  "permission_request L rid d =
     PermissionRequest rid (string_items d ''permissions'') (clampText L (FindString d ''origin''))"

definition cert_request :: "TextLib \<Rightarrow> string \<Rightarrow> json_dict \<Rightarrow> ViewerAsk" where
  "cert_request L rid d =
     CertErrorRequest rid (clampText L (FindString d ''url'')) (case FindDouble d ''cert_error'' of None \<Rightarrow> 0 | Some c \<Rightarrow> c)
       (clampText L (FindString d ''subject'')) (clampText L (FindString d ''issuer'')) (FindBool d ''is_main_frame'' = Some True)"

definition login_request :: "TextLib \<Rightarrow> string \<Rightarrow> json_dict \<Rightarrow> ViewerAsk" where
  "login_request L rid d =
     LoginRequest rid (clampText L (FindString d ''url'')) (clampText L (FindString d ''realm''))
       (clampText L (FindString d ''scheme'')) (FindBool d ''is_proxy'' = Some True) (FindBool d ''first_attempt'' \<noteq> Some False)"

section \<open>Answers\<close>

text \<open>A handler's promise is rejected, or resolved with a value.\<close>

datatype handler_result = Threw | Returned json

fun toResponse :: "ViewerAsk \<Rightarrow> handler_result \<Rightarrow> json_dict" where
  "toResponse (FileChooserRequest rid _ _ _) r = [(''id'', JString rid), (''accept'', JBool (r = Returned (JBool True)))]"
| "toResponse (PermissionRequest rid _ _) r = [(''id'', JString rid), (''granted'', JBool (r = Returned (JBool True)))]"
| "toResponse (CertErrorRequest rid _ _ _ _ _) r = [(''id'', JString rid), (''proceed'', JBool (r = Returned (JBool True)))]"
| "toResponse (LoginRequest rid _ _ _ _ _) r =
     (case r of
        Returned (JDict creds) \<Rightarrow>
          (case (FindString creds ''username'', FindString creds ''password'') of
             (Some u, Some p) \<Rightarrow> [(''id'', JString rid), (''username'', JString u), (''password'', JString p)]
           | _ \<Rightarrow> [(''id'', JString rid)])
      | _ \<Rightarrow> [(''id'', JString rid)])"

record Handlers =
  onFileChooser :: bool
  onPermission :: bool
  onCertError :: bool
  onLogin :: bool
  onEvent :: bool

record 't ViewerControl =
  vc_open :: bool
  vc_throws :: bool
  disposed :: bool
  open_prompt :: "ControlPrompt option"
  in_flight :: "ViewerAsk list"
  vc_nextSeq :: nat
  vc_out :: "'t list"
  vc_events :: "(string \<times> json_dict) list"

definition new_viewer :: "nat \<Rightarrow> 't ViewerControl" where
  "new_viewer seq = \<lparr>vc_open = True, vc_throws = False, disposed = False, open_prompt = None, in_flight = [],
     vc_nextSeq = seq, vc_out = [], vc_events = []\<rparr>"

definition buildResponse :: "int \<Rightarrow> nat \<Rightarrow> json_dict \<Rightarrow> json" where
  "buildResponse now seq data =
     JDict [(''v'', JInt 1), (''type'', JString ''ui_response''), (''t'', JInt now), (''seq'', JInt (int seq)), (''data'', JDict data)]"

definition vc_send :: "(json \<Rightarrow> 't) \<Rightarrow> int \<Rightarrow> json_dict \<Rightarrow> 't ViewerControl \<Rightarrow> 't ViewerControl" where
  "vc_send stringify now data s =
     (if \<not> vc_open s then s
      else
        let s1 = s\<lparr>vc_nextSeq := vc_nextSeq s + 1\<rparr> in
        if vc_throws s then s1 else s1\<lparr>vc_out := vc_out s1 @ [stringify (buildResponse now (vc_nextSeq s) data)]\<rparr>)"

text \<open>Without a handler the answer is the one of a handler that fails.\<close>

definition settleWith :: "(json \<Rightarrow> 't) \<Rightarrow> int \<Rightarrow> bool \<Rightarrow> ViewerAsk \<Rightarrow> 't ViewerControl \<Rightarrow> 't ViewerControl" where
  "settleWith stringify now handler req s =
     (if \<not> handler then vc_send stringify now (toResponse req Threw) s else s\<lparr>in_flight := in_flight s @ [req]\<rparr>)"

definition vc_settled :: "(json \<Rightarrow> 't) \<Rightarrow> int \<Rightarrow> nat \<Rightarrow> handler_result \<Rightarrow> 't ViewerControl \<Rightarrow> 't ViewerControl" where
  "vc_settled stringify now n r s =
     (if n < length (in_flight s)
      then vc_send stringify now (toResponse (in_flight s ! n) r) (s\<lparr>in_flight := take n (in_flight s) @ drop (Suc n) (in_flight s)\<rparr>)
      else s)"

text \<open>The buttons and keys of the dialog that is shown; an alert has no way to cancel.\<close>

definition finish :: "(json \<Rightarrow> 't) \<Rightarrow> int \<Rightarrow> bool \<Rightarrow> string \<Rightarrow> 't ViewerControl \<Rightarrow> 't ViewerControl" where
  "finish stringify now accept input s =
     (case open_prompt s of
        None \<Rightarrow> s
      | Some p \<Rightarrow>
          if \<not> accept \<and> cp_dialogType p = ''alert'' then s
          else
            vc_send stringify now
              ([(''id'', JString (cp_id p)), (''accept'', JBool accept)]
                @ (if accept \<and> cp_dialogType p = ''prompt'' then [(''prompt_text'', JString input)] else []))
              (s\<lparr>open_prompt := None\<rparr>))"

definition show_prompt :: "(json \<Rightarrow> 't) \<Rightarrow> int \<Rightarrow> ControlPrompt \<Rightarrow> 't ViewerControl \<Rightarrow> 't ViewerControl" where
  "show_prompt stringify now p s =
     (let s1 = (case open_prompt s of
            None \<Rightarrow> s
          | Some q \<Rightarrow> (vc_send stringify now [(''id'', JString (cp_id q))] s)\<lparr>open_prompt := None\<rparr>)
      in s1\<lparr>open_prompt := Some p\<rparr>)"

definition onRequest ::
  "TextLib \<Rightarrow> Handlers \<Rightarrow> (json \<Rightarrow> 't) \<Rightarrow> int \<Rightarrow> string \<Rightarrow> string \<Rightarrow> json_dict \<Rightarrow> 't ViewerControl \<Rightarrow> 't ViewerControl" where
  "onRequest L h stringify now rid kind d s =
     (if kind = ''file_chooser'' then settleWith stringify now (onFileChooser h) (chooser_request L rid d) s
      else if kind = ''permission'' then settleWith stringify now (onPermission h) (permission_request L rid d) s
      else if kind = ''cert_error'' then settleWith stringify now (onCertError h) (cert_request L rid d) s
      else if kind = ''login'' then settleWith stringify now (onLogin h) (login_request L rid d) s
      else if kind \<noteq> ''js_dialog'' then vc_send stringify now [(''id'', JString rid)] s
      else show_prompt stringify now (toPrompt L rid kind d) s)"

definition onFrame ::
  "TextLib \<Rightarrow> Handlers \<Rightarrow> ('t \<Rightarrow> json option) \<Rightarrow> (json \<Rightarrow> 't) \<Rightarrow> int \<Rightarrow> 't \<Rightarrow> 't ViewerControl \<Rightarrow> 't ViewerControl" where
  "onFrame L h parse stringify now raw s =
     (if disposed s then s
      else
        case parse raw of
          None \<Rightarrow> s
        | Some parsed \<Rightarrow>
            if isValidEvent parsed then
              (case parsed of
                 JDict e \<Rightarrow>
                   let d = (case FindDict e ''data'' of None \<Rightarrow> [] | Some d \<Rightarrow> d) in
                   (case FindString d ''kind'' of
                      Some k \<Rightarrow> if onEvent h then s\<lparr>vc_events := vc_events s @ [(k, d)]\<rparr> else s
                    | None \<Rightarrow> s)
               | _ \<Rightarrow> s)
            else if \<not> isValidRequest parsed then s
            else
              (case parsed of
                 JDict e \<Rightarrow>
                   (case FindDict e ''data'' of
                      Some d \<Rightarrow>
                        (case (FindString d ''id'', FindString d ''kind'') of
                           (Some rid, Some kind) \<Rightarrow> onRequest L h stringify now rid kind d s
                         | _ \<Rightarrow> s)
                    | None \<Rightarrow> s)
               | _ \<Rightarrow> s))"

section \<open>Events\<close>

datatype viewer_event =
    Vc_Settle nat handler_result
  | Vc_Answer bool string
  | Vc_Close
  | Vc_Dispose
  | Vc_Channel bool bool

fun viewer_step :: "(json \<Rightarrow> 't) \<Rightarrow> int \<Rightarrow> viewer_event \<Rightarrow> 't ViewerControl \<Rightarrow> 't ViewerControl" where
  "viewer_step stringify now (Vc_Settle n r) s = vc_settled stringify now n r s"
| "viewer_step stringify now (Vc_Answer accept input) s = finish stringify now accept input s"
| "viewer_step stringify now Vc_Close s = s\<lparr>vc_open := False, open_prompt := None\<rparr>"
| "viewer_step stringify now Vc_Dispose s = s\<lparr>disposed := True, open_prompt := None\<rparr>"
| "viewer_step stringify now (Vc_Channel is_open throws) s = s\<lparr>vc_open := is_open, vc_throws := throws\<rparr>"

end
