(* ===== verification/Cb_Consent.thy ===== *)
theory Cb_Consent
  imports Cb_Control_Answers Cb_Control_Viewer
begin

text \<open>
  The control channel end to end: the worker of \<open>Cb_Control\<close> and the viewer of
  \<open>Cb_Control_Viewer\<close>, with the frames between them. The invariant \<open>conversation_ok\<close> traces every answer
  Chromium is given back to what a handler of the viewer returned for the question it was asked.
\<close>

section \<open>Worker and viewer together\<close>

text \<open>
  \<open>decided\<close> and \<open>pressed\<close> log what the handlers returned and what was pressed, with the session it
  was in. A request of the present session can arrive at the viewer, and an answer of the viewer
  at the worker, at any time and in any order. A session has its own data channel and its own
  viewer.
\<close>

record 't Conversation =
  guest :: "'t Guest"
  peer :: "'t ViewerControl"
  history :: "'t control_event list"
  decided :: "(nat \<times> ViewerAsk \<times> handler_result) list"
  pressed :: "(nat \<times> ControlPrompt \<times> bool \<times> string) list"

datatype 't meeting_event =
    At_Guest "'t control_event"
  | At_Viewer viewer_event
  | Request_Arrives nat
  | Answer_Arrives nat

record 't MeetingEnv =
  me_control :: "'t ControlEnv"
  me_text :: TextLib
  me_handlers :: Handlers
  me_parse :: "'t \<Rightarrow> json option"
  me_stringify :: "json \<Rightarrow> 't"

definition new_meeting :: "'t Conversation" where
  "new_meeting = \<lparr>guest = new_guest, peer = new_viewer 0, history = [], decided = [], pressed = []\<rparr>"

fun log_viewer :: "nat \<Rightarrow> viewer_event \<Rightarrow> 't ViewerControl \<Rightarrow> 't Conversation \<Rightarrow> 't Conversation" where
  "log_viewer g (Vc_Settle n r) v m =
     (if n < length (in_flight v) then m\<lparr>decided := decided m @ [(g, in_flight v ! n, r)]\<rparr> else m)"
| "log_viewer g (Vc_Answer accept input) v m =
     (case open_prompt v of None \<Rightarrow> m | Some p \<Rightarrow> m\<lparr>pressed := pressed m @ [(g, p, accept, input)]\<rparr>)"
| "log_viewer g _ v m = m"

fun is_message :: "'t control_event \<Rightarrow> bool" where
  "is_message (Cc_Message _ _) = True"
| "is_message _ = False"

fun meeting_step :: "'t MeetingEnv \<Rightarrow> int \<times> 't meeting_event \<Rightarrow> 't Conversation \<Rightarrow> 't Conversation" where
  "meeting_step E (now, At_Guest e) m =
     (if is_message e then m
      else
        let g = control_step (me_control E) (now, e) (guest m) in
        m\<lparr>guest := g, history := history m @ [e],
          peer := (if cc_gen g = cc_gen (guest m) then peer m else new_viewer (vc_nextSeq (peer m)))\<rparr>)"
| "meeting_step E (now, At_Viewer e) m =
     (log_viewer (cc_gen (guest m)) e (peer m) m)\<lparr>peer := viewer_step (me_stringify E) now e (peer m)\<rparr>"
| "meeting_step E (now, Request_Arrives n) m =
     (if n < length (sent (guest m)) \<and> fst (sent (guest m) ! n) = cc_gen (guest m)
      then m\<lparr>peer := onFrame (me_text E) (me_handlers E) (me_parse E) (me_stringify E) now
               (snd (snd (snd (sent (guest m) ! n)))) (peer m)\<rparr>
      else m)"
| "meeting_step E (now, Answer_Arrives n) m =
     (if n < length (vc_out (peer m))
      then m\<lparr>guest := control_step (me_control E) (now, Cc_Message (vc_out (peer m) ! n) False) (guest m)\<rparr>
      else m)"

definition meeting_run :: "'t MeetingEnv \<Rightarrow> (int \<times> 't meeting_event) list \<Rightarrow> 't Conversation" where
  "meeting_run E es = fold (meeting_step E) es new_meeting"

section \<open>What a request carries\<close>

text \<open>The question an event asks: the closure, the kind and the payload.\<close>

text \<open>The origin shown for a permission.\<close>

definition asking_origin :: "bool \<Rightarrow> string \<Rightarrow> string option \<Rightarrow> string" where
  "asking_origin current requesting_origin document =
     (if current then (case document of None \<Rightarrow> requesting_origin | Some d \<Rightarrow> d)
      else if requesting_origin = [] then (case document of None \<Rightarrow> [] | Some d \<Rightarrow> d) else requesting_origin)"

fun question :: "'t ControlEnv \<Rightarrow> 't control_event \<Rightarrow> (Ask \<times> string \<times> json_dict) option" where
  "question env (Cc_Dialog cb origin type message default_prompt) =
     Some (Dialog_Closed cb (DefaultAcceptFor type), ''js_dialog'',
       [(''dialog_type'', JString (DialogTypeName type)), (''message'', JString (TruncateUtf8 env message)),
        (''default_prompt'', JString (TruncateUtf8 env default_prompt)), (''origin'', JString origin)])"
| "question env (Cc_BeforeUnload cb origin is_reload) =
     Some (BeforeUnload_Closed cb, ''js_dialog'',
       [(''is_reload'', JBool is_reload), (''dialog_type'', JString ''beforeunload''), (''message'', JString []),
        (''default_prompt'', JString []), (''origin'', JString origin)])"
| "question env (Cc_Permission cb current requesting_origin document names) =
     Some (Permission_Decided cb (length names), ''permission'',
       [(''origin'', JString (asking_origin current requesting_origin document)), (''permissions'', JList (map JString names))])"
| "question env (Cc_Certificate cb url cert_error cert is_main_frame strict) =
     (if strict then None
      else Some (Certificate_Decided cb, ''cert_error'',
       [(''url'', JString url), (''cert_error'', JInt cert_error), (''is_main_frame'', JBool is_main_frame)]
          @ (case cert of None \<Rightarrow> [] | Some (subject, issuer) \<Rightarrow> [(''subject'', JString subject), (''issuer'', JString issuer)])))"
| "question env (Cc_Login login url realm scheme is_proxy first_attempt) =
     Some (Login_Answered login, ''login'',
       [(''url'', JString url), (''realm'', JString realm), (''scheme'', JString scheme), (''is_proxy'', JBool is_proxy),
        (''first_attempt'', JBool first_attempt)])"
| "question env (Cc_Chooser listener mode accept_types title) =
     Some (Chooser_Answered, ''file_chooser'',
       [(''accept'', JList (map (JString \<circ> cc_utf8 env) accept_types)), (''multiple'', JBool (mode = 1)),
        (''title'', JString (cc_utf8 env title))])"
| "question env _ = None"

definition request_data :: "string \<Rightarrow> string \<Rightarrow> int \<Rightarrow> json_dict \<Rightarrow> json_dict" where
  "request_data rid kind deadline payload =
     DictSet ''deadline_ms'' (JInt deadline) (DictSet ''kind'' (JString kind) (DictSet ''id'' (JString rid) payload))"

definition carries :: "'t ControlEnv \<Rightarrow> 't control_event list \<Rightarrow> string \<Rightarrow> Ask \<Rightarrow> 't \<Rightarrow> bool" where
  "carries env es rid a j \<longleftrightarrow>
     (\<exists>e now seq kind deadline payload. e \<in> set es \<and> question env e = Some (a, kind, payload)
        \<and> cc_wr env (control_envelope ''ui_request'' now seq (request_data rid kind deadline payload)) = Some j)"

lemma carries_mono: "carries env es rid a j \<Longrightarrow> set es \<subseteq> set es' \<Longrightarrow> carries env es' rid a j"
  unfolding carries_def by blast

lemma sent_SendRequest:
  assumes "(g, rid, b, j) \<in> set (sent (SendRequest env now kind payload deadline a s))"
  shows "(g, rid, b, j) \<in> set (sent s)
    \<or> b = a \<and> (\<exists>seq. cc_wr env (control_envelope ''ui_request'' now seq (request_data rid kind deadline payload)) = Some j)"
  using assms by (auto simp: SendRequest_def Let_def request_data_def split: if_splits option.splits)

lemma Resolve_fields [simp]:
  "sent (ResolvePending env r d s) = sent s" "heard (ResolvePending env r d s) = heard s" "cc_gen (ResolvePending env r d s) = cc_gen s"
  by (simp_all add: ResolvePending_def split: option.split)

lemma Responded_fields [simp]:
  "sent (OnViewerResponded env l d s) = sent s" "heard (OnViewerResponded env l d s) = heard s"
  "cc_gen (OnViewerResponded env l d s) = cc_gen s"
  using run_callback_fields [of env "Login_Answered l" d s] by simp_all

lemma task_fields [simp]:
  "sent (run_cc_task env t s) = sent s" "heard (run_cc_task env t s) = heard s" "cc_gen (run_cc_task env t s) = cc_gen s"
  by (cases t; simp)+

lemma sent_step:
  assumes "(g, rid, a, j) \<in> set (sent (control_step env (now, e) s))"
  shows "(g, rid, a, j) \<in> set (sent s) \<or> carries env [e] rid a j"
proof -
  have send: "(g, rid, a, j) \<in> set (sent (SendRequest env now kind payload deadline b s')) \<Longrightarrow>
      question env e = Some (b, kind, payload) \<Longrightarrow> (g, rid, a, j) \<in> set (sent s') \<or> carries env [e] rid a j"
    for kind payload deadline b s'
    using sent_SendRequest [of g rid a j env now kind payload deadline b s'] unfolding carries_def by auto
  show ?thesis
  proof (cases e)
    case (Cc_Certificate cb url code cert main strict)
    with assms show ?thesis
      by (auto simp: AllowCertificateError_def dest!: send split: if_splits)
  next
    case (Cc_Chooser listener mode accept title)
    with assms show ?thesis
      by (auto simp: RunFileChooser_def Let_def dest!: send split: if_splits option.splits)
  qed (use assms in \<open>auto simp: RunJavaScriptDialog_def AskOrDefault_def RunBeforeUnloadDialog_def RequestPermissions_def
      RequestPermissionsFromCurrentDocument_def AskViewer_def CbLoginDelegate_def destroy_login_def CancelDialogs_def OnSent_def
      cc_OnMessage_def start_session_def end_session_def asking_origin_def Let_def dest!: send
      split: if_splits option.splits list.splits prod.splits\<close>)
qed

lemma SendRequest_fields [simp]:
  "heard (SendRequest env now kind payload deadline a s) = heard s"
  "cc_gen (SendRequest env now kind payload deadline a s) = cc_gen s"
  "set (sent s) \<subseteq> set (sent (SendRequest env now kind payload deadline a s))"
  by (auto simp: SendRequest_def Let_def split: option.split)

lemmas ask_defs = RunJavaScriptDialog_def AskOrDefault_def RunBeforeUnloadDialog_def RequestPermissions_def
  RequestPermissionsFromCurrentDocument_def AskViewer_def CbLoginDelegate_def AllowCertificateError_def RunFileChooser_def

lemma sent_grows: "set (sent s) \<subseteq> set (sent (control_step env (now, e) s))"
proof -
  have "set (sent s) \<subseteq> set (sent (SendRequest env now k p d a s'))" if "sent s' = sent s" for k p d a s'
    using SendRequest_fields(3) [of s' env now k p d a] that by simp
  then show ?thesis
    by (cases e) (simp_all add: ask_defs destroy_login_def CancelDialogs_def OnSent_def cc_OnMessage_def
      start_session_def end_session_def Let_def split: option.split list.split prod.split)
qed

lemma heard_step: "\<not> is_message e \<Longrightarrow> heard (control_step env (now, e) s) = heard s"
  by (cases e) (simp_all add: ask_defs destroy_login_def CancelDialogs_def OnSent_def
      start_session_def end_session_def Let_def split: option.split list.split prod.split)

lemma message_fields:
  "sent (control_step env (now, Cc_Message raw b) s) = sent s"
  "cc_gen (control_step env (now, Cc_Message raw b) s) = cc_gen s"
  "set (heard (control_step env (now, Cc_Message raw b) s)) \<subseteq> set (heard s) \<union> {(cc_gen s, raw)}"
  by (auto simp: cc_OnMessage_def split: option.split)

section \<open>Where answers come from\<close>

definition built :: "TextLib \<Rightarrow> string \<Rightarrow> string \<Rightarrow> json_dict \<Rightarrow> ViewerAsk option" where
  "built L rid kind d =
     (if kind = ''file_chooser'' then Some (chooser_request L rid d)
      else if kind = ''permission'' then Some (permission_request L rid d)
      else if kind = ''cert_error'' then Some (cert_request L rid d)
      else if kind = ''login'' then Some (login_request L rid d) else None)"

definition request_frame :: "('t \<Rightarrow> json option) \<Rightarrow> 't \<Rightarrow> (string \<times> string \<times> json_dict) option" where
  "request_frame parse j =
     (case parse j of
        Some (JDict e) \<Rightarrow>
          (case FindDict e ''data'' of
             Some d \<Rightarrow>
               (case (FindString d ''id'', FindString d ''kind'') of
                  (Some rid, Some kind) \<Rightarrow> Some (rid, kind, d)
                | _ \<Rightarrow> None)
           | None \<Rightarrow> None)
      | _ \<Rightarrow> None)"

definition delivered_request :: "'t MeetingEnv \<Rightarrow> 't Conversation \<Rightarrow> nat \<Rightarrow> string \<Rightarrow> string \<Rightarrow> json_dict \<Rightarrow> bool" where
  "delivered_request E m g rid kind d \<longleftrightarrow>
     (\<exists>i a j. (g, i, a, j) \<in> set (sent (guest m)) \<and> request_frame (me_parse E) j = Some (rid, kind, d))"

definition asked :: "'t MeetingEnv \<Rightarrow> 't Conversation \<Rightarrow> nat \<Rightarrow> ViewerAsk \<Rightarrow> bool" where
  "asked E m g ask \<longleftrightarrow> (\<exists>rid kind d. delivered_request E m g rid kind d \<and> built (me_text E) rid kind d = Some ask)"

definition prompted :: "'t MeetingEnv \<Rightarrow> 't Conversation \<Rightarrow> nat \<Rightarrow> ControlPrompt \<Rightarrow> bool" where
  "prompted E m g p \<longleftrightarrow> (\<exists>rid d. delivered_request E m g rid ''js_dialog'' d \<and> p = toPrompt (me_text E) rid ''js_dialog'' d)"

definition prompt_answer :: "ControlPrompt \<Rightarrow> bool \<Rightarrow> string \<Rightarrow> json_dict" where
  "prompt_answer p accept input =
     [(''id'', JString (cp_id p)), (''accept'', JBool accept)]
       @ (if accept \<and> cp_dialogType p = ''prompt'' then [(''prompt_text'', JString input)] else [])"

definition backed :: "'t Conversation \<Rightarrow> nat \<Rightarrow> json_dict \<Rightarrow> bool" where
  "backed m g data \<longleftrightarrow> (\<exists>ask r. (g, ask, r) \<in> set (decided m) \<and> data = toResponse ask r)
     \<or> (\<exists>p accept input. (g, p, accept, input) \<in> set (pressed m) \<and> data = prompt_answer p accept input)
     \<or> (\<exists>rid. data = [(''id'', JString rid)]) \<or> (\<exists>ask. data = toResponse ask Threw)"

definition spoken :: "'t MeetingEnv \<Rightarrow> 't Conversation \<Rightarrow> nat \<Rightarrow> 't \<Rightarrow> bool" where
  "spoken E m g t \<longleftrightarrow> (\<exists>now seq data. t = me_stringify E (buildResponse now seq data) \<and> backed m g data)"

text \<open>Facts about a meeting that later events do not take back.\<close>

definition grows :: "'t Conversation \<Rightarrow> 't Conversation \<Rightarrow> bool" where
  "grows m m' \<longleftrightarrow> set (sent (guest m)) \<subseteq> set (sent (guest m')) \<and> set (decided m) \<subseteq> set (decided m')
     \<and> set (pressed m) \<subseteq> set (pressed m')"

lemma delivered_grows: "grows m m' \<Longrightarrow> delivered_request E m g rid kind d \<Longrightarrow> delivered_request E m' g rid kind d"
  unfolding delivered_request_def grows_def by blast

lemma asked_grows: "grows m m' \<Longrightarrow> asked E m g ask \<Longrightarrow> asked E m' g ask"
  unfolding asked_def using delivered_grows by blast

lemma prompted_grows: "grows m m' \<Longrightarrow> prompted E m g p \<Longrightarrow> prompted E m' g p"
  unfolding prompted_def using delivered_grows by blast

lemma backed_grows: "grows m m' \<Longrightarrow> backed m g data \<Longrightarrow> backed m' g data"
  unfolding backed_def grows_def by blast

lemma spoken_grows: "grows m m' \<Longrightarrow> spoken E m g t \<Longrightarrow> spoken E m' g t"
  unfolding spoken_def using backed_grows by blast

definition viewer_ok :: "'t MeetingEnv \<Rightarrow> 't Conversation \<Rightarrow> 't ViewerControl \<Rightarrow> bool" where
  "viewer_ok E m v \<longleftrightarrow> list_all (asked E m (cc_gen (guest m))) (in_flight v)
     \<and> (case open_prompt v of None \<Rightarrow> True | Some p \<Rightarrow> prompted E m (cc_gen (guest m)) p)
     \<and> list_all (spoken E m (cc_gen (guest m))) (vc_out v)"

definition conversation_ok :: "'t MeetingEnv \<Rightarrow> 't Conversation \<Rightarrow> bool" where
  "conversation_ok E m \<longleftrightarrow> control_ok (me_control E) (guest m) \<and> viewer_ok E m (peer m)
     \<and> (\<forall>(g, rid, a, j) \<in> set (sent (guest m)). carries (me_control E) (history m) rid a j)
     \<and> (\<forall>(g, t) \<in> set (heard (guest m)). spoken E m g t)
     \<and> (\<forall>(g, ask, r) \<in> set (decided m). asked E m g ask)
     \<and> (\<forall>(g, p, b, t) \<in> set (pressed m). prompted E m g p)"

lemma viewer_ok_grows:
  assumes "grows m m'" "cc_gen (guest m') = cc_gen (guest m)" "viewer_ok E m v"
  shows "viewer_ok E m' v"
  using assms(2,3) asked_grows [OF assms(1), of E] prompted_grows [OF assms(1), of E] spoken_grows [OF assms(1), of E]
  by (auto simp: viewer_ok_def list_all_iff split: option.splits)

lemma vc_send_fields [simp]:
  "in_flight (vc_send st now data s) = in_flight s" "open_prompt (vc_send st now data s) = open_prompt s"
  "set (vc_out (vc_send st now data s)) \<subseteq> set (vc_out s) \<union> {st (buildResponse now (vc_nextSeq s) data)}"
  by (auto simp: vc_send_def Let_def)

lemma viewer_ok_send:
  assumes "viewer_ok E m v" "backed m (cc_gen (guest m)) data"
  shows "viewer_ok E m (vc_send (me_stringify E) now data v)"
proof -
  have "spoken E m (cc_gen (guest m)) t" if "t \<in> set (vc_out (vc_send (me_stringify E) now data v))" for t
  proof -
    have "t \<in> set (vc_out v) \<or> t = me_stringify E (buildResponse now (vc_nextSeq v) data)"
      using vc_send_fields(3) [THEN subsetD, OF that] by blast
    then show ?thesis using assms unfolding viewer_ok_def list_all_iff spoken_def by blast
  qed
  then show ?thesis using assms(1) by (simp add: viewer_ok_def list_all_iff)
qed

lemma backed_simple [simp]: "backed m g [(''id'', JString rid)]" "backed m g (toResponse ask Threw)"
  unfolding backed_def by blast+

lemma viewer_ok_settleWith:
  "viewer_ok E m v \<Longrightarrow> asked E m (cc_gen (guest m)) ask \<Longrightarrow> viewer_ok E m (settleWith (me_stringify E) now h ask v)"
  by (simp add: settleWith_def viewer_ok_send) (simp add: viewer_ok_def)

lemma viewer_ok_prompt:
  assumes "viewer_ok E m v" "prompted E m (cc_gen (guest m)) p"
  shows "viewer_ok E m (show_prompt (me_stringify E) now p v)"
proof -
  have "viewer_ok E m (vc_send (me_stringify E) now [(''id'', JString i)] v)" for i using viewer_ok_send [OF assms(1)] by simp
  then show ?thesis
    using assms by (auto simp: show_prompt_def Let_def viewer_ok_def split: option.split)
qed

lemma viewer_ok_request:
  assumes "viewer_ok E m v" "delivered_request E m (cc_gen (guest m)) rid kind d"
  shows "viewer_ok E m (onRequest (me_text E) h (me_stringify E) now rid kind d v)"
proof -
  have "asked E m (cc_gen (guest m)) ask" if "built (me_text E) rid kind d = Some ask" for ask
    using assms(2) that unfolding asked_def by blast
  moreover have "prompted E m (cc_gen (guest m)) (toPrompt (me_text E) rid kind d)" if "kind = ''js_dialog''"
    using assms(2) that unfolding prompted_def by blast
  ultimately show ?thesis
    by (simp add: onRequest_def built_def viewer_ok_settleWith viewer_ok_prompt viewer_ok_send assms(1))
qed

lemma viewer_ok_frame:
  assumes "viewer_ok E m v" "(cc_gen (guest m), i, a, j) \<in> set (sent (guest m))"
  shows "viewer_ok E m (onFrame (me_text E) h (me_parse E) (me_stringify E) now j v)"
proof -
  have ev: "viewer_ok E m (v\<lparr>vc_events := l\<rparr>)" for l using assms(1) by (simp add: viewer_ok_def)
  have "viewer_ok E m (onRequest (me_text E) h (me_stringify E) now rid kind d v)"
    if "request_frame (me_parse E) j = Some (rid, kind, d)" for rid kind d
    by (rule viewer_ok_request [OF assms(1)]) (use assms(2) that in \<open>auto simp: delivered_request_def\<close>)
  then show ?thesis
    by (simp add: onFrame_def request_frame_def assms(1) ev Let_def split: option.split json.split)
qed

lemma meeting_okI:
  assumes "conversation_ok E m" "grows m m'" "control_ok (me_control E) (guest m')" "viewer_ok E m' (peer m')"
    and "\<And>g rid a j. (g, rid, a, j) \<in> set (sent (guest m')) \<Longrightarrow> carries (me_control E) (history m') rid a j"
    and "\<And>g t. (g, t) \<in> set (heard (guest m')) \<Longrightarrow> (g, t) \<in> set (heard (guest m)) \<or> spoken E m' g t"
    and "\<And>g ask r. (g, ask, r) \<in> set (decided m') \<Longrightarrow> (g, ask, r) \<in> set (decided m) \<or> asked E m' g ask"
    and "\<And>g p b x. (g, p, b, x) \<in> set (pressed m') \<Longrightarrow> (g, p, b, x) \<in> set (pressed m) \<or> prompted E m' g p"
  shows "conversation_ok E m'"
proof -
  have "spoken E m' g t" if "(g, t) \<in> set (heard (guest m'))" for g t
    using assms(6) [OF that] assms(1) spoken_grows [OF assms(2)] unfolding conversation_ok_def by blast
  moreover have "asked E m' g ask" if "(g, ask, r) \<in> set (decided m')" for g ask r
    using assms(7) [OF that] assms(1) asked_grows [OF assms(2)] unfolding conversation_ok_def by blast
  moreover have "prompted E m' g p" if "(g, p, b, t) \<in> set (pressed m')" for g p b t
    using assms(8) [OF that] assms(1) prompted_grows [OF assms(2)] unfolding conversation_ok_def by blast
  ultimately show ?thesis
    using assms(3-5) unfolding conversation_ok_def by blast
qed

lemma meeting_okD:
  "conversation_ok E m \<Longrightarrow> control_ok (me_control E) (guest m)" "conversation_ok E m \<Longrightarrow> viewer_ok E m (peer m)"
  "conversation_ok E m \<Longrightarrow> (g, rid, a, j) \<in> set (sent (guest m)) \<Longrightarrow> carries (me_control E) (history m) rid a j"
  "conversation_ok E m \<Longrightarrow> (g, t) \<in> set (heard (guest m)) \<Longrightarrow> spoken E m g t"
  "conversation_ok E m \<Longrightarrow> (g, ask, r) \<in> set (decided m) \<Longrightarrow> asked E m g ask"
  "conversation_ok E m \<Longrightarrow> (g, p, b, x) \<in> set (pressed m) \<Longrightarrow> prompted E m g p"
  unfolding conversation_ok_def by blast+

lemma viewer_ok_new [simp]: "viewer_ok E m (new_viewer n)"
  by (simp add: viewer_ok_def new_viewer_def)

lemma meeting_ok_guest:
  assumes ok: "conversation_ok E m" and e: "\<not> is_message e"
  shows "conversation_ok E (meeting_step E (now, At_Guest e) m)"
proof -
  let ?g = "control_step (me_control E) (now, e) (guest m)"
  let ?m = "m\<lparr>guest := ?g, history := history m @ [e],
     peer := (if cc_gen ?g = cc_gen (guest m) then peer m else new_viewer (vc_nextSeq (peer m)))\<rparr>"
  have gr: "grows m ?m" using sent_grows [of "guest m"] by (simp add: grows_def)
  have step: "meeting_step E (now, At_Guest e) m = ?m" using e by (simp add: Let_def)
  have h: "heard ?g = heard (guest m)" using e by (rule heard_step)
  show ?thesis
    unfolding step
  proof (rule meeting_okI [OF ok gr])
    show "control_ok (me_control E) (guest ?m)" using control_ok_step [OF meeting_okD(1) [OF ok]] by simp
    show "viewer_ok E ?m (peer ?m)"
      using viewer_ok_grows [OF gr _ meeting_okD(2) [OF ok]] by simp
    fix g rid a j assume "(g, rid, a, j) \<in> set (sent (guest ?m))"
    then have "(g, rid, a, j) \<in> set (sent (guest m)) \<or> carries (me_control E) [e] rid a j"
      using sent_step [of g rid a j "me_control E" now e "guest m"] by simp
    then show "carries (me_control E) (history ?m) rid a j"
      using carries_mono [OF meeting_okD(3) [OF ok], of g rid a j "history m @ [e]"] by (auto elim: carries_mono)
  qed (simp_all add: h)
qed

lemma meeting_ok_viewer:
  assumes ok: "conversation_ok E m"
  shows "conversation_ok E (meeting_step E (now, At_Viewer e) m)"
proof -
  let ?m = "log_viewer (cc_gen (guest m)) e (peer m) m"
  have same: "guest ?m = guest m" "history ?m = history m"
    by (cases e; simp split: option.split)+
  have gr: "grows m ?m"
    by (cases e) (auto simp: grows_def split: option.split)
  have v: "viewer_ok E ?m (peer m)"
    using viewer_ok_grows [OF gr _ meeting_okD(2) [OF ok]] same by simp
  have drop: "viewer_ok E ?m ((peer m)\<lparr>in_flight := take n (in_flight (peer m)) @ drop (Suc n) (in_flight (peer m))\<rparr>)"
      "viewer_ok E ?m ((peer m)\<lparr>open_prompt := None\<rparr>)" for n
    using v by (auto simp: viewer_ok_def list_all_iff dest: in_set_takeD in_set_dropD)
  have "viewer_ok E ?m (viewer_step (me_stringify E) now e (peer m))"
  proof (cases e)
    case (Vc_Settle n r)
    have "backed ?m (cc_gen (guest ?m)) (toResponse (in_flight (peer m) ! n) r)" if "n < length (in_flight (peer m))"
      using that Vc_Settle unfolding backed_def by auto
    then have "viewer_ok E ?m (vc_settled (me_stringify E) now n r (peer m))"
      using v viewer_ok_send [OF drop(1)] by (simp add: vc_settled_def del: log_viewer.simps)
    with Vc_Settle show ?thesis by simp
  next
    case (Vc_Answer accept input)
    have "backed ?m (cc_gen (guest ?m)) (prompt_answer p accept input)" if "open_prompt (peer m) = Some p" for p
    proof -
      have "(cc_gen (guest ?m), p, accept, input) \<in> set (pressed ?m)" using that Vc_Answer by simp
      then show ?thesis unfolding backed_def by blast
    qed
    then have "viewer_ok E ?m (finish (me_stringify E) now accept input (peer m))"
      using v viewer_ok_send [OF drop(2)] by (auto simp: finish_def prompt_answer_def simp del: log_viewer.simps split: option.split)
    with Vc_Answer show ?thesis by simp
  qed (use v in \<open>simp_all add: viewer_ok_def\<close>)
  then have peer: "viewer_ok E (?m\<lparr>peer := viewer_step (me_stringify E) now e (peer m)\<rparr>) (viewer_step (me_stringify E) now e (peer m))"
    by (rule viewer_ok_grows [rotated 2]) (simp_all add: grows_def)
  have gr': "grows m (?m\<lparr>peer := v'\<rparr>)" for v' using gr by (simp add: grows_def)
  have asked: "asked E (?m\<lparr>peer := v'\<rparr>) (cc_gen (guest m)) (in_flight (peer m) ! n)" if "n < length (in_flight (peer m))" for n v'
    using asked_grows [OF gr', of E] that meeting_okD(2) [OF ok] by (auto simp: viewer_ok_def list_all_length)
  have prompted: "prompted E (?m\<lparr>peer := v'\<rparr>) (cc_gen (guest m)) p" if "open_prompt (peer m) = Some p" for p v'
    using prompted_grows [OF gr', of E] that meeting_okD(2) [OF ok] by (auto simp: viewer_ok_def)
  show ?thesis
    unfolding meeting_step.simps
  proof (rule meeting_okI [OF ok gr'])
    fix g ask r assume "(g, ask, r) \<in> set (decided (?m\<lparr>peer := viewer_step (me_stringify E) now e (peer m)\<rparr>))"
    then show "(g, ask, r) \<in> set (decided m) \<or> asked E (?m\<lparr>peer := viewer_step (me_stringify E) now e (peer m)\<rparr>) g ask"
      using asked by (cases e) (auto split: if_splits option.splits)
  next
    fix g p b t assume "(g, p, b, t) \<in> set (pressed (?m\<lparr>peer := viewer_step (me_stringify E) now e (peer m)\<rparr>))"
    then show "(g, p, b, t) \<in> set (pressed m) \<or> prompted E (?m\<lparr>peer := viewer_step (me_stringify E) now e (peer m)\<rparr>) g p"
      using prompted by (cases e) (auto split: if_splits option.splits)
  qed (use peer same meeting_okD(1,3) [OF ok] in simp_all)
qed

lemma meeting_ok_step:
  assumes ok: "conversation_ok E m"
  shows "conversation_ok E (meeting_step E e m)"
proof -
  obtain now ev where e: "e = (now, ev)" by (cases e)
  show ?thesis
  proof (cases ev)
    case (At_Guest x)
    then show ?thesis using meeting_ok_guest [OF ok] ok e by (cases "is_message x") auto
  next
    case (At_Viewer x)
    then show ?thesis using meeting_ok_viewer [OF ok] e by simp
  next
    case (Request_Arrives n)
    let ?v = "onFrame (me_text E) (me_handlers E) (me_parse E) (me_stringify E) now (snd (snd (snd (sent (guest m) ! n)))) (peer m)"
    have "conversation_ok E (m\<lparr>peer := ?v\<rparr>)" if n: "n < length (sent (guest m))" "fst (sent (guest m) ! n) = cc_gen (guest m)"
    proof (rule meeting_okI [OF ok])
      obtain i a j where p: "sent (guest m) ! n = (cc_gen (guest m), i, a, j)"
        using n(2) by (metis prod.collapse)
      then have "(cc_gen (guest m), i, a, j) \<in> set (sent (guest m))" using nth_mem [OF n(1)] by simp
      then have "viewer_ok E m ?v" using viewer_ok_frame [OF meeting_okD(2) [OF ok]] p by simp
      then show "viewer_ok E (m\<lparr>peer := ?v\<rparr>) (peer (m\<lparr>peer := ?v\<rparr>))"
        by (simp add: viewer_ok_grows [of m] grows_def)
    qed (use meeting_okD(1,3) [OF ok] in \<open>simp_all add: grows_def\<close>)
    then show ?thesis using ok e Request_Arrives by simp
  next
    case (Answer_Arrives n)
    let ?raw = "vc_out (peer m) ! n"
    let ?g = "control_step (me_control E) (now, Cc_Message ?raw False) (guest m)"
    have "conversation_ok E (m\<lparr>guest := ?g\<rparr>)" if n: "n < length (vc_out (peer m))"
    proof -
      have gr: "grows m (m\<lparr>guest := ?g\<rparr>)" by (simp add: grows_def message_fields(1) del: control_step.simps)
      show ?thesis
      proof (rule meeting_okI [OF ok gr])
        show "control_ok (me_control E) (guest (m\<lparr>guest := ?g\<rparr>))"
          using control_ok_step [OF meeting_okD(1) [OF ok]] by (simp del: control_step.simps)
        show "viewer_ok E (m\<lparr>guest := ?g\<rparr>) (peer (m\<lparr>guest := ?g\<rparr>))"
          using viewer_ok_grows [OF gr _ meeting_okD(2) [OF ok]] by (simp add: message_fields(2) del: control_step.simps)
        fix g t assume "(g, t) \<in> set (heard (guest (m\<lparr>guest := ?g\<rparr>)))"
        then have "(g, t) \<in> set (heard (guest m)) \<or> (g, t) = (cc_gen (guest m), ?raw)"
          using message_fields(3) [THEN subsetD, of "(g, t)"] by (simp del: control_step.simps) blast
        moreover have "spoken E m (cc_gen (guest m)) ?raw"
          using meeting_okD(2) [OF ok] n by (auto simp: viewer_ok_def list_all_length)
        ultimately show "(g, t) \<in> set (heard (guest m)) \<or> spoken E (m\<lparr>guest := ?g\<rparr>) g t"
          using spoken_grows [OF gr] by blast
      qed (use meeting_okD(3) [OF ok] in \<open>simp_all add: message_fields del: control_step.simps\<close>)
    qed
    then show ?thesis using ok e Answer_Arrives by (simp del: control_step.simps)
  qed
qed

interpretation meeting: invariant_machine "\<lambda>m. m = new_meeting" "meeting_step E" "conversation_ok E" for E :: "'t MeetingEnv"
proof
  fix m :: "'t Conversation" assume "m = new_meeting"
  then show "conversation_ok E m"
    using control.invar_reached [OF refl, of "me_control E" "[]"]
    by (simp add: conversation_ok_def new_meeting_def new_guest_def)
qed (rule meeting_ok_step)

section \<open>Consent\<close>

lemma FindString_request_data [simp]:
  "FindString (request_data rid kind deadline payload) ''id'' = Some rid"
  "FindString (request_data rid kind deadline payload) ''kind'' = Some kind"
  by (simp_all add: request_data_def)

lemma Find_request_data:
  "k \<noteq> ''id'' \<Longrightarrow> k \<noteq> ''kind'' \<Longrightarrow> k \<noteq> ''deadline_ms'' \<Longrightarrow> Find (request_data rid kind deadline payload) k = Find payload k"
  by (simp add: request_data_def)

lemma carried_frame:
  assumes "parses_json rnd parse (cc_wr env)" "carries env es rid a j"
  shows "\<exists>e kind deadline payload. e \<in> set es \<and> question env e = Some (a, kind, payload)
    \<and> request_frame parse j = Some (rid, kind, js_dict rnd (request_data rid kind deadline payload))"
proof -
  from assms(2) obtain e now seq kind deadline payload where e: "e \<in> set es" "question env e = Some (a, kind, payload)"
    "cc_wr env (control_envelope ''ui_request'' now seq (request_data rid kind deadline payload)) = Some j"
    unfolding carries_def by blast
  then have "parse j = Some (js_value rnd (control_envelope ''ui_request'' now seq (request_data rid kind deadline payload)))"
    using assms(1) by (simp add: parses_json_def)
  then have "request_frame parse j = Some (rid, kind, js_dict rnd (request_data rid kind deadline payload))"
    by (simp add: request_frame_def control_envelope_def js_value_JDict FindDict_js del: js_value.simps)
  with e(1,2) show ?thesis by blast
qed

lemma delivered_question:
  assumes "parses_json rnd (me_parse E) (cc_wr (me_control E))" "conversation_ok E m" "delivered_request E m g rid kind d"
  shows "\<exists>a j e deadline payload. (g, rid, a, j) \<in> set (sent (guest m)) \<and> e \<in> set (history m)
    \<and> question (me_control E) e = Some (a, kind, payload) \<and> d = js_dict rnd (request_data rid kind deadline payload)"
proof -
  from assms(3) obtain i a j where s: "(g, i, a, j) \<in> set (sent (guest m))" "request_frame (me_parse E) j = Some (rid, kind, d)"
    unfolding delivered_request_def by blast
  show ?thesis
    using carried_frame [OF assms(1) meeting_okD(3) [OF assms(2) s(1)]] s by auto
qed

lemma sent_unique:
  assumes "ids_ok s" "(g, rid, a, j) \<in> set (sent s)" "(g, rid, a', j') \<in> set (sent s)"
  shows "a = a'"
proof -
  have "distinct (map (\<lambda>(g, rid, a, j). (g, rid)) (sent s))" using assms(1) by (simp add: ids_ok_def)
  then have "inj_on (\<lambda>(g, rid, a, j). (g, rid)) (set (sent s))" by (simp add: distinct_map)
  from inj_onD [OF this _ assms(2,3)] show ?thesis by simp
qed

lemma heard_answer:
  assumes "reads_json (cc_rd (me_control E)) (me_stringify E)" "conversation_ok E m" "(g, raw) \<in> set (heard (guest m))"
    "HandleInboundJson (cc_rd (me_control E)) raw = Some (rid, response)"
  shows "\<exists>data. backed m g data \<and> response = as_read_dict data \<and> FindString data ''id'' = Some rid"
proof -
  from meeting_okD(4) [OF assms(2,3)] obtain now seq data where
    t: "raw = me_stringify E (buildResponse now seq data)" "backed m g data"
    unfolding spoken_def by blast
  have "cc_rd (me_control E) raw = Some (as_read (buildResponse now seq data))"
    using assms(1) t(1) by (simp add: reads_json_def)
  then have "response = as_read_dict data \<and> FindString data ''id'' = Some rid"
    using assms(4) FindString_as_read [of data "''id''"]
    by (auto simp: HandleInboundJson_def buildResponse_def as_read_JDict FindDict_as_read FindString_as_read
      simp del: as_read.simps split: option.splits if_splits)
  with t(2) show ?thesis by blast
qed

text \<open>An answer that is not the default comes from the viewer of the session the question was sent in.\<close>

lemma answer_source:
  assumes "reads_json (cc_rd (me_control E)) (me_stringify E)" "conversation_ok E m" "r \<in> set (ran_log (guest m))"
    and "\<And>l. r \<noteq> Ran_Chooser_Canceled l" "\<And>a. reply (me_control E) a [] \<noteq> Some r"
  shows "\<exists>a g rid j data. reply (me_control E) a (as_read_dict data) = Some r \<and> (g, rid, a, j) \<in> set (sent (guest m))
    \<and> backed m g data \<and> FindString data ''id'' = Some rid"
proof -
  have "answer_ok (me_control E) (guest m) r"
    using meeting_okD(1) [OF assms(2)] assms(3) by (simp add: control_ok_def explained_def list_all_iff)
  with assms(4,5) obtain a response where r: "reply (me_control E) a response = Some r"
      "answer_heard (me_control E) (guest m) a response" "response \<noteq> []"
    unfolding answer_ok_def by metis
  from r(2,3) obtain g rid j raw where "(g, rid, a, j) \<in> set (sent (guest m))" "(g, raw) \<in> set (heard (guest m))"
      "HandleInboundJson (cc_rd (me_control E)) raw = Some (rid, response)"
    unfolding answer_heard_def by blast
  with heard_answer [OF assms(1,2)] r(1) show ?thesis by blast
qed

lemma asked_question:
  assumes "parses_json rnd (me_parse E) (cc_wr (me_control E))" "conversation_ok E m" "(g, ask, r) \<in> set (decided m)"
  shows "\<exists>rid a j kind e deadline payload. (g, rid, a, j) \<in> set (sent (guest m)) \<and> e \<in> set (history m)
    \<and> question (me_control E) e = Some (a, kind, payload)
    \<and> built (me_text E) rid kind (js_dict rnd (request_data rid kind deadline payload)) = Some ask"
proof -
  from meeting_okD(5) [OF assms(2,3)] obtain rid kind d where
    d: "delivered_request E m g rid kind d" "built (me_text E) rid kind d = Some ask"
    unfolding asked_def by blast
  with delivered_question [OF assms(1,2) d(1)] show ?thesis by blast
qed

fun ask_id :: "ViewerAsk \<Rightarrow> string" where
  "ask_id (FileChooserRequest rid _ _ _) = rid"
| "ask_id (PermissionRequest rid _ _) = rid"
| "ask_id (CertErrorRequest rid _ _ _ _ _) = rid"
| "ask_id (LoginRequest rid _ _ _ _ _) = rid"

lemma built_id: "built L rid kind d = Some ask \<Longrightarrow> ask_id ask = rid"
  by (auto simp: built_def chooser_request_def permission_request_def cert_request_def login_request_def split: if_splits)

lemma toResponse_id: "FindString (toResponse ask r) ''id'' = Some (ask_id ask)"
  by (cases ask) (simp_all split: handler_result.split json.split option.split)

text \<open>A handler's answer is one to the question whose callback it decides.\<close>

lemma decided_question:
  assumes "parses_json rnd (me_parse E) (cc_wr (me_control E))" "conversation_ok E m" "(g, ask, r) \<in> set (decided m)"
    "(g, ask_id ask, a, j) \<in> set (sent (guest m))"
  shows "\<exists>kind e deadline payload. e \<in> set (history m) \<and> question (me_control E) e = Some (a, kind, payload)
    \<and> built (me_text E) (ask_id ask) kind (js_dict rnd (request_data (ask_id ask) kind deadline payload)) = Some ask"
proof -
  from asked_question [OF assms(1-3)] obtain rid a' j' kind e deadline payload where
    q: "(g, rid, a', j') \<in> set (sent (guest m))" "e \<in> set (history m)" "question (me_control E) e = Some (a', kind, payload)"
      "built (me_text E) rid kind (js_dict rnd (request_data rid kind deadline payload)) = Some ask"
    by blast
  have "rid = ask_id ask" using built_id [OF q(4)] by simp
  moreover from this have "a' = a"
    using sent_unique [OF control_okD(1) [OF meeting_okD(1) [OF assms(2)]]] q(1) assms(4) by blast
  ultimately show ?thesis using q(2-4) by blast
qed

lemma granted_decision:
  assumes "backed m g data" "FindBool data ''granted'' = Some True"
  shows "\<exists>rid names origin. (g, PermissionRequest rid names origin, Returned (JBool True)) \<in> set (decided m)
    \<and> data = toResponse (PermissionRequest rid names origin) (Returned (JBool True))"
proof -
  have ask: "\<exists>rid names origin. ask = PermissionRequest rid names origin \<and> r = Returned (JBool True)"
    if "FindBool (toResponse ask r) ''granted'' = Some True" for ask r
    using that by (cases ask) (auto simp: FindBool_def GetIfBool_def split: handler_result.splits json.splits option.splits)
  show ?thesis
    using assms ask unfolding backed_def
    by (auto simp: prompt_answer_def FindBool_def GetIfBool_def split: if_splits) (fastforce simp: FindBool_def)+
qed

lemma proceed_decision:
  assumes "backed m g data" "FindBool data ''proceed'' = Some True"
  shows "\<exists>rid url code subject issuer main. (g, CertErrorRequest rid url code subject issuer main, Returned (JBool True)) \<in> set (decided m)
    \<and> data = toResponse (CertErrorRequest rid url code subject issuer main) (Returned (JBool True))"
proof -
  have ask: "\<exists>rid url code subject issuer main. ask = CertErrorRequest rid url code subject issuer main \<and> r = Returned (JBool True)"
    if "FindBool (toResponse ask r) ''proceed'' = Some True" for ask r
    using that by (cases ask) (auto simp: FindBool_def GetIfBool_def split: handler_result.splits json.splits option.splits)
  show ?thesis
    using assms ask unfolding backed_def
    by (auto simp: prompt_answer_def FindBool_def GetIfBool_def split: if_splits) (fastforce simp: FindBool_def)+
qed

lemma login_decision:
  assumes "backed m g data" "FindString data ''username'' = Some u" "FindString data ''password'' = Some p"
  shows "\<exists>rid url realm scheme proxy first creds.
    (g, LoginRequest rid url realm scheme proxy first, Returned (JDict creds)) \<in> set (decided m)
    \<and> FindString creds ''username'' = Some u \<and> FindString creds ''password'' = Some p
    \<and> data = toResponse (LoginRequest rid url realm scheme proxy first) (Returned (JDict creds))"
proof -
  have ask: "\<exists>rid url realm scheme proxy first creds. ask = LoginRequest rid url realm scheme proxy first \<and> r = Returned (JDict creds)
      \<and> FindString creds ''username'' = Some u \<and> FindString creds ''password'' = Some p"
    if "FindString (toResponse ask r) ''username'' = Some u" "FindString (toResponse ask r) ''password'' = Some p" for ask r
    using that by (cases ask) (auto split: handler_result.splits json.splits option.splits)
  show ?thesis
    using assms ask unfolding backed_def
    by (auto simp: prompt_answer_def split: if_splits) (fastforce)+
qed

lemma FindBool_Nil [simp]: "FindBool [] k = None"
  by (simp add: FindBool_def)

lemma grant_source:
  assumes "reads_json (cc_rd (me_control E)) (me_stringify E)" "parses_json rnd (me_parse E) (cc_wr (me_control E))"
    and "conversation_ok E m" "Ran_Permission cb rs \<in> set (ran_log (guest m))" "GRANTED \<in> set rs"
  shows "\<exists>current requesting document names g rid. Cc_Permission cb current requesting document names \<in> set (history m)
    \<and> (g, PermissionRequest rid names (clampText (me_text E) (Some (asking_origin current requesting document))), Returned (JBool True))
        \<in> set (decided m)"
proof -
  have "reply (me_control E) a [] \<noteq> Some (Ran_Permission cb rs)" for a
    using assms(5) by (cases a) auto
  from answer_source [OF assms(1,3,4) _ this] obtain a g rid j data where
    r: "reply (me_control E) a (as_read_dict data) = Some (Ran_Permission cb rs)" "(g, rid, a, j) \<in> set (sent (guest m))"
      "backed m g data" "FindString data ''id'' = Some rid" by auto
  from r(1) assms(5) obtain n where a: "a = Permission_Decided cb n" "FindBool data ''granted'' = Some True"
    by (cases a) (auto simp: FindBool_as_read split: option.splits if_splits)
  from granted_decision [OF r(3) a(2)] obtain i names origin where
    d: "(g, PermissionRequest i names origin, Returned (JBool True)) \<in> set (decided m)"
      "data = toResponse (PermissionRequest i names origin) (Returned (JBool True))" by blast
  have "i = rid" using r(4) d(2) by simp
  with decided_question [OF assms(2,3) d(1), of a j] r(2) obtain kind e deadline payload where
    q: "e \<in> set (history m)" "question (me_control E) e = Some (a, kind, payload)"
      "built (me_text E) rid kind (js_dict rnd (request_data rid kind deadline payload)) = Some (PermissionRequest rid names origin)"
    by auto
  from q(2) a(1) obtain current requesting document asked where
    e: "e = Cc_Permission cb current requesting document asked" "kind = ''permission''"
      "payload = [(''origin'', JString (asking_origin current requesting document)), (''permissions'', JList (map JString asked))]"
    by (cases e) (auto split: if_splits)
  have "names = asked" "origin = clampText (me_text E) (Some (asking_origin current requesting document))"
    using q(3) unfolding e(2,3)
    by (simp_all add: built_def permission_request_def string_items_def FindList_def Find_js Find_request_data FindString_def GetIfString_def
      List.map_filter_def comp_def)
  with e(1) q(1) d(1) \<open>i = rid\<close> show ?thesis by blast
qed

lemma proceed_source:
  assumes "reads_json (cc_rd (me_control E)) (me_stringify E)" "parses_json rnd (me_parse E) (cc_wr (me_control E))"
    and "conversation_ok E m" "Ran_Certificate cb True \<in> set (ran_log (guest m))"
  shows "\<exists>url code cert main g rid subject issuer. Cc_Certificate cb url code cert main False \<in> set (history m)
    \<and> (g, CertErrorRequest rid (clampText (me_text E) (Some url)) (rnd (of_int code)) subject issuer main, Returned (JBool True))
        \<in> set (decided m)"
proof -
  have "reply (me_control E) a [] \<noteq> Some (Ran_Certificate cb True)" for a
    by (cases a) auto
  from answer_source [OF assms(1,3,4) _ this] obtain a g rid j data where
    r: "reply (me_control E) a (as_read_dict data) = Some (Ran_Certificate cb True)" "(g, rid, a, j) \<in> set (sent (guest m))"
      "backed m g data" "FindString data ''id'' = Some rid" by auto
  from r(1) have a: "a = Certificate_Decided cb" "FindBool data ''proceed'' = Some True"
    by (cases a; auto simp: FindBool_as_read split: option.splits if_splits)+
  from proceed_decision [OF r(3) a(2)] obtain i u c subject issuer b where
    d: "(g, CertErrorRequest i u c subject issuer b, Returned (JBool True)) \<in> set (decided m)"
      "data = toResponse (CertErrorRequest i u c subject issuer b) (Returned (JBool True))" by blast
  have "i = rid" using r(4) d(2) by simp
  with decided_question [OF assms(2,3) d(1), of a j] r(2) obtain kind e deadline payload where
    q: "e \<in> set (history m)" "question (me_control E) e = Some (a, kind, payload)"
      "built (me_text E) rid kind (js_dict rnd (request_data rid kind deadline payload)) = Some (CertErrorRequest rid u c subject issuer b)"
    by auto
  from q(2) a(1) obtain url code cert main where
    e: "e = Cc_Certificate cb url code cert main False" "kind = ''cert_error''"
      "Find payload ''url'' = Some (JString url)" "Find payload ''cert_error'' = Some (JInt code)"
      "Find payload ''is_main_frame'' = Some (JBool main)"
    by (cases e) (auto split: if_splits)
  have "u = clampText (me_text E) (Some url)" "c = rnd (of_int code)" "b = main"
    using q(3) unfolding e(2)
    by (simp_all add: built_def cert_request_def FindString_def FindBool_def FindDouble_def Find_js Find_request_data e(3-5)
      GetIfString_def GetIfBool_def GetIfDouble_def)
  with e(1) q(1) d(1) \<open>i = rid\<close> show ?thesis by blast
qed

lemma login_source:
  assumes "reads_json (cc_rd (me_control E)) (me_stringify E)" "parses_json rnd (me_parse E) (cc_wr (me_control E))"
    and "conversation_ok E m" "Ran_Login l (Some (u, p)) \<in> set (ran_log (guest m))"
  shows "\<exists>url realm scheme proxy first g rid creds user password. Cc_Login l url realm scheme proxy first \<in> set (history m)
    \<and> (g, LoginRequest rid (clampText (me_text E) (Some url)) (clampText (me_text E) (Some realm))
            (clampText (me_text E) (Some scheme)) proxy first, Returned (JDict creds)) \<in> set (decided m)
    \<and> FindString creds ''username'' = Some user \<and> FindString creds ''password'' = Some password
    \<and> u = cc_utf16 (me_control E) user \<and> p = cc_utf16 (me_control E) password"
proof -
  have "reply (me_control E) a [] \<noteq> Some (Ran_Login l (Some (u, p)))" for a
    by (cases a) auto
  from answer_source [OF assms(1,3,4) _ this] obtain a g rid j data where
    r: "reply (me_control E) a (as_read_dict data) = Some (Ran_Login l (Some (u, p)))" "(g, rid, a, j) \<in> set (sent (guest m))"
      "backed m g data" "FindString data ''id'' = Some rid" by auto
  from r(1) obtain user password where a: "a = Login_Answered l" "FindString data ''username'' = Some user"
      "FindString data ''password'' = Some password" "u = cc_utf16 (me_control E) user" "p = cc_utf16 (me_control E) password"
    by (cases a) (auto simp: FindString_as_read split: option.splits if_splits)
  from login_decision [OF r(3) a(2,3)] obtain i url' realm' scheme' proxy' first' creds where
    d: "(g, LoginRequest i url' realm' scheme' proxy' first', Returned (JDict creds)) \<in> set (decided m)"
      "FindString creds ''username'' = Some user" "FindString creds ''password'' = Some password"
      "data = toResponse (LoginRequest i url' realm' scheme' proxy' first') (Returned (JDict creds))" by blast
  have "i = rid" using r(4) d by simp
  with decided_question [OF assms(2,3) d(1), of a j] r(2) obtain kind e deadline payload where
    q: "e \<in> set (history m)" "question (me_control E) e = Some (a, kind, payload)"
      "built (me_text E) rid kind (js_dict rnd (request_data rid kind deadline payload))
         = Some (LoginRequest rid url' realm' scheme' proxy' first')"
    by auto
  from q(2) a(1) obtain url realm scheme proxy first where
    e: "e = Cc_Login l url realm scheme proxy first" "kind = ''login''"
      "payload = [(''url'', JString url), (''realm'', JString realm), (''scheme'', JString scheme), (''is_proxy'', JBool proxy),
        (''first_attempt'', JBool first)]"
    by (cases e) (auto split: if_splits)
  have "url' = clampText (me_text E) (Some url)" "realm' = clampText (me_text E) (Some realm)"
      "scheme' = clampText (me_text E) (Some scheme)" "proxy' = proxy" "first' = first"
    using q(3) unfolding e(2,3)
    by (simp_all add: built_def login_request_def FindString_def FindBool_def Find_js Find_request_data GetIfString_def GetIfBool_def)
  with e(1) q(1) d(1-3) \<open>i = rid\<close> a(4,5) show ?thesis by blast
qed

text \<open>
  C0. Nothing is allowed without consent, end to end: when a page is granted a permission, a
  certificate error is passed over or credentials are handed to a server, the viewer's handler was
  called with that very question (the permissions and origin, the address and error, the address and
  realm that were asked about) and returned the answer. This holds for any number of sessions, whatever
  requests are open at the same time and in whatever order frames, deadlines and cancellations arrive;
  a certificate error under strict enforcement is never passed over.
\<close>

theorem consent_end_to_end:
  assumes "reads_json (cc_rd (me_control E)) (me_stringify E)" "parses_json rnd (me_parse E) (cc_wr (me_control E))"
  shows "(\<forall>cb rs. Ran_Permission cb rs \<in> set (ran_log (guest (meeting_run E es))) \<and> GRANTED \<in> set rs \<longrightarrow>
      (\<exists>current requesting document names g rid. Cc_Permission cb current requesting document names \<in> set (history (meeting_run E es))
        \<and> (g, PermissionRequest rid names (clampText (me_text E) (Some (asking_origin current requesting document))), Returned (JBool True))
            \<in> set (decided (meeting_run E es))))
    \<and> (\<forall>cb. Ran_Certificate cb True \<in> set (ran_log (guest (meeting_run E es))) \<longrightarrow>
      (\<exists>url code cert main g rid subject issuer. Cc_Certificate cb url code cert main False \<in> set (history (meeting_run E es))
        \<and> (g, CertErrorRequest rid (clampText (me_text E) (Some url)) (rnd (of_int code)) subject issuer main, Returned (JBool True))
            \<in> set (decided (meeting_run E es))))
    \<and> (\<forall>l u p. Ran_Login l (Some (u, p)) \<in> set (ran_log (guest (meeting_run E es))) \<longrightarrow>
      (\<exists>url realm scheme proxy first g rid creds user password. Cc_Login l url realm scheme proxy first \<in> set (history (meeting_run E es))
        \<and> (g, LoginRequest rid (clampText (me_text E) (Some url)) (clampText (me_text E) (Some realm))
              (clampText (me_text E) (Some scheme)) proxy first, Returned (JDict creds)) \<in> set (decided (meeting_run E es))
        \<and> FindString creds ''username'' = Some user \<and> FindString creds ''password'' = Some password
        \<and> u = cc_utf16 (me_control E) user \<and> p = cc_utf16 (me_control E) password))"
proof -
  have ok: "conversation_ok E (meeting_run E es)"
    unfolding meeting_run_def by (rule meeting.invar_reached [OF refl])
  show ?thesis
    using grant_source [OF assms ok] proceed_source [OF assms ok] login_source [OF assms ok] by (intro conjI allI impI) blast+
qed

text \<open>A page asks for the position and the viewer agrees; values are their own text.\<close>

definition demo_meeting :: "json MeetingEnv" where
  "demo_meeting = \<lparr>me_control = demo_control\<lparr>cc_rd := (\<lambda>v. Some (as_read v))\<rparr>, me_text = \<lparr>js_length = length, js_slice = take\<rparr>,
     me_handlers = \<lparr>onFileChooser = True, onPermission = True, onCertError = True, onLogin = True, onEvent = True\<rparr>,
     me_parse = (\<lambda>v. Some (js_value (\<lambda>r. r) v)), me_stringify = (\<lambda>v. v)\<rparr>"

definition demo_grant :: "(int \<times> json meeting_event) list" where
  "demo_grant = [(0, At_Guest Cc_Start), (0, At_Guest (Cc_Open True)),
     (1, At_Guest (Cc_Permission 7 True [] (Some ''https://a'') [''geolocation''])), (2, Request_Arrives 0),
     (5, At_Viewer (Vc_Settle 0 (Returned (JBool True)))), (6, Answer_Arrives 0), (6, At_Guest Cc_Ui)]"

lemma demo_meeting_json:
  "reads_json (cc_rd (me_control demo_meeting)) (me_stringify demo_meeting)"
  "parses_json (\<lambda>r. r) (me_parse demo_meeting) (cc_wr (me_control demo_meeting))"
  by (simp_all add: reads_json_def parses_json_def demo_meeting_def demo_control_def)

lemma demo_granted: "Ran_Permission 7 [GRANTED] \<in> set (ran_log (guest (meeting_run demo_meeting demo_grant)))"
  by (simp add: meeting_run_def demo_grant_def new_meeting_def new_guest_def start_session_def demo_meeting_def demo_control_def
    RequestPermissionsFromCurrentDocument_def AskViewer_def SendRequest_def Let_def first_ids onFrame_def isValidEvent_def
    isValidRequest_def control_envelope_def DictSet_def FindDouble_def GetIfDouble_def FindDict_def nonempty_string_def onRequest_def
    settleWith_def permission_request_def string_items_def vc_settled_def vc_send_def new_viewer_def cc_OnMessage_def kMaxInboundFrameBytes_def
    HandleInboundJson_def buildResponse_def int32_def ResolvePending_def permission_answer_def run_back_def FindBool_def GetIfBool_def)

theorem consent_end_to_end_witness:
  "reads_json (cc_rd (me_control demo_meeting)) (me_stringify demo_meeting)
   \<and> parses_json (\<lambda>r. r) (me_parse demo_meeting) (cc_wr (me_control demo_meeting))
   \<and> Ran_Permission 7 [GRANTED] \<in> set (ran_log (guest (meeting_run demo_meeting demo_grant)))
   \<and> (\<exists>current requesting document names g rid.
        Cc_Permission 7 current requesting document names \<in> set (history (meeting_run demo_meeting demo_grant))
        \<and> (g, PermissionRequest rid names (clampText (me_text demo_meeting) (Some (asking_origin current requesting document))),
             Returned (JBool True)) \<in> set (decided (meeting_run demo_meeting demo_grant)))"
proof -
  have "GRANTED \<in> set [GRANTED]" by simp
  then show ?thesis
    using consent_end_to_end [OF demo_meeting_json, of demo_grant, THEN conjunct1] demo_meeting_json demo_granted by blast
qed

end
