(* ===== verification/Cb_Clipboard.thy ===== *)
theory Cb_Clipboard
  imports Cb_Json "HOL-Library.Word"
begin

text \<open>
  The clipboard between viewer and worker: \<^verbatim>\<open>cb_clipboard_relay.cc\<close>, which pastes what the viewer
  offers and forwards what the page copies after a gesture, and \<^verbatim>\<open>client/src/clipboard.ts\<close>. The guest's
  clipboard is part of the worker's state, and a write to it notifies the relay at once; reading it is
  asynchronous. Times are in milliseconds.
\<close>

section \<open>The relay\<close>

definition kMaxClipboardTextBytes :: nat where
  "kMaxClipboardTextBytes = 2 ^ 20"

definition kClipboardArmWindow :: int where
  "kClipboardArmWindow = 2000"

record 't ClipEnv =
  cl_rd :: "'t \<Rightarrow> json option"
  cl_wr :: "json \<Rightarrow> 't option"
  cl_bytes :: "'t \<Rightarrow> nat"
  cl_utf8 :: "16 word list \<Rightarrow> string"
  cl_utf16 :: "string \<Rightarrow> 16 word list"

text \<open>\<open>clip_reads\<close>: reads of the clipboard under way. \<open>paste_keys\<close>: Ctrl+V dispatched to a widget.\<close>

record 't Relay =
  guest_clipboard :: "16 word list"
  last_written_text :: string
  copy_armed_until :: "int option"
  cl_next_seq :: nat
  pastes_applied :: nat
  copies_sent :: nat
  changes_ignored :: nat
  cl_ui :: "string list"
  clip_reads :: nat
  paste_keys :: nat
  cl_out :: "'t list"

definition new_relay :: "'t Relay" where
  "new_relay = \<lparr>guest_clipboard = [], last_written_text = [], copy_armed_until = None, cl_next_seq = 0, pastes_applied = 0,
     copies_sent = 0, changes_ignored = 0, cl_ui = [], clip_reads = 0, paste_keys = 0, cl_out = []\<rparr>"

definition clip_HandleInboundJson :: "'t ClipEnv \<Rightarrow> 't \<Rightarrow> 't Relay \<Rightarrow> 't Relay" where
  "clip_HandleInboundJson env raw s =
     (case cl_rd env raw of
        Some (JDict envelope) \<Rightarrow>
          if FindInt envelope ''v'' \<noteq> Some 1 \<or> FindString envelope ''type'' \<noteq> Some ''clipboard_offer'' then s
          else
            (case FindDict envelope ''data'' of
               None \<Rightarrow> s
             | Some data \<Rightarrow>
                 if FindString data ''direction'' \<noteq> Some ''client->cloud'' \<or> FindString data ''source'' \<noteq> Some ''user_action'' then s
                 else
                   (case FindString data ''text'' of
                      None \<Rightarrow> s
                    | Some t \<Rightarrow> if length t > kMaxClipboardTextBytes then s else s\<lparr>cl_ui := cl_ui s @ [t]\<rparr>))
      | _ \<Rightarrow> s)"

definition clip_OnMessage :: "'t ClipEnv \<Rightarrow> 't \<Rightarrow> bool \<Rightarrow> 't Relay \<Rightarrow> 't Relay" where
  "clip_OnMessage env raw binary s =
     (if binary \<or> cl_bytes env raw > kMaxClipboardTextBytes + 512 then s else clip_HandleInboundJson env raw s)"

definition OnClipboardDataChanged :: "int \<Rightarrow> 't Relay \<Rightarrow> 't Relay" where
  "OnClipboardDataChanged now s =
     (case copy_armed_until s of
        None \<Rightarrow> s\<lparr>changes_ignored := changes_ignored s + 1\<rparr>
      | Some until \<Rightarrow>
          if now > until then s\<lparr>changes_ignored := changes_ignored s + 1\<rparr>
          else s\<lparr>copy_armed_until := None, clip_reads := clip_reads s + 1\<rparr>)"

text \<open>The active page, if there is one, and whether it has a widget.\<close>

definition SynthesizePaste :: "bool \<Rightarrow> 't Relay \<Rightarrow> 't Relay" where
  "SynthesizePaste widget s = (if widget then s\<lparr>paste_keys := paste_keys s + 1\<rparr> else s)"

definition ApplyPaste :: "'t ClipEnv \<Rightarrow> int \<Rightarrow> bool option \<Rightarrow> string \<Rightarrow> 't Relay \<Rightarrow> 't Relay" where
  "ApplyPaste env now contents t s =
     (let s1 = OnClipboardDataChanged now (s\<lparr>last_written_text := t, guest_clipboard := cl_utf16 env t\<rparr>) in
      case contents of
        None \<Rightarrow> s1
      | Some widget \<Rightarrow> (SynthesizePaste widget s1)\<lparr>pastes_applied := pastes_applied s1 + 1\<rparr>)"

definition ArmCopyWindow :: "int \<Rightarrow> 't Relay \<Rightarrow> 't Relay" where
  "ArmCopyWindow now s = s\<lparr>copy_armed_until := Some (now + kClipboardArmWindow)\<rparr>"

definition offer_json :: "string \<Rightarrow> int \<Rightarrow> nat \<Rightarrow> string \<Rightarrow> json" where
  "offer_json direction now seq t =
     JDict [(''v'', JInt 1), (''type'', JString ''clipboard_offer''), (''t'', JDouble (of_int now)), (''seq'', JDouble (of_nat seq)),
            (''data'', JDict [(''direction'', JString direction), (''source'', JString ''user_action''), (''text'', JString t)])]"

definition SendCopy :: "'t ClipEnv \<Rightarrow> int \<Rightarrow> string \<Rightarrow> 't Relay \<Rightarrow> 't Relay" where
  "SendCopy env now t s =
     (let s1 = s\<lparr>cl_next_seq := cl_next_seq s + 1\<rparr> in
      case cl_wr env (offer_json ''cloud->client'' now (cl_next_seq s) t) of
        None \<Rightarrow> s1
      | Some json \<Rightarrow> s1\<lparr>copies_sent := copies_sent s1 + 1, cl_out := cl_out s1 @ [json]\<rparr>)"

definition OnClipboardTextRead :: "'t ClipEnv \<Rightarrow> int \<Rightarrow> 16 word list \<Rightarrow> 't Relay \<Rightarrow> 't Relay" where
  "OnClipboardTextRead env now text16 s =
     (let t = cl_utf8 env text16 in
      if t = [] then s
      else if t = last_written_text s then s\<lparr>changes_ignored := changes_ignored s + 1\<rparr>
      else if length t > kMaxClipboardTextBytes then s
      else SendCopy env now t s)"

text \<open>
  \<open>Cl_Gesture\<close>: the input dispatcher saw a copy gesture. \<open>Cl_Page\<close>: the page writes its clipboard.
  \<open>Cl_Ui\<close>: a posted paste runs. \<open>Cl_Read\<close>: a read completes.
\<close>

datatype 't clip_event =
    Cl_Message 't bool
  | Cl_Ui "bool option"
  | Cl_Gesture
  | Cl_Page "16 word list"
  | Cl_Read

fun clip_step :: "'t ClipEnv \<Rightarrow> int \<times> 't clip_event \<Rightarrow> 't Relay \<Rightarrow> 't Relay" where
  "clip_step env (now, Cl_Message raw binary) s = clip_OnMessage env raw binary s"
| "clip_step env (now, Cl_Ui contents) s =
     (case cl_ui s of [] \<Rightarrow> s | t # ts \<Rightarrow> ApplyPaste env now contents t (s\<lparr>cl_ui := ts\<rparr>))"
| "clip_step env (now, Cl_Gesture) s = ArmCopyWindow now s"
| "clip_step env (now, Cl_Page text16) s = OnClipboardDataChanged now (s\<lparr>guest_clipboard := text16\<rparr>)"
| "clip_step env (now, Cl_Read) s =
     (if clip_reads s = 0 then s else OnClipboardTextRead env now (guest_clipboard s) (s\<lparr>clip_reads := clip_reads s - 1\<rparr>))"

section \<open>The viewer\<close>

text \<open>
  \<open>clip_written\<close>: what was written to the viewer's clipboard. The listener for the focus event is
  installed once and removes itself when it fires.
\<close>

record 't ClipboardChannel =
  cc_open :: bool
  cc_throws :: bool
  cc_focus :: bool
  cc_seq :: nat
  pendingWrite :: "string option"
  focusListenerInstalled :: bool
  listening :: bool
  clip_written :: "string list"
  cc_out :: "'t list"

definition new_clipboard_channel :: "'t ClipboardChannel" where
  "new_clipboard_channel = \<lparr>cc_open = True, cc_throws = False, cc_focus = True, cc_seq = 0, pendingWrite = None,
     focusListenerInstalled = False, listening = False, clip_written = [], cc_out = []\<rparr>"

definition clip_isValidEnvelope :: "json \<Rightarrow> bool" where
  "clip_isValidEnvelope env \<longleftrightarrow>
     (case env of
        JDict e \<Rightarrow>
          FindDouble e ''v'' = Some 1 \<and> FindString e ''type'' = Some ''clipboard_offer''
          \<and> FindDouble e ''t'' \<noteq> None \<and> FindDouble e ''seq'' \<noteq> None
          \<and> (case FindDict e ''data'' of
               None \<Rightarrow> False
             | Some d \<Rightarrow>
                 (FindString d ''direction'' = Some ''client->cloud'' \<or> FindString d ''direction'' = Some ''cloud->client'')
                 \<and> FindString d ''source'' = Some ''user_action''
                 \<and> (case FindString d ''text'' of None \<Rightarrow> False | Some t \<Rightarrow> length t \<le> kMaxClipboardTextBytes))
      | _ \<Rightarrow> False)"

definition sendPaste :: "(json \<Rightarrow> 't) \<Rightarrow> int \<Rightarrow> string \<Rightarrow> 't ClipboardChannel \<Rightarrow> bool \<times> 't ClipboardChannel" where
  "sendPaste stringify now t s =
     (if length t > kMaxClipboardTextBytes \<or> \<not> cc_open s then (False, s)
      else
        let s1 = s\<lparr>cc_seq := cc_seq s + 1\<rparr> in
        if cc_throws s then (False, s1)
        else (True, s1\<lparr>cc_out := cc_out s1 @ [stringify (offer_json ''client->cloud'' now (cc_seq s) t)]\<rparr>))"

definition onPaste :: "(json \<Rightarrow> 't) \<Rightarrow> int \<Rightarrow> string option \<Rightarrow> 't ClipboardChannel \<Rightarrow> 't ClipboardChannel" where
  "onPaste stringify now t s =
     (case t of None \<Rightarrow> s | Some x \<Rightarrow> if x = [] then s else snd (sendPaste stringify now x s))"

definition queueWrite :: "string \<Rightarrow> 't ClipboardChannel \<Rightarrow> 't ClipboardChannel" where
  "queueWrite t s =
     (if cc_focus s then s\<lparr>clip_written := clip_written s @ [t]\<rparr>
      else
        let s1 = s\<lparr>pendingWrite := Some t\<rparr> in
        if focusListenerInstalled s1 then s1 else s1\<lparr>focusListenerInstalled := True, listening := True\<rparr>)"

definition flushPending :: "'t ClipboardChannel \<Rightarrow> 't ClipboardChannel" where
  "flushPending s =
     (case pendingWrite s of None \<Rightarrow> s | Some t \<Rightarrow> s\<lparr>pendingWrite := None, clip_written := clip_written s @ [t]\<rparr>)"

definition clip_onMessage :: "('t \<Rightarrow> json option) \<Rightarrow> 't \<Rightarrow> 't ClipboardChannel \<Rightarrow> 't ClipboardChannel" where
  "clip_onMessage parse raw s =
     (case parse raw of
        Some (JDict e) \<Rightarrow>
          if \<not> clip_isValidEnvelope (JDict e) then s
          else
            (case FindDict e ''data'' of
               Some d \<Rightarrow>
                 (case (FindString d ''direction'', FindString d ''text'') of
                    (Some direction, Some t) \<Rightarrow> if direction = ''cloud->client'' then queueWrite t s else s
                  | _ \<Rightarrow> s)
             | None \<Rightarrow> s)
      | _ \<Rightarrow> s)"

datatype 't clipboard_event =
    Cv_Message 't
  | Cv_Paste "string option"
  | Cv_Focus
  | Cv_Blur

fun clipboard_step :: "('t \<Rightarrow> json option) \<Rightarrow> (json \<Rightarrow> 't) \<Rightarrow> int \<times> 't clipboard_event \<Rightarrow> 't ClipboardChannel \<Rightarrow> 't ClipboardChannel" where
  "clipboard_step parse stringify (now, Cv_Message raw) s = clip_onMessage parse raw s"
| "clipboard_step parse stringify (now, Cv_Paste t) s = onPaste stringify now t s"
| "clipboard_step parse stringify (now, Cv_Focus) s =
     (let s1 = s\<lparr>cc_focus := True\<rparr> in if listening s1 then (flushPending s1)\<lparr>listening := False\<rparr> else s1)"
| "clipboard_step parse stringify (now, Cv_Blur) s = s\<lparr>cc_focus := False\<rparr>"

section \<open>What is forwarded\<close>

definition clip_run :: "'t ClipEnv \<Rightarrow> (int \<times> 't clip_event) list \<Rightarrow> 't Relay" where
  "clip_run env es = fold (clip_step env) es new_relay"

fun is_gesture :: "'t clip_event \<Rightarrow> bool" where
  "is_gesture Cl_Gesture = True"
| "is_gesture _ = False"

fun is_change :: "'t clip_event \<Rightarrow> bool" where
  "is_change (Cl_Page _) = True"
| "is_change (Cl_Ui _) = True"
| "is_change _ = False"

definition gestures :: "(int \<times> 't clip_event) list \<Rightarrow> nat" where
  "gestures es = length (filter (is_gesture \<circ> snd) es)"

text \<open>A change of the clipboard within two seconds of a copy gesture.\<close>

definition change_in_window :: "(int \<times> 't clip_event) list \<Rightarrow> bool" where
  "change_in_window es \<longleftrightarrow>
     (\<exists>g c e. (g, Cl_Gesture) \<in> set es \<and> (c, e) \<in> set es \<and> is_change e \<and> c \<le> g + kClipboardArmWindow)"

text \<open>The texts the viewer offered.\<close>

fun page_offered :: "'t ClipEnv \<Rightarrow> int \<times> 't clip_event \<Rightarrow> string list" where
  "page_offered env (now, Cl_Message raw binary) = cl_ui (clip_OnMessage env raw binary new_relay)"
| "page_offered env (now, _) = []"

definition page_text :: "'t ClipEnv \<Rightarrow> (int \<times> 't clip_event) list \<Rightarrow> string \<Rightarrow> bool" where
  "page_text env es t \<longleftrightarrow> (\<exists>n x. (n, Cl_Page x) \<in> set es \<and> t = cl_utf8 env x)"

definition forwarded :: "'t ClipEnv \<Rightarrow> (int \<times> 't clip_event) list \<Rightarrow> 't \<Rightarrow> bool" where
  "forwarded env es j \<longleftrightarrow>
     (\<exists>now seq t. cl_wr env (offer_json ''cloud->client'' now seq t) = Some j \<and> t \<noteq> [] \<and> length t \<le> kMaxClipboardTextBytes
        \<and> page_text env es t)"

definition clip_ok :: "'t ClipEnv \<Rightarrow> (int \<times> 't clip_event) list \<Rightarrow> 't Relay \<Rightarrow> bool" where
  "clip_ok env es s \<longleftrightarrow>
     length (cl_out s) + clip_reads s + (if copy_armed_until s = None then 0 else 1) \<le> gestures es
     \<and> (\<forall>u. copy_armed_until s = Some u \<longrightarrow> (\<exists>g. (g, Cl_Gesture) \<in> set es \<and> u = g + kClipboardArmWindow))
     \<and> (clip_reads s > 0 \<or> cl_out s \<noteq> [] \<longrightarrow> change_in_window es)
     \<and> (clip_reads s > 0 \<longrightarrow> page_text env es (cl_utf8 env (guest_clipboard s))
          \<or> cl_utf8 env (guest_clipboard s) = last_written_text s)
     \<and> set (cl_ui s) \<subseteq> (\<Union>e \<in> set es. set (page_offered env e))
     \<and> list_all (forwarded env es) (cl_out s)"

lemma offered_message:
  "cl_ui (clip_OnMessage env raw b s) = cl_ui s @ cl_ui (clip_OnMessage env raw b new_relay)"
  by (auto simp: clip_OnMessage_def clip_HandleInboundJson_def new_relay_def split: option.split json.split)

lemma message_keeps:
  "cl_out (clip_OnMessage env raw b s) = cl_out s" "clip_reads (clip_OnMessage env raw b s) = clip_reads s"
  "copy_armed_until (clip_OnMessage env raw b s) = copy_armed_until s"
  "guest_clipboard (clip_OnMessage env raw b s) = guest_clipboard s"
  "last_written_text (clip_OnMessage env raw b s) = last_written_text s"
  by (auto simp: clip_OnMessage_def clip_HandleInboundJson_def split: option.split json.split)

lemma change_mono: "change_in_window es \<Longrightarrow> change_in_window (es @ [e])"
  by (auto simp: change_in_window_def)

lemma page_text_mono: "page_text env es t \<Longrightarrow> page_text env (es @ [e]) t"
  by (auto simp: page_text_def)

lemma forwarded_mono: "forwarded env es j \<Longrightarrow> forwarded env (es @ [e]) j"
  unfolding forwarded_def using page_text_mono by blast

text \<open>What every event keeps, for a state with the same clipboard.\<close>

lemma clip_ok_later:
  assumes "clip_ok env es s" "cl_out s' = cl_out s" "clip_reads s' = clip_reads s" "copy_armed_until s' = copy_armed_until s"
    "guest_clipboard s' = guest_clipboard s" "last_written_text s' = last_written_text s"
    "set (cl_ui s') \<subseteq> set (cl_ui s) \<union> set (page_offered env e)"
  shows "clip_ok env (es @ [e]) s'"
proof -
  have "gestures es \<le> gestures (es @ [e])" by (simp add: gestures_def)
  then show ?thesis
    using assms unfolding clip_ok_def by (auto simp: list_all_iff intro: change_mono page_text_mono forwarded_mono)
qed

lemma clip_ok_gesture: "clip_ok env es s \<Longrightarrow> clip_ok env (es @ [(now, Cl_Gesture)]) (ArmCopyWindow now s)"
  by (auto simp: clip_ok_def ArmCopyWindow_def gestures_def list_all_iff intro: change_mono page_text_mono forwarded_mono split: if_splits)

lemma clip_ok_change:
  assumes "clip_ok env es s" "is_change ev"
    and "page_text env (es @ [(now, ev)]) (cl_utf8 env x) \<or> cl_utf8 env x = t" "set ts \<subseteq> set (cl_ui s)"
  shows "clip_ok env (es @ [(now, ev)])
    (OnClipboardDataChanged now (s\<lparr>cl_ui := ts, last_written_text := t, guest_clipboard := x\<rparr>))"
proof -
  have n: "\<not> is_gesture ev" using assms(2) by (cases ev) simp_all
  have g: "gestures (es @ [(now, ev)]) = gestures es" using n by (simp add: gestures_def)
  have w: "change_in_window (es @ [(now, ev)])" if "copy_armed_until s = Some u" "now \<le> u" for u
  proof -
    from assms(1) that(1) obtain g where "(g, Cl_Gesture) \<in> set es" "u = g + kClipboardArmWindow"
      unfolding clip_ok_def by blast
    with assms(2) that(2) show ?thesis
      unfolding change_in_window_def by (intro exI [of _ g] exI [of _ now] exI [of _ ev]) simp
  qed
  have out: "list_all (forwarded env (es @ [(now, ev)])) (cl_out s)"
    using assms(1) by (auto simp: clip_ok_def list_all_iff intro: forwarded_mono)
  have ui: "set ts \<subseteq> (\<Union>e \<in> set (es @ [(now, ev)]). set (page_offered env e))"
    using assms(1,4) by (auto simp: clip_ok_def)
  have old: "clip_reads s > 0 \<or> cl_out s \<noteq> [] \<longrightarrow> change_in_window (es @ [(now, ev)])"
    using assms(1) change_mono unfolding clip_ok_def by blast
  have arm: "\<exists>g. (g, Cl_Gesture) \<in> set (es @ [(now, ev)]) \<and> u = g + kClipboardArmWindow" if "copy_armed_until s = Some u" for u
    using assms(1) that by (auto simp: clip_ok_def)
  have len: "length (cl_out s) + clip_reads s + (if copy_armed_until s = None then 0 else 1) \<le> gestures es"
    using assms(1) by (simp add: clip_ok_def)
  show ?thesis
  proof (cases "copy_armed_until s")
    case None
    then show ?thesis
      using out ui old len assms(3) unfolding clip_ok_def g by (simp add: OnClipboardDataChanged_def)
  next
    case (Some u)
    then show ?thesis
      using out ui old len assms(3) arm [OF Some] w [OF Some] unfolding clip_ok_def g
      by (cases "now > u") (simp_all add: OnClipboardDataChanged_def)
  qed
qed

lemma clip_ok_read:
  assumes "clip_ok env es s" "clip_reads s > 0"
  shows "clip_ok env (es @ [(now, Cl_Read)]) (OnClipboardTextRead env now (guest_clipboard s) (s\<lparr>clip_reads := clip_reads s - 1\<rparr>))"
proof -
  let ?t = "cl_utf8 env (guest_clipboard s)"
  have g: "gestures (es @ [(now, Cl_Read)]) = gestures es" by (simp add: gestures_def)
  have "forwarded env (es @ [(now, Cl_Read)]) j"
    if "?t \<noteq> []" "?t \<noteq> last_written_text s" "length ?t \<le> kMaxClipboardTextBytes"
      "cl_wr env (offer_json ''cloud->client'' now n ?t) = Some j" for n j
    using assms that unfolding clip_ok_def forwarded_def by (blast intro: page_text_mono)
  then show ?thesis
    using assms
    by (auto simp: clip_ok_def OnClipboardTextRead_def SendCopy_def Let_def g list_all_iff
      intro: change_mono page_text_mono forwarded_mono split: option.split)
qed

lemma clip_ok_step:
  assumes ok: "clip_ok env es s" and rt: "\<And>t. t \<in> (\<Union>e \<in> set es. set (page_offered env e)) \<Longrightarrow> cl_utf8 env (cl_utf16 env t) = t"
  shows "clip_ok env (es @ [(now, ev)]) (clip_step env (now, ev) s)"
proof (cases ev)
  case (Cl_Message raw b)
  show ?thesis
    unfolding Cl_Message clip_step.simps
    by (rule clip_ok_later [OF ok]) (use offered_message [of env raw b s] in \<open>simp_all add: message_keeps\<close>)
next
  case (Cl_Ui contents)
  show ?thesis
  proof (cases "cl_ui s")
    case Nil
    then show ?thesis unfolding Cl_Ui using clip_ok_later [OF ok, of s "(now, Cl_Ui contents)"] by simp
  next
    case (Cons t ts)
    have "cl_utf8 env (cl_utf16 env t) = t" using ok Cons by (intro rt) (auto simp: clip_ok_def)
    then have c: "clip_ok env (es @ [(now, ev)])
        (OnClipboardDataChanged now (s\<lparr>cl_ui := ts, last_written_text := t, guest_clipboard := cl_utf16 env t\<rparr>))"
      using Cons by (intro clip_ok_change [OF ok]) (auto simp: Cl_Ui)
    show ?thesis
      using c Cons by (auto simp: Cl_Ui ApplyPaste_def SynthesizePaste_def Let_def clip_ok_def split: option.split)
  qed
next
  case (Cl_Page x)
  then have "clip_ok env (es @ [(now, ev)])
      (OnClipboardDataChanged now (s\<lparr>cl_ui := cl_ui s, last_written_text := last_written_text s, guest_clipboard := x\<rparr>))"
    by (intro clip_ok_change [OF ok]) (auto simp: page_text_def)
  with Cl_Page show ?thesis by simp
next
  case Cl_Read
  then show ?thesis
    using clip_ok_read [OF ok] clip_ok_later [OF ok, of s "(now, Cl_Read)"] by simp
qed (simp add: clip_ok_gesture [OF ok])

lemma clip_ok_run:
  "(\<forall>t \<in> (\<Union>e \<in> set es. set (page_offered env e)). cl_utf8 env (cl_utf16 env t) = t) \<Longrightarrow> clip_ok env es (clip_run env es)"
proof (induction es rule: rev_induct)
  case (snoc e es)
  then show ?case
    using clip_ok_step [of env es "clip_run env es" "fst e" "snd e"] by (simp add: clip_run_def)
qed (simp add: clip_ok_def clip_run_def new_relay_def gestures_def)

text \<open>
  C0. The worker never leaks a clipboard: it forwards at most one text for each copy gesture, only
  when the clipboard changed within two seconds of one, and only texts the page itself wrote, non-empty
  and of at most one mebibyte; what the viewer pasted is never sent back as a copy.
\<close>

theorem copies_need_gesture:
  assumes "\<forall>t \<in> (\<Union>e \<in> set es. set (page_offered env e)). cl_utf8 env (cl_utf16 env t) = t"
  shows "length (cl_out (clip_run env es)) \<le> gestures es
    \<and> (cl_out (clip_run env es) \<noteq> [] \<longrightarrow> change_in_window es)
    \<and> list_all (forwarded env es) (cl_out (clip_run env es))"
  using clip_ok_run [OF assms] by (simp add: clip_ok_def split: if_splits)

lemma offer_read:
  assumes "reads_json (cl_rd env) stringify" "cl_bytes env (stringify (offer_json ''client->cloud'' now seq t)) \<le> kMaxClipboardTextBytes + 512"
    "length t \<le> kMaxClipboardTextBytes"
  shows "clip_OnMessage env (stringify (offer_json ''client->cloud'' now seq t)) False s = s\<lparr>cl_ui := cl_ui s @ [t]\<rparr>"
  using assms
  by (simp add: clip_OnMessage_def clip_HandleInboundJson_def reads_json_def offer_json_def int32_def FindDict_def not_less)

text \<open>Values as their own text, characters as their own units.\<close>

definition demo_clip :: "json ClipEnv" where
  "demo_clip = \<lparr>cl_rd = (\<lambda>v. Some (as_read v)), cl_wr = Some, cl_bytes = (\<lambda>_. 200), cl_utf8 = map (\<lambda>w. char_of (unat w)),
     cl_utf16 = map (\<lambda>c. word_of_nat (of_char c))\<rparr>"

lemma demo_utf: "cl_utf8 demo_clip (cl_utf16 demo_clip t) = t"
proof -
  have "char_of (unat (word_of_nat (of_char c) :: 16 word)) = c" for c
    by (simp add: unsigned_of_nat char_of_take_bit_eq)
  then show ?thesis by (simp add: demo_clip_def comp_def)
qed

definition demo_copy :: "(int \<times> json clip_event) list" where
  "demo_copy = [(0, Cl_Message (offer_json ''client->cloud'' 0 0 ''pasted'') False), (1, Cl_Ui (Some True)), (5, Cl_Gesture),
     (6, Cl_Page (cl_utf16 demo_clip ''copied'')), (7, Cl_Read)]"

theorem copies_need_gesture_witness:
  "(\<forall>t \<in> (\<Union>e \<in> set demo_copy. set (page_offered demo_clip e)). cl_utf8 demo_clip (cl_utf16 demo_clip t) = t)
   \<and> cl_out (clip_run demo_clip demo_copy) = [offer_json ''cloud->client'' 7 0 ''copied'']
   \<and> length (cl_out (clip_run demo_clip demo_copy)) \<le> gestures demo_copy \<and> change_in_window demo_copy
   \<and> list_all (forwarded demo_clip demo_copy) (cl_out (clip_run demo_clip demo_copy))"
proof -
  have rt: "\<forall>t \<in> (\<Union>e \<in> set demo_copy. set (page_offered demo_clip e)). cl_utf8 demo_clip (cl_utf16 demo_clip t) = t"
    using demo_utf by blast
  have m: "clip_OnMessage demo_clip (offer_json ''client->cloud'' 0 0 ''pasted'') False new_relay = new_relay\<lparr>cl_ui := [''pasted'']\<rparr>"
    using offer_read [of demo_clip "\<lambda>v. v" 0 0 "''pasted''" new_relay]
    by (simp add: reads_json_def kMaxClipboardTextBytes_def) (simp add: demo_clip_def new_relay_def)
  have wr: "cl_wr demo_clip v = Some v" for v by (simp add: demo_clip_def)
  have out: "cl_out (clip_run demo_clip demo_copy) = [offer_json ''cloud->client'' 7 0 ''copied'']"
    by (simp add: clip_run_def demo_copy_def m, simp add: new_relay_def
      kMaxClipboardTextBytes_def ApplyPaste_def OnClipboardDataChanged_def SynthesizePaste_def ArmCopyWindow_def
      kClipboardArmWindow_def OnClipboardTextRead_def SendCopy_def Let_def demo_utf wr)
  show ?thesis using copies_need_gesture [OF rt] rt out by auto
qed

text \<open>
  C0. Text that was pasted once can never be copied back: after a paste, however much later, a copy
  gesture and a copy of the same text by the page send nothing to the viewer, while any other text is
  sent.
\<close>

theorem recopied_text_lost:
  assumes "cl_utf8 env x = t" "cl_utf8 env y = u" "t \<noteq> []" "u \<noteq> []" "u \<noteq> t" "length u \<le> kMaxClipboardTextBytes"
    and "\<And>v. cl_wr env v \<noteq> None"
  shows "cl_out (fold (clip_step env) [(later, Cl_Gesture), (later, Cl_Page x), (later, Cl_Read)] (ApplyPaste env now contents t new_relay)) = []
    \<and> length (cl_out (fold (clip_step env) [(later, Cl_Gesture), (later, Cl_Page y), (later, Cl_Read)]
         (ApplyPaste env now contents t new_relay))) = 1"
  using assms(1-6) assms(7) [of "offer_json ''cloud->client'' later 0 u"]
  by (auto simp: ApplyPaste_def new_relay_def OnClipboardDataChanged_def SynthesizePaste_def ArmCopyWindow_def kClipboardArmWindow_def
    OnClipboardTextRead_def SendCopy_def Let_def split: option.split)

theorem recopied_text_lost_witness:
  "cl_out (fold (clip_step demo_clip) [(86400000, Cl_Gesture), (86400000, Cl_Page (cl_utf16 demo_clip ''url'')), (86400000, Cl_Read)]
     (ApplyPaste demo_clip 0 (Some True) ''url'' new_relay)) = []
   \<and> length (cl_out (fold (clip_step demo_clip) [(86400000, Cl_Gesture), (86400000, Cl_Page (cl_utf16 demo_clip ''else'')), (86400000, Cl_Read)]
     (ApplyPaste demo_clip 0 (Some True) ''url'' new_relay))) = 1"
  by (rule recopied_text_lost [OF demo_utf demo_utf]) (simp_all add: kMaxClipboardTextBytes_def demo_clip_def)

section \<open>End to end\<close>

lemma offer_parsed:
  assumes "parses_json rnd parse (cl_wr env)" "cl_wr env (offer_json ''cloud->client'' now seq t) = Some j"
    "length t \<le> kMaxClipboardTextBytes"
  shows "clip_onMessage parse j s = queueWrite t s"
  using assms
  by (simp add: clip_onMessage_def parses_json_def offer_json_def clip_isValidEnvelope_def FindDict_def FindDouble_def GetIfDouble_def)

text \<open>
  C0. The clipboard works in both directions: a text the viewer pastes, of a size that fits the frame,
  is on the guest's clipboard and Ctrl+V has been pressed in the page; and a text that the page copies within
  two seconds of a gesture, other than the last one pasted, is on the viewer's clipboard if the viewer
  has the focus.
\<close>

theorem clipboard_roundtrip:
  assumes "reads_json (cl_rd env) stringify" "parses_json rnd parse (cl_wr env)" "\<And>v. cl_wr env v \<noteq> None"
    and paste: "cc_open v" "\<not> cc_throws v" "cl_ui s = []" "length t \<le> kMaxClipboardTextBytes"
      "cl_bytes env (stringify (offer_json ''client->cloud'' now (cc_seq v) t)) \<le> kMaxClipboardTextBytes + 512"
    and copy: "cl_utf8 env x = u" "u \<noteq> []" "u \<noteq> last_written_text s" "length u \<le> kMaxClipboardTextBytes"
      "clip_reads s = 0" "g \<le> c" "c \<le> g + 2000" "cc_focus v"
  shows "fst (sendPaste stringify now t v)
    \<and> (let raw = last (cc_out (snd (sendPaste stringify now t v)));
           s' = fold (clip_step env) [(now, Cl_Message raw False), (now, Cl_Ui (Some True))] s
       in guest_clipboard s' = cl_utf16 env t \<and> paste_keys s' = paste_keys s + 1)
    \<and> (let s' = fold (clip_step env) [(g, Cl_Gesture), (c, Cl_Page x), (c, Cl_Read)] s
       in cl_out s' \<noteq> [] \<and> clip_written (clip_onMessage parse (last (cl_out s')) v) = clip_written v @ [u])"
proof -
  have sent: "sendPaste stringify now t v =
      (True, v\<lparr>cc_seq := cc_seq v + 1, cc_out := cc_out v @ [stringify (offer_json ''client->cloud'' now (cc_seq v) t)]\<rparr>)"
    using paste by (simp add: sendPaste_def)
  obtain j where j: "cl_wr env (offer_json ''cloud->client'' c (cl_next_seq s) u) = Some j"
    using assms(3) by blast
  show ?thesis
    using sent paste(3) copy j offer_read [OF assms(1) paste(5,4)] offer_parsed [OF assms(2) j copy(4)]
    by (simp add: ApplyPaste_def OnClipboardDataChanged_def SynthesizePaste_def ArmCopyWindow_def kClipboardArmWindow_def
      OnClipboardTextRead_def SendCopy_def queueWrite_def Let_def split: option.split)
qed

definition demo_paste :: "json ClipboardChannel" where
  "demo_paste = new_clipboard_channel"

definition demo_relay :: "json Relay" where
  "demo_relay = new_relay"

theorem clipboard_roundtrip_witness:
  "fst (sendPaste (\<lambda>v. v) 5 ''hello'' demo_paste)
   \<and> (let raw = last (cc_out (snd (sendPaste (\<lambda>v. v) 5 ''hello'' demo_paste)));
          s' = fold (clip_step demo_clip) [(5, Cl_Message raw False), (5, Cl_Ui (Some True))] demo_relay
      in guest_clipboard s' = cl_utf16 demo_clip ''hello'' \<and> paste_keys s' = paste_keys demo_relay + 1)
   \<and> (let s' = fold (clip_step demo_clip) [(7, Cl_Gesture), (9, Cl_Page (cl_utf16 demo_clip ''world'')), (9, Cl_Read)] demo_relay
      in cl_out s' \<noteq> [] \<and> clip_written (clip_onMessage (\<lambda>v. Some (js_value (\<lambda>r. r) v)) (last (cl_out s')) demo_paste)
           = clip_written demo_paste @ [''world''])"
proof (rule clipboard_roundtrip [where rnd = "\<lambda>r. r" and u = "''world''"])
  show "cl_utf8 demo_clip (cl_utf16 demo_clip ''world'') = ''world''" by (rule demo_utf)
qed (simp_all add: reads_json_def parses_json_def demo_clip_def demo_paste_def new_clipboard_channel_def new_relay_def demo_relay_def kMaxClipboardTextBytes_def)

section \<open>Copies while the viewer is in the background\<close>

text \<open>The listener has fired: it is never installed again.\<close>

definition deaf :: "'t ClipboardChannel \<Rightarrow> bool" where
  "deaf s \<longleftrightarrow> focusListenerInstalled s \<and> \<not> listening s"

lemma deaf_queueWrite: "deaf s \<Longrightarrow> deaf (queueWrite t s)"
  by (simp add: deaf_def queueWrite_def)

lemma deaf_step: "deaf s \<Longrightarrow> deaf (clipboard_step parse stringify e s)"
proof -
  assume d: "deaf s"
  obtain now ev where e: "e = (now, ev)" by (cases e)
  have "deaf (clip_onMessage parse raw s)" for raw
    using d deaf_queueWrite [OF d] by (simp add: clip_onMessage_def split: option.split json.split)
  then show ?thesis
    using d by (cases ev) (simp_all add: e deaf_def onPaste_def sendPaste_def Let_def split: option.split)
qed

interpretation deafness: absorbing_machine "clipboard_step parse stringify" deaf
  for parse :: "'t \<Rightarrow> json option" and stringify :: "json \<Rightarrow> 't"
  by unfold_locales (rule deaf_step)

definition viewer_clip :: "int \<times> json clipboard_event \<Rightarrow> json ClipboardChannel \<Rightarrow> json ClipboardChannel" where
  "viewer_clip = clipboard_step (\<lambda>v. Some (js_value (\<lambda>r. r) v)) (\<lambda>v. v)"

definition copied :: "string \<Rightarrow> json" where
  "copied = offer_json ''cloud->client'' 0 0"

definition background_copy :: "string \<Rightarrow> (int \<times> json clipboard_event) list" where
  "background_copy t = [(0, Cv_Blur), (1, Cv_Message (copied t)), (2, Cv_Focus)]"

text \<open>
  C0. The viewer remembers only the first copy made while it was in the background. A copy that arrives
  without the focus is written when the focus returns; but the listener for that runs once and is never
  installed again, so whatever happens later, a return of the focus writes nothing, and the next
  copy that arrives without the focus stays unwritten.
\<close>

theorem later_background_copies_lost:
  "clip_written (fold viewer_clip (background_copy ''one'') new_clipboard_channel) = [''one'']
   \<and> clip_written (viewer_clip (now, Cv_Focus) (fold viewer_clip (background_copy ''one'' @ es) new_clipboard_channel))
       = clip_written (fold viewer_clip (background_copy ''one'' @ es) new_clipboard_channel)
   \<and> clip_written (fold viewer_clip (background_copy ''one'' @ background_copy ''two'') new_clipboard_channel) = [''one'']"
proof -
  have parsed: "clip_onMessage (\<lambda>v. Some (js_value (\<lambda>r. r) v)) (copied t) s = queueWrite t s" if "length t \<le> 10" for t s
    using offer_parsed [of "\<lambda>r. r" "\<lambda>v. Some (js_value (\<lambda>r. r) v)" demo_clip 0 0 t "copied t" s] that
    by (simp add: parses_json_def copied_def demo_clip_def kMaxClipboardTextBytes_def)
  let ?once = "fold viewer_clip (background_copy ''one'') new_clipboard_channel"
  have once: "?once = new_clipboard_channel\<lparr>focusListenerInstalled := True, clip_written := [''one'']\<rparr>"
    by (simp add: background_copy_def viewer_clip_def parsed queueWrite_def flushPending_def new_clipboard_channel_def)
  then have "deaf (fold viewer_clip es ?once)"
    using deafness.absorbed_run [of ?once] by (simp add: deaf_def viewer_clip_def new_clipboard_channel_def)
  then have "clip_written (viewer_clip (now, Cv_Focus) (fold viewer_clip es ?once)) = clip_written (fold viewer_clip es ?once)"
    by (simp add: deaf_def viewer_clip_def Let_def)
  moreover have "clip_written (fold viewer_clip (background_copy ''two'') ?once) = [''one'']"
    unfolding once by (simp add: background_copy_def viewer_clip_def parsed queueWrite_def new_clipboard_channel_def)
  ultimately show ?thesis
    using once by simp
qed

end
