(* ===== verification/Cb_Broker_Auth.thy ===== *)
theory Cb_Broker_Auth
  imports Cb_Prelude "HOL-Library.Sublist"
begin

text \<open>
  Who may join a session at the signaling broker: the session tokens of
  \<^verbatim>\<open>signaling/token/token.go\<close>, their verification (\<^verbatim>\<open>signaling/auth.go\<close>), the revocation
  lists (\<^verbatim>\<open>signaling/denylist.go\<close>), the endpoint that writes them (\<^verbatim>\<open>signaling/admin.go\<close>)
  and the development issuer (\<^verbatim>\<open>signaling/dev-issuer.go\<close>).

  The Ed25519 signatures, the Base64 tables and the JSON text codec are the standard library's:
  they are the fields of a record that the operations take as an argument. White space is the
  ASCII white space.
\<close>

section \<open>Strings\<close>

definition is_space :: "char \<Rightarrow> bool" where
  "is_space c \<longleftrightarrow> c = CHR '' '' \<or> CHR 0x09 \<le> c \<and> c \<le> CHR 0x0D"

definition TrimSpace :: "string \<Rightarrow> string" where
  "TrimSpace s = rev (dropWhile is_space (rev (dropWhile is_space s)))"

definition TrimRight :: "string \<Rightarrow> char \<Rightarrow> string" where
  "TrimRight s c = rev (dropWhile (\<lambda>x. x = c) (rev s))"

fun Split :: "string \<Rightarrow> char \<Rightarrow> string list" where
  "Split [] sep = [[]]"
| "Split (c # cs) sep =
     (if c = sep then [] # Split cs sep
      else case Split cs sep of [] \<Rightarrow> [[c]] | p # ps \<Rightarrow> (c # p) # ps)"

section \<open>Tokens\<close>

record Claims =
  Sub :: string
  Sid :: string
  Role :: string
  Exp :: int
  Iat :: int
  Nbf :: int
  Jti :: string
  Aud :: "string list"

record Crypto =
  Verify :: "string \<Rightarrow> string \<Rightarrow> string \<Rightarrow> bool"
  SignBytes :: "string \<Rightarrow> string \<Rightarrow> string"
  EncodeToString :: "string \<Rightarrow> string"
  DecodeString :: "string \<Rightarrow> string option"
  read_json :: "string \<Rightarrow> json option"
  write_claims :: "Claims \<Rightarrow> string"

definition SignatureSize :: nat where
  "SignatureSize = 64"

definition PublicKeySize :: nat where
  "PublicKeySize = 32"

text \<open>Reading the claims from a JSON value, with the decoding rules of \<open>go_field\<close>.\<close>

definition string_elem :: "json \<Rightarrow> string option" where
  "string_elem v = (case v of JNone \<Rightarrow> Some [] | JString s \<Rightarrow> Some s | _ \<Rightarrow> None)"

definition aud_of :: "json option \<Rightarrow> string list option" where
  "aud_of v =
     (case v of
        None \<Rightarrow> Some []
      | Some JNone \<Rightarrow> Some []
      | Some (JList l) \<Rightarrow> those (map string_elem l)
      | Some (JString s) \<Rightarrow> Some [s]
      | _ \<Rightarrow> None)"

definition UnmarshalJSON :: "json \<Rightarrow> Claims option" where
  "UnmarshalJSON v =
     (case v of
        JDict d \<Rightarrow>
          (case (go_string d ''sub'', go_string d ''sid'', go_string d ''role'', go_int d ''exp'',
                 go_int d ''iat'', go_int d ''nbf'', go_string d ''jti'', aud_of (go_field d ''aud'')) of
             (Some sub, Some sid, Some role, Some ex, Some ia, Some nb, Some jti, Some aud) \<Rightarrow>
               Some \<lparr>Sub = sub, Sid = sid, Role = role, Exp = ex, Iat = ia, Nbf = nb, Jti = jti, Aud = aud\<rparr>
           | _ \<Rightarrow> None)
      | JNone \<Rightarrow> Some \<lparr>Sub = [], Sid = [], Role = [], Exp = 0, Iat = 0, Nbf = 0, Jti = [], Aud = []\<rparr>
      | _ \<Rightarrow> None)"

definition read_claims :: "Crypto \<Rightarrow> string \<Rightarrow> Claims option" where
  "read_claims cr text = Option.bind (read_json cr text) UnmarshalJSON"

definition Header :: string where
  "Header = ''{\"alg\":\"EdDSA\",\"typ\":\"JWT\"}''"

definition Base64URLEncode :: "Crypto \<Rightarrow> string \<Rightarrow> string" where
  "Base64URLEncode cr b = TrimRight (EncodeToString cr b) (CHR ''='')"

definition Base64URLDecode :: "Crypto \<Rightarrow> string \<Rightarrow> string option" where
  "Base64URLDecode cr s =
     (let rem = length s mod 4 in
      DecodeString cr (if rem \<noteq> 0 then s @ replicate (4 - rem) (CHR ''='') else s))"

definition Sign :: "Crypto \<Rightarrow> string \<Rightarrow> Claims \<Rightarrow> string" where
  "Sign cr priv c =
     (let signingInput = Base64URLEncode cr Header @ ''.'' @ Base64URLEncode cr (write_claims cr c);
          sig = SignBytes cr priv signingInput
      in signingInput @ ''.'' @ Base64URLEncode cr sig)"

definition Parse :: "Crypto \<Rightarrow> string \<Rightarrow> string \<Rightarrow> string + Claims" where
  "Parse cr pub tok =
     (if tok = [] then Inl ''missing token''
      else case Split tok (CHR ''.'') of
        [p0, p1, p2] \<Rightarrow>
          (case Base64URLDecode cr p2 of
             None \<Rightarrow> Inl ''malformed signature''
           | Some sig \<Rightarrow>
               if length sig \<noteq> SignatureSize then Inl ''malformed signature''
               else if \<not> Verify cr pub (p0 @ ''.'' @ p1) sig then Inl ''signature mismatch''
               else case Base64URLDecode cr p1 of
                 None \<Rightarrow> Inl ''malformed payload''
               | Some payload \<Rightarrow>
                   (case read_claims cr payload of None \<Rightarrow> Inl ''malformed claims'' | Some c \<Rightarrow> Inr c))
      | _ \<Rightarrow> Inl ''malformed token'')"

section \<open>Verification\<close>

record AuthConfig =
  enabled :: bool
  pubKey :: string

definition regionUnspecified :: string where
  "regionUnspecified = ''_unspecified''"

definition initRegion :: "string \<Rightarrow> string" where
  "initRegion env_value = (let r = TrimSpace env_value in if r = [] then regionUnspecified else r)"

text \<open>\<open>std64\<close> is the decoder of the standard, padded Base64 alphabet.\<close>

definition initAuth :: "(string \<Rightarrow> string option) \<Rightarrow> string \<Rightarrow> AuthConfig" where
  "initAuth std64 raw =
     (if raw = [] then \<lparr>enabled = False, pubKey = []\<rparr>
      else case std64 (TrimSpace raw) of
        None \<Rightarrow> \<lparr>enabled = False, pubKey = []\<rparr>
      | Some decoded \<Rightarrow>
          if length decoded \<noteq> PublicKeySize then \<lparr>enabled = False, pubKey = []\<rparr>
          else \<lparr>enabled = True, pubKey = decoded\<rparr>)"

definition regionPermitted :: "string list \<Rightarrow> string \<Rightarrow> bool" where
  "regionPermitted aud serverRegion \<longleftrightarrow>
     aud = [] \<or> serverRegion = [] \<or> serverRegion = regionUnspecified
     \<or> (\<exists>a \<in> set aud. TrimSpace a = serverRegion)"

definition verifyToken ::
  "Crypto \<Rightarrow> AuthConfig \<Rightarrow> string \<Rightarrow> int \<Rightarrow> string \<Rightarrow> string \<Rightarrow> string \<Rightarrow> string + Claims" where
  "verifyToken cr auth region now tok expectedSid expectedRole =
     (if tok = [] then Inl ''missing token''
      else case Split tok (CHR ''.'') of
        [p0, p1, p2] \<Rightarrow>
          (case Base64URLDecode cr p2 of
             None \<Rightarrow> Inl ''malformed signature''
           | Some sig \<Rightarrow>
               if length sig \<noteq> SignatureSize then Inl ''malformed signature''
               else if \<not> Verify cr (pubKey auth) (p0 @ ''.'' @ p1) sig then Inl ''signature mismatch''
               else case Base64URLDecode cr p1 of
                 None \<Rightarrow> Inl ''malformed payload''
               | Some payloadBytes \<Rightarrow>
                   (case read_claims cr payloadBytes of
                      None \<Rightarrow> Inl ''malformed claims''
                    | Some c \<Rightarrow>
                        if Sub c = [] then Inl ''tenant claim missing''
                        else if Exp c \<noteq> 0 \<and> now \<ge> Exp c then Inl ''token expired''
                        else if Nbf c \<noteq> 0 \<and> now < Nbf c then Inl ''token not yet valid''
                        else if Sid c \<noteq> expectedSid then Inl ''sid mismatch''
                        else if Role c \<noteq> expectedRole then Inl ''role mismatch''
                        else if \<not> regionPermitted (Aud c) region then Inl ''region mismatch''
                        else Inr c))
      | _ \<Rightarrow> Inl ''malformed token'')"

section \<open>Revocation\<close>

record StaticDenylist =
  tenants :: "string set"
  jtis :: "string set"
  reasons :: "string \<rightharpoonup> string"

definition NewStaticDenylist :: StaticDenylist where
  "NewStaticDenylist = \<lparr>tenants = {}, jtis = {}, reasons = Map.empty\<rparr>"

definition load_entry :: "StaticDenylist \<times> nat \<Rightarrow> string \<Rightarrow> StaticDenylist \<times> nat" where
  "load_entry acc raw =
     (case acc of (d, loaded) \<Rightarrow>
      let entry = TrimSpace raw in
      if entry = [] then (d, loaded)
      else if CHR '':'' \<in> set entry
      then let tenant = takeWhile (\<lambda>c. c \<noteq> CHR '':'') entry; jti = tl (dropWhile (\<lambda>c. c \<noteq> CHR '':'') entry) in
           if tenant \<noteq> [] \<and> jti \<noteq> [] then (d\<lparr>jtis := insert (tenant @ '':'' @ jti) (jtis d)\<rparr>, loaded + 1)
           else (d, loaded)
      else (d\<lparr>tenants := insert entry (tenants d)\<rparr>, loaded + 1))"

definition loadStaticFromEnv :: "string \<Rightarrow> StaticDenylist \<Rightarrow> StaticDenylist \<times> nat" where
  "loadStaticFromEnv env d = foldl load_entry (d, 0) (Split env (CHR '',''))"

definition st_Contains :: "StaticDenylist \<Rightarrow> string \<Rightarrow> string \<Rightarrow> string + bool" where
  "st_Contains d tenant jti =
     (if tenant \<in> tenants d then Inr True
      else if jti \<noteq> [] \<and> tenant @ '':'' @ jti \<in> jtis d then Inr True
      else Inr False)"

definition st_AddTenant :: "string \<Rightarrow> string \<Rightarrow> StaticDenylist \<Rightarrow> string + StaticDenylist" where
  "st_AddTenant tenant reason d =
     (if tenant = [] then Inl ''tenant required''
      else let d1 = d\<lparr>tenants := insert tenant (tenants d)\<rparr> in
           Inr (if reason \<noteq> [] then d1\<lparr>reasons := (reasons d1)(''tenant:'' @ tenant \<mapsto> reason)\<rparr> else d1))"

definition st_AddJTI :: "string \<Rightarrow> string \<Rightarrow> string \<Rightarrow> StaticDenylist \<Rightarrow> string + StaticDenylist" where
  "st_AddJTI tenant jti reason d =
     (if tenant = [] \<or> jti = [] then Inl ''tenant and jti required''
      else let d1 = d\<lparr>jtis := insert (tenant @ '':'' @ jti) (jtis d)\<rparr> in
           Inr (if reason \<noteq> [] then d1\<lparr>reasons := (reasons d1)(''jti:'' @ tenant @ '':'' @ jti \<mapsto> reason)\<rparr> else d1))"

text \<open>
  The Redis list keeps nothing itself: it calls the client, whose two operations on the server's
  state are parameters.
\<close>

type_synonym 'r redis_SIsMember = "string \<Rightarrow> string \<Rightarrow> 'r \<Rightarrow> string + bool"
type_synonym 'r redis_SAdd = "string \<Rightarrow> string \<Rightarrow> 'r \<Rightarrow> string + 'r"

definition redisKeyTenants :: string where
  "redisKeyTenants = ''cb:auth:denylist:tenants''"

definition redisKeyJTIs :: string where
  "redisKeyJTIs = ''cb:auth:denylist:jtis''"

definition re_Contains :: "'r redis_SIsMember \<Rightarrow> 'r \<Rightarrow> string \<Rightarrow> string \<Rightarrow> string + bool" where
  "re_Contains SIsMember r tenant jti =
     (case SIsMember redisKeyTenants tenant r of
        Inl err \<Rightarrow> Inl err
      | Inr True \<Rightarrow> Inr True
      | Inr False \<Rightarrow> if jti = [] then Inr False else SIsMember redisKeyJTIs (tenant @ '':'' @ jti) r)"

definition re_AddTenant :: "'r redis_SAdd \<Rightarrow> string \<Rightarrow> string \<Rightarrow> 'r \<Rightarrow> string + 'r" where
  "re_AddTenant SAdd tenant reason r =
     (if tenant = [] then Inl ''tenant required'' else SAdd redisKeyTenants tenant r)"

definition re_AddJTI :: "'r redis_SAdd \<Rightarrow> string \<Rightarrow> string \<Rightarrow> string \<Rightarrow> 'r \<Rightarrow> string + 'r" where
  "re_AddJTI SAdd tenant jti reason r =
     (if tenant = [] \<or> jti = [] then Inl ''tenant and jti required''
      else SAdd redisKeyJTIs (tenant @ '':'' @ jti) r)"

text \<open>\<open>connect\<close> is the Redis adapter; without an address or a connection the list is static.\<close>

definition initDenylist ::
  "(string \<Rightarrow> 'r option) \<Rightarrow> string \<Rightarrow> string \<Rightarrow> 'r + StaticDenylist" where
  "initDenylist connect redis_addr seed =
     (let static = (if TrimSpace seed \<noteq> [] then fst (loadStaticFromEnv (TrimSpace seed) NewStaticDenylist)
                    else NewStaticDenylist)
      in if TrimSpace redis_addr = [] then Inr static
         else case connect (TrimSpace redis_addr) of None \<Rightarrow> Inr static | Some client \<Rightarrow> Inl client)"

text \<open>A lookup that fails lets the connection through.\<close>

definition checkRevoked :: "('s \<Rightarrow> string \<Rightarrow> string \<Rightarrow> string + bool) \<Rightarrow> Claims \<Rightarrow> 's \<Rightarrow> bool" where
  "checkRevoked Contains c d = (case Contains d (Sub c) (Jti c) of Inl err \<Rightarrow> False | Inr hit \<Rightarrow> hit)"

section \<open>The admin endpoint\<close>

definition initAdmin :: "(string \<Rightarrow> string option) \<Rightarrow> string \<Rightarrow> AuthConfig" where
  "initAdmin std64 env_value =
     (let raw = TrimSpace env_value in
      if raw = [] then \<lparr>enabled = False, pubKey = []\<rparr>
      else case std64 raw of
        None \<Rightarrow> \<lparr>enabled = False, pubKey = []\<rparr>
      | Some decoded \<Rightarrow>
          if length decoded \<noteq> PublicKeySize then \<lparr>enabled = False, pubKey = []\<rparr>
          else \<lparr>enabled = True, pubKey = decoded\<rparr>)"

definition verifyAdminToken :: "Crypto \<Rightarrow> AuthConfig \<Rightarrow> int \<Rightarrow> string \<Rightarrow> string + Claims" where
  "verifyAdminToken cr admin now tok =
     (if \<not> enabled admin then Inl ''admin endpoint disabled''
      else if tok = [] then Inl ''missing admin token''
      else case Split tok (CHR ''.'') of
        [p0, p1, p2] \<Rightarrow>
          (case Base64URLDecode cr p2 of
             None \<Rightarrow> Inl ''malformed admin signature''
           | Some sig \<Rightarrow>
               if length sig \<noteq> SignatureSize then Inl ''malformed admin signature''
               else if \<not> Verify cr (pubKey admin) (p0 @ ''.'' @ p1) sig then Inl ''admin signature mismatch''
               else case Base64URLDecode cr p1 of
                 None \<Rightarrow> Inl ''malformed admin payload''
               | Some payloadBytes \<Rightarrow>
                   (case read_claims cr payloadBytes of
                      None \<Rightarrow> Inl ''malformed admin claims''
                    | Some c \<Rightarrow>
                        if Exp c \<noteq> 0 \<and> now \<ge> Exp c then Inl ''admin token expired''
                        else if Nbf c \<noteq> 0 \<and> now < Nbf c then Inl ''admin token not yet valid''
                        else if Role c \<noteq> ''admin'' then Inl ''admin role required''
                        else Inr c))
      | _ \<Rightarrow> Inl ''malformed admin token'')"

record revokeRequest =
  rq_method :: string
  rq_authorization :: string
  rq_body :: "(string \<times> string \<times> string) option"

datatype revokeResponse =
    MethodNotAllowed
  | Unauthorized
  | BadRequest
  | InternalServerError
  | Revoked string string string

definition adminRevokeHandler ::
  "Crypto \<Rightarrow> AuthConfig
    \<Rightarrow> (string \<Rightarrow> string \<Rightarrow> 's \<Rightarrow> string + 's) \<Rightarrow> (string \<Rightarrow> string \<Rightarrow> string \<Rightarrow> 's \<Rightarrow> string + 's)
    \<Rightarrow> int \<Rightarrow> revokeRequest \<Rightarrow> 's \<Rightarrow> revokeResponse \<times> 's" where
  "adminRevokeHandler cr admin AddTenant AddJTI now r d =
     (if rq_method r \<noteq> ''POST'' then (MethodNotAllowed, d)
      else if \<not> prefix ''Bearer '' (rq_authorization r) then (Unauthorized, d)
      else let tok = TrimSpace (drop 7 (rq_authorization r)) in
        case verifyAdminToken cr admin now tok of
          Inl err \<Rightarrow> (Unauthorized, d)
        | Inr c \<Rightarrow>
            (case rq_body r of
               None \<Rightarrow> (BadRequest, d)
             | Some (tenant0, jti0, reason) \<Rightarrow>
                 let tenant = TrimSpace tenant0; jti = TrimSpace jti0 in
                 if tenant = [] then (BadRequest, d)
                 else if jti = []
                 then (case AddTenant tenant reason d of
                         Inl err \<Rightarrow> (InternalServerError, d)
                       | Inr d1 \<Rightarrow> (Revoked tenant jti ''tenant'', d1))
                 else (case AddJTI tenant jti reason d of
                         Inl err \<Rightarrow> (InternalServerError, d)
                       | Inr d1 \<Rightarrow> (Revoked tenant jti ''jti'', d1))))"

section \<open>Admission\<close>

text \<open>The tenant a connection joins under, or why the broker closes it (\<^verbatim>\<open>wsHandler\<close>).\<close>

definition anonymousTenant :: string where
  "anonymousTenant = ''_anonymous''"

definition authorise ::
  "Crypto \<Rightarrow> AuthConfig \<Rightarrow> string \<Rightarrow> ('s \<Rightarrow> string \<Rightarrow> string \<Rightarrow> string + bool) \<Rightarrow> 's \<Rightarrow> int
    \<Rightarrow> string \<Rightarrow> string \<Rightarrow> string \<Rightarrow> string + string" where
  "authorise cr auth region Contains d now tok sid role =
     (if \<not> enabled auth then Inr anonymousTenant
      else case verifyToken cr auth region now tok sid role of
        Inl err \<Rightarrow> Inl err
      | Inr c \<Rightarrow> if checkRevoked Contains c d then Inl ''token revoked'' else Inr (Sub c))"

section \<open>The development issuer\<close>

definition devTokenTTL :: int where
  "devTokenTTL = 3600"

definition dev_claims :: "int \<Rightarrow> string \<Rightarrow> string \<Rightarrow> string \<Rightarrow> string \<Rightarrow> string \<Rightarrow> Claims" where
  "dev_claims now jti tenant sid role aud =
     \<lparr>Sub = tenant, Sid = sid, Role = role, Exp = now + devTokenTTL, Iat = now, Nbf = now - 30, Jti = jti,
      Aud = (if TrimSpace aud = [] then []
             else filter (\<lambda>p. p \<noteq> []) (map TrimSpace (Split (TrimSpace aud) (CHR '',''))))\<rparr>"

definition devIssuerHandler ::
  "Crypto \<Rightarrow> string option \<Rightarrow> int \<Rightarrow> string option \<Rightarrow> (string \<Rightarrow> string) \<Rightarrow> nat + string" where
  "devIssuerHandler cr priv now new_jti q =
     (case priv of
        None \<Rightarrow> Inl 404
      | Some key \<Rightarrow>
          let role = TrimSpace (q ''role''); sid = TrimSpace (q ''session_id'');
              tenant = (if TrimSpace (q ''tenant'') = [] then ''dev'' else TrimSpace (q ''tenant'')) in
          if role \<noteq> ''client'' \<and> role \<noteq> ''browser'' then Inl 400
          else if sid = [] then Inl 400
          else case new_jti of
            None \<Rightarrow> Inl 500
          | Some jti \<Rightarrow> Inr (Sign cr key (dev_claims now jti tenant sid role (q ''aud''))))"

section \<open>Strings, proved\<close>

lemma Split_no_sep: "sep \<notin> set p \<Longrightarrow> Split p sep = [p]"
  by (induction p) auto

lemma Split_append: "sep \<notin> set p \<Longrightarrow> Split (p @ sep # s) sep = p # Split s sep"
  by (induction p) auto

lemma Split_not_Nil [simp]: "Split s sep \<noteq> []"
  by (induction s) (auto split: list.split)

lemma TrimRight_append:
  assumes "c \<notin> set body"
  shows "TrimRight (body @ replicate n c) c = body"
proof -
  have "dropWhile (\<lambda>x. x = c) (rev body) = rev body"
    using assms by (cases body rule: rev_cases) auto
  then show ?thesis by (simp add: TrimRight_def dropWhile_append2 dropWhile_append)
qed

section \<open>Tokens, proved\<close>

text \<open>
  What the tokens take from the standard library: padded URL-safe Base64 without a dot, and JSON
  that reads back the claims it wrote.
\<close>

definition padded :: "string \<Rightarrow> bool" where
  "padded e \<longleftrightarrow> (\<exists>body n. e = body @ replicate n (CHR ''='') \<and> CHR ''='' \<notin> set body \<and> CHR ''.'' \<notin> set body
     \<and> n \<le> 2 \<and> length e mod 4 = 0)"

definition codec_ok :: "Crypto \<Rightarrow> bool" where
  "codec_ok cr \<longleftrightarrow> (\<forall>b. padded (EncodeToString cr b) \<and> DecodeString cr (EncodeToString cr b) = Some b)"

definition key_pair :: "Crypto \<Rightarrow> string \<Rightarrow> string \<Rightarrow> bool" where
  "key_pair cr priv pub \<longleftrightarrow>
     (\<forall>msg. length (SignBytes cr priv msg) = SignatureSize \<and> Verify cr pub msg (SignBytes cr priv msg))"

lemma Base64URL_roundtrip:
  assumes "codec_ok cr"
  shows "Base64URLDecode cr (Base64URLEncode cr b) = Some b" and "CHR ''.'' \<notin> set (Base64URLEncode cr b)"
proof -
  obtain body n where e: "EncodeToString cr b = body @ replicate n (CHR ''='')" and body: "CHR ''='' \<notin> set body"
    "CHR ''.'' \<notin> set body" and n: "n \<le> 2" "length (EncodeToString cr b) mod 4 = 0"
  proof -
    have "padded (EncodeToString cr b)" using assms by (simp add: codec_ok_def)
    then show ?thesis unfolding padded_def by (elim exE conjE) (rule that)
  qed
  then have enc: "Base64URLEncode cr b = body" by (simp add: Base64URLEncode_def TrimRight_append)
  with body show "CHR ''.'' \<notin> set (Base64URLEncode cr b)" by simp
  have "(length body + n) mod 4 = 0" using e n by simp
  then have "n = 0 \<and> length body mod 4 = 0 \<or> length body mod 4 \<noteq> 0 \<and> 4 - length body mod 4 = n"
    using n(1) by presburger
  then have "Base64URLDecode cr body = DecodeString cr (EncodeToString cr b)"
    unfolding e by (auto simp: Base64URLDecode_def Let_def)
  then show "Base64URLDecode cr (Base64URLEncode cr b) = Some b"
    using assms by (simp add: enc codec_ok_def)
qed

lemma Parse_Sign:
  assumes "codec_ok cr" "key_pair cr priv pub" "read_claims cr (write_claims cr c) = Some c"
  shows "Parse cr pub (Sign cr priv c) = Inr c"
proof -
  let ?h = "Base64URLEncode cr Header" and ?p = "Base64URLEncode cr (write_claims cr c)"
  let ?sig = "SignBytes cr priv (?h @ ''.'' @ ?p)"
  have tok: "Sign cr priv c = ?h @ CHR ''.'' # ?p @ CHR ''.'' # Base64URLEncode cr ?sig"
    by (simp add: Sign_def Let_def)
  note b64 = Base64URL_roundtrip [OF assms(1)]
  have "Split (Sign cr priv c) (CHR ''.'') = [?h, ?p, Base64URLEncode cr ?sig]"
    unfolding tok by (simp only: Split_append Split_no_sep b64 not_False_eq_True)
  with assms(2,3) b64(1) show ?thesis by (simp add: Parse_def key_pair_def tok)
qed

text \<open>The policy that each verifier applies to claims whose signature it has checked.\<close>

definition session_policy :: "string \<Rightarrow> int \<Rightarrow> string \<Rightarrow> string \<Rightarrow> Claims \<Rightarrow> bool" where
  "session_policy region now sid role c \<longleftrightarrow> Sub c \<noteq> [] \<and> (Exp c = 0 \<or> now < Exp c) \<and> (Nbf c = 0 \<or> Nbf c \<le> now)
     \<and> Sid c = sid \<and> Role c = role \<and> regionPermitted (Aud c) region"

definition admin_policy :: "int \<Rightarrow> Claims \<Rightarrow> bool" where
  "admin_policy now c \<longleftrightarrow> (Exp c = 0 \<or> now < Exp c) \<and> (Nbf c = 0 \<or> Nbf c \<le> now) \<and> Role c = ''admin''"

lemma Parse_acceptsE:
  assumes "Parse cr pub tok = Inr c"
  obtains p0 p1 p2 sig payload where "tok \<noteq> []" "Split tok (CHR ''.'') = [p0, p1, p2]"
    "Base64URLDecode cr p2 = Some sig" "length sig = SignatureSize" "Verify cr pub (p0 @ ''.'' @ p1) sig"
    "Base64URLDecode cr p1 = Some payload" "read_claims cr payload = Some c"
  using assms by (auto simp: Parse_def split: list.splits option.splits if_splits)

lemma verifyToken_accepts:
  "verifyToken cr auth region now tok sid role = Inr c \<longleftrightarrow>
     Parse cr (pubKey auth) tok = Inr c \<and> session_policy region now sid role c"
proof (cases "Parse cr (pubKey auth) tok")
  case (Inl e)
  then show ?thesis by (auto simp: verifyToken_def Parse_def split: list.splits option.splits if_splits)
next
  case (Inr c')
  then show ?thesis by (rule Parse_acceptsE) (auto simp: Inr verifyToken_def session_policy_def)
qed

lemma verifyAdminToken_accepts:
  "verifyAdminToken cr admin now tok = Inr c \<longleftrightarrow>
     enabled admin \<and> Parse cr (pubKey admin) tok = Inr c \<and> admin_policy now c"
proof (cases "Parse cr (pubKey admin) tok")
  case (Inl e)
  then show ?thesis by (auto simp: verifyAdminToken_def Parse_def split: list.splits option.splits if_splits)
next
  case (Inr c')
  then show ?thesis by (rule Parse_acceptsE) (auto simp: Inr verifyAdminToken_def admin_policy_def)
qed

section \<open>Revocation lists as an interface\<close>

text \<open>What a request to the endpoint does to the list.\<close>

lemma adminRevokeHandler_cases:
  obtains (Refused) "snd (adminRevokeHandler cr admin AddTenant AddJTI now r d) = d"
      "\<And>t j scope. fst (adminRevokeHandler cr admin AddTenant AddJTI now r d) \<noteq> Revoked t j scope"
  | (Tenant) t reason d' where "AddTenant t reason d = Inr d'"
      "adminRevokeHandler cr admin AddTenant AddJTI now r d = (Revoked t [] ''tenant'', d')"
  | (Token) t j reason d' where "AddJTI t j reason d = Inr d'" "j \<noteq> []"
      "adminRevokeHandler cr admin AddTenant AddJTI now r d = (Revoked t j ''jti'', d')"
proof (cases "rq_body r")
  case None
  then show ?thesis by (intro Refused) (simp_all add: adminRevokeHandler_def Let_def split: sum.split)
next
  case (Some body)
  obtain t0 j0 reason where body: "body = (t0, j0, reason)" by (cases body)
  let ?t = "TrimSpace t0" and ?j = "TrimSpace j0"
  have unchanged: thesis if "snd (adminRevokeHandler cr admin AddTenant AddJTI now r d) = d
      \<and> (\<forall>t j scope. fst (adminRevokeHandler cr admin AddTenant AddJTI now r d) \<noteq> Revoked t j scope)"
    using that Refused by blast
  show ?thesis
  proof (cases "rq_method r = ''POST'' \<and> prefix ''Bearer '' (rq_authorization r) \<and> ?t \<noteq> []
      \<and> (\<exists>c. verifyAdminToken cr admin now (TrimSpace (drop 7 (rq_authorization r))) = Inr c)")
    case False
    then show ?thesis
      by (intro unchanged) (auto simp: adminRevokeHandler_def Let_def Some body split: sum.splits)
  next
    case True
    then have eq: "adminRevokeHandler cr admin AddTenant AddJTI now r d =
        (if ?j = [] then (case AddTenant ?t reason d of
             Inl err \<Rightarrow> (InternalServerError, d) | Inr d1 \<Rightarrow> (Revoked ?t ?j ''tenant'', d1))
         else (case AddJTI ?t ?j reason d of
             Inl err \<Rightarrow> (InternalServerError, d) | Inr d1 \<Rightarrow> (Revoked ?t ?j ''jti'', d1)))"
      by (auto simp: adminRevokeHandler_def Let_def Some body)
    show ?thesis
    proof (cases "?j = []")
      case True
      with eq unchanged Tenant [of ?t reason] show ?thesis by (cases "AddTenant ?t reason d") simp_all
    next
      case False
      with eq unchanged Token [of ?t ?j reason] show ?thesis by (cases "AddJTI ?t ?j reason d") simp_all
    qed
  qed
qed

text \<open>
  The contract of \<^verbatim>\<open>Denylist\<close> and \<^verbatim>\<open>adminDenylist\<close>: while the backend works, a lookup
  answers, a write succeeds for named entries, and afterwards the list has what it had before
  and what was written. A token is written under its tenant and its id, joined by a colon.
\<close>

locale denylist =
  fixes Contains :: "'s \<Rightarrow> string \<Rightarrow> string \<Rightarrow> string + bool"
    and AddTenant :: "string \<Rightarrow> string \<Rightarrow> 's \<Rightarrow> string + 's"
    and AddJTI :: "string \<Rightarrow> string \<Rightarrow> string \<Rightarrow> 's \<Rightarrow> string + 's"
    and works :: "'s \<Rightarrow> bool"
  assumes add_tenant: "works d \<Longrightarrow> AddTenant t r d = Inr d'
      \<Longrightarrow> works d' \<and> (Contains d' t' j' = Inr True \<longleftrightarrow> t' = t \<or> Contains d t' j' = Inr True)"
    and add_jti: "works d \<Longrightarrow> AddJTI t j r d = Inr d'
      \<Longrightarrow> works d' \<and> (Contains d' t' j' = Inr True \<longleftrightarrow>
            j' \<noteq> [] \<and> t' @ '':'' @ j' = t @ '':'' @ j \<or> Contains d t' j' = Inr True)"
begin

lemma handler_keeps:
  assumes "works d"
  shows "works (snd (adminRevokeHandler cr admin AddTenant AddJTI now r d))
    \<and> (Contains d t j = Inr True
        \<longrightarrow> Contains (snd (adminRevokeHandler cr admin AddTenant AddJTI now r d)) t j = Inr True)"
proof (cases rule: adminRevokeHandler_cases [of cr admin AddTenant AddJTI now r d])
  case Refused
  with assms show ?thesis by simp
next
  case (Tenant t' reason d')
  with add_tenant [OF assms Tenant(1)] show ?thesis by simp
next
  case (Token t' j' reason d')
  with add_jti [OF assms Token(1)] show ?thesis by simp
qed

lemma handler_revokes:
  assumes "works d" "fst (adminRevokeHandler cr admin AddTenant AddJTI now r d) = Revoked t j scope"
    and "j = [] \<or> j' = j"
  shows "Contains (snd (adminRevokeHandler cr admin AddTenant AddJTI now r d)) t j' = Inr True"
proof (cases rule: adminRevokeHandler_cases [of cr admin AddTenant AddJTI now r d])
  case Refused
  with assms show ?thesis by simp
next
  case (Tenant t'' reason d')
  with assms(2) add_tenant [OF assms(1) Tenant(1)] show ?thesis by simp
next
  case (Token t'' j'' reason d')
  with assms(2,3) add_jti [OF assms(1) Token(1)] show ?thesis by simp
qed

lemma revoked_stays:
  "works d \<Longrightarrow> Contains d t j = Inr True
   \<Longrightarrow> Contains (fold (\<lambda>(now, r) d. snd (adminRevokeHandler cr admin AddTenant AddJTI now r d)) rs d) t j = Inr True"
  by (induction rs arbitrary: d) (auto simp: handler_keeps)

lemma revoked_refused:
  assumes "works d" "fst (adminRevokeHandler cr admin AddTenant AddJTI now r d) = Revoked t j scope"
    and "verifyToken cr auth region time tok sid role = Inr c" "Sub c = t" "j = [] \<or> Jti c = j" "enabled auth"
  shows "authorise cr auth region Contains
      (fold (\<lambda>(now, r) d. snd (adminRevokeHandler cr admin AddTenant AddJTI now r d)) rs
        (snd (adminRevokeHandler cr admin AddTenant AddJTI now r d))) time tok sid role = Inl ''token revoked''"
  using revoked_stays [OF handler_keeps [OF assms(1), THEN conjunct1] handler_revokes [OF assms(1,2,5)]] assms(3-6)
  by (simp add: authorise_def checkRevoked_def)

end

interpretation st_list: denylist st_Contains st_AddTenant st_AddJTI "\<lambda>d. True"
  by unfold_locales (auto simp: st_Contains_def st_AddTenant_def st_AddJTI_def Let_def split: if_splits)

text \<open>
  What is documented of the two Redis commands while the server can be reached: a member that
  was added is found under its key, and nothing else changes.
\<close>

definition redis_sets :: "'r redis_SIsMember \<Rightarrow> 'r redis_SAdd \<Rightarrow> ('r \<Rightarrow> bool) \<Rightarrow> bool" where
  "redis_sets SIsMember SAdd reachable \<longleftrightarrow>
     (\<forall>r k m. reachable r \<longrightarrow>
        (\<exists>hit. SIsMember k m r = Inr hit)
        \<and> (\<exists>r'. SAdd k m r = Inr r' \<and> reachable r'
             \<and> (\<forall>k' m'. SIsMember k' m' r' = (if k' = k \<and> m' = m then Inr True else SIsMember k' m' r))))"

lemma redis_setsD:
  assumes "redis_sets SIsMember SAdd reachable" "reachable r"
  shows "\<exists>hit. SIsMember k m r = Inr hit" "\<exists>r'. SAdd k m r = Inr r'"
    "SAdd k m r = Inr r' \<Longrightarrow> reachable r' \<and> SIsMember k' m' r' = (if k' = k \<and> m' = m then Inr True else SIsMember k' m' r)"
  using assms unfolding redis_sets_def by (blast, blast, metis sum.inject(2))

lemma redis_denylist:
  assumes "redis_sets SIsMember SAdd reachable"
  shows "denylist (re_Contains SIsMember) (re_AddTenant SAdd) (re_AddJTI SAdd) reachable"
proof
  have keys: "redisKeyTenants \<noteq> redisKeyJTIs" by (simp add: redisKeyTenants_def redisKeyJTIs_def)
  fix d d' t t' j j' r
  assume d: "reachable d"
  {
    assume "re_AddTenant SAdd t r d = Inr d'"
    then have "SAdd redisKeyTenants t d = Inr d'" by (simp add: re_AddTenant_def split: if_splits)
    note add = redis_setsD(3) [OF assms d this]
    show "reachable d' \<and> (re_Contains SIsMember d' t' j' = Inr True \<longleftrightarrow> t' = t \<or> re_Contains SIsMember d t' j' = Inr True)"
      using add [of redisKeyTenants t'] add [of redisKeyJTIs "t' @ '':'' @ j'"] keys
      by (simp add: re_Contains_def split: sum.split bool.split)
  next
    assume "re_AddJTI SAdd t j r d = Inr d'"
    then have "SAdd redisKeyJTIs (t @ '':'' @ j) d = Inr d'" by (simp add: re_AddJTI_def split: if_splits)
    note add = redis_setsD(3) [OF assms d this]
    obtain hit where hit: "SIsMember redisKeyTenants t' d = Inr hit" using redis_setsD(1) [OF assms d] by blast
    show "reachable d' \<and> (re_Contains SIsMember d' t' j' = Inr True \<longleftrightarrow>
        j' \<noteq> [] \<and> t' @ '':'' @ j' = t @ '':'' @ j \<or> re_Contains SIsMember d t' j' = Inr True)"
      using add [of redisKeyTenants t'] add [of redisKeyJTIs "t' @ '':'' @ j'"] keys hit
      by (cases hit) (simp_all add: re_Contains_def)
  }
qed

lemma authorise_accepts:
  "enabled auth \<Longrightarrow> authorise cr auth region Contains d now tok sid role = Inr tenant \<longleftrightarrow>
     (\<exists>c. verifyToken cr auth region now tok sid role = Inr c \<and> Sub c = tenant \<and> Contains d tenant (Jti c) \<noteq> Inr True)"
  by (auto simp: authorise_def checkRevoked_def split: sum.splits if_splits)

section \<open>Properties\<close>

text \<open>
  C15. The broker lets in exactly whom its policy names: with a verifier key configured, a
  connection is admitted under a tenant just when its token parses under that key, the claims
  name that tenant, the session and the role of the first frame, are within their times and the
  broker's region, and are not revoked. The verifier of the admin endpoint likewise accepts just
  what the shared parser accepts under the admin key, in time and with the admin role.
\<close>

theorem admission_policy:
  "(enabled auth \<longrightarrow>
      (authorise cr auth region Contains d now tok sid role = Inr tenant \<longleftrightarrow>
         (\<exists>c. Parse cr (pubKey auth) tok = Inr c \<and> Sub c = tenant \<and> tenant \<noteq> []
            \<and> (Exp c = 0 \<or> now < Exp c) \<and> (Nbf c = 0 \<or> Nbf c \<le> now) \<and> Sid c = sid \<and> Role c = role
            \<and> regionPermitted (Aud c) region \<and> Contains d tenant (Jti c) \<noteq> Inr True)))
   \<and> (verifyAdminToken cr admin now tok = Inr a \<longleftrightarrow>
        enabled admin \<and> Parse cr (pubKey admin) tok = Inr a \<and> (Exp a = 0 \<or> now < Exp a)
        \<and> (Nbf a = 0 \<or> Nbf a \<le> now) \<and> Role a = ''admin'')"
  by (auto simp: authorise_accepts verifyToken_accepts verifyAdminToken_accepts session_policy_def admin_policy_def)

text \<open>
  C16. A revocation is final, with either backend: once the admin endpoint has confirmed the
  revocation of a tenant or of one of its tokens, no later request to the endpoint brings it
  back, and every connection with such a token is closed as revoked, although its signature,
  times, session and role still pass.
\<close>

theorem revocation_is_final:
  assumes "verifyToken cr auth region time tok sid role = Inr c" "Sub c = t" "j = [] \<or> Jti c = j" "enabled auth"
    and redis: "redis_sets SIsMember SAdd reachable"
  shows "(fst (adminRevokeHandler cr admin st_AddTenant st_AddJTI now r d) = Revoked t j scope \<longrightarrow>
      authorise cr auth region st_Contains
        (fold (\<lambda>(now, r) d. snd (adminRevokeHandler cr admin st_AddTenant st_AddJTI now r d)) rs
          (snd (adminRevokeHandler cr admin st_AddTenant st_AddJTI now r d))) time tok sid role = Inl ''token revoked'')
    \<and> (reachable e \<longrightarrow> fst (adminRevokeHandler cr admin (re_AddTenant SAdd) (re_AddJTI SAdd) now r e) = Revoked t j scope \<longrightarrow>
      authorise cr auth region (re_Contains SIsMember)
        (fold (\<lambda>(now, r) d. snd (adminRevokeHandler cr admin (re_AddTenant SAdd) (re_AddJTI SAdd) now r d)) rs
          (snd (adminRevokeHandler cr admin (re_AddTenant SAdd) (re_AddJTI SAdd) now r e))) time tok sid role
        = Inl ''token revoked'')"
  using st_list.revoked_refused [OF _ _ assms(1-4)] denylist.revoked_refused [OF redis_denylist [OF redis] _ _ assms(1-4)]
  by blast

text \<open>
  C17. A token from the development issuer opens the session it names: for an hour, at every
  broker with the issuer's key whose region it names or that has none, it is admitted with the
  tenant and the role that were asked for, unless it is revoked.
\<close>

theorem dev_token_admits:
  assumes "devIssuerHandler cr (Some priv) now (Some jti) q = Inr tok"
    and "codec_ok cr" "key_pair cr priv (pubKey auth)"
    and "sid = TrimSpace (q ''session_id'')" "role = TrimSpace (q ''role'')"
    and "tenant = (if TrimSpace (q ''tenant'') = [] then ''dev'' else TrimSpace (q ''tenant''))"
    and "c = dev_claims now jti tenant sid role (q ''aud'')" "read_claims cr (write_claims cr c) = Some c"
    and "now - 30 \<le> time" "time < now + devTokenTTL" "now + devTokenTTL \<noteq> 0" "enabled auth"
    and "regionPermitted (Aud c) region"
    and "Contains d tenant jti \<noteq> Inr True"
  shows "authorise cr auth region Contains d time tok sid role = Inr tenant \<and> (role = ''client'' \<or> role = ''browser'')"
proof -
  have tok: "tok = Sign cr priv c" and role: "role = ''client'' \<or> role = ''browser''"
    using assms(1,4-7) by (auto simp: devIssuerHandler_def Let_def split: if_splits)
  have "Parse cr (pubKey auth) tok = Inr c" unfolding tok by (rule Parse_Sign [OF assms(2,3,8)])
  moreover have "tenant \<noteq> []" using assms(6) by simp
  then have "session_policy region time sid role c"
    using assms(9-11,13) by (simp add: session_policy_def assms(7)) (simp add: dev_claims_def)
  ultimately have "verifyToken cr auth region time tok sid role = Inr c" by (simp add: verifyToken_accepts)
  moreover have "Sub c = tenant" "Jti c = jti" by (simp_all add: assms(7) dev_claims_def)
  ultimately show ?thesis
    using assms(12,14) role by (auto simp: authorise_def checkRevoked_def split: sum.splits)
qed

text \<open>
  A ban on one token can hit another tenant: tenant and token id are joined by a colon that
  both may contain, so banning the id \<open>x:j\<close> of a tenant \<open>t\<close> also bans the id \<open>j\<close> of the tenant
  \<open>t:x\<close>, in both backends.
\<close>

theorem ban_hits_other_tenant:
  assumes "t \<noteq> []" "j \<noteq> []" and redis: "redis_sets SIsMember SAdd reachable"
  shows "(\<exists>d'. st_AddJTI t (x @ '':'' @ j) reason d = Inr d' \<and> st_Contains d' (t @ '':'' @ x) j = Inr True)
    \<and> (reachable e \<longrightarrow>
        (\<exists>e'. re_AddJTI SAdd t (x @ '':'' @ j) reason e = Inr e' \<and> re_Contains SIsMember e' (t @ '':'' @ x) j = Inr True))"
proof -
  obtain d' where d': "st_AddJTI t (x @ '':'' @ j) reason d = Inr d'" using assms by (simp add: st_AddJTI_def Let_def)
  have "\<exists>e'. re_AddJTI SAdd t (x @ '':'' @ j) reason e = Inr e' \<and> re_Contains SIsMember e' (t @ '':'' @ x) j = Inr True"
    if e: "reachable e"
  proof -
    obtain e' where e': "re_AddJTI SAdd t (x @ '':'' @ j) reason e = Inr e'"
      using assms(1,2) redis_setsD(2) [OF redis e] by (auto simp: re_AddJTI_def)
    with denylist.add_jti [OF redis_denylist [OF redis] e e'] assms(2) show ?thesis by simp
  qed
  with d' st_list.add_jti [OF _ d'] assms(2) show ?thesis by simp
qed

section \<open>A concrete library\<close>

text \<open>Base64 replaced by a code of four letters for each byte, and one fixed signature.\<close>

definition nibble :: "nat \<Rightarrow> char" where
  "nibble k = char_of (65 + k)"

fun sample_encode :: "string \<Rightarrow> string" where
  "sample_encode [] = []"
| "sample_encode (c # cs) =
     nibble ((of_char c :: nat) div 16) # nibble ((of_char c :: nat) mod 16) # CHR ''A'' # CHR ''A'' # sample_encode cs"

fun sample_decode :: "string \<Rightarrow> string option" where
  "sample_decode [] = Some []"
| "sample_decode (a # b # _ # _ # r) =
     map_option (\<lambda>s. char_of (16 * ((of_char a :: nat) - 65) + ((of_char b :: nat) - 65)) # s) (sample_decode r)"
| "sample_decode _ = None"

definition sample_claims :: Claims where
  "sample_claims = dev_claims 1000 ''j1'' ''dev'' ''s1'' ''client'' []"

definition sample_crypto :: Crypto where
  "sample_crypto =
     \<lparr>Verify = (\<lambda>pub msg sig. pub = ''k'' \<and> sig = replicate 64 (CHR ''s'')), SignBytes = (\<lambda>priv msg. replicate 64 (CHR ''s'')),
      EncodeToString = sample_encode, DecodeString = sample_decode,
      read_json = (\<lambda>t. if t = ''admin'' then Some (JDict [(''role'', JString ''admin'')]) else Some (JDict [(''sub'', JString ''dev''), (''sid'', JString ''s1''), (''role'', JString ''client''),
        (''exp'', JInt 4600), (''iat'', JInt 1000), (''nbf'', JInt 970), (''jti'', JString ''j1'')])),
      write_claims = (\<lambda>c. if Role c = ''admin'' then ''admin'' else ''claims'')\<rparr>"

lemma of_nibble: "k < 16 \<Longrightarrow> (of_char (nibble k) :: nat) = 65 + k"
  by (simp add: nibble_def)

lemma high_nibble: "(of_char c :: nat) div 16 < 16"
  using nat_of_char_less_256 [of c] by (intro less_mult_imp_div_less) linarith

lemma sample_decode_encode: "sample_decode (sample_encode b) = Some b"
proof (induction b)
  case (Cons c cs)
  with high_nibble [of c] show ?case by (simp add: of_nibble)
qed simp

lemma sample_codec: "codec_ok sample_crypto"
proof -
  have nib: "CHR ''='' \<noteq> nibble k \<and> CHR ''.'' \<noteq> nibble k" if "k < 16" for k
    using of_nibble [OF that] by (auto dest!: arg_cong [of _ _ "of_char :: char \<Rightarrow> nat"])
  have "CHR ''='' \<notin> set (sample_encode b) \<and> CHR ''.'' \<notin> set (sample_encode b) \<and> length (sample_encode b) mod 4 = 0"
    for b by (induction b) (auto simp: nib high_nibble)
  then have "padded (sample_encode b)" for b
    unfolding padded_def by (intro exI [of _ "sample_encode b"] exI [of _ 0]) simp
  then show ?thesis by (simp add: codec_ok_def sample_crypto_def sample_decode_encode)
qed


definition sample_auth :: AuthConfig where
  "sample_auth = \<lparr>enabled = True, pubKey = ''k''\<rparr>"

definition sample_token :: string where
  "sample_token = Sign sample_crypto ''p'' sample_claims"

lemma sample_keys: "key_pair sample_crypto ''p'' ''k''"
  by (simp add: key_pair_def sample_crypto_def SignatureSize_def)

lemma sample_read: "read_claims sample_crypto (write_claims sample_crypto sample_claims) = Some sample_claims"
  by code_simp

lemma sample_parse: "Parse sample_crypto ''k'' sample_token = Inr sample_claims"
  unfolding sample_token_def by (rule Parse_Sign [OF sample_codec sample_keys sample_read])

theorem admission_policy_witness:
  "authorise sample_crypto sample_auth ''eu'' st_Contains NewStaticDenylist 2000 sample_token ''s1'' ''client'' = Inr ''dev''
   \<and> authorise sample_crypto sample_auth ''eu'' st_Contains NewStaticDenylist 5000 sample_token ''s1'' ''client'' \<noteq> Inr ''dev''"
  using admission_policy [of sample_auth sample_crypto "''eu''" st_Contains NewStaticDenylist 2000 sample_token "''s1''" "''client''" "''dev''" sample_auth sample_claims]
    admission_policy [of sample_auth sample_crypto "''eu''" st_Contains NewStaticDenylist 5000 sample_token "''s1''" "''client''" "''dev''" sample_auth sample_claims]
  by (simp add: sample_auth_def sample_parse)
    (simp add: sample_claims_def dev_claims_def devTokenTTL_def regionPermitted_def st_Contains_def NewStaticDenylist_def TrimSpace_def)

definition sample_query :: "string \<Rightarrow> string" where
  "sample_query k = (if k = ''role'' then ''client'' else if k = ''session_id'' then ''s1'' else [])"

lemma sample_trim: "TrimSpace [] = []" "TrimSpace ''client'' = ''client''" "TrimSpace ''s1'' = ''s1''" "TrimSpace ''dev'' = ''dev''"
  by code_simp+

theorem dev_token_admits_witness:
  "authorise sample_crypto sample_auth ''eu'' st_Contains NewStaticDenylist 2000
     sample_token ''s1'' ''client'' = Inr ''dev''"
proof -
  have tok: "devIssuerHandler sample_crypto (Some ''p'') 1000 (Some ''j1'') sample_query = Inr sample_token"
    by (simp add: devIssuerHandler_def sample_query_def sample_trim sample_token_def sample_claims_def)
  have c: "sample_claims = dev_claims 1000 ''j1'' ''dev'' ''s1'' ''client'' (sample_query ''aud'')"
    by (simp add: sample_claims_def sample_query_def)
  have Contains_free: "st_Contains NewStaticDenylist ''dev'' ''j1'' \<noteq> Inr True"
    by (simp add: st_Contains_def NewStaticDenylist_def)
  show ?thesis
    using dev_token_admits [OF tok sample_codec _ _ _ _ c sample_read, where auth = sample_auth and region = "''eu''"
        and Contains = st_Contains and d = NewStaticDenylist and time = 2000] sample_keys Contains_free
    by (simp add: sample_auth_def sample_query_def sample_trim devTokenTTL_def)
      (simp add: sample_claims_def dev_claims_def regionPermitted_def sample_trim)
qed


definition sample_admin :: Claims where
  "sample_admin = \<lparr>Sub = [], Sid = [], Role = ''admin'', Exp = 0, Iat = 0, Nbf = 0, Jti = [], Aud = []\<rparr>"

definition sample_request :: revokeRequest where
  "sample_request = \<lparr>rq_method = ''POST'', rq_authorization = ''Bearer '' @ Sign sample_crypto ''p'' sample_admin,
     rq_body = Some (''dev'', [], ''left'')\<rparr>"

lemma sample_request_accepted:
  "fst (adminRevokeHandler sample_crypto sample_auth st_AddTenant st_AddJTI 1500 sample_request NewStaticDenylist) =
     Revoked ''dev'' [] ''tenant''"
  by code_simp

text \<open>A server that keeps its sets as one list of keys and members.\<close>

definition sample_SIsMember :: "(string \<times> string) list redis_SIsMember" where
  "sample_SIsMember k m r = Inr ((k, m) \<in> set r)"

definition sample_SAdd :: "(string \<times> string) list redis_SAdd" where
  "sample_SAdd k m r = Inr ((k, m) # r)"

lemma sample_redis: "redis_sets sample_SIsMember sample_SAdd (\<lambda>r. True)"
  by (auto simp: redis_sets_def sample_SIsMember_def sample_SAdd_def)

lemma sample_request_accepted_redis:
  "fst (adminRevokeHandler sample_crypto sample_auth (re_AddTenant sample_SAdd) (re_AddJTI sample_SAdd) 1500 sample_request []) =
     Revoked ''dev'' [] ''tenant''"
  by code_simp

theorem revocation_is_final_witness:
  "authorise sample_crypto sample_auth ''eu'' st_Contains
     (snd (adminRevokeHandler sample_crypto sample_auth st_AddTenant st_AddJTI 1500 sample_request NewStaticDenylist))
     2000 sample_token ''s1'' ''client'' = Inl ''token revoked''
   \<and> authorise sample_crypto sample_auth ''eu'' (re_Contains sample_SIsMember)
     (snd (adminRevokeHandler sample_crypto sample_auth (re_AddTenant sample_SAdd) (re_AddJTI sample_SAdd) 1500 sample_request []))
     2000 sample_token ''s1'' ''client'' = Inl ''token revoked''"
proof -
  have v: "verifyToken sample_crypto sample_auth ''eu'' 2000 sample_token ''s1'' ''client'' = Inr sample_claims"
    by (simp add: verifyToken_accepts sample_auth_def sample_parse)
      (simp add: session_policy_def sample_claims_def dev_claims_def devTokenTTL_def regionPermitted_def sample_trim)
  have c: "Sub sample_claims = ''dev''" "enabled sample_auth" by (simp_all add: sample_claims_def dev_claims_def sample_auth_def)
  from revocation_is_final [OF v c(1) _ c(2) sample_redis, of "[]" sample_auth 1500 sample_request NewStaticDenylist "''tenant''" "[]" "[]"]
  show ?thesis using sample_request_accepted sample_request_accepted_redis by simp
qed

theorem ban_hits_other_tenant_witness:
  "(\<exists>d'. st_AddJTI ''acme'' ''eu:j1'' [] NewStaticDenylist = Inr d' \<and> st_Contains d' ''acme:eu'' ''j1'' = Inr True)
   \<and> (\<exists>e'. re_AddJTI sample_SAdd ''acme'' ''eu:j1'' [] [] = Inr e' \<and> re_Contains sample_SIsMember e' ''acme:eu'' ''j1'' = Inr True)"
  using ban_hits_other_tenant [OF _ _ sample_redis, of "''acme''" "''j1''" "''eu''" "[]" NewStaticDenylist "[]"] by simp

end
