(* ===== verification/Cb_Broker.thy ===== *)
theory Cb_Broker
  imports Cb_Broker_Auth Cb_Wire_Envelope "HOL-Library.Word"
begin

text \<open>
  The signaling broker, \<^verbatim>\<open>signaling/server.go\<close>: the hub with its sessions, the replay buffers
  for a peer that joins late, and the goroutine of each connection from its first frame to its
  leaving. A goroutine is a program counter: one step of it is one section that runs without the
  others, as the mutex of the hub or of a session makes it, so that every interleaving of the
  connections is a sequence of steps. Sessions live at addresses, because a goroutine keeps the
  session it got while the hub may forget it.

  The JSON codec and the token check are arguments; metrics and logging are left out.
\<close>

section \<open>Protocol\<close>

record GoEnvelope =
  ge_type :: string
  ge_from :: string
  ge_data :: "string option"

definition role_valid :: "string \<Rightarrow> PeerRole option" where
  "role_valid r = (if r = ''client'' then Some kClient else if r = ''browser'' then Some kBrowser else None)"

definition role_string :: "PeerRole \<Rightarrow> string" where
  "role_string r = (case r of kClient \<Rightarrow> ''client'' | kBrowser \<Rightarrow> ''browser'')"

definition other :: "PeerRole \<Rightarrow> PeerRole" where
  "other r = (if r = kClient then kBrowser else kClient)"

definition validTypes :: "string list" where
  "validTypes = [''offer'', ''answer'', ''ice'', ''bye'', ''request_renegotiate'', ''probe_result'']"

definition replayableTypes :: "string list" where
  "replayableTypes = [''offer'', ''answer'', ''request_renegotiate'']"

definition isReplayable :: "string \<Rightarrow> bool" where
  "isReplayable envType \<longleftrightarrow> envType \<in> set replayableTypes"

definition is_blank :: "char \<Rightarrow> bool" where
  "is_blank c \<longleftrightarrow> c = CHR '' '' \<or> c = CHR 0x09"

fun hasICEData :: "string \<Rightarrow> bool" where
  "hasICEData [] = False"
| "hasICEData (c # cs) =
     (let raw = c # cs; key = ''\"data\"'' in
      if \<not> length key < length raw then False
      else if \<not> prefix key raw then hasICEData cs
      else case dropWhile is_blank (drop (length key) raw) of
        [] \<Rightarrow> hasICEData cs
      | x # xs \<Rightarrow>
          if x \<noteq> CHR '':'' then hasICEData cs
          else let v = dropWhile is_blank xs in v \<noteq> [] \<and> \<not> prefix ''null'' v)"

section \<open>The age limit of the replay buffers\<close>

text \<open>
  Durations are 64-bit counts of nanoseconds: the conversion from seconds wraps around.
  \<open>Atoi\<close> is \<^verbatim>\<open>strconv.Atoi\<close>: an optional sign and decimal digits in the 64-bit range.
\<close>

definition second :: int where
  "second = 1000000000"

definition defaultICEReplayMaxAge :: int where
  "defaultICEReplayMaxAge = 300 * second"

definition iceReplayMaxAgeCeiling :: int where
  "iceReplayMaxAgeCeiling = 600 * second"

definition digits_value :: "string \<Rightarrow> int" where
  "digits_value s = foldl (\<lambda>n c. 10 * n + (int (of_char c) - 48)) 0 s"

definition all_digits :: "string \<Rightarrow> bool" where
  "all_digits s \<longleftrightarrow> s \<noteq> [] \<and> list_all (\<lambda>c. CHR ''0'' \<le> c \<and> c \<le> CHR ''9'') s"

definition Atoi :: "string \<Rightarrow> int option" where
  "Atoi s =
     (let (neg, ds) = (case s of [] \<Rightarrow> (False, s)
            | c # cs \<Rightarrow> if c = CHR ''-'' then (True, cs) else if c = CHR ''+'' then (False, cs) else (False, s));
          n = (if neg then - digits_value ds else digits_value ds)
      in if all_digits ds \<and> - (2 ^ 63) \<le> n \<and> n < 2 ^ 63 then Some n else None)"

definition to_duration :: "int \<Rightarrow> int" where
  "to_duration secs = sint (word_of_int secs * word_of_int second :: 64 word)"

definition resolveICEReplayMaxAge :: "string \<Rightarrow> int" where
  "resolveICEReplayMaxAge env_value =
     (let raw = TrimSpace env_value in
      if raw = [] then defaultICEReplayMaxAge
      else case Atoi raw of
        None \<Rightarrow> defaultICEReplayMaxAge
      | Some secs \<Rightarrow>
          if secs \<le> 0 then defaultICEReplayMaxAge
          else let d = to_duration secs in
               if d > iceReplayMaxAgeCeiling then iceReplayMaxAgeCeiling else d)"

section \<open>State\<close>

text \<open>Where a connection's goroutine is.\<close>

datatype pc =
    Pc_GetOrCreate
  | Pc_Register
  | Pc_Advise
  | Pc_First
  | Pc_Start
  | Pc_Read
  | Pc_Forward string string pc
  | Pc_Send nat string pc
  | Pc_Bye "PeerRole list"
  | Pc_Unregister
  | Pc_Leave
  | Pc_Announce bool bool
  | Pc_Drop
  | Pc_Done

text \<open>
  A peer with its goroutine: \<open>inbox\<close> holds what arrived on the socket, \<open>send\<close> is the channel to
  the write pump, \<open>written\<close> is what the pump has written.
\<close>

record Peer =
  pe_role :: PeerRole
  pe_key :: "string \<times> string"
  first_type :: string
  first_raw :: string
  pe_sess :: nat
  pe_pc :: pc
  inbox :: "string list"
  gone :: bool
  send :: "string list"
  written :: "string list"
  negotiated :: bool
  saidBye :: bool
  byeReceived :: bool

record BSession =
  b_key :: "string \<times> string"
  peers :: "PeerRole \<rightharpoonup> nat"
  recent :: "PeerRole \<Rightarrow> string \<rightharpoonup> string \<times> int"
  recentICE :: "PeerRole \<Rightarrow> (string \<times> int) list"

text \<open>\<open>forwards\<close> records each call of \<^verbatim>\<open>forward\<close>: the sender, the type and the text.\<close>

record Hub =
  sessions :: "string \<times> string \<rightharpoonup> nat"
  heap :: "nat \<Rightarrow> BSession"
  next_addr :: nat
  conns :: "nat \<rightharpoonup> Peer"
  shuttingDown :: bool
  forwards :: "(nat \<times> string \<times> string) list"

record Broker =
  unmarshal :: "string \<Rightarrow> GoEnvelope option"
  marshal :: "GoEnvelope \<Rightarrow> string option"
  authorised :: "int \<Rightarrow> string \<Rightarrow> string \<Rightarrow> string \<Rightarrow> string + string"
  max_age :: int

definition iceReplayMaxPerSender :: nat where
  "iceReplayMaxPerSender = 32"

definition sendBuffer :: nat where
  "sendBuffer = 32"

definition new_session_b :: "string \<times> string \<Rightarrow> BSession" where
  "new_session_b k = \<lparr>b_key = k, peers = Map.empty, recent = (\<lambda>r. Map.empty), recentICE = (\<lambda>r. [])\<rparr>"

definition newHub :: Hub where
  "newHub = \<lparr>sessions = Map.empty, heap = (\<lambda>a. new_session_b ([], [])), next_addr = 0, conns = Map.empty,
     shuttingDown = False, forwards = []\<rparr>"

section \<open>Operations on a session\<close>

text \<open>A send on a full channel drops the message.\<close>

definition try_send :: "string \<Rightarrow> string list \<Rightarrow> string list" where
  "try_send raw q = (if length q < sendBuffer then q @ [raw] else q)"

definition replay_sdp ::
  "int \<Rightarrow> int \<Rightarrow> string \<Rightarrow> (string \<rightharpoonup> string \<times> int) \<times> string list \<Rightarrow> (string \<rightharpoonup> string \<times> int) \<times> string list" where
  "replay_sdp now age t acc =
     (case acc of (buf, q) \<Rightarrow>
      case buf t of
        None \<Rightarrow> (buf, q)
      | Some (raw, ts) \<Rightarrow> if now - ts > age then (buf(t := None), q) else (buf, try_send raw q))"

definition replay_ice :: "int \<Rightarrow> int \<Rightarrow> string \<times> int \<Rightarrow> string list \<Rightarrow> string list" where
  "replay_ice now age entry q = (if now - snd entry > age then q else try_send (fst entry) q)"

definition register ::
  "int \<Rightarrow> int \<Rightarrow> PeerRole \<Rightarrow> nat \<Rightarrow> string list \<Rightarrow> BSession \<Rightarrow> (string list \<times> BSession) option" where
  "register now age r c q s =
     (if peers s r \<noteq> None then None
      else case fold (replay_sdp now age) replayableTypes (recent s (other r), q) of (buf, q1) \<Rightarrow>
        Some (fold (replay_ice now age) (recentICE s (other r)) q1,
              s\<lparr>peers := (peers s)(r \<mapsto> c), recent := (recent s)(other r := buf)\<rparr>))"

definition unregister :: "PeerRole \<Rightarrow> nat \<Rightarrow> BSession \<Rightarrow> BSession" where
  "unregister r c s = (if peers s r = Some c then s\<lparr>peers := (peers s)(r := None)\<rparr> else s)"

definition peerPresent :: "PeerRole \<Rightarrow> BSession \<Rightarrow> bool" where
  "peerPresent r s \<longleftrightarrow> peers s r \<noteq> None"

definition discardReplay :: "PeerRole list \<Rightarrow> BSession \<Rightarrow> BSession" where
  "discardReplay roles s =
     s\<lparr>recent := (\<lambda>r. if r \<in> set roles then Map.empty else recent s r),
       recentICE := (\<lambda>r. if r \<in> set roles then [] else recentICE s r)\<rparr>"

definition push_ice :: "string \<times> int \<Rightarrow> (string \<times> int) list \<Rightarrow> (string \<times> int) list" where
  "push_ice entry queue =
     (if length queue \<ge> iceReplayMaxPerSender then tl queue @ [entry] else queue @ [entry])"

text \<open>The part of \<^verbatim>\<open>forward\<close> under the lock: the buffers, and the peer to send to.\<close>

definition forward :: "int \<Rightarrow> PeerRole \<Rightarrow> string \<Rightarrow> string \<Rightarrow> BSession \<Rightarrow> BSession \<times> nat option" where
  "forward now r envType raw s =
     (let sender = other r;
          s1 = (if isReplayable envType
                then s\<lparr>recent := (recent s)(sender := (recent s sender)(envType \<mapsto> (raw, now)))\<rparr> else s);
          s2 = (if envType = ''ice'' \<and> hasICEData raw
                then s1\<lparr>recentICE := (recentICE s1)(sender := push_ice (raw, now) (recentICE s1 sender))\<rparr> else s1)
      in (s2, peers s2 r))"

section \<open>Operations on the hub\<close>

definition getOrCreate :: "string \<times> string \<Rightarrow> Hub \<Rightarrow> nat \<times> Hub" where
  "getOrCreate k h =
     (case sessions h k of
        Some a \<Rightarrow> (a, h)
      | None \<Rightarrow> (next_addr h, h\<lparr>sessions := (sessions h)(k \<mapsto> next_addr h),
          heap := (heap h)(next_addr h := new_session_b k), next_addr := next_addr h + 1\<rparr>))"

definition dropIfEmpty :: "string \<times> string \<Rightarrow> Hub \<Rightarrow> Hub" where
  "dropIfEmpty k h =
     (case sessions h k of
        None \<Rightarrow> h
      | Some a \<Rightarrow>
          if peers (heap h a) kClient = None \<and> peers (heap h a) kBrowser = None
          then h\<lparr>sessions := (sessions h)(k := None)\<rparr> else h)"

definition set_conn :: "nat \<Rightarrow> Peer \<Rightarrow> Hub \<Rightarrow> Hub" where
  "set_conn c p h = h\<lparr>conns := (conns h)(c \<mapsto> p)\<rparr>"

definition set_session :: "nat \<Rightarrow> BSession \<Rightarrow> Hub \<Rightarrow> Hub" where
  "set_session a s h = h\<lparr>heap := (heap h)(a := s)\<rparr>"

definition session_of_path :: "string \<Rightarrow> string option" where
  "session_of_path path =
     (let api = ''/api/webrtc/signaling/''; ws = ''/ws/'';
          i = (if prefix api path then drop (length api) path
               else if prefix ws path then drop (length ws) path else path)
      in if i = [] \<or> CHR ''/'' \<in> set i then None else Some i)"

text \<open>
  \<^verbatim>\<open>wsHandler\<close> up to the session: the path, the first frame, its role and the token. A
  connection that fails one of them is closed and leaves nothing.
\<close>

definition accept :: "Broker \<Rightarrow> int \<Rightarrow> nat \<Rightarrow> string \<Rightarrow> string \<Rightarrow> string \<Rightarrow> Hub \<Rightarrow> Hub" where
  "accept br now c path tok raw h =
     (case session_of_path path of
        None \<Rightarrow> h
      | Some sid \<Rightarrow>
          (case unmarshal br raw of
             None \<Rightarrow> h
           | Some env \<Rightarrow>
               (case role_valid (ge_from env) of
                  None \<Rightarrow> h
                | Some r \<Rightarrow>
                    (case authorised br now tok sid (ge_from env) of
                       Inl err \<Rightarrow> h
                     | Inr tenant \<Rightarrow>
                         set_conn c
                           \<lparr>pe_role = r, pe_key = (tenant, sid), first_type = ge_type env, first_raw = raw,
                            pe_sess = 0, pe_pc = Pc_GetOrCreate, inbox = [], gone = False, send = [],
                            written = [], negotiated = False, saidBye = False, byeReceived = False\<rparr> h))))"

text \<open>One frame in \<^verbatim>\<open>readPump\<close>: what is forwarded, and where the goroutine goes on.\<close>

definition rewritten :: "Broker \<Rightarrow> Peer \<Rightarrow> GoEnvelope \<Rightarrow> string \<Rightarrow> string" where
  "rewritten br p env raw =
     (if ge_from env \<noteq> role_string (pe_role p)
      then case marshal br (env\<lparr>ge_from := role_string (pe_role p)\<rparr>) of None \<Rightarrow> raw | Some raw' \<Rightarrow> raw'
      else raw)"

definition read_frame :: "Broker \<Rightarrow> string \<Rightarrow> Peer \<Rightarrow> Peer" where
  "read_frame br raw p =
     (case unmarshal br raw of
        None \<Rightarrow> p
      | Some env \<Rightarrow>
          if ge_type env \<notin> set validTypes then p
          else
            let raw1 = rewritten br p env raw;
                p1 = (if ge_type env = ''offer'' \<or> ge_type env = ''answer''
                      then p\<lparr>negotiated := True, saidBye := False, byeReceived := False\<rparr> else p);
                echo = (ge_type env = ''bye'' \<and> byeReceived p1)
            in if echo then p1\<lparr>pe_pc := Pc_Bye [pe_role p]\<rparr>
               else if ge_type env = ''bye''
               then p1\<lparr>pe_pc := Pc_Forward (ge_type env) raw1 (Pc_Bye [kClient, kBrowser])\<rparr>
               else p1\<lparr>pe_pc := Pc_Forward (ge_type env) raw1 Pc_Read\<rparr>)"

definition advice :: "Broker \<Rightarrow> PeerRole \<Rightarrow> string option" where
  "advice br r = marshal br \<lparr>ge_type = ''peer_absent'', ge_from = role_string r, ge_data = None\<rparr>"

definition synthesised_bye :: "Broker \<Rightarrow> PeerRole \<Rightarrow> string option" where
  "synthesised_bye br r = marshal br \<lparr>ge_type = ''bye'', ge_from = role_string r, ge_data = None\<rparr>"

text \<open>One step of the goroutine of connection \<open>c\<close>.\<close>

definition conn_step :: "Broker \<Rightarrow> int \<Rightarrow> nat \<Rightarrow> Hub \<Rightarrow> Hub" where
  "conn_step br now c h =
     (case conns h c of
        None \<Rightarrow> h
      | Some p \<Rightarrow>
          let s = heap h (pe_sess p); go = (\<lambda>k. set_conn c (p\<lparr>pe_pc := k\<rparr>)) in
          case pe_pc p of
            Pc_GetOrCreate \<Rightarrow>
              (case getOrCreate (pe_key p) h of (a, h1) \<Rightarrow> set_conn c (p\<lparr>pe_sess := a, pe_pc := Pc_Register\<rparr>) h1)
          | Pc_Register \<Rightarrow>
              (case register now (max_age br) (pe_role p) c (send p) s of
                 None \<Rightarrow> go Pc_Drop h
               | Some (q, s1) \<Rightarrow> set_conn c (p\<lparr>send := q, pe_pc := Pc_Advise\<rparr>) (set_session (pe_sess p) s1 h))
          | Pc_Advise \<Rightarrow>
              go (if peerPresent (other (pe_role p)) s then Pc_First
                  else case advice br (pe_role p) of None \<Rightarrow> Pc_First | Some raw \<Rightarrow> Pc_Send c raw Pc_First) h
          | Pc_First \<Rightarrow>
              go (if first_type p \<in> set validTypes then Pc_Forward (first_type p) (first_raw p) Pc_Start else Pc_Start) h
          | Pc_Start \<Rightarrow> go Pc_Read h
          | Pc_Read \<Rightarrow>
              (case inbox p of
                 raw # rest \<Rightarrow> set_conn c (read_frame br raw (p\<lparr>inbox := rest\<rparr>)) h
               | [] \<Rightarrow> if gone p then go Pc_Unregister h else h)
          | Pc_Forward envType raw k \<Rightarrow>
              (case forward now (other (pe_role p)) envType raw s of
                 (s1, target) \<Rightarrow>
                   let h1 = (set_session (pe_sess p) s1 h)\<lparr>forwards := forwards h @ [(c, envType, raw)]\<rparr> in
                   (case target of
                      None \<Rightarrow> go k h1
                    | Some t \<Rightarrow>
                        let h2 = go (Pc_Send t raw k) h1 in
                        if envType = ''bye''
                        then h2\<lparr>conns := (conns h2)(t := map_option (\<lambda>q. q\<lparr>byeReceived := True\<rparr>) (conns h2 t))\<rparr>
                        else h2))
          | Pc_Send t raw k \<Rightarrow>
              let h1 = go k h in
              h1\<lparr>conns := (conns h1)(t := map_option (\<lambda>q. q\<lparr>send := try_send raw (send q)\<rparr>) (conns h1 t))\<rparr>
          | Pc_Bye roles \<Rightarrow>
              set_conn c (p\<lparr>saidBye := True, pe_pc := Pc_Read\<rparr>) (set_session (pe_sess p) (discardReplay roles s) h)
          | Pc_Unregister \<Rightarrow> go Pc_Leave (set_session (pe_sess p) (unregister (pe_role p) c s) h)
          | Pc_Leave \<Rightarrow>
              let ended = byeReceived p;
                  roles = (if negotiated p \<and> \<not> ended then [pe_role p, other (pe_role p)] else [pe_role p])
              in go (Pc_Announce (negotiated p) ended) (set_session (pe_sess p) (discardReplay roles s) h)
          | Pc_Announce neg ended \<Rightarrow>
              go (if shuttingDown h then Pc_Drop
                  else if neg \<and> \<not> ended \<and> \<not> saidBye p
                  then case synthesised_bye br (pe_role p) of
                         None \<Rightarrow> Pc_Drop | Some raw \<Rightarrow> Pc_Forward ''bye'' raw Pc_Drop
                  else Pc_Drop) h
          | Pc_Drop \<Rightarrow> go Pc_Done (dropIfEmpty (pe_key p) h)
          | Pc_Done \<Rightarrow> h)"

text \<open>The write pump runs from the start of the pumps until the read pump returns.\<close>

fun pumping :: "pc \<Rightarrow> bool" where
  "pumping Pc_Read \<longleftrightarrow> True"
| "pumping (Pc_Bye roles) \<longleftrightarrow> True"
| "pumping (Pc_Forward envType raw k) \<longleftrightarrow> pumping k"
| "pumping (Pc_Send t raw k) \<longleftrightarrow> pumping k"
| "pumping _ \<longleftrightarrow> False"

definition write_step :: "nat \<Rightarrow> Hub \<Rightarrow> Hub" where
  "write_step c h =
     (case conns h c of
        None \<Rightarrow> h
      | Some p \<Rightarrow>
          if \<not> pumping (pe_pc p) then h
          else case send p of
            [] \<Rightarrow> h
          | raw # rest \<Rightarrow> set_conn c (p\<lparr>send := rest, written := written p @ [raw]\<rparr>) h)"

section \<open>The broker as a machine\<close>

datatype br_event =
    Br_Open nat string string string
  | Br_Frame nat string
  | Br_Gone nat
  | Br_Step nat
  | Br_Write nat
  | Br_Shutdown

fun br_step :: "Broker \<Rightarrow> int \<times> br_event \<Rightarrow> Hub \<Rightarrow> Hub" where
  "br_step br (now, Br_Open c path tok raw) h = (if conns h c \<noteq> None then h else accept br now c path tok raw h)"
| "br_step br (now, Br_Frame c raw) h =
     h\<lparr>conns := (conns h)(c := map_option (\<lambda>p. if gone p then p else p\<lparr>inbox := inbox p @ [raw]\<rparr>) (conns h c))\<rparr>"
| "br_step br (now, Br_Gone c) h =
     h\<lparr>conns := (conns h)(c := map_option (\<lambda>p. p\<lparr>gone := True\<rparr>) (conns h c))\<rparr>"
| "br_step br (now, Br_Step c) h = conn_step br now c h"
| "br_step br (now, Br_Write c) h = write_step c h"
| "br_step br (now, Br_Shutdown) h = h\<lparr>shuttingDown := True\<rparr>"

section \<open>Invariant\<close>

text \<open>The goroutine holds its role's place in its session.\<close>

fun holds :: "pc \<Rightarrow> bool" where
  "holds Pc_Advise \<longleftrightarrow> True"
| "holds Pc_First \<longleftrightarrow> True"
| "holds Pc_Start \<longleftrightarrow> True"
| "holds Pc_Read \<longleftrightarrow> True"
| "holds (Pc_Bye roles) \<longleftrightarrow> True"
| "holds Pc_Unregister \<longleftrightarrow> True"
| "holds (Pc_Forward envType raw k) \<longleftrightarrow> holds k"
| "holds (Pc_Send t raw k) \<longleftrightarrow> holds k"
| "holds _ \<longleftrightarrow> False"

fun targets :: "pc \<Rightarrow> nat set" where
  "targets (Pc_Forward envType raw k) = targets k"
| "targets (Pc_Send t raw k) = insert t (targets k)"
| "targets _ = {}"

fun pc_ok :: "pc \<Rightarrow> bool" where
  "pc_ok (Pc_Forward envType raw k) \<longleftrightarrow> k \<noteq> Pc_GetOrCreate \<and> pc_ok k"
| "pc_ok (Pc_Send t raw k) \<longleftrightarrow> k \<noteq> Pc_GetOrCreate \<and> pc_ok k"
| "pc_ok _ \<longleftrightarrow> True"

definition buffers_ok :: "BSession \<Rightarrow> bool" where
  "buffers_ok s \<longleftrightarrow>
     (\<forall>r. length (recentICE s r) \<le> iceReplayMaxPerSender \<and> dom (recent s r) \<subseteq> set replayableTypes)"

definition peer_ok :: "Hub \<Rightarrow> nat \<Rightarrow> Peer \<Rightarrow> bool" where
  "peer_ok h c p \<longleftrightarrow> length (send p) \<le> sendBuffer \<and> pc_ok (pe_pc p)
     \<and> (pe_pc p \<noteq> Pc_GetOrCreate \<longrightarrow> pe_sess p < next_addr h \<and> b_key (heap h (pe_sess p)) = pe_key p)
     \<and> (holds (pe_pc p) \<longrightarrow> peers (heap h (pe_sess p)) (pe_role p) = Some c)
     \<and> (\<forall>t \<in> targets (pe_pc p). \<exists>q. conns h t = Some q \<and> pe_key q = pe_key p)"

definition slot_ok :: "Hub \<Rightarrow> nat \<Rightarrow> PeerRole \<Rightarrow> bool" where
  "slot_ok h a r \<longleftrightarrow> (\<forall>c. peers (heap h a) r = Some c \<longrightarrow>
     (\<exists>p. conns h c = Some p \<and> pe_role p = r \<and> pe_sess p = a \<and> holds (pe_pc p)))"

definition br_invar :: "Hub \<Rightarrow> bool" where
  "br_invar h \<longleftrightarrow>
     (\<forall>k a. sessions h k = Some a \<longrightarrow> a < next_addr h \<and> b_key (heap h a) = k)
     \<and> (\<forall>a. buffers_ok (heap h a)) \<and> (\<forall>a r. slot_ok h a r)
     \<and> (\<forall>c p. conns h c = Some p \<longrightarrow> peer_ok h c p)"

lemma br_invarD:
  assumes "br_invar h"
  shows "sessions h k = Some a \<Longrightarrow> a < next_addr h \<and> b_key (heap h a) = k" "buffers_ok (heap h a)"
    "slot_ok h a r" "conns h c = Some p \<Longrightarrow> peer_ok h c p"
  using assms unfolding br_invar_def by blast+

lemma hub_fields [simp]:
  "conns (set_conn c p h) = (conns h)(c \<mapsto> p)" "heap (set_conn c p h) = heap h"
  "sessions (set_conn c p h) = sessions h" "next_addr (set_conn c p h) = next_addr h"
  "shuttingDown (set_conn c p h) = shuttingDown h" "forwards (set_conn c p h) = forwards h"
  "conns (set_session a s h) = conns h" "heap (set_session a s h) = (heap h)(a := s)"
  "sessions (set_session a s h) = sessions h" "next_addr (set_session a s h) = next_addr h"
  "shuttingDown (set_session a s h) = shuttingDown h" "forwards (set_session a s h) = forwards h"
  by (simp_all add: set_conn_def set_session_def)

text \<open>A peer may change what the invariant does not speak of.\<close>

lemma br_invar_conn:
  assumes inv: "br_invar h" and p: "conns h c = Some p"
    and same: "pe_role p' = pe_role p" "pe_key p' = pe_key p" "pe_sess p' = pe_sess p" "length (send p') \<le> sendBuffer"
    and pc: "pc_ok (pe_pc p')" "holds (pe_pc p') = holds (pe_pc p)" "pe_pc p' = Pc_GetOrCreate \<longleftrightarrow> pe_pc p = Pc_GetOrCreate"
    and tg: "\<And>t. t \<in> targets (pe_pc p') \<Longrightarrow> \<exists>q. conns h t = Some q \<and> pe_key q = pe_key p"
  shows "br_invar (set_conn c p' h)"
proof -
  let ?h = "set_conn c p' h"
  have lookup: "\<exists>q'. conns ?h t = Some q' \<and> pe_key q' = k" if "\<exists>q. conns h t = Some q \<and> pe_key q = k" for t k
    using that p same by (cases "t = c") auto
  have "peer_ok ?h c p'"
    using br_invarD(4) [OF inv p] same pc tg lookup by (auto simp: peer_ok_def)
  moreover have "peer_ok ?h d q" if "conns h d = Some q" for d q
    using br_invarD(4) [OF inv that] lookup by (auto simp: peer_ok_def)
  moreover have "slot_ok ?h a r" for a r
    using br_invarD(3) [OF inv, of a r] p same pc by (auto simp: slot_ok_def)
  ultimately show ?thesis using inv by (auto simp: br_invar_def)
qed

text \<open>A session may change its buffers.\<close>

lemma br_invar_session:
  assumes inv: "br_invar h" and s: "peers s = peers (heap h a)" "b_key s = b_key (heap h a)" "buffers_ok s"
  shows "br_invar (set_session a s h)"
proof -
  have "peer_ok (set_session a s h) c p = peer_ok h c p" for c p using s by (auto simp: peer_ok_def)
  moreover have "slot_ok (set_session a s h) b r = slot_ok h b r" for b r using s by (auto simp: slot_ok_def)
  ultimately show ?thesis using inv s by (auto simp: br_invar_def)
qed

lemma br_invar_flags [simp]:
  "br_invar (h\<lparr>forwards := l\<rparr>) = br_invar h" "br_invar (h\<lparr>shuttingDown := b\<rparr>) = br_invar h"
  by (simp_all add: br_invar_def peer_ok_def slot_ok_def)

lemma set_conn_commute: "(set_conn c p h)\<lparr>forwards := l\<rparr> = set_conn c p (h\<lparr>forwards := l\<rparr>)"
  by (simp add: set_conn_def)

lemma map_conn_eq:
  "h\<lparr>conns := (conns h)(t := map_option f (conns h t))\<rparr> = (case conns h t of None \<Rightarrow> h | Some q \<Rightarrow> set_conn t (f q) h)"
proof (cases "conns h t")
  case None
  then have "(conns h)(t := None) = conns h" by auto
  with None show ?thesis by simp
qed (simp add: set_conn_def)

text \<open>A change of some other peer's channel or flags.\<close>

lemma br_invar_touch:
  assumes "br_invar h"
    and "\<And>q. conns h t = Some q \<Longrightarrow> pe_role (f q) = pe_role q \<and> pe_key (f q) = pe_key q \<and> pe_sess (f q) = pe_sess q
      \<and> pe_pc (f q) = pe_pc q \<and> length (send (f q)) \<le> sendBuffer"
  shows "br_invar (h\<lparr>conns := (conns h)(t := map_option f (conns h t))\<rparr>)"
proof (cases "conns h t")
  case (Some q)
  have "br_invar (set_conn t (f q) h)"
    by (rule br_invar_conn [OF assms(1) Some])
      (use assms(2) [OF Some] br_invarD(4) [OF assms(1) Some] in \<open>auto simp: peer_ok_def\<close>)
  with Some show ?thesis by (simp add: set_conn_def)
next
  case None
  with assms(1) map_conn_eq [of h t f] show ?thesis by simp
qed

lemma try_send_le: "length q \<le> sendBuffer \<Longrightarrow> length (try_send raw q) \<le> sendBuffer"
  by (simp add: try_send_def)

lemma buffers_ok_discard: "buffers_ok s \<Longrightarrow> buffers_ok (discardReplay roles s)"
  by (auto simp: buffers_ok_def discardReplay_def)

lemma push_ice_le: "length q \<le> iceReplayMaxPerSender \<Longrightarrow> length (push_ice e q) \<le> iceReplayMaxPerSender"
  by (auto simp: push_ice_def iceReplayMaxPerSender_def)

lemma buffers_ok_forward:
  assumes "buffers_ok s"
  shows "buffers_ok (fst (forward now r envType raw s))"
proof -
  have "\<not> isReplayable ''ice''" by (simp add: isReplayable_def replayableTypes_def)
  with assms show ?thesis by (cases "isReplayable envType") (auto simp: buffers_ok_def forward_def Let_def push_ice_le isReplayable_def)
qed

lemma forward_fields:
  "peers (fst (forward now r envType raw s)) = peers s" "b_key (fst (forward now r envType raw s)) = b_key s"
  "snd (forward now r envType raw s) = peers s r"
  by (simp_all add: forward_def Let_def)


text \<open>Joining and leaving.\<close>

lemma register_Some:
  assumes "register now age r c q s = Some (q', s')"
  shows "peers s r = None" "peers s' = (peers s)(r \<mapsto> c)" "b_key s' = b_key s"
    "length q \<le> sendBuffer \<Longrightarrow> length q' \<le> sendBuffer" "buffers_ok s \<Longrightarrow> buffers_ok s'"
proof -
  have ice: "length (fold (replay_ice now age) es q) \<le> sendBuffer" if "length q \<le> sendBuffer" for es q
    using that by (induction es arbitrary: q) (simp_all add: replay_ice_def try_send_le)
  have sdp: "(length (snd acc) \<le> sendBuffer \<longrightarrow> length (snd (fold (replay_sdp now age) ts acc)) \<le> sendBuffer)
      \<and> dom (fst (fold (replay_sdp now age) ts acc)) \<subseteq> dom (fst acc)" for ts acc
  proof (induction ts arbitrary: acc)
    case (Cons t ts)
    have "(length (snd acc) \<le> sendBuffer \<longrightarrow> length (snd (replay_sdp now age t acc)) \<le> sendBuffer)
        \<and> dom (fst (replay_sdp now age t acc)) \<subseteq> dom (fst acc)"
      by (cases acc) (auto simp: replay_sdp_def try_send_le split: option.split)
    with Cons.IH [of "replay_sdp now age t acc"] show ?case by auto
  qed simp
  note bounds = ice sdp [of "(recent s (other r), q)" replayableTypes]
  show "peers s r = None" "peers s' = (peers s)(r \<mapsto> c)" "b_key s' = b_key s"
    using assms by (auto simp: register_def split: if_splits prod.splits)
  show "length q' \<le> sendBuffer" if "length q \<le> sendBuffer"
    using assms that bounds by (auto simp: register_def split: if_splits prod.splits)
  show "buffers_ok s'" if "buffers_ok s"
    using assms that bounds(2) by (fastforce simp: register_def buffers_ok_def split: if_splits prod.splits)
qed

lemma br_invar_register:
  assumes inv: "br_invar h" and p: "conns h c = Some p" and pc: "pe_pc p = Pc_Register"
    and reg: "register now age (pe_role p) c (send p) (heap h (pe_sess p)) = Some (q, s1)"
  shows "br_invar (set_conn c (p\<lparr>send := q, pe_pc := Pc_Advise\<rparr>) (set_session (pe_sess p) s1 h))" (is "br_invar ?h")
proof -
  note reg = register_Some [OF reg]
  have pk: "peer_ok h c p" using inv p by (rule br_invarD)
  have free: "peers (heap h a) r \<noteq> Some c" for a r
    using br_invarD(3) [OF inv, of a r] p pc by (auto simp: slot_ok_def)
  have lookup: "\<exists>q'. conns ?h t = Some q' \<and> pe_key q' = k" if "\<exists>q. conns h t = Some q \<and> pe_key q = k" for t k
    using that p by (cases "t = c") auto
  have "peer_ok ?h c (p\<lparr>send := q, pe_pc := Pc_Advise\<rparr>)" using pk pc reg by (simp add: peer_ok_def)
  moreover have "peer_ok ?h d q'" if "conns h d = Some q'" "d \<noteq> c" for d q'
    using br_invarD(4) [OF inv that(1)] reg(1-3) lookup by (auto simp: peer_ok_def)
  moreover have "slot_ok ?h a r" for a r
    using br_invarD(3) [OF inv, of a r] reg p free by (auto simp: slot_ok_def)
  moreover have "buffers_ok s1" using reg(5) br_invarD(2) [OF inv] by blast
  ultimately show ?thesis using inv reg(3) by (auto simp: br_invar_def)
qed

lemma br_invar_unregister:
  assumes inv: "br_invar h" and p: "conns h c = Some p" and pc: "pe_pc p = Pc_Unregister"
  shows "br_invar (set_conn c (p\<lparr>pe_pc := Pc_Leave\<rparr>)
    (set_session (pe_sess p) (unregister (pe_role p) c (heap h (pe_sess p))) h))" (is "br_invar ?h")
proof -
  have pk: "peer_ok h c p" using inv p by (rule br_invarD)
  then have mine: "peers (heap h (pe_sess p)) (pe_role p) = Some c" using pc by (simp add: peer_ok_def)
  have un: "unregister (pe_role p) c (heap h (pe_sess p)) =
      (heap h (pe_sess p))\<lparr>peers := (peers (heap h (pe_sess p)))(pe_role p := None)\<rparr>"
    using mine by (simp add: unregister_def)
  have lookup: "\<exists>q'. conns ?h t = Some q' \<and> pe_key q' = k" if "\<exists>q. conns h t = Some q \<and> pe_key q = k" for t k
    using that p by (cases "t = c") auto
  have "peer_ok ?h c (p\<lparr>pe_pc := Pc_Leave\<rparr>)" using pk pc by (simp add: peer_ok_def un)
  moreover have "peer_ok ?h d q" if "conns h d = Some q" "d \<noteq> c" for d q
    using br_invarD(4) [OF inv that(1)] that(2) mine lookup by (auto simp: peer_ok_def un)
  moreover have "slot_ok ?h a r" for a r
    using br_invarD(3) [OF inv, of a r] p by (auto simp: slot_ok_def un)
  moreover have "buffers_ok (unregister (pe_role p) c (heap h (pe_sess p)))"
    using br_invarD(2) [OF inv] by (simp add: un buffers_ok_def)
  ultimately show ?thesis using inv by (auto simp: br_invar_def un)
qed

lemma br_invar_getOrCreate:
  assumes inv: "br_invar h" and p: "conns h c = Some p" and pc: "pe_pc p = Pc_GetOrCreate"
    and g: "getOrCreate (pe_key p) h = (a, h1)"
  shows "br_invar (set_conn c (p\<lparr>pe_sess := a, pe_pc := Pc_Register\<rparr>) h1)" (is "br_invar ?h")
proof -
  have h1: "conns h1 = conns h" "next_addr h \<le> next_addr h1" "a < next_addr h1" "b_key (heap h1 a) = pe_key p"
    "\<And>b. b < next_addr h \<Longrightarrow> heap h1 b = heap h b"
    "\<And>b. heap h1 b = heap h b \<or> heap h1 b = new_session_b (pe_key p)"
    using g br_invarD(1) [OF inv, of "pe_key p"]
    by (auto simp: getOrCreate_def new_session_b_def split: option.splits)
  have "sessions h1 k = Some b \<Longrightarrow> b < next_addr h1 \<and> b_key (heap h1 b) = k" for k b
    using g br_invarD(1) [OF inv, of k b]
    by (auto simp: getOrCreate_def new_session_b_def split: option.splits if_splits)
  moreover have lookup: "\<exists>q'. conns ?h t = Some q' \<and> pe_key q' = k" if "\<exists>q. conns h t = Some q \<and> pe_key q = k" for t k
    using that p by (cases "t = c") (auto simp: h1(1))
  moreover have "peer_ok ?h c (p\<lparr>pe_sess := a, pe_pc := Pc_Register\<rparr>)"
    using br_invarD(4) [OF inv p] h1 by (simp add: peer_ok_def)
  moreover have "peer_ok ?h d q" if "conns h d = Some q" "d \<noteq> c" for d q
  proof (cases "pe_pc q = Pc_GetOrCreate")
    case True
    with br_invarD(4) [OF inv that(1)] show ?thesis by (simp add: peer_ok_def)
  next
    case False
    with br_invarD(4) [OF inv that(1)] h1(2,5) lookup show ?thesis by (auto simp: peer_ok_def)
  qed
  moreover have "slot_ok ?h b r" for b r
    using br_invarD(3) [OF inv, of b r] h1(6) [of b] p pc by (auto simp: slot_ok_def h1(1) new_session_b_def)
  moreover have "buffers_ok (heap h1 b)" for b
    using h1(6) [of b]
  proof
    assume "heap h1 b = new_session_b (pe_key p)"
    then show ?thesis by (simp add: buffers_ok_def new_session_b_def)
  qed (simp add: br_invarD(2) [OF inv])
  ultimately show ?thesis by (auto simp: br_invar_def h1(1))
qed

text \<open>Where the goroutine may go without giving up or taking its place.\<close>

lemma br_invar_go:
  assumes "br_invar h" "conns h c = Some p" "holds k = holds (pe_pc p)" "k \<noteq> Pc_GetOrCreate" "pe_pc p \<noteq> Pc_GetOrCreate" "pc_ok k"
    and "\<And>t. t \<in> targets k \<Longrightarrow> \<exists>q. conns h t = Some q \<and> pe_key q = pe_key p"
  shows "br_invar (set_conn c (p\<lparr>pe_pc := k\<rparr>) h)"
  using assms br_invarD(4) [OF assms(1,2)] by (intro br_invar_conn [OF assms(1,2)]) (auto simp: peer_ok_def)

lemma pc_targets:
  "br_invar h \<Longrightarrow> conns h c = Some p \<Longrightarrow> t \<in> targets (pe_pc p) \<Longrightarrow> \<exists>q. conns h t = Some q \<and> pe_key q = pe_key p"
  using br_invarD(4) [of h c p] by (auto simp: peer_ok_def)

text \<open>The peer in a place of a session has the session's key.\<close>

lemma slot_key:
  assumes "br_invar h" "peers (heap h a) r = Some t"
  shows "\<exists>q. conns h t = Some q \<and> pe_key q = b_key (heap h a)"
proof -
  from br_invarD(3) [OF assms(1), of a r] assms(2) obtain q where q: "conns h t = Some q" "pe_sess q = a" "holds (pe_pc q)"
    by (auto simp: slot_ok_def)
  with br_invarD(4) [OF assms(1) q(1)] show ?thesis by (cases "pe_pc q") (auto simp: peer_ok_def)
qed

lemma br_invar_forward:
  assumes inv: "br_invar h" and p: "conns h c = Some p" and pc: "pe_pc p = Pc_Forward envType raw k" "k \<noteq> Pc_GetOrCreate" "pc_ok k"
    and f: "forward now (other (pe_role p)) envType raw (heap h (pe_sess p)) = (s1, target)"
  shows "br_invar (set_conn c (p\<lparr>pe_pc := (case target of None \<Rightarrow> k | Some t \<Rightarrow> Pc_Send t raw k)\<rparr>) (set_session (pe_sess p) s1 h))"
proof -
  let ?s = "heap h (pe_sess p)" and ?h = "set_session (pe_sess p) s1 h"
  have s1: "s1 = fst (forward now (other (pe_role p)) envType raw ?s)"
    and target: "target = peers ?s (other (pe_role p))" 
    using f forward_fields(3) [of now "other (pe_role p)" envType raw ?s] by simp_all
  have inv': "br_invar ?h" unfolding s1
    by (rule br_invar_session [OF inv]) (simp_all add: forward_fields buffers_ok_forward br_invarD(2) [OF inv])
  have key: "b_key ?s = pe_key p" using br_invarD(4) [OF inv p] pc by (simp add: peer_ok_def)
  show ?thesis
  proof (rule br_invar_go [OF inv'])
    fix t
    assume t: "t \<in> targets (case target of None \<Rightarrow> k | Some t \<Rightarrow> Pc_Send t raw k)"
    show "\<exists>q. conns ?h t = Some q \<and> pe_key q = pe_key p"
      using t pc_targets [OF inv p, of t] slot_key [OF inv, of "pe_sess p" "other (pe_role p)" t] key pc target
      by (auto split: option.splits)
  qed (use p pc in \<open>auto split: option.split\<close>)
qed

lemma br_invar_accept:
  assumes "br_invar h" "conns h c = None"
  shows "br_invar (accept br now c path tok raw h)"
proof -
  have new: "br_invar (set_conn c p h)" if "pe_pc p = Pc_GetOrCreate" "send p = []" for p :: Peer
  proof -
    let ?h = "set_conn c p h"
    have free: "peers (heap h a) r \<noteq> Some c" for a r
      using br_invarD(3) [OF assms(1), of a r] assms(2) by (auto simp: slot_ok_def)
    have "peer_ok ?h c p" using that by (simp add: peer_ok_def)
    moreover have "peer_ok ?h d q" if "conns h d = Some q" "d \<noteq> c" for d q
      using br_invarD(4) [OF assms(1) that(1)] assms(2) by (fastforce simp: peer_ok_def)
    moreover have "slot_ok ?h a r" for a r
      using br_invarD(3) [OF assms(1), of a r] free by (auto simp: slot_ok_def)
    ultimately show ?thesis using assms(1) by (auto simp: br_invar_def)
  qed
  show ?thesis using assms(1) new by (simp add: accept_def split: option.split sum.split)
qed

lemma br_invar_dropIfEmpty: "br_invar h \<Longrightarrow> br_invar (dropIfEmpty k h)"
  by (auto simp: br_invar_def peer_ok_def slot_ok_def dropIfEmpty_def split: option.split)

text \<open>A frame changes flags of its peer and starts a forward.\<close>

lemma read_frame_fields:
  "pe_role (read_frame br raw p) = pe_role p \<and> pe_key (read_frame br raw p) = pe_key p
   \<and> pe_sess (read_frame br raw p) = pe_sess p \<and> send (read_frame br raw p) = send p
   \<and> targets (pe_pc (read_frame br raw p)) \<subseteq> targets (pe_pc p)
   \<and> (pe_pc p = Pc_Read \<longrightarrow> holds (pe_pc (read_frame br raw p)) \<and> pe_pc (read_frame br raw p) \<noteq> Pc_GetOrCreate
        \<and> pc_ok (pe_pc (read_frame br raw p)))"
  by (simp add: read_frame_def Let_def split: option.split)

lemma br_invar_send:
  assumes inv: "br_invar h" and p: "conns h c = Some p" and pc: "pe_pc p = Pc_Send t raw k"
  shows "br_invar ((set_conn c (p\<lparr>pe_pc := k\<rparr>) h)
    \<lparr>conns := (conns (set_conn c (p\<lparr>pe_pc := k\<rparr>) h))(t := map_option (\<lambda>q. q\<lparr>send := try_send raw (send q)\<rparr>)
       (conns (set_conn c (p\<lparr>pe_pc := k\<rparr>) h) t))\<rparr>)"
proof -
  have ok: "pc_ok (pe_pc p)" using br_invarD(4) [OF inv p] by (simp add: peer_ok_def)
  have inv1: "br_invar (set_conn c (p\<lparr>pe_pc := k\<rparr>) h)"
    by (rule br_invar_go [OF inv p]) (use pc ok pc_targets [OF inv p] in auto)
  show ?thesis
  proof (rule br_invar_touch [OF inv1])
    fix q
    assume q: "conns (set_conn c (p\<lparr>pe_pc := k\<rparr>) h) t = Some q"
    have "length (send q) \<le> sendBuffer" using br_invarD(4) [OF inv1 q] by (simp add: peer_ok_def)
    then show "pe_role (q\<lparr>send := try_send raw (send q)\<rparr>) = pe_role q
        \<and> pe_key (q\<lparr>send := try_send raw (send q)\<rparr>) = pe_key q \<and> pe_sess (q\<lparr>send := try_send raw (send q)\<rparr>) = pe_sess q
        \<and> pe_pc (q\<lparr>send := try_send raw (send q)\<rparr>) = pe_pc q
        \<and> length (send (q\<lparr>send := try_send raw (send q)\<rparr>)) \<le> sendBuffer"
      by (simp add: try_send_le)
  qed
qed

lemma br_invar_discard:
  assumes "br_invar h"
  shows "br_invar (set_session a (discardReplay roles (heap h a)) h)"
  by (rule br_invar_session [OF assms])
    (simp_all add: buffers_ok_discard br_invarD(2) [OF assms], simp_all add: discardReplay_def)

text \<open>A forward, with the notice to the target of a bye.\<close>

lemma conn_step_forward:
  assumes "conns h c = Some p" "pe_pc p = Pc_Forward ty raw k"
    and "forward now (other (pe_role p)) ty raw (heap h (pe_sess p)) = (s1, target)"
    and "h1 = set_conn c (p\<lparr>pe_pc := (case target of None \<Rightarrow> k | Some t \<Rightarrow> Pc_Send t raw k)\<rparr>)
      ((set_session (pe_sess p) s1 h)\<lparr>forwards := forwards h @ [(c, ty, raw)]\<rparr>)"
  shows "conn_step br now c h = (if target = None \<or> ty \<noteq> ''bye'' then h1
    else h1\<lparr>conns := (conns h1)(the target := map_option (\<lambda>q. q\<lparr>byeReceived := True\<rparr>) (conns h1 (the target)))\<rparr>)"
  using assms by (cases target) (simp_all add: conn_step_def Let_def)

lemma br_invar_conn_step:
  assumes inv: "br_invar h"
  shows "br_invar (conn_step br now c h)"
proof (cases "conns h c")
  case None
  with inv show ?thesis by (simp add: conn_step_def)
next
  case (Some p)
  have len: "length (send p) \<le> sendBuffer" and ok: "pc_ok (pe_pc p)"
    using br_invarD(4) [OF inv Some] by (simp_all add: peer_ok_def)
  have own: "\<exists>q. conns h c = Some q \<and> pe_key q = pe_key p" using Some by simp
  note go = br_invar_go [OF inv Some]
  show ?thesis
  proof (cases "pe_pc p")
    case Pc_GetOrCreate
    with Some br_invar_getOrCreate [OF inv Some Pc_GetOrCreate] show ?thesis
      by (cases "getOrCreate (pe_key p) h") (simp add: conn_step_def)
  next
    case Pc_Register
    show ?thesis
    proof (cases "register now (max_age br) (pe_role p) c (send p) (heap h (pe_sess p))")
      case None
      have "br_invar (set_conn c (p\<lparr>pe_pc := Pc_Drop\<rparr>) h)" by (rule go) (simp_all add: Pc_Register)
      with Some Pc_Register None show ?thesis by (simp add: conn_step_def)
    next
      case reg: (Some x)
      obtain q s1 where x: "x = (q, s1)" by (cases x)
      from br_invar_register [OF inv Some Pc_Register reg [unfolded x]] Some Pc_Register reg x show ?thesis
        by (simp add: conn_step_def)
    qed
  next
    case Pc_Advise
    let ?k = "if peerPresent (other (pe_role p)) (heap h (pe_sess p)) then Pc_First
      else case advice br (pe_role p) of None \<Rightarrow> Pc_First | Some raw \<Rightarrow> Pc_Send c raw Pc_First"
    have "br_invar (set_conn c (p\<lparr>pe_pc := ?k\<rparr>) h)"
      by (rule go) (use own in \<open>auto simp: Pc_Advise split: option.splits if_splits\<close>)
    with Some Pc_Advise show ?thesis by (simp add: conn_step_def)
  next
    case Pc_First
    let ?k = "if first_type p \<in> set validTypes then Pc_Forward (first_type p) (first_raw p) Pc_Start else Pc_Start"
    have "br_invar (set_conn c (p\<lparr>pe_pc := ?k\<rparr>) h)" by (rule go) (auto simp: Pc_First split: if_splits)
    with Some Pc_First show ?thesis by (simp add: conn_step_def)
  next
    case Pc_Start
    have "br_invar (set_conn c (p\<lparr>pe_pc := Pc_Read\<rparr>) h)" by (rule go) (simp_all add: Pc_Start)
    with Some Pc_Start show ?thesis by (simp add: conn_step_def)
  next
    case Pc_Read
    show ?thesis
    proof (cases "inbox p")
      case Nil
      have "br_invar (set_conn c (p\<lparr>pe_pc := Pc_Unregister\<rparr>) h)" by (rule go) (simp_all add: Pc_Read)
      with Some Pc_Read Nil inv show ?thesis by (simp add: conn_step_def)
    next
      case (Cons raw rest)
      have "br_invar (set_conn c (read_frame br raw (p\<lparr>inbox := rest\<rparr>)) h)"
        by (rule br_invar_conn [OF inv Some])
          (use read_frame_fields [of br raw "p\<lparr>inbox := rest\<rparr>"] Pc_Read len in auto)
      with Some Pc_Read Cons show ?thesis by (simp add: conn_step_def)
    qed
  next
    case (Pc_Forward envType raw k)
    obtain s1 target where f: "forward now (other (pe_role p)) envType raw (heap h (pe_sess p)) = (s1, target)"
      by (cases "forward now (other (pe_role p)) envType raw (heap h (pe_sess p))")
    have k: "k \<noteq> Pc_GetOrCreate" "pc_ok k" using ok Pc_Forward by simp_all
    let ?h = "set_conn c (p\<lparr>pe_pc := (case target of None \<Rightarrow> k | Some t \<Rightarrow> Pc_Send t raw k)\<rparr>)
      ((set_session (pe_sess p) s1 h)\<lparr>forwards := forwards h @ [(c, envType, raw)]\<rparr>)"
    have inv1: "br_invar ?h"
      using br_invar_forward [OF inv Some Pc_Forward k f] by (simp add: set_conn_commute [symmetric])
    have "br_invar (?h\<lparr>conns := (conns ?h)(t := map_option (\<lambda>q. q\<lparr>byeReceived := True\<rparr>) (conns ?h t))\<rparr>)" for t
      by (rule br_invar_touch [OF inv1]) (use br_invarD(4) [OF inv1] in \<open>auto simp: peer_ok_def\<close>)
    moreover have "conn_step br now c h = (if target = None \<or> envType \<noteq> ''bye'' then ?h
        else ?h\<lparr>conns := (conns ?h)(the target := map_option (\<lambda>q. q\<lparr>byeReceived := True\<rparr>) (conns ?h (the target)))\<rparr>)"
      by (rule conn_step_forward [OF Some Pc_Forward f refl])
    ultimately show ?thesis using inv1 by presburger
  next
    case (Pc_Send t raw k)
    from br_invar_send [OF inv Some Pc_Send] Some Pc_Send show ?thesis by (simp add: conn_step_def Let_def)
  next
    case (Pc_Bye roles)
    let ?h = "set_session (pe_sess p) (discardReplay roles (heap h (pe_sess p))) h"
    have "br_invar (set_conn c (p\<lparr>saidBye := True, pe_pc := Pc_Read\<rparr>) ?h)"
      by (rule br_invar_conn [OF br_invar_discard [OF inv], where c = c and p = p]) (simp_all add: Some len Pc_Bye)
    with Some Pc_Bye show ?thesis by (simp add: conn_step_def)
  next
    case Pc_Unregister
    from br_invar_unregister [OF inv Some Pc_Unregister] Some Pc_Unregister show ?thesis by (simp add: conn_step_def)
  next
    case Pc_Leave
    have "br_invar (set_conn c (p\<lparr>pe_pc := Pc_Announce (negotiated p) (byeReceived p)\<rparr>)
        (set_session (pe_sess p) (discardReplay roles (heap h (pe_sess p))) h))" for roles
      by (rule br_invar_go [OF br_invar_discard [OF inv], where c = c and p = p]) (simp_all add: Some Pc_Leave)
    with Some Pc_Leave show ?thesis by (simp add: conn_step_def Let_def)
  next
    case (Pc_Announce neg ended)
    let ?k = "if shuttingDown h then Pc_Drop else if neg \<and> \<not> ended \<and> \<not> saidBye p
      then case synthesised_bye br (pe_role p) of None \<Rightarrow> Pc_Drop | Some raw \<Rightarrow> Pc_Forward ''bye'' raw Pc_Drop
      else Pc_Drop"
    have "br_invar (set_conn c (p\<lparr>pe_pc := ?k\<rparr>) h)"
      by (rule go) (auto simp: Pc_Announce split: option.splits if_splits)
    with Some Pc_Announce show ?thesis by (simp add: conn_step_def)
  next
    case Pc_Drop
    have "conns (dropIfEmpty (pe_key p) h) c = Some p" using Some by (simp add: dropIfEmpty_def split: option.split)
    from br_invar_go [OF br_invar_dropIfEmpty [OF inv] this, of Pc_Done] Pc_Drop Some show ?thesis
      by (simp add: conn_step_def)
  next
    case Pc_Done
    with Some inv show ?thesis by (simp add: conn_step_def)
  qed
qed

lemma br_invar_write: "br_invar h \<Longrightarrow> br_invar (write_step c h)"
proof (cases "conns h c")
  case (Some p)
  assume inv: "br_invar h"
  have ok: "peer_ok h c p" by (rule br_invarD(4) [OF inv Some])
  show ?thesis
  proof (cases "send p")
    case (Cons raw rest)
    have "br_invar (set_conn c (p\<lparr>send := rest, written := written p @ [raw]\<rparr>) h)"
      by (rule br_invar_conn [OF inv Some]) (use ok Cons pc_targets [OF inv Some] in \<open>auto simp: peer_ok_def\<close>)
    with Some Cons inv show ?thesis by (simp add: write_step_def)
  qed (use Some inv in \<open>simp add: write_step_def\<close>)
qed (simp add: write_step_def)

lemma br_invar_step: "br_invar h \<Longrightarrow> br_invar (br_step br e h)"
proof (cases e)
  case (Pair now ev)
  assume inv: "br_invar h"
  have len: "conns h c = Some q \<Longrightarrow> length (send q) \<le> sendBuffer" for c q
    using br_invarD(4) [OF inv] by (auto simp: peer_ok_def)
  show ?thesis
  proof (cases ev)
    case (Br_Frame c raw)
    show ?thesis unfolding Pair Br_Frame br_step.simps by (rule br_invar_touch [OF inv]) (auto simp: len)
  next
    case (Br_Gone c)
    show ?thesis unfolding Pair Br_Gone br_step.simps by (rule br_invar_touch [OF inv]) (auto simp: len)
  qed (use inv Pair in \<open>simp_all add: br_invar_accept br_invar_conn_step br_invar_write\<close>)
qed

lemma br_invar_new: "br_invar newHub"
  by (simp add: br_invar_def newHub_def slot_ok_def new_session_b_def buffers_ok_def)

interpretation br_machine: invariant_machine "\<lambda>h. h = newHub" "br_step br" br_invar for br
  by unfold_locales (auto simp: br_invar_new br_invar_step)

end
