(* ===== verification/Cb_Broker_Replay.thy ===== *)
theory Cb_Broker_Replay
  imports Cb_Broker
begin

text \<open>
  What the broker promises a session: a peer that joins late gets what it missed, whatever the
  other sessions of the hub do meanwhile; and what happens when connections of one session
  leave and join at the same time.
\<close>

section \<open>Sessions do not interfere\<close>

text \<open>A step of a connection of another session leaves a session, its places and its peers alone.\<close>

definition same_session :: "string \<times> string \<Rightarrow> Hub \<Rightarrow> Hub \<Rightarrow> bool" where
  "same_session K h h' \<longleftrightarrow> sessions h' K = sessions h K \<and> next_addr h \<le> next_addr h'
     \<and> (\<forall>a < next_addr h. b_key (heap h a) = K \<longrightarrow> heap h' a = heap h a)
     \<and> (\<forall>d q. conns h d = Some q \<and> pe_key q = K \<longrightarrow> conns h' d = Some q)
     \<and> (\<forall>d q'. conns h' d = Some q' \<and> pe_key q' = K \<longrightarrow> (\<exists>q. conns h d = Some q \<and> pe_key q = K))"

lemma same_session_refl: "same_session K h h"
  by (simp add: same_session_def)

lemma same_session_conn:
  "conns h c = Some p \<Longrightarrow> pe_key p \<noteq> K \<Longrightarrow> pe_key p' = pe_key p \<Longrightarrow> same_session K h (set_conn c p' h)"
  by (auto simp: same_session_def)

lemma same_session_both:
  assumes "conns h c = Some p" "pe_key p \<noteq> K" "pe_key p' = pe_key p" "b_key (heap h a) \<noteq> K"
  shows "same_session K h (set_conn c p' (set_session a s h))"
  using assms by (auto simp: same_session_def)

lemma same_session_touch:
  assumes "same_session K h h'" "\<And>q. conns h' t = Some q \<Longrightarrow> pe_key q \<noteq> K \<and> pe_key (f q) = pe_key q"
  shows "same_session K h (h'\<lparr>conns := (conns h')(t := map_option f (conns h' t))\<rparr>)"
  using assms by (cases "conns h' t") (auto simp: same_session_def)

lemma same_session_forwards [simp]: "same_session K h (h'\<lparr>forwards := l\<rparr>) = same_session K h h'"
  by (simp add: same_session_def)

lemma set_conn_forwards: "set_conn c p (h\<lparr>forwards := l\<rparr>) = (set_conn c p h)\<lparr>forwards := l\<rparr>"
  by (simp add: set_conn_def)

lemma conn_step_other:
  assumes inv: "br_invar h" and other: "\<And>p. conns h c = Some p \<Longrightarrow> pe_key p \<noteq> K"
  shows "same_session K h (conn_step br now c h)"
proof (cases "conns h c")
  case None
  then show ?thesis by (simp add: conn_step_def same_session_refl)
next
  case (Some p)
  have K: "pe_key p \<noteq> K" using other Some by blast
  have ok: "peer_ok h c p" by (rule br_invarD(4) [OF inv Some])
  have a: "b_key (heap h (pe_sess p)) \<noteq> K" if "pe_pc p \<noteq> Pc_GetOrCreate" using ok that K by (simp add: peer_ok_def)
  note go = same_session_conn [OF Some K] and both = same_session_both [OF Some K]
  have target: "pe_key q \<noteq> K" if "conns h t = Some q" "t \<in> targets (pe_pc p)" for t q
    using pc_targets [OF inv Some that(2)] that(1) K by simp
  show ?thesis
  proof (cases "pe_pc p")
    case Pc_GetOrCreate
    have "same_session K h (set_conn c (p\<lparr>pe_sess := b, pe_pc := Pc_Register\<rparr>) h1)"
      if "getOrCreate (pe_key p) h = (b, h1)" for b h1
      using that Some K by (auto simp: getOrCreate_def same_session_def split: option.splits)
    with Some Pc_GetOrCreate show ?thesis by (cases "getOrCreate (pe_key p) h") (simp add: conn_step_def)
  next
    case Pc_Register
    then show ?thesis
      using Some go both a by (simp add: conn_step_def split: option.split)
  next
    case Pc_Read
    then show ?thesis
      using Some go read_frame_fields same_session_refl by (simp add: conn_step_def split: list.split)
  next
    case (Pc_Forward envType raw k)
    obtain s1 t where f: "forward now (other (pe_role p)) envType raw (heap h (pe_sess p)) = (s1, t)"
      by (cases "forward now (other (pe_role p)) envType raw (heap h (pe_sess p))")
    have t: "t = peers (heap h (pe_sess p)) (other (pe_role p))"
      using f forward_fields(3) [of now "other (pe_role p)" envType raw "heap h (pe_sess p)"] by simp
    let ?h = "set_conn c (p\<lparr>pe_pc := (case t of None \<Rightarrow> k | Some t \<Rightarrow> Pc_Send t raw k)\<rparr>)
      ((set_session (pe_sess p) s1 h)\<lparr>forwards := forwards h @ [(c, envType, raw)]\<rparr>)"
    have 1: "same_session K h ?h" using both a Pc_Forward by (simp add: set_conn_forwards)
    have "same_session K h (?h\<lparr>conns := (conns ?h)(the t := map_option (\<lambda>q. q\<lparr>byeReceived := True\<rparr>) (conns ?h (the t)))\<rparr>)"
      if some: "t \<noteq> None"
    proof (rule same_session_touch [OF 1])
      fix q
      assume q: "conns ?h (the t) = Some q"
      obtain u where u: "t = Some u" using some by blast
      from slot_key [OF inv t [unfolded u, symmetric]] obtain x where "conns h u = Some x"
        "pe_key x = b_key (heap h (pe_sess p))" by blast
      with q u ok Pc_Forward K show "pe_key q \<noteq> K \<and> pe_key (q\<lparr>byeReceived := True\<rparr>) = pe_key q"
        by (cases "u = c") (auto simp: peer_ok_def)
    qed
    moreover have "conn_step br now c h = (if t = None \<or> envType \<noteq> ''bye'' then ?h
        else ?h\<lparr>conns := (conns ?h)(the t := map_option (\<lambda>q. q\<lparr>byeReceived := True\<rparr>) (conns ?h (the t)))\<rparr>)"
      by (rule conn_step_forward [OF Some Pc_Forward f refl])
    ultimately show ?thesis using 1 by presburger
  next
    case (Pc_Send t raw k)
    let ?h = "set_conn c (p\<lparr>pe_pc := k\<rparr>) h"
    have "same_session K h (?h\<lparr>conns := (conns ?h)(t := map_option (\<lambda>q. q\<lparr>send := try_send raw (send q)\<rparr>) (conns ?h t))\<rparr>)"
      by (rule same_session_touch) (use go target [of t] K Pc_Send in \<open>auto split: if_splits\<close>)
    with Some Pc_Send show ?thesis by (simp add: conn_step_def Let_def)
  next
    case Pc_Drop
    have "same_session K h (set_conn c (p\<lparr>pe_pc := Pc_Done\<rparr>) (dropIfEmpty (pe_key p) h))"
      using Some K by (auto simp: same_session_def dropIfEmpty_def split: option.splits)
    with Some Pc_Drop show ?thesis by (simp add: conn_step_def)
  qed (use Some go both a same_session_refl in \<open>simp_all add: conn_step_def Let_def split: option.split\<close>)
qed

section \<open>Two peers meet\<close>

text \<open>
  A browser that offers with its first frame and then sends candidates, and a viewer that says
  hello and waits, both for the same session.
\<close>

record Meeting =
  mt_br :: Broker
  mt_browser :: nat
  mt_viewer :: nat
  mt_key :: "string \<times> string"
  mt_offer :: string
  mt_ices :: "string list"
  mt_hello :: string
  mt_start :: int

definition mt_frames :: "Meeting \<Rightarrow> string list" where
  "mt_frames M = mt_offer M # mt_ices M"

definition meeting_ok :: "Meeting \<Rightarrow> bool" where
  "meeting_ok M \<longleftrightarrow> mt_browser M \<noteq> mt_viewer M \<and> length (mt_ices M) \<le> 30 \<and> \<not> hasICEData (mt_hello M)
     \<and> (\<forall>raw \<in> set (mt_ices M). hasICEData raw
          \<and> (\<exists>d. unmarshal (mt_br M) raw = Some \<lparr>ge_type = ''ice'', ge_from = ''browser'', ge_data = d\<rparr>))"

definition in_time :: "Meeting \<Rightarrow> int \<Rightarrow> bool" where
  "in_time M now \<longleftrightarrow> mt_start M \<le> now \<and> now \<le> mt_start M + max_age (mt_br M)"

text \<open>The points the two goroutines pass.\<close>

fun browser_pc :: "Meeting \<Rightarrow> pc \<Rightarrow> bool" where
  "browser_pc M Pc_GetOrCreate \<longleftrightarrow> True"
| "browser_pc M Pc_Register \<longleftrightarrow> True"
| "browser_pc M Pc_Advise \<longleftrightarrow> True"
| "browser_pc M Pc_First \<longleftrightarrow> True"
| "browser_pc M Pc_Start \<longleftrightarrow> True"
| "browser_pc M Pc_Read \<longleftrightarrow> True"
| "browser_pc M (Pc_Forward ty raw k) \<longleftrightarrow>
     ty = ''offer'' \<and> raw = mt_offer M \<and> k = Pc_Start \<or> ty = ''ice'' \<and> raw \<in> set (mt_ices M) \<and> k = Pc_Read"
| "browser_pc M (Pc_Send t raw k) \<longleftrightarrow>
     t = mt_browser M \<and> k = Pc_First \<or> t = mt_viewer M \<and> (k = Pc_Start \<or> k = Pc_Read)"
| "browser_pc M _ \<longleftrightarrow> False"

fun viewer_pc :: "Meeting \<Rightarrow> pc \<Rightarrow> bool" where
  "viewer_pc M Pc_GetOrCreate \<longleftrightarrow> True"
| "viewer_pc M Pc_Register \<longleftrightarrow> True"
| "viewer_pc M Pc_Advise \<longleftrightarrow> True"
| "viewer_pc M Pc_First \<longleftrightarrow> True"
| "viewer_pc M Pc_Start \<longleftrightarrow> True"
| "viewer_pc M Pc_Read \<longleftrightarrow> True"
| "viewer_pc M (Pc_Forward ty raw k) \<longleftrightarrow> ty = ''ice'' \<and> raw = mt_hello M \<and> k = Pc_Start"
| "viewer_pc M (Pc_Send t raw k) \<longleftrightarrow>
     t = mt_viewer M \<and> k = Pc_First \<and> advice (mt_br M) kClient = Some raw \<or> t = mt_browser M \<and> k = Pc_Start"
| "viewer_pc M _ \<longleftrightarrow> False"

text \<open>What the browser's goroutine has not forwarded, and what it is sending to the viewer.\<close>

fun unsent :: "Meeting \<Rightarrow> pc \<Rightarrow> string list" where
  "unsent M (Pc_Forward ty raw k) = [raw]"
| "unsent M (Pc_Send t raw k) = (if k = Pc_First then [mt_offer M] else [])"
| "unsent M Pc_Start = []"
| "unsent M Pc_Read = []"
| "unsent M _ = [mt_offer M]"

fun in_flight :: "Meeting \<Rightarrow> pc \<Rightarrow> string list" where
  "in_flight M (Pc_Send t raw k) = (if t = mt_viewer M then [raw] else [])"
| "in_flight M _ = []"

fun before_advice :: "Meeting \<Rightarrow> pc \<Rightarrow> bool" where
  "before_advice M Pc_GetOrCreate \<longleftrightarrow> True"
| "before_advice M Pc_Register \<longleftrightarrow> True"
| "before_advice M Pc_Advise \<longleftrightarrow> True"
| "before_advice M (Pc_Send t raw k) \<longleftrightarrow> k = Pc_First"
| "before_advice M _ \<longleftrightarrow> False"

fun offering :: "pc \<Rightarrow> bool" where
  "offering (Pc_Forward ty raw k) \<longleftrightarrow> k = Pc_Start"
| "offering (Pc_Send t raw k) \<longleftrightarrow> k = Pc_First"
| "offering Pc_Start \<longleftrightarrow> False"
| "offering Pc_Read \<longleftrightarrow> False"
| "offering _ \<longleftrightarrow> True"

text \<open>A log that is a list of frames, but for one notice that the other peer is absent.\<close>

definition but_for_one :: "Meeting \<Rightarrow> string list \<Rightarrow> string list \<Rightarrow> bool" where
  "but_for_one M l frames \<longleftrightarrow>
     l = frames \<or> (\<exists>x notice y. advice (mt_br M) kClient = Some notice \<and> l = x @ notice # y \<and> frames = x @ y)"

definition buffered :: "Meeting \<Rightarrow> BSession \<Rightarrow> string list \<Rightarrow> bool" where
  "buffered M s fw \<longleftrightarrow>
     (case fw of
        [] \<Rightarrow> recent s kBrowser = Map.empty \<and> recentICE s kBrowser = []
      | raw # raws \<Rightarrow> (\<exists>ts. recent s kBrowser = [''offer'' \<mapsto> (raw, ts)] \<and> mt_start M \<le> ts)
          \<and> map fst (recentICE s kBrowser) = raws \<and> (\<forall>e \<in> set (recentICE s kBrowser). mt_start M \<le> snd e))"

definition session_state :: "Meeting \<Rightarrow> Hub \<Rightarrow> Peer \<Rightarrow> Peer \<Rightarrow> string list \<Rightarrow> bool" where
  "session_state M h pb pv fw \<longleftrightarrow>
     (case sessions h (mt_key M) of
        None \<Rightarrow> fw = [] \<and> pe_pc pb = Pc_GetOrCreate \<and> pe_pc pv = Pc_GetOrCreate
      | Some a \<Rightarrow> (pe_pc pb \<noteq> Pc_GetOrCreate \<longrightarrow> pe_sess pb = a) \<and> (pe_pc pv \<noteq> Pc_GetOrCreate \<longrightarrow> pe_sess pv = a)
          \<and> buffered M (heap h a) fw
          \<and> peers (heap h a) kBrowser = (if holds (pe_pc pb) then Some (mt_browser M) else None)
          \<and> peers (heap h a) kClient = (if holds (pe_pc pv) then Some (mt_viewer M) else None))"

definition only_two :: "Meeting \<Rightarrow> Hub \<Rightarrow> bool" where
  "only_two M h \<longleftrightarrow>
     (\<forall>c p. conns h c = Some p \<longrightarrow> pe_key p = mt_key M \<longrightarrow> c = mt_browser M \<or> c = mt_viewer M)"

definition meeting :: "Meeting \<Rightarrow> string list \<Rightarrow> Hub \<Rightarrow> Peer \<Rightarrow> Peer \<Rightarrow> string list \<Rightarrow> string list \<Rightarrow> bool" where
  "meeting M todo h pb pv fw got \<longleftrightarrow>
     conns h (mt_browser M) = Some pb \<and> pe_role pb = kBrowser \<and> pe_key pb = mt_key M \<and> \<not> gone pb
     \<and> first_type pb = ''offer'' \<and> first_raw pb = mt_offer M \<and> browser_pc M (pe_pc pb)
     \<and> conns h (mt_viewer M) = Some pv \<and> pe_role pv = kClient \<and> pe_key pv = mt_key M \<and> \<not> gone pv
     \<and> inbox pv = [] \<and> first_type pv = ''ice'' \<and> first_raw pv = mt_hello M \<and> viewer_pc M (pe_pc pv)
     \<and> only_two M h \<and> (fw = []) = offering (pe_pc pb)
     \<and> mt_frames M = fw @ unsent M (pe_pc pb) @ inbox pb @ todo
     \<and> session_state M h pb pv fw
     \<and> got @ in_flight M (pe_pc pb) = (if holds (pe_pc pv) then fw else [])
     \<and> (if before_advice M (pe_pc pv) then written pv @ send pv = got else but_for_one M (written pv @ send pv) got)"

definition meets :: "Meeting \<Rightarrow> string list \<Rightarrow> Hub \<Rightarrow> bool" where
  "meets M todo h \<longleftrightarrow> (\<exists>pb pv fw got. meeting M todo h pb pv fw got)"

text \<open>Other sessions do not matter.\<close>

lemma meets_other:
  assumes inv: "br_invar h" and m: "meets M todo h" and same: "same_session (mt_key M) h h'"
  shows "meets M todo h'"
proof -
  obtain pb pv fw got where m: "meeting M todo h pb pv fw got" using m by (auto simp: meets_def)
  have c: "conns h' (mt_browser M) = Some pb" "conns h' (mt_viewer M) = Some pv"
    using m same by (simp_all add: meeting_def same_session_def)
  have "only_two M h'" using m same unfolding meeting_def only_two_def same_session_def by blast
  moreover have "session_state M h' pb pv fw"
  proof (cases "sessions h (mt_key M)")
    case None
    with m same show ?thesis by (simp add: meeting_def session_state_def same_session_def)
  next
    case (Some a)
    with br_invarD(1) [OF inv Some] same have "heap h' a = heap h a" by (simp add: same_session_def)
    with Some m same show ?thesis by (simp add: meeting_def session_state_def same_session_def)
  qed
  ultimately have "meeting M todo h' pb pv fw got" using m c by (auto simp: meeting_def)
  then show ?thesis by (auto simp: meets_def)
qed

lemma length_frames: "meeting_ok M \<Longrightarrow> length (mt_frames M) \<le> 31"
  by (simp add: meeting_ok_def mt_frames_def)

lemma but_for_one_snoc: "but_for_one M l frames \<Longrightarrow> but_for_one M (l @ [raw]) (frames @ [raw])"
  unfolding but_for_one_def by (metis append.assoc append_Cons)

lemma but_for_one_notice: "advice (mt_br M) kClient = Some notice \<Longrightarrow> but_for_one M (l @ [notice]) l"
  unfolding but_for_one_def by (intro disjI2 exI [of _ l] exI [of _ notice] exI [of _ "[]"]) simp_all

lemma but_for_one_length: "but_for_one M l frames \<Longrightarrow> length l \<le> length frames + 1"
  by (auto simp: but_for_one_def)

lemma only_two_conn [simp]:
  "only_two M h \<Longrightarrow> conns h c = Some p \<Longrightarrow> pe_key p' = pe_key p \<Longrightarrow> only_two M (set_conn c p' h)"
  by (auto simp: only_two_def)

lemma only_two_simps [simp]:
  "only_two M (set_session a s h) = only_two M h" "only_two M (h\<lparr>forwards := l\<rparr>) = only_two M h"
  "only_two M (h\<lparr>heap := g\<rparr>) = only_two M h" "only_two M (h\<lparr>sessions := ss\<rparr>) = only_two M h"
  "only_two M (h\<lparr>next_addr := n\<rparr>) = only_two M h"
  by (simp_all add: only_two_def)

text \<open>The replay is what was forwarded, in order.\<close>

lemma replay_all:
  assumes "\<forall>e \<in> set es. now - snd e \<le> age" "length q + length es \<le> sendBuffer"
  shows "fold (replay_ice now age) es q = q @ map fst es"
  using assms
proof (induction es arbitrary: q)
  case (Cons e es)
  from Cons.prems have "replay_ice now age e q = q @ [fst e]" by (simp add: replay_ice_def try_send_def)
  with Cons show ?case by simp
qed simp

lemma same_recent: "recent s r = b \<Longrightarrow> s\<lparr>peers := f, recent := (recent s)(r := b)\<rparr> = s\<lparr>peers := f\<rparr>"
  by (cases s) auto

lemma register_replays:
  assumes b: "buffered M s fw" and time: "in_time M now" and l: "length fw \<le> 31" and free: "peers s kClient = None"
  shows "register now (max_age (mt_br M)) kClient c [] s = Some (fw, s\<lparr>peers := (peers s)(kClient \<mapsto> c)\<rparr>)"
proof (cases fw)
  case Nil
  with b free show ?thesis
    by (simp add: buffered_def register_def other_def replayableTypes_def replay_sdp_def same_recent)
next
  case (Cons raw raws)
  then obtain ts where ts: "recent s kBrowser = [''offer'' \<mapsto> (raw, ts)]" "mt_start M \<le> ts"
    and ice: "map fst (recentICE s kBrowser) = raws" "\<forall>e \<in> set (recentICE s kBrowser). mt_start M \<le> snd e"
    using b by (auto simp: buffered_def)
  have fresh: "\<not> now - ts > max_age (mt_br M)" using time ts(2) by (simp add: in_time_def)
  have "\<forall>e \<in> set (recentICE s kBrowser). now - snd e \<le> max_age (mt_br M)" using time ice(2) by (fastforce simp: in_time_def)
  moreover have "length (recentICE s kBrowser) \<le> 30" using ice(1) l Cons by (auto simp flip: length_map [of fst])
  ultimately have r: "fold (replay_ice now (max_age (mt_br M))) (recentICE s kBrowser) [raw] = raw # raws"
    using ice(1) by (simp add: replay_all sendBuffer_def)
  have "fold (replay_sdp now (max_age (mt_br M))) replayableTypes (recent s kBrowser, []) = (recent s kBrowser, [raw])"
    using fresh ts(1) by (simp add: replayableTypes_def replay_sdp_def try_send_def sendBuffer_def)
  with r free Cons show ?thesis by (simp add: register_def other_def same_recent)
qed

lemma buffered_cong: "recent s' kBrowser = recent s kBrowser \<Longrightarrow> recentICE s' kBrowser = recentICE s kBrowser \<Longrightarrow>
  buffered M s' fw = buffered M s fw"
  by (simp add: buffered_def split: list.split)

lemma register_browser:
  assumes "peers s kBrowser = None"
  obtains q' s' where "register now age kBrowser c q s = Some (q', s')" "peers s' = (peers s)(kBrowser \<mapsto> c)"
    "buffered M s' fw = buffered M s fw"
proof -
  obtain buf q1 where f: "fold (replay_sdp now age) replayableTypes (recent s kClient, q) = (buf, q1)"
    by (cases "fold (replay_sdp now age) replayableTypes (recent s kClient, q)")
  let ?s = "s\<lparr>peers := (peers s)(kBrowser \<mapsto> c), recent := (recent s)(kClient := buf)\<rparr>"
  have "buffered M ?s fw = buffered M s fw" by (rule buffered_cong) simp_all
  moreover have "register now age kBrowser c q s = Some (fold (replay_ice now age) (recentICE s kClient) q1, ?s)"
    using assms f by (simp add: register_def other_def)
  ultimately show ?thesis by (intro that [of _ ?s]) simp_all
qed

lemma forward_offer:
  assumes "buffered M s []" "in_time M now"
  obtains s' where "forward now kClient ''offer'' raw s = (s', peers s kClient)" "peers s' = peers s" "buffered M s' [raw]"
  using assms that by (simp add: forward_def isReplayable_def replayableTypes_def buffered_def in_time_def other_def)
    (blast intro: exI [of _ now])

lemma forward_ice:
  assumes b: "buffered M s fw" and fw: "fw \<noteq> []" and time: "in_time M now" and raw: "hasICEData raw" and l: "length fw \<le> 31"
  obtains s' where "forward now kClient ''ice'' raw s = (s', peers s kClient)" "peers s' = peers s" "buffered M s' (fw @ [raw])"
proof -
  obtain x xs where x: "fw = x # xs" using fw by (cases fw) auto
  then have "length (recentICE s kBrowser) \<le> 30" using b l by (auto simp: buffered_def simp flip: length_map [of fst])
  then show ?thesis
    using that b raw time x
    by (simp add: forward_def isReplayable_def replayableTypes_def buffered_def in_time_def other_def push_ice_def
        iceReplayMaxPerSender_def)
qed

lemma forward_hello: "\<not> hasICEData raw \<Longrightarrow> forward now r ''ice'' raw s = (s, peers s r)"
  by (simp add: forward_def isReplayable_def replayableTypes_def)

text \<open>The browser's goroutine takes a step.\<close>

lemma meetsI: "meeting M todo h pb pv fw got \<Longrightarrow> meets M todo h"
  by (auto simp: meets_def)

lemma meeting_send:
  assumes m: "meeting M todo h pb pv fw got" and ok: "meeting_ok M"
  shows "length fw \<le> 31" "length (send pv) < sendBuffer \<or> in_flight M (pe_pc pb) = []"
    "before_advice M (pe_pc pv) \<Longrightarrow> length (send pv) < sendBuffer"
proof -
  have fr: "mt_frames M = fw @ unsent M (pe_pc pb) @ inbox pb @ todo"
    and g: "got @ in_flight M (pe_pc pb) = (if holds (pe_pc pv) then fw else [])"
    and log: "if before_advice M (pe_pc pv) then written pv @ send pv = got else but_for_one M (written pv @ send pv) got"
    using m by (simp_all add: meeting_def)
  show fw: "length fw \<le> 31" using length_frames [OF ok] unfolding fr by simp
  have "length got + length (in_flight M (pe_pc pb)) = length (if holds (pe_pc pv) then fw else [])"
    unfolding g [symmetric] by simp
  then have got: "length got + length (in_flight M (pe_pc pb)) \<le> 31" using fw by (simp split: if_splits)
  have len: "length (send pv) \<le> length got + (if before_advice M (pe_pc pv) then 0 else 1)"
    using log but_for_one_length [of M "written pv @ send pv" got] by (auto split: if_splits)
  then show "length (send pv) < sendBuffer \<or> in_flight M (pe_pc pb) = []"
    using got by (cases "in_flight M (pe_pc pb)") (simp_all add: sendBuffer_def split: if_splits)
  show "length (send pv) < sendBuffer" if "before_advice M (pe_pc pv)"
    using that got len by (simp add: sendBuffer_def)
qed

lemma meets_browser_step:
  assumes ok: "meeting_ok M" and m: "meets M todo h" and time: "in_time M now"
  shows "meets M todo (conn_step (mt_br M) now (mt_browser M) h)"
proof -
  let ?b = "mt_browser M" and ?v = "mt_viewer M"
  obtain pb pv fw got where m: "meeting M todo h pb pv fw got" using m by (auto simp: meets_def)
  have bv: "?b \<noteq> ?v" using ok by (simp add: meeting_ok_def)
  have cb: "conns h ?b = Some pb" and rb: "pe_role pb = kBrowser" and kb: "pe_key pb = mt_key M"
    and two: "only_two M h" and ss: "session_state M h pb pv fw" and bp: "browser_pc M (pe_pc pb)"
    and off: "(fw = []) = offering (pe_pc pb)" and fr: "mt_frames M = fw @ unsent M (pe_pc pb) @ inbox pb @ todo"
    and cv: "conns h ?v = Some pv"
    using m by (simp_all add: meeting_def)
  note l31 = meeting_send(1) [OF m ok]
  have go: "meets M todo (set_conn ?b p' h)"
    if "pe_role p' = kBrowser" "pe_key p' = mt_key M" "gone p' = gone pb" "first_type p' = first_type pb"
      "first_raw p' = first_raw pb" "pe_sess p' = pe_sess pb" "browser_pc M (pe_pc p')"
      "mt_frames M = fw @ unsent M (pe_pc p') @ inbox p' @ todo"
      "in_flight M (pe_pc p') = in_flight M (pe_pc pb)" "offering (pe_pc p') = offering (pe_pc pb)"
      "holds (pe_pc p') = holds (pe_pc pb)" "(pe_pc p' = Pc_GetOrCreate) = (pe_pc pb = Pc_GetOrCreate)" for p'
  proof -
    have "session_state M (set_conn ?b p' h) p' pv fw"
      using ss that(6,11,12) by (simp add: session_state_def split: option.splits)
    then have "meeting M todo (set_conn ?b p' h) p' pv fw got"
      using that m bv only_two_conn [OF two cb, of p'] by (simp add: meeting_def)
    then show ?thesis by (rule meetsI)
  qed
  show ?thesis
  proof (cases "pe_pc pb")
    case Pc_GetOrCreate
    obtain a h1 where g: "getOrCreate (mt_key M) h = (a, h1)" by (cases "getOrCreate (mt_key M) h")
    let ?p = "pb\<lparr>pe_sess := a, pe_pc := Pc_Register\<rparr>"
    have "only_two M (set_conn ?b ?p h1)"
      by (rule only_two_conn) (use g cb two in \<open>auto simp: getOrCreate_def split: option.splits\<close>)
    then have "meeting M todo (set_conn ?b ?p h1) ?p pv fw got"
      using m g Pc_GetOrCreate bv kb
      by (auto simp: meeting_def getOrCreate_def session_state_def new_session_b_def buffered_def split: option.splits)
    with cb kb g Pc_GetOrCreate show ?thesis by (auto simp: conn_step_def intro: meetsI)
  next
    case Pc_Register
    then obtain a where a: "sessions h (mt_key M) = Some a" "pe_sess pb = a" "peers (heap h a) kBrowser = None"
      using ss by (auto simp: session_state_def split: option.splits)
    obtain q s where r: "register now (max_age (mt_br M)) kBrowser ?b (send pb) (heap h a) = Some (q, s)"
      "peers s = (peers (heap h a))(kBrowser \<mapsto> ?b)" "buffered M s fw = buffered M (heap h a) fw"
      by (rule register_browser [OF a(3)])
    have "meeting M todo (set_conn ?b (pb\<lparr>send := q, pe_pc := Pc_Advise\<rparr>) (set_session a s h))
        (pb\<lparr>send := q, pe_pc := Pc_Advise\<rparr>) pv fw got"
      using m r a Pc_Register bv
      by (auto simp: meeting_def session_state_def split: option.splits)
    with cb rb r a Pc_Register show ?thesis by (auto simp: conn_step_def intro: meetsI)
  next
    case Pc_Advise
    then show ?thesis using cb bp rb kb bv fr by (auto simp: conn_step_def split: option.split intro!: go)
  next
    case Pc_First
    have "''offer'' \<in> set validTypes" by (simp add: validTypes_def)
    then show ?thesis using cb m Pc_First fr by (auto simp: conn_step_def meeting_def intro!: go)
  next
    case Pc_Start
    then show ?thesis using cb bp rb kb fr by (auto simp: conn_step_def intro!: go)
  next
    case Pc_Read
    show ?thesis
    proof (cases "inbox pb")
      case Nil
      with m cb Pc_Read have "conn_step (mt_br M) now ?b h = h" by (simp add: conn_step_def meeting_def)
      with m show ?thesis by (auto intro: meetsI)
    next
      case (Cons raw rest)
      from off Pc_Read obtain x xs where "fw = x # xs" by (cases fw) auto
      with fr Pc_Read Cons have raw: "raw \<in> set (mt_ices M)" by (auto simp: mt_frames_def)
      then obtain d where "unmarshal (mt_br M) raw = Some \<lparr>ge_type = ''ice'', ge_from = ''browser'', ge_data = d\<rparr>"
        using ok by (auto simp: meeting_ok_def)
      moreover have "''ice'' \<in> set validTypes" "role_string kBrowser = ''browser''" by (simp_all add: validTypes_def role_string_def)
      ultimately have "read_frame (mt_br M) raw (pb\<lparr>inbox := rest\<rparr>) = pb\<lparr>inbox := rest, pe_pc := Pc_Forward ''ice'' raw Pc_Read\<rparr>"
        using rb by (simp add: read_frame_def rewritten_def)
      with cb Pc_Read Cons raw rb kb fr show ?thesis by (auto simp: conn_step_def intro!: go)
    qed
  next
    case (Pc_Forward ty raw k)
    have "holds k" using bp Pc_Forward by auto
    then obtain a where a: "sessions h (mt_key M) = Some a" "pe_sess pb = a" and buf: "buffered M (heap h a) fw"
      and pl: "peers (heap h a) kBrowser = Some ?b" "peers (heap h a) kClient = (if holds (pe_pc pv) then Some ?v else None)"
      using ss Pc_Forward by (auto simp: session_state_def split: option.splits)
    obtain s where f: "forward now kClient ty raw (heap h a) = (s, peers (heap h a) kClient)" "peers s = peers (heap h a)"
      "buffered M s (fw @ [raw])"
    proof (cases "k = Pc_Start")
      case True
      with off Pc_Forward bp buf have b0: "buffered M (heap h a) []" and ty: "ty = ''offer''" and fw: "fw = []" by auto
      show ?thesis by (rule forward_offer [OF b0 time, of raw]) (rule that; simp add: ty fw)
    next
      case False
      with off Pc_Forward bp ok have i: "hasICEData raw" and ty: "ty = ''ice''" and fw: "fw \<noteq> []"
        by (auto simp: meeting_ok_def)
      show ?thesis by (rule forward_ice [OF buf fw time i l31]) (rule that; simp add: ty)
    qed
    have ty: "ty \<noteq> ''bye''" using bp Pc_Forward by auto
    let ?k = "if holds (pe_pc pv) then Pc_Send ?v raw k else k"
    let ?h = "set_conn ?b (pb\<lparr>pe_pc := ?k\<rparr>) ((set_session a s h)\<lparr>forwards := forwards h @ [(?b, ty, raw)]\<rparr>)"
    have "meeting M todo ?h (pb\<lparr>pe_pc := ?k\<rparr>) pv (fw @ [raw]) got"
      using m f(2,3) a pl Pc_Forward bv \<open>holds k\<close> bp
      by (auto simp: meeting_def session_state_def split: option.splits)
    with cb rb a f pl Pc_Forward ty show ?thesis by (auto simp: conn_step_def other_def Let_def intro: meetsI)
  next
    case (Pc_Send t raw k)
    show ?thesis
    proof (cases "t = ?v")
      case True
      then have "length (send pv) < sendBuffer" using meeting_send(2) [OF m ok] Pc_Send by simp
      then have q: "try_send raw (send pv) = send pv @ [raw]" by (simp add: try_send_def)
      let ?pv = "pv\<lparr>send := send pv @ [raw]\<rparr>"
      have k: "k = Pc_Start \<or> k = Pc_Read" using bp Pc_Send True bv by auto
      have nb: "\<not> before_advice M (pe_pc pv) \<Longrightarrow> but_for_one M (written pv @ send pv @ [raw]) (got @ [raw])"
        using m but_for_one_snoc [of M "written pv @ send pv" got raw] by (simp add: meeting_def)
      have "meeting M todo (set_conn ?v ?pv (set_conn ?b (pb\<lparr>pe_pc := k\<rparr>) h)) (pb\<lparr>pe_pc := k\<rparr>) ?pv fw (got @ [raw])"
        using m Pc_Send True bv k nb
        by (auto simp: meeting_def session_state_def split: option.splits if_splits)
      with cb cv bv Pc_Send True q show ?thesis by (auto simp: conn_step_def Let_def map_conn_eq intro: meetsI)
    next
      case False
      with bp Pc_Send have t: "t = ?b" "k = Pc_First" by auto
      have "conn_step (mt_br M) now ?b h = set_conn ?b (pb\<lparr>pe_pc := k, send := try_send raw (send pb)\<rparr>) h"
        using cb Pc_Send t by (simp add: conn_step_def Let_def set_conn_def)
      with t rb kb Pc_Send bv fr show ?thesis by (auto intro!: go)
    qed
  qed (use bp in auto)
qed

text \<open>The viewer's goroutine takes a step.\<close>

lemma meets_forwards [simp]: "meets M todo (h\<lparr>forwards := l\<rparr>) = meets M todo h"
proof -
  have "meeting M todo (h\<lparr>forwards := l\<rparr>) pb pv fw got = meeting M todo h pb pv fw got" for pb pv fw got
    by (simp add: meeting_def session_state_def cong: option.case_cong)
  then show ?thesis by (simp add: meets_def)
qed

lemma set_session_same [simp]: "set_session a (heap h a) h = h"
  by (cases h) (simp add: set_session_def)

lemma meets_viewer_step:
  assumes ok: "meeting_ok M" and m: "meets M todo h" and time: "in_time M now"
  shows "meets M todo (conn_step (mt_br M) now (mt_viewer M) h)"
proof -
  let ?b = "mt_browser M" and ?v = "mt_viewer M"
  obtain pb pv fw got where m: "meeting M todo h pb pv fw got" using m by (auto simp: meets_def)
  have bv: "?b \<noteq> ?v" using ok by (simp add: meeting_ok_def)
  have cb: "conns h ?b = Some pb" and cv: "conns h ?v = Some pv" and rv: "pe_role pv = kClient" and kv: "pe_key pv = mt_key M"
    and kb: "pe_key pb = mt_key M" and ss: "session_state M h pb pv fw" and vp: "viewer_pc M (pe_pc pv)" and two: "only_two M h"
    and got: "got @ in_flight M (pe_pc pb) = (if holds (pe_pc pv) then fw else [])"
    and log: "if before_advice M (pe_pc pv) then written pv @ send pv = got else but_for_one M (written pv @ send pv) got"
    using m by (simp_all add: meeting_def)
  have one: "but_for_one M l l" for l by (simp add: but_for_one_def)
  have go: "meets M todo (set_conn ?v p' h)"
    if "pe_role p' = kClient" "pe_key p' = mt_key M" "gone p' = gone pv" "inbox p' = []" "first_type p' = first_type pv"
      "first_raw p' = first_raw pv" "pe_sess p' = pe_sess pv" "viewer_pc M (pe_pc p')"
      "if before_advice M (pe_pc p') then written p' @ send p' = got else but_for_one M (written p' @ send p') got"
      "holds (pe_pc p') = holds (pe_pc pv)" "(pe_pc p' = Pc_GetOrCreate) = (pe_pc pv = Pc_GetOrCreate)" for p'
  proof -
    have "session_state M (set_conn ?v p' h) pb p' fw"
      using ss that(7,10,11) by (simp add: session_state_def split: option.splits)
    then have "meeting M todo (set_conn ?v p' h) pb p' fw got" using that m bv by (simp add: meeting_def)
    then show ?thesis by (rule meetsI)
  qed
  show ?thesis
  proof (cases "pe_pc pv")
    case Pc_GetOrCreate
    obtain a h1 where g: "getOrCreate (mt_key M) h = (a, h1)" by (cases "getOrCreate (mt_key M) h")
    let ?p = "pv\<lparr>pe_sess := a, pe_pc := Pc_Register\<rparr>"
    have "only_two M (set_conn ?v ?p h1)"
      by (rule only_two_conn) (use g cv two in \<open>auto simp: getOrCreate_def split: option.splits\<close>)
    then have "meeting M todo (set_conn ?v ?p h1) pb ?p fw got"
      using m g Pc_GetOrCreate bv kv
      by (auto simp: meeting_def getOrCreate_def session_state_def new_session_b_def buffered_def split: option.splits)
    with cv kv g Pc_GetOrCreate show ?thesis by (auto simp: conn_step_def intro: meetsI)
  next
    case Pc_Register
    then obtain a where a: "sessions h (mt_key M) = Some a" "pe_sess pv = a" "peers (heap h a) kClient = None"
      "buffered M (heap h a) fw"
      using ss by (auto simp: session_state_def split: option.splits)
    have e: "got = []" "in_flight M (pe_pc pb) = []" "send pv = []" "written pv = []" using got log Pc_Register by simp_all
    let ?s = "(heap h a)\<lparr>peers := (peers (heap h a))(kClient \<mapsto> ?v)\<rparr>"
    have r: "register now (max_age (mt_br M)) kClient ?v [] (heap h a) = Some (fw, ?s)"
      by (rule register_replays [OF a(4) time meeting_send(1) [OF m ok] a(3)])
    have "buffered M ?s fw" using a(4) buffered_cong [of ?s "heap h a"] by simp
    then have "meeting M todo (set_conn ?v (pv\<lparr>send := fw, pe_pc := Pc_Advise\<rparr>) (set_session a ?s h))
        pb (pv\<lparr>send := fw, pe_pc := Pc_Advise\<rparr>) fw fw"
      using m e a Pc_Register bv by (auto simp: meeting_def session_state_def split: option.splits)
    with cv rv r a e Pc_Register show ?thesis by (auto simp: conn_step_def intro: meetsI)
  next
    case Pc_Advise
    then show ?thesis using cv rv kv m log one by (auto simp: conn_step_def meeting_def split: option.split intro!: go)
  next
    case Pc_First
    have "''ice'' \<in> set validTypes" by (simp add: validTypes_def)
    then show ?thesis using cv m Pc_First by (auto simp: conn_step_def meeting_def intro!: go)
  next
    case Pc_Start
    then show ?thesis using cv m by (auto simp: conn_step_def meeting_def intro!: go)
  next
    case Pc_Read
    then have "conn_step (mt_br M) now ?v h = h" using cv m by (simp add: conn_step_def meeting_def)
    with m show ?thesis by (auto intro: meetsI)
  next
    case (Pc_Forward ty raw k)
    then have t: "ty = ''ice''" "raw = mt_hello M" "k = Pc_Start" using vp by auto
    have hello: "\<not> hasICEData (mt_hello M)" using ok by (simp add: meeting_ok_def)
    from Pc_Forward t obtain a where a: "sessions h (mt_key M) = Some a" "pe_sess pv = a"
      and pl: "peers (heap h a) kBrowser = (if holds (pe_pc pb) then Some ?b else None)"
      using ss by (auto simp: session_state_def split: option.splits)
    let ?k = "if holds (pe_pc pb) then Pc_Send ?b raw k else k"
    let ?h = "set_conn ?v (pv\<lparr>pe_pc := ?k\<rparr>) (h\<lparr>forwards := forwards h @ [(?v, ty, raw)]\<rparr>)"
    have "meets M todo (set_conn ?v (pv\<lparr>pe_pc := ?k\<rparr>) h)"
      using m bv log Pc_Forward t by (auto simp: meeting_def intro!: go)
    then have "meets M todo ?h" by (simp add: set_conn_forwards)
    then show ?thesis
      using cv rv a pl Pc_Forward t hello by (auto simp: conn_step_def other_def Let_def forward_hello split: if_splits)
  next
    case (Pc_Send t raw k)
    show ?thesis
    proof (cases "t = ?v")
      case True
      with vp bv Pc_Send have k: "k = Pc_First" and adv: "advice (mt_br M) kClient = Some raw" by auto
      then have "try_send raw (send pv) = send pv @ [raw]" using meeting_send(3) [OF m ok] Pc_Send by (simp add: try_send_def)
      then have "conn_step (mt_br M) now ?v h = set_conn ?v (pv\<lparr>pe_pc := k, send := send pv @ [raw]\<rparr>) h"
        using cv Pc_Send True by (simp add: conn_step_def Let_def set_conn_def)
      moreover have "but_for_one M (written pv @ send pv @ [raw]) got"
        using but_for_one_notice [OF adv, of got] log Pc_Send k by (auto simp flip: append.assoc)
      ultimately show ?thesis using rv kv m Pc_Send k by (auto simp: meeting_def intro!: go)
    next
      case False
      with vp Pc_Send have t: "t = ?b" "k = Pc_Start" by auto
      let ?b' = "pb\<lparr>send := try_send raw (send pb)\<rparr>"
      have "meeting M todo (set_conn ?b ?b' (set_conn ?v (pv\<lparr>pe_pc := k\<rparr>) h)) ?b' (pv\<lparr>pe_pc := k\<rparr>) fw got"
        using m bv Pc_Send t by (auto simp: meeting_def session_state_def split: option.splits)
      with cb cv bv Pc_Send t show ?thesis by (auto simp: conn_step_def Let_def map_conn_eq intro: meetsI)
    qed
  qed (use vp in auto)
qed

text \<open>The other events.\<close>

fun allowed :: "Meeting \<Rightarrow> int \<times> br_event \<Rightarrow> bool" where
  "allowed M (now, Br_Open c path tok raw) \<longleftrightarrow>
     session_of_path path \<noteq> Some (snd (mt_key M))
     \<or> (case unmarshal (mt_br M) raw of
          None \<Rightarrow> True
        | Some env \<Rightarrow> authorised (mt_br M) now tok (snd (mt_key M)) (ge_from env) \<noteq> Inr (fst (mt_key M)))"
| "allowed M (now, Br_Frame c raw) \<longleftrightarrow> c \<noteq> mt_viewer M"
| "allowed M (now, Br_Gone c) \<longleftrightarrow> c \<noteq> mt_browser M \<and> c \<noteq> mt_viewer M"
| "allowed M (now, Br_Step c) \<longleftrightarrow> c = mt_browser M \<or> c = mt_viewer M \<longrightarrow> in_time M now"
| "allowed M (now, Br_Write c) \<longleftrightarrow> True"
| "allowed M (now, Br_Shutdown) \<longleftrightarrow> True"

fun said :: "nat \<Rightarrow> (int \<times> br_event) list \<Rightarrow> string list" where
  "said c [] = []"
| "said c ((now, Br_Frame d raw) # es) = (if d = c then [raw] else []) @ said c es"
| "said c (e # es) = said c es"

lemma same_session_touch_other:
  assumes "\<And>p. conns h c = Some p \<Longrightarrow> pe_key p \<noteq> K \<and> pe_key (f p) = pe_key p"
  shows "same_session K h (h\<lparr>conns := (conns h)(c := map_option f (conns h c))\<rparr>)"
  by (rule same_session_touch [OF same_session_refl]) (use assms in blast)

lemma accept_other:
  assumes "allowed M (now, Br_Open c path tok raw)" "conns h c = None"
  shows "same_session (mt_key M) h (accept (mt_br M) now c path tok raw h)"
proof -
  have keep: "same_session K h (set_conn c p h)" if "pe_key p \<noteq> K" for p K
    using that assms(2) by (auto simp: same_session_def)
  from assms(1) show ?thesis
    by (cases "mt_key M")
      (auto simp: accept_def same_session_refl split: option.splits sum.splits intro!: keep)
qed

lemma foreign_key: "meets M todo h \<Longrightarrow> conns h c = Some p \<Longrightarrow> c \<noteq> mt_browser M \<Longrightarrow> c \<noteq> mt_viewer M \<Longrightarrow> pe_key p \<noteq> mt_key M"
  by (auto simp: meets_def meeting_def only_two_def)

lemma session_state_conn:
  "pe_pc pb' = pe_pc pb \<Longrightarrow> pe_sess pb' = pe_sess pb \<Longrightarrow> pe_pc pv' = pe_pc pv \<Longrightarrow> pe_sess pv' = pe_sess pv \<Longrightarrow>
   session_state M (set_conn c p h) pb' pv' fw = session_state M h pb pv fw"
  by (cases "sessions h (mt_key M)") (simp_all add: session_state_def)

lemma meets_frame:
  assumes ok: "meeting_ok M" and m: "meets M (raw # todo) h"
  shows "meets M todo (br_step (mt_br M) (now, Br_Frame (mt_browser M) raw) h)"
proof -
  let ?b = "mt_browser M"
  obtain pb pv fw got where m: "meeting M (raw # todo) h pb pv fw got" using m by (auto simp: meets_def)
  then have cb: "conns h ?b = Some pb" and "\<not> gone pb" and "?b \<noteq> mt_viewer M"
    using ok by (simp_all add: meeting_def meeting_ok_def)
  moreover from this have "meeting M todo (set_conn ?b (pb\<lparr>inbox := inbox pb @ [raw]\<rparr>) h) (pb\<lparr>inbox := inbox pb @ [raw]\<rparr>) pv fw got"
    using m by (simp add: meeting_def session_state_conn [of _ pb _ pv])
  ultimately show ?thesis by (auto simp: set_conn_def intro: meetsI)
qed

lemma meets_write:
  assumes ok: "meeting_ok M" and m: "meets M todo h" and c: "c = mt_browser M \<or> c = mt_viewer M"
  shows "meets M todo (write_step c h)"
proof -
  obtain pb pv fw got where m: "meeting M todo h pb pv fw got" using m by (auto simp: meets_def)
  have bv: "mt_browser M \<noteq> mt_viewer M" using ok by (simp add: meeting_ok_def)
  have cb: "conns h (mt_browser M) = Some pb" and cv: "conns h (mt_viewer M) = Some pv" using m by (simp_all add: meeting_def)
  show ?thesis
  proof (cases "c = mt_browser M")
    case True
    have "meeting M todo (set_conn c (pb\<lparr>send := q, written := w\<rparr>) h) (pb\<lparr>send := q, written := w\<rparr>) pv fw got" for q w
      using m bv True by (simp add: meeting_def session_state_conn [of _ pb _ pv])
    with m cb True show ?thesis by (auto simp: write_step_def split: list.split intro: meetsI)
  next
    case False
    with c have v: "c = mt_viewer M" by simp
    have "meeting M todo (set_conn c (pv\<lparr>send := q, written := w\<rparr>) h) pb (pv\<lparr>send := q, written := w\<rparr>) fw got"
      if "w @ q = written pv @ send pv" for q w
      using m bv v that by (simp add: meeting_def session_state_conn [of _ pb _ pv])
    from meetsI [OF this] m cv v show ?thesis by (auto simp: write_step_def split: list.split intro: meetsI)
  qed
qed

lemma meets_step:
  assumes ok: "meeting_ok M" and inv: "br_invar h" and m: "meets M (said (mt_browser M) [e] @ todo) h" and e: "allowed M e"
  shows "meets M todo (br_step (mt_br M) e h)"
proof -
  obtain now ev where e': "e = (now, ev)" by (cases e)
  note other = meets_other [OF inv] and fk = foreign_key [OF m]
  show ?thesis
  proof (cases ev)
    case (Br_Open c path tok raw)
    then show ?thesis using m e e' accept_other other by auto
  next
    case (Br_Frame c raw)
    show ?thesis
    proof (cases "c = mt_browser M")
      case True
      with m e' Br_Frame show ?thesis using meets_frame [OF ok] by simp
    next
      case False
      with m e e' Br_Frame show ?thesis
        by (auto intro!: other same_session_touch_other dest: fk)
    qed
  next
    case (Br_Gone c)
    then show ?thesis using m e e' by (auto intro!: other same_session_touch_other dest: fk)
  next
    case (Br_Step c)
    show ?thesis
    proof (cases "c = mt_browser M \<or> c = mt_viewer M")
      case True
      with m e e' Br_Step show ?thesis using meets_browser_step [OF ok] meets_viewer_step [OF ok] by auto
    next
      case False
      with m e' Br_Step show ?thesis by (auto intro!: other conn_step_other inv dest: fk)
    qed
  next
    case (Br_Write c)
    show ?thesis
    proof (cases "c = mt_browser M \<or> c = mt_viewer M")
      case True
      with m e' Br_Write show ?thesis using meets_write [OF ok] by auto
    next
      case False
      have "same_session (mt_key M) h (write_step c h)"
        using fk False same_session_conn [of h c] same_session_refl
        by (auto simp: write_step_def split: option.split list.split)
      with m e' Br_Write show ?thesis by (auto intro: other)
    qed
  next
    case Br_Shutdown
    with m e' show ?thesis by (auto intro!: other simp: same_session_def)
  qed
qed

lemma said_append [simp]: "said c (es @ fs) = said c es @ said c fs"
  by (induction c es rule: said.induct) simp_all

lemma meets_run:
  assumes "meeting_ok M" "br_invar h" "meets M (said (mt_browser M) es @ todo) h" "\<forall>e \<in> set es. allowed M e"
  shows "meets M todo (fold (br_step (mt_br M)) es h)"
  using assms(2-)
proof (induction es arbitrary: h)
  case (Cons e es)
  have "meets M (said (mt_browser M) es @ todo) (br_step (mt_br M) e h)"
    by (rule meets_step [OF assms(1) Cons.prems(1)])
      (use Cons.prems(2,3) said_append [of "mt_browser M" "[e]" es] in simp_all)
  with Cons show ?case by (simp add: br_invar_step)
qed simp

text \<open>How many steps a goroutine is from waiting for frames.\<close>

fun pc_work :: "pc \<Rightarrow> nat" where
  "pc_work Pc_GetOrCreate = 8"
| "pc_work Pc_Register = 7"
| "pc_work Pc_Advise = 6"
| "pc_work Pc_First = 4"
| "pc_work Pc_Start = 1"
| "pc_work (Pc_Forward ty raw k) = (if k = Pc_Start then 3 else 2)"
| "pc_work (Pc_Send t raw k) = (if k = Pc_First then 5 else if k = Pc_Start then 2 else 1)"
| "pc_work _ = 0"

definition work :: "Peer \<Rightarrow> nat" where
  "work p = pc_work (pe_pc p) + 3 * length (inbox p)"

definition steady :: "pc \<Rightarrow> bool" where
  "steady k \<longleftrightarrow> (\<exists>M. browser_pc M k \<or> viewer_pc M k)"

lemma steadyI: "browser_pc M k \<Longrightarrow> steady k" "viewer_pc M k \<Longrightarrow> steady k"
  by (auto simp: steady_def)

lemma steady_simps:
  "\<not> steady Pc_Drop" "\<not> steady (Pc_Bye roles)" "\<not> steady Pc_Unregister" "\<not> steady Pc_Leave" "\<not> steady (Pc_Announce neg ended)"
  "\<not> steady Pc_Done" "steady (Pc_Forward ty raw k) \<Longrightarrow> k = Pc_Start \<or> k = Pc_Read"
  "steady (Pc_Send t raw k) \<Longrightarrow> k = Pc_First \<or> k = Pc_Start \<or> k = Pc_Read"
  by (auto simp: steady_def)

lemma read_frame_work:
  assumes "pe_pc p = Pc_Read" "steady (pe_pc (read_frame br raw p))"
  shows "work (read_frame br raw p) \<le> work p + 2"
  using assms by (auto simp: read_frame_def work_def Let_def steady_simps split: option.splits if_splits)

lemma work_step:
  assumes c: "conns h c = Some p" and live: "\<not> gone p" and pc: "steady (pe_pc p)"
    and c': "conns (conn_step br now c h) c = Some p'" and pc': "steady (pe_pc p')"
  shows "work p' \<le> work p - 1"
proof (cases "pe_pc p")
  case Pc_GetOrCreate
  with c c' show ?thesis by (cases "getOrCreate (pe_key p) h") (auto simp: conn_step_def work_def)
next
  case Pc_Register
  with c c' pc' show ?thesis by (auto simp: conn_step_def work_def steady_simps split: option.splits)
next
  case Pc_Advise
  with c c' show ?thesis by (auto simp: conn_step_def work_def split: option.splits if_splits)
next
  case Pc_First
  with c c' show ?thesis by (auto simp: conn_step_def work_def split: if_splits)
next
  case Pc_Start
  with c c' show ?thesis by (auto simp: conn_step_def work_def)
next
  case Pc_Read
  show ?thesis
  proof (cases "inbox p")
    case Nil
    with Pc_Read c c' live show ?thesis by (auto simp: conn_step_def work_def)
  next
    case (Cons raw rest)
    with Pc_Read c c' have p': "p' = read_frame br raw (p\<lparr>inbox := rest\<rparr>)" by (simp add: conn_step_def)
    have "work p' \<le> work (p\<lparr>inbox := rest\<rparr>) + 2"
      unfolding p' by (rule read_frame_work) (use Pc_Read pc' p' in simp_all)
    with Cons Pc_Read show ?thesis by (simp add: work_def)
  qed
next
  case (Pc_Forward ty raw k)
  obtain s1 t where f: "forward now (other (pe_role p)) ty raw (heap h (pe_sess p)) = (s1, t)"
    by (cases "forward now (other (pe_role p)) ty raw (heap h (pe_sess p))")
  have "pe_pc p' = (case t of None \<Rightarrow> k | Some u \<Rightarrow> Pc_Send u raw k)" "inbox p' = inbox p"
    using c c' Pc_Forward f by (auto simp: conn_step_def Let_def split: option.splits if_splits)
  moreover have "k = Pc_Start \<or> k = Pc_Read" using pc Pc_Forward steady_simps by simp
  ultimately show ?thesis using Pc_Forward by (auto simp: work_def split: option.split)
next
  case (Pc_Send t raw k)
  have "pe_pc p' = k" "inbox p' = inbox p"
    using c c' Pc_Send by (auto simp: conn_step_def Let_def split: if_splits)
  moreover have "k = Pc_First \<or> k = Pc_Start \<or> k = Pc_Read" using pc Pc_Send steady_simps by simp
  ultimately show ?thesis using Pc_Send by (auto simp: work_def)
qed (use pc in \<open>simp_all add: steady_simps\<close>)

text \<open>Another goroutine's step leaves a goroutine where it is.\<close>

lemma work_other:
  assumes "d \<noteq> c" "conns h d = Some q"
  shows "\<exists>q'. conns (conn_step br now c h) d = Some q' \<and> work q' = work q"
proof (cases "conns h c")
  case (Some p)
  then show ?thesis
    using assms
    by (cases "pe_pc p") (auto simp: conn_step_def Let_def work_def getOrCreate_def dropIfEmpty_def
        split: option.split prod.split list.split)
qed (use assms in \<open>simp add: conn_step_def\<close>)

lemma meets_work:
  assumes ok: "meeting_ok M" and inv: "br_invar h" and m: "meets M todo h" and t: "in_time M now"
    and c: "c = mt_browser M \<or> c = mt_viewer M" "d = mt_browser M \<or> d = mt_viewer M" "d \<noteq> c"
    and p: "conns h c = Some p" "work p \<le> n" and q: "conns h d = Some q" "work q \<le> k"
  shows "\<exists>p' q'. conns (fold (br_step (mt_br M)) (replicate n (now, Br_Step c)) h) c = Some p' \<and> work p' = 0
     \<and> conns (fold (br_step (mt_br M)) (replicate n (now, Br_Step c)) h) d = Some q' \<and> work q' \<le> k"
  using inv m p q
proof (induction n arbitrary: h p q)
  case (Suc n)
  let ?h = "br_step (mt_br M) (now, Br_Step c) h"
  have inv: "br_invar ?h" by (rule br_invar_step [OF Suc.prems(1)])
  have al: "allowed M (now, Br_Step c)" using t by simp
  have m: "meets M todo ?h" by (rule meets_step [OF ok Suc.prems(1) _ al]) (use Suc.prems(2) in simp)
  have facts: "\<exists>r. conns g c = Some r \<and> \<not> gone r \<and> steady (pe_pc r)" if "meets M todo g" for g
    using that c(1) by (auto simp: meets_def meeting_def intro: steadyI)
  obtain p' where p': "conns ?h c = Some p'" "steady (pe_pc p')" using facts [OF m] by blast
  have pg: "\<not> gone p" "steady (pe_pc p)" using facts [OF Suc.prems(2)] Suc.prems(3) by auto
  have w: "work p' \<le> n" using work_step [OF Suc.prems(3) pg p'(1) [unfolded br_step.simps] p'(2)] Suc.prems(4) by simp
  obtain q' where q': "conns ?h d = Some q'" "work q' = work q"
    using work_other [OF c(3) Suc.prems(5), of "mt_br M" now] by auto
  show ?case using Suc.IH [OF inv m p'(1) w q'(1)] q'(2) Suc.prems(6) by simp
qed auto

section \<open>A late viewer gets everything\<close>

definition unknown :: "string \<times> string \<Rightarrow> Hub \<Rightarrow> bool" where
  "unknown K h \<longleftrightarrow> sessions h K = None \<and> (\<forall>c p. conns h c = Some p \<longrightarrow> pe_key p \<noteq> K)"

text \<open>A connection's first frame is admitted to the session.\<close>

definition joins :: "Broker \<Rightarrow> int \<Rightarrow> string \<Rightarrow> string \<Rightarrow> string \<Rightarrow> string \<Rightarrow> PeerRole \<Rightarrow> string \<times> string \<Rightarrow> bool" where
  "joins br now path tok raw ty r K \<longleftrightarrow> session_of_path path = Some (snd K)
     \<and> map_option (\<lambda>env. (ge_type env, ge_from env)) (unmarshal br raw) = Some (ty, role_string r)
     \<and> authorised br now tok (snd K) (role_string r) = Inr (fst K)"

lemma accept_joins:
  assumes "joins br now path tok raw ty r K"
  shows "accept br now c path tok raw h =
    set_conn c \<lparr>pe_role = r, pe_key = K, first_type = ty, first_raw = raw, pe_sess = 0, pe_pc = Pc_GetOrCreate, inbox = [],
      gone = False, send = [], written = [], negotiated = False, saidBye = False, byeReceived = False\<rparr> h"
proof -
  have "role_valid (role_string r) = Some r" by (cases r) (simp_all add: role_valid_def role_string_def)
  with assms show ?thesis by (auto simp: joins_def accept_def)
qed

lemma meets_opened:
  assumes ok: "meeting_ok M" and new: "unknown (mt_key M) h" "conns h (mt_browser M) = None" "conns h (mt_viewer M) = None"
    and b: "joins (mt_br M) tb pathb tokb (mt_offer M) ''offer'' kBrowser (mt_key M)"
    and v: "joins (mt_br M) tv pathv tokv (mt_hello M) ''ice'' kClient (mt_key M)"
  shows "meets M (mt_ices M) (fold (br_step (mt_br M))
    [(tb, Br_Open (mt_browser M) pathb tokb (mt_offer M)), (tv, Br_Open (mt_viewer M) pathv tokv (mt_hello M))] h)"
proof -
  have bv: "mt_browser M \<noteq> mt_viewer M" using ok by (simp add: meeting_ok_def)
  have "only_two M (set_conn (mt_viewer M) q (set_conn (mt_browser M) p h))" for p q
    using new(1) by (auto simp: only_two_def unknown_def)
  then show ?thesis
    using new bv accept_joins [OF b] accept_joins [OF v]
    by (simp add: meets_def meeting_def session_state_def unknown_def mt_frames_def)
qed

lemma work_bound:
  assumes ok: "meeting_ok M" and m: "meets M todo h"
  obtains pb pv where "conns h (mt_browser M) = Some pb" "work pb \<le> 101" "conns h (mt_viewer M) = Some pv" "work pv \<le> 101"
proof -
  obtain pb pv fw got where m: "meeting M todo h pb pv fw got" using m by (auto simp: meets_def)
  have pc: "pc_work k \<le> 8" for k by (cases k) simp_all
  have "length (inbox pb) \<le> 31" "inbox pv = []" using length_frames [OF ok] m by (simp_all add: meeting_def)
  then have "work pb \<le> 101" "work pv \<le> 101" using pc [of "pe_pc pb"] pc [of "pe_pc pv"] by (simp_all add: work_def)
  with m show ?thesis by (intro that [of pb pv]) (simp_all add: meeting_def)
qed

text \<open>When both goroutines wait for frames and no frame is left, the viewer has them all.\<close>

lemma meets_idle:
  assumes m: "meets M [] h" and b: "conns h (mt_browser M) = Some pb" "work pb = 0"
    and v: "conns h (mt_viewer M) = Some pv" "work pv = 0"
  shows "pe_pc pv = Pc_Read" "but_for_one M (written pv @ send pv) (mt_frames M)"
proof -
  obtain fw got where m: "meeting M [] h pb pv fw got" using m b v by (auto simp: meets_def meeting_def)
  have rd: "k = Pc_Read" if "steady k" "pc_work k = 0" for k
    using that by (cases k) (auto simp: steady_simps split: if_splits)
  have "pe_pc pb = Pc_Read" "inbox pb = []" "pe_pc pv = Pc_Read"
    using b v m rd by (auto simp: work_def meeting_def intro!: rd intro: steadyI)
  then show "pe_pc pv = Pc_Read" "but_for_one M (written pv @ send pv) (mt_frames M)"
    using m by (auto simp: meeting_def)
qed

text \<open>The write pump empties the channel.\<close>

lemma writes_drain:
  assumes "conns h c = Some p" "pe_pc p = Pc_Read" "length (send p) \<le> n"
  shows "\<exists>p'. conns (fold (br_step br) (replicate n (now, Br_Write c)) h) c = Some p' \<and> written p' = written p @ send p"
  using assms
proof (induction n arbitrary: h p)
  case (Suc n)
  show ?case
  proof (cases "send p")
    case Nil
    then have "br_step br (now, Br_Write c) h = h" using Suc.prems by (simp add: write_step_def)
    with Suc.IH [OF Suc.prems(1,2)] Nil show ?thesis by simp
  next
    case (Cons raw rest)
    let ?p = "p\<lparr>send := rest, written := written p @ [raw]\<rparr>"
    have "br_step br (now, Br_Write c) h = set_conn c ?p h" using Suc.prems Cons by (simp add: write_step_def)
    with Suc.IH [of "set_conn c ?p h" ?p] Suc.prems Cons show ?thesis by simp
  qed
qed auto



definition demo_offer :: string where
  "demo_offer = ''{\"type\":\"offer\",\"from\":\"browser\",\"data\":1}''"

definition demo_ice :: string where
  "demo_ice = ''{\"type\":\"ice\",\"from\":\"browser\",\"data\":2}''"

definition demo_hello :: string where
  "demo_hello = ''{\"type\":\"ice\",\"from\":\"client\",\"data\":null}''"

definition demo_answer :: string where
  "demo_answer = ''{\"type\":\"answer\",\"from\":\"client\",\"data\":3}''"

definition demo_bye :: string where
  "demo_bye = ''{\"type\":\"bye\",\"from\":\"client\",\"data\":null}''"

text \<open>A broker with one tenant that knows five frames, and notices of its own.\<close>

definition demo_frames :: "(string \<times> GoEnvelope) list" where
  "demo_frames =
     [(demo_offer, \<lparr>ge_type = ''offer'', ge_from = ''browser'', ge_data = Some ''1''\<rparr>),
      (demo_ice, \<lparr>ge_type = ''ice'', ge_from = ''browser'', ge_data = Some ''2''\<rparr>),
      (demo_hello, \<lparr>ge_type = ''ice'', ge_from = ''client'', ge_data = None\<rparr>),
      (demo_answer, \<lparr>ge_type = ''answer'', ge_from = ''client'', ge_data = Some ''3''\<rparr>),
      (demo_bye, \<lparr>ge_type = ''bye'', ge_from = ''client'', ge_data = None\<rparr>)]"

definition demo_broker :: Broker where
  "demo_broker = \<lparr>unmarshal = map_of demo_frames, marshal = (\<lambda>env. Some (ge_type env @ ge_from env)),
     authorised = (\<lambda>now tok sid role. Inr ''t''), max_age = 300 * second\<rparr>"

lemmas demo_frame_defs = demo_offer_def demo_ice_def demo_hello_def demo_answer_def demo_bye_def

lemma demo_unmarshal [simp]:
  "unmarshal demo_broker demo_offer = Some \<lparr>ge_type = ''offer'', ge_from = ''browser'', ge_data = Some ''1''\<rparr>"
  "unmarshal demo_broker demo_ice = Some \<lparr>ge_type = ''ice'', ge_from = ''browser'', ge_data = Some ''2''\<rparr>"
  "unmarshal demo_broker demo_hello = Some \<lparr>ge_type = ''ice'', ge_from = ''client'', ge_data = None\<rparr>"
  "unmarshal demo_broker demo_answer = Some \<lparr>ge_type = ''answer'', ge_from = ''client'', ge_data = Some ''3''\<rparr>"
  "unmarshal demo_broker demo_bye = Some \<lparr>ge_type = ''bye'', ge_from = ''client'', ge_data = None\<rparr>"
  by (simp_all add: demo_broker_def demo_frames_def demo_frame_defs)

lemma demo_ice_data [simp]: "hasICEData demo_ice" "\<not> hasICEData demo_hello"
  by (simp_all add: demo_ice_def demo_hello_def is_blank_def)

lemma demo_fields [simp]:
  "authorised demo_broker now tok sid role = Inr ''t''" "max_age demo_broker = 300 * second"
  "marshal demo_broker env = Some (ge_type env @ ge_from env)"
  by (simp_all add: demo_broker_def)

definition demo :: Meeting where
  "demo = \<lparr>mt_br = demo_broker, mt_browser = 1, mt_viewer = 2, mt_key = (''t'', ''s''), mt_offer = demo_offer,
     mt_ices = [demo_ice], mt_hello = demo_hello, mt_start = 0\<rparr>"

lemma demo_joins:
  "joins demo_broker now ''/ws/s'' tok demo_offer ''offer'' kBrowser (''t'', ''s'')"
  "joins demo_broker now ''/ws/s'' tok demo_hello ''ice'' kClient (''t'', ''s'')"
  by (simp_all add: joins_def session_of_path_def role_string_def)


end
