(* ===== verification/Cb_Broker_Isolation.thy ===== *)
theory Cb_Broker_Isolation
  imports Cb_Broker_Replay
begin

text \<open>
  Where the messages of the broker come from: over every run, what a connection is sent was
  forwarded by a peer of its own tenant and session; each place of a session has one holder.
  The last section holds runs in which connections that leave and join at the same time are
  served worse than the code means to.
\<close>

section \<open>Where a message comes from\<close>

text \<open>A connection of the session \<open>K\<close> with the role \<open>r\<close> had the text forwarded.\<close>

definition from_session :: "Hub \<Rightarrow> string \<times> string \<Rightarrow> PeerRole \<Rightarrow> string \<Rightarrow> bool" where
  "from_session h K r raw \<longleftrightarrow>
     (\<exists>d ty q. (d, ty, raw) \<in> set (forwards h) \<and> conns h d = Some q \<and> pe_key q = K \<and> pe_role q = r)"

definition got_ok :: "Broker \<Rightarrow> Hub \<Rightarrow> Peer \<Rightarrow> string \<Rightarrow> bool" where
  "got_ok br h p raw \<longleftrightarrow> from_session h (pe_key p) (other (pe_role p)) raw \<or> advice br (pe_role p) = Some raw"

definition buffered_raws :: "BSession \<Rightarrow> PeerRole \<Rightarrow> string set" where
  "buffered_raws s r = {raw. \<exists>ty ts. recent s r ty = Some (raw, ts)} \<union> fst ` set (recentICE s r)"

fun plain :: "pc \<Rightarrow> bool" where
  "plain (Pc_Send t raw k) \<longleftrightarrow> False"
| "plain (Pc_Forward ty raw k) \<longleftrightarrow> False"
| "plain _ \<longleftrightarrow> True"

fun simple :: "pc \<Rightarrow> bool" where
  "simple (Pc_Send t raw k) \<longleftrightarrow> plain k"
| "simple (Pc_Forward ty raw k) \<longleftrightarrow> plain k"
| "simple _ \<longleftrightarrow> True"

definition peer_prov :: "Broker \<Rightarrow> Hub \<Rightarrow> Peer \<Rightarrow> bool" where
  "peer_prov br h p \<longleftrightarrow> (\<forall>raw \<in> set (written p) \<union> set (send p). got_ok br h p raw) \<and> simple (pe_pc p)
     \<and> (\<forall>t raw k q. pe_pc p = Pc_Send t raw k \<longrightarrow> conns h t = Some q \<longrightarrow> got_ok br h q raw)"

definition prov :: "Broker \<Rightarrow> Hub \<Rightarrow> bool" where
  "prov br h \<longleftrightarrow> (\<forall>a r. \<forall>raw \<in> buffered_raws (heap h a) r. from_session h (b_key (heap h a)) r raw)
     \<and> (\<forall>c p. conns h c = Some p \<longrightarrow> peer_prov br h p)"

lemma provD:
  assumes "prov br h"
  shows "raw \<in> buffered_raws (heap h a) r \<Longrightarrow> from_session h (b_key (heap h a)) r raw"
    "conns h c = Some p \<Longrightarrow> peer_prov br h p"
  using assms by (auto simp: prov_def)

lemma plain_simple: "plain k \<Longrightarrow> simple k"
  by (cases k) simp_all

text \<open>Changes of one connection.\<close>

lemma from_session_conn:
  assumes p: "conns h c = Some p" "pe_key p' = pe_key p" "pe_role p' = pe_role p" and f: "from_session h K r raw"
  shows "from_session (set_conn c p' h) K r raw"
proof -
  from f obtain d ty q where d: "(d, ty, raw) \<in> set (forwards h)" "conns h d = Some q" "pe_key q = K" "pe_role q = r"
    by (auto simp: from_session_def)
  then have "\<exists>q'. conns (set_conn c p' h) d = Some q' \<and> pe_key q' = K \<and> pe_role q' = r" using p by (cases "d = c") auto
  with d(1) show ?thesis by (auto simp: from_session_def)
qed

lemma got_ok_conn:
  "conns h c = Some p \<Longrightarrow> pe_key p' = pe_key p \<Longrightarrow> pe_role p' = pe_role p \<Longrightarrow> got_ok br h q raw \<Longrightarrow>
   got_ok br (set_conn c p' h) q raw"
  unfolding got_ok_def using from_session_conn by blast

lemma prov_conn:
  assumes inv: "prov br h" and p: "conns h c = Some p" and same: "pe_key p' = pe_key p" "pe_role p' = pe_role p"
    and log: "\<And>raw. raw \<in> set (written p') \<union> set (send p') \<Longrightarrow> got_ok br h p raw" and pc: "simple (pe_pc p')"
    and tgt: "\<And>t raw k q. pe_pc p' = Pc_Send t raw k \<Longrightarrow> conns h t = Some q \<Longrightarrow> got_ok br h q raw"
  shows "prov br (set_conn c p' h)"
proof -
  let ?h = "set_conn c p' h"
  note fs = from_session_conn [OF p same] and got = got_ok_conn [OF p same]
  have got': "got_ok br ?h p' raw" if "got_ok br h p raw" for raw using got [OF that] same by (simp add: got_ok_def)
  have look: "got_ok br ?h q raw" if q: "conns ?h t = Some q" and all: "\<And>x. conns h t = Some x \<Longrightarrow> got_ok br h x raw" for t q raw
    using q all p got got' by (cases "t = c") auto
  have "peer_prov br ?h p'" using log got' pc tgt look by (auto simp: peer_prov_def)
  moreover have "peer_prov br ?h q" if "conns h d = Some q" for d q
    using provD(2) [OF inv that] got look by (auto simp: peer_prov_def)
  ultimately have "peer_prov br ?h q" if "conns ?h d = Some q" for d q using that by (cases "d = c") auto
  moreover have "from_session ?h (b_key (heap ?h a)) r raw" if "raw \<in> buffered_raws (heap ?h a) r" for a r raw
    using fs [OF provD(1) [OF inv]] that by simp
  ultimately show ?thesis unfolding prov_def by blast
qed

lemma prov_session:
  assumes inv: "prov br h" and k: "b_key s = b_key (heap h a)"
    and buf: "\<And>r raw. raw \<in> buffered_raws s r \<Longrightarrow> from_session h (b_key s) r raw"
  shows "prov br (set_session a s h)"
proof -
  have "from_session (set_session a s h) K r raw = from_session h K r raw" for K r raw by (simp add: from_session_def)
  then show ?thesis using inv k buf by (auto simp: prov_def peer_prov_def got_ok_def)
qed

lemma prov_mono:
  assumes inv: "prov br h" and l: "set (forwards h) \<subseteq> set l"
  shows "prov br (h\<lparr>forwards := l\<rparr>)"
proof -
  have fs: "from_session (h\<lparr>forwards := l\<rparr>) K r raw" if "from_session h K r raw" for K r raw
    using that l by (auto simp: from_session_def)
  moreover from this have "got_ok br (h\<lparr>forwards := l\<rparr>) q raw" if "got_ok br h q raw" for q raw
    using that unfolding got_ok_def by blast
  ultimately show ?thesis using inv unfolding prov_def peer_prov_def by simp
qed

lemma prov_hub:
  assumes "prov br h" "heap h' = heap h" "conns h' = conns h" "forwards h' = forwards h"
  shows "prov br h'"
  using assms by (simp add: prov_def peer_prov_def got_ok_def from_session_def)

lemma prov_touch:
  assumes inv: "prov br h" and f: "\<And>q. conns h t = Some q \<Longrightarrow> pe_key (f q) = pe_key q \<and> pe_role (f q) = pe_role q
      \<and> pe_pc (f q) = pe_pc q \<and> (\<forall>raw \<in> set (written (f q)) \<union> set (send (f q)). got_ok br h q raw)"
  shows "prov br (h\<lparr>conns := (conns h)(t := map_option f (conns h t))\<rparr>)"
proof (cases "conns h t")
  case None
  with inv map_conn_eq [of h t f] show ?thesis by simp
next
  case (Some q)
  have "prov br (set_conn t (f q) h)"
    by (rule prov_conn [OF inv Some]) (use f [OF Some] provD(2) [OF inv Some] in \<open>auto simp: peer_prov_def\<close>)
  with Some show ?thesis by (simp add: set_conn_def)
qed

text \<open>The buffers.\<close>

lemma buffered_discard: "buffered_raws (discardReplay roles s) r \<subseteq> buffered_raws s r"
  by (auto simp: buffered_raws_def discardReplay_def split: if_splits)

lemma buffered_unregister: "buffered_raws (unregister r' c s) r = buffered_raws s r"
  by (simp add: buffered_raws_def unregister_def)

lemma set_push_ice: "set (push_ice e q) \<subseteq> insert e (set q)"
  by (cases q) (auto simp: push_ice_def)

lemma other_other [simp]: "other (other r) = r"
  by (cases r) (simp_all add: other_def)

lemma buffered_forward:
  "buffered_raws (fst (forward now (other r) ty raw s)) r' \<subseteq> buffered_raws s r' \<union> (if r' = r then {raw} else {})"
  using set_push_ice [of "(raw, now)" "recentICE s r"]
  by (auto simp: buffered_raws_def forward_def Let_def split: if_splits)

lemma replay_sdp_raws:
  "fold (replay_sdp now age) tys (buf, q) = (buf', q') \<Longrightarrow>
   set q' \<subseteq> set q \<union> {raw. \<exists>ty ts. buf ty = Some (raw, ts)} \<and> (\<forall>ty x. buf' ty = Some x \<longrightarrow> buf ty = Some x)"
proof (induction tys arbitrary: buf q)
  case (Cons ty tys)
  obtain b1 q1 where r: "replay_sdp now age ty (buf, q) = (b1, q1)" by (cases "replay_sdp now age ty (buf, q)")
  then have 1: "set q1 \<subseteq> set q \<union> {raw. \<exists>ty ts. buf ty = Some (raw, ts)} \<and> (\<forall>ty x. b1 ty = Some x \<longrightarrow> buf ty = Some x)"
    by (auto simp: replay_sdp_def try_send_def split: option.splits if_splits) blast
  have "set q' \<subseteq> set q1 \<union> {raw. \<exists>ty ts. b1 ty = Some (raw, ts)} \<and> (\<forall>ty x. buf' ty = Some x \<longrightarrow> b1 ty = Some x)"
    by (rule Cons.IH) (use Cons.prems r in simp)
  with 1 show ?case by blast
qed auto

lemma replay_ice_raws: "set (fold (replay_ice now age) es q) \<subseteq> set q \<union> fst ` set es"
proof (induction es arbitrary: q)
  case (Cons e es)
  have "set (replay_ice now age e q) \<subseteq> insert (fst e) (set q)" by (auto simp: replay_ice_def try_send_def)
  with Cons.IH [of "replay_ice now age e q"] show ?case by auto
qed simp

lemma register_raws:
  assumes "register now age r c q s = Some (q', s')"
  shows "set q' \<subseteq> set q \<union> buffered_raws s (other r)" "buffered_raws s' r' \<subseteq> buffered_raws s r'"
proof -
  obtain buf q1 where f: "fold (replay_sdp now age) replayableTypes (recent s (other r), q) = (buf, q1)"
    by (cases "fold (replay_sdp now age) replayableTypes (recent s (other r), q)")
  note raws = replay_sdp_raws [OF f]
  have q': "q' = fold (replay_ice now age) (recentICE s (other r)) q1"
    and s': "s' = s\<lparr>peers := (peers s)(r \<mapsto> c), recent := (recent s)(other r := buf)\<rparr>"
    using assms f by (auto simp: register_def split: if_splits)
  show "set q' \<subseteq> set q \<union> buffered_raws s (other r)"
    using raws replay_ice_raws [of now age "recentICE s (other r)" q1] unfolding q' buffered_raws_def by blast
  show "buffered_raws s' r' \<subseteq> buffered_raws s r'"
    using raws unfolding s' buffered_raws_def by (auto, blast)
qed

lemma got_ok_session [simp]: "got_ok br (set_session a s h) q raw = got_ok br h q raw"
  by (simp add: got_ok_def from_session_def)

lemma prov_getOrCreate:
  assumes pv: "prov br h" and g: "getOrCreate K h = (a, h1)"
  shows "prov br h1" "conns h1 = conns h"
proof -
  show c: "conns h1 = conns h" using g by (auto simp: getOrCreate_def split: option.splits)
  have "forwards h1 = forwards h" using g by (auto simp: getOrCreate_def split: option.splits)
  with c have fs: "from_session h1 = from_session h" by (simp add: from_session_def fun_eq_iff)
  with c have pp: "peer_prov br h1 = peer_prov br h" by (intro ext) (simp add: peer_prov_def got_ok_def)
  have none: "buffered_raws (new_session_b K) r = {}" for r by (simp add: buffered_raws_def new_session_b_def)
  have "heap h1 b = heap h b \<or> heap h1 b = new_session_b K" for b
    using g by (auto simp: getOrCreate_def split: option.splits)
  then have "from_session h1 (b_key (heap h1 b)) r raw" if "raw \<in> buffered_raws (heap h1 b) r" for b r raw
    using that provD(1) [OF pv, of raw b r] none by (metis emptyE fs)
  then show "prov br h1" using provD(2) [OF pv] by (simp add: prov_def c pp)
qed

lemma read_frame_prov:
  "written (read_frame br raw p) = written p" "pe_pc p = Pc_Read \<Longrightarrow> simple (pe_pc (read_frame br raw p))"
  "pe_pc p = Pc_Read \<Longrightarrow> pe_pc (read_frame br raw p) \<noteq> Pc_Send t x k"
  by (simp_all add: read_frame_def Let_def split: option.split)

text \<open>The peer in the other place of a connection's session.\<close>

lemma slot_peer:
  assumes "br_invar h" "conns h c = Some p" "pe_pc p \<noteq> Pc_GetOrCreate" "peers (heap h (pe_sess p)) r = Some t"
  obtains q where "conns h t = Some q" "pe_key q = pe_key p" "pe_role q = r"
proof -
  from br_invarD(3) [OF assms(1), of "pe_sess p" r] assms(4) obtain q where q: "conns h t = Some q" "pe_role q = r"
    by (auto simp: slot_ok_def)
  moreover have "b_key (heap h (pe_sess p)) = pe_key p" using br_invarD(4) [OF assms(1,2)] assms(3) by (simp add: peer_ok_def)
  ultimately show ?thesis using that slot_key [OF assms(1,4)] by auto
qed

lemma prov_go:
  assumes "prov br h" "conns h c = Some p" "simple k" "\<And>t raw k'. k \<noteq> Pc_Send t raw k'"
  shows "prov br (set_conn c (p\<lparr>pe_pc := k\<rparr>) h)"
  by (rule prov_conn [OF assms(1,2)]) (use assms provD(2) [OF assms(1,2)] in \<open>auto simp: peer_prov_def\<close>)

lemma plain_not_send: "plain k \<Longrightarrow> k \<noteq> Pc_Send t raw k'"
  by auto

lemma prov_forward:
  assumes inv: "br_invar h" and pv: "prov br h" and p: "conns h c = Some p" and pc: "pe_pc p = Pc_Forward ty raw k" "plain k"
    and f: "forward now (other (pe_role p)) ty raw (heap h (pe_sess p)) = (s1, target)"
  shows "prov br (set_conn c (p\<lparr>pe_pc := (case target of None \<Rightarrow> k | Some t \<Rightarrow> Pc_Send t raw k)\<rparr>)
    ((set_session (pe_sess p) s1 h)\<lparr>forwards := forwards h @ [(c, ty, raw)]\<rparr>))" (is "prov br (set_conn c ?p ?h)")
proof -
  let ?g = "h\<lparr>forwards := forwards h @ [(c, ty, raw)]\<rparr>"
  have s1: "s1 = fst (forward now (other (pe_role p)) ty raw (heap h (pe_sess p)))"
    and target: "target = peers (heap h (pe_sess p)) (other (pe_role p))"
    using f forward_fields(3) [of now "other (pe_role p)" ty raw "heap h (pe_sess p)"] by simp_all
  have key: "b_key (heap h (pe_sess p)) = pe_key p" using br_invarD(4) [OF inv p] pc(1) by (simp add: peer_ok_def)
  have pg: "prov br ?g" by (rule prov_mono [OF pv]) auto
  have mine: "from_session g (pe_key p) (pe_role p) raw" if "forwards g = forwards ?g" "conns g = conns h" for g
    using that p unfolding from_session_def by (intro exI [of _ c] exI [of _ ty] exI [of _ p]) simp
  have "prov br (set_session (pe_sess p) s1 ?g)"
  proof (rule prov_session [OF pg])
    show "b_key s1 = b_key (heap ?g (pe_sess p))" using forward_fields(2) s1 by simp
    fix r x
    assume "x \<in> buffered_raws s1 r"
    then have "x \<in> buffered_raws (heap ?g (pe_sess p)) r \<or> r = pe_role p \<and> x = raw"
      using buffered_forward [of now "pe_role p" ty raw "heap h (pe_sess p)" r] s1 by (auto split: if_splits)
    then show "from_session ?g (b_key s1) r x"
      using provD(1) [OF pg, of x "pe_sess p" r] mine [of ?g] key forward_fields(2) s1 by auto
  qed
  then have ph: "prov br ?h" by (rule prov_hub) simp_all
  show ?thesis
  proof (rule prov_conn [OF ph])
    show "conns ?h c = Some p" using p by simp
    show "simple (pe_pc ?p)" using pc(2) plain_simple by (simp split: option.split)
    show "got_ok br ?h p x" if "x \<in> set (written ?p) \<union> set (send ?p)" for x
      using that provD(2) [OF ph, of c p] p by (auto simp: peer_prov_def)
    show "got_ok br ?h q x" if "pe_pc ?p = Pc_Send t x k'" "conns ?h t = Some q" for t x k' q
    proof -
      have t: "target = Some t" "x = raw" using that(1) pc(2) by (auto split: option.splits)
      obtain y where "conns h t = Some y" "pe_key y = pe_key p" "pe_role y = other (pe_role p)"
        by (rule slot_peer [OF inv p _ t(1) [unfolded target]]) (simp add: pc)
      with that(2) mine [of ?h] t show ?thesis by (simp add: got_ok_def)
    qed
  qed simp_all
qed

lemma prov_conn_step:
  assumes inv: "br_invar h" and pv: "prov br h"
  shows "prov br (conn_step br now c h)"
proof (cases "conns h c")
  case None
  with pv show ?thesis by (simp add: conn_step_def)
next
  case (Some p)
  have pp: "peer_prov br h p" by (rule provD(2) [OF pv Some])
  note go = prov_go [OF pv Some]
  have both: "prov br (set_conn c p' (set_session (pe_sess p) s h))"
    if bufs: "\<And>r. buffered_raws s r \<subseteq> buffered_raws (heap h (pe_sess p)) r" and key: "b_key s = b_key (heap h (pe_sess p))"
      and "pe_key p' = pe_key p" "pe_role p' = pe_role p" "\<And>x. x \<in> set (written p') \<union> set (send p') \<Longrightarrow> got_ok br h p x"
      "plain (pe_pc p')" for p' s
  proof -
    have "from_session h (b_key s) r x" if x: "x \<in> buffered_raws s r" for r x
      using provD(1) [OF pv subsetD [OF bufs x]] key by simp
    then have ps: "prov br (set_session (pe_sess p) s h)" by (rule prov_session [OF pv key])
    show ?thesis
      by (rule prov_conn [OF ps]) (use that Some plain_simple in auto)
  qed
  show ?thesis
  proof (cases "pe_pc p")
    case Pc_GetOrCreate
    obtain a h1 where g: "getOrCreate (pe_key p) h = (a, h1)" by (cases "getOrCreate (pe_key p) h")
    note h1 = prov_getOrCreate [OF pv g]
    have "prov br (set_conn c (p\<lparr>pe_sess := a, pe_pc := Pc_Register\<rparr>) h1)"
      by (rule prov_conn [OF h1(1)]) (use h1 Some provD(2) [OF h1(1), of c p] in \<open>auto simp: peer_prov_def\<close>)
    with Some Pc_GetOrCreate g show ?thesis by (simp add: conn_step_def)
  next
    case Pc_Register
    have key: "b_key (heap h (pe_sess p)) = pe_key p" using br_invarD(4) [OF inv Some] Pc_Register by (simp add: peer_ok_def)
    have "prov br (set_conn c (p\<lparr>send := q, pe_pc := Pc_Advise\<rparr>) (set_session (pe_sess p) s1 h))"
      if r: "register now (max_age br) (pe_role p) c (send p) (heap h (pe_sess p)) = Some (q, s1)" for q s1
    proof (rule both)
      show "got_ok br h p x" if "x \<in> set (written (p\<lparr>send := q, pe_pc := Pc_Advise\<rparr>)) \<union> set (send (p\<lparr>send := q, pe_pc := Pc_Advise\<rparr>))" for x
        using that pp register_raws(1) [OF r] provD(1) [OF pv, of x "pe_sess p" "other (pe_role p)"] key
        by (auto simp: peer_prov_def got_ok_def)
    qed (use register_raws(2) [OF r] register_Some(3) [OF r] in auto)
    then show ?thesis using Some Pc_Register go [of Pc_Drop] by (simp add: conn_step_def split: option.split)
  next
    case Pc_Advise
    have "prov br (set_conn c (p\<lparr>pe_pc := Pc_Send c raw Pc_First\<rparr>) h)" if "advice br (pe_role p) = Some raw" for raw
      by (rule prov_conn [OF pv Some]) (use that pp Some in \<open>auto simp: peer_prov_def got_ok_def\<close>)
    then show ?thesis using Some Pc_Advise go [of Pc_First] by (simp add: conn_step_def split: option.split)
  next
    case Pc_Read
    have "prov br (set_conn c (read_frame br raw (p\<lparr>inbox := rest\<rparr>)) h)" for raw rest
      by (rule prov_conn [OF pv Some])
        (use Pc_Read pp read_frame_fields [of br raw "p\<lparr>inbox := rest\<rparr>"] read_frame_prov [where br = br and raw = raw and p = "p\<lparr>inbox := rest\<rparr>"]
          in \<open>auto simp: peer_prov_def\<close>)
    then show ?thesis using Some Pc_Read pv go [of Pc_Unregister] by (simp add: conn_step_def split: list.split)
  next
    case (Pc_Forward ty raw k)
    obtain s1 target where f: "forward now (other (pe_role p)) ty raw (heap h (pe_sess p)) = (s1, target)"
      by (cases "forward now (other (pe_role p)) ty raw (heap h (pe_sess p))")
    have k: "plain k" using pp Pc_Forward by (simp add: peer_prov_def)
    let ?h = "set_conn c (p\<lparr>pe_pc := (case target of None \<Rightarrow> k | Some t \<Rightarrow> Pc_Send t raw k)\<rparr>)
      ((set_session (pe_sess p) s1 h)\<lparr>forwards := forwards h @ [(c, ty, raw)]\<rparr>)"
    have 1: "prov br ?h" by (rule prov_forward [OF inv pv Some Pc_Forward k f])
    have "prov br (?h\<lparr>conns := (conns ?h)(t := map_option (\<lambda>q. q\<lparr>byeReceived := True\<rparr>) (conns ?h t))\<rparr>)" for t
      by (rule prov_touch [OF 1]) (use provD(2) [OF 1, of t] in \<open>auto simp: peer_prov_def\<close>)
    moreover have "conn_step br now c h = (if target = None \<or> ty \<noteq> ''bye'' then ?h
        else ?h\<lparr>conns := (conns ?h)(the target := map_option (\<lambda>q. q\<lparr>byeReceived := True\<rparr>) (conns ?h (the target)))\<rparr>)"
      by (rule conn_step_forward [OF Some Pc_Forward f refl])
    ultimately show ?thesis using 1 by presburger
  next
    case (Pc_Send t raw k)
    have k: "plain k" using pp Pc_Send by (simp add: peer_prov_def)
    let ?h = "set_conn c (p\<lparr>pe_pc := k\<rparr>) h"
    have 1: "prov br ?h" by (rule go) (use k plain_simple plain_not_send in auto)
    have raw: "got_ok br h q raw" if "conns h t = Some q" for q using pp Pc_Send that by (simp add: peer_prov_def)
    have keep: "got_ok br ?h q x" if "got_ok br h q x" for q x
      by (rule got_ok_conn [OF Some _ _ that]) simp_all
    have "prov br (?h\<lparr>conns := (conns ?h)(t := map_option (\<lambda>q. q\<lparr>send := try_send raw (send q)\<rparr>) (conns ?h t))\<rparr>)"
    proof (rule prov_touch [OF 1])
      fix q
      assume q: "conns ?h t = Some q"
      obtain x where x: "conns h t = Some x" "pe_key x = pe_key q" "pe_role x = pe_role q"
        using q Some by (cases "t = c") auto
      have "got_ok br ?h q raw" using keep [OF raw [OF x(1)]] x(2,3) by (simp add: got_ok_def)
      moreover have "got_ok br ?h q x" if "x \<in> set (written q) \<union> set (send q)" for x
        using provD(2) [OF 1 q] that by (simp add: peer_prov_def)
      ultimately show "pe_key (q\<lparr>send := try_send raw (send q)\<rparr>) = pe_key q
          \<and> pe_role (q\<lparr>send := try_send raw (send q)\<rparr>) = pe_role q \<and> pe_pc (q\<lparr>send := try_send raw (send q)\<rparr>) = pe_pc q
          \<and> (\<forall>x \<in> set (written (q\<lparr>send := try_send raw (send q)\<rparr>)) \<union> set (send (q\<lparr>send := try_send raw (send q)\<rparr>)). got_ok br ?h q x)"
        by (auto simp: try_send_def)
    qed
    with Some Pc_Send show ?thesis by (simp add: conn_step_def Let_def)
  next
    case (Pc_Bye roles)
    have "prov br (set_conn c (p\<lparr>saidBye := True, pe_pc := Pc_Read\<rparr>)
        (set_session (pe_sess p) (discardReplay roles (heap h (pe_sess p))) h))"
      by (rule both) (use pp buffered_discard in \<open>auto simp: peer_prov_def discardReplay_def\<close>)
    with Some Pc_Bye show ?thesis by (simp add: conn_step_def)
  next
    case Pc_Unregister
    have "prov br (set_conn c (p\<lparr>pe_pc := Pc_Leave\<rparr>)
        (set_session (pe_sess p) (unregister (pe_role p) c (heap h (pe_sess p))) h))"
      by (rule both) (use pp buffered_unregister in \<open>auto simp: peer_prov_def unregister_def\<close>)
    with Some Pc_Unregister show ?thesis by (simp add: conn_step_def)
  next
    case Pc_Leave
    have "prov br (set_conn c (p\<lparr>pe_pc := Pc_Announce (negotiated p) (byeReceived p)\<rparr>)
        (set_session (pe_sess p) (discardReplay roles (heap h (pe_sess p))) h))" for roles
      by (rule both) (use pp buffered_discard in \<open>auto simp: peer_prov_def discardReplay_def\<close>)
    with Some Pc_Leave show ?thesis by (simp add: conn_step_def Let_def)
  next
    case Pc_Drop
    let ?g = "dropIfEmpty (pe_key p) h"
    have g: "prov br ?g" "conns ?g c = Some p"
      using Some by (auto simp: dropIfEmpty_def split: option.split intro!: prov_hub [OF pv])
    from prov_go [OF g, of Pc_Done] Some Pc_Drop show ?thesis by (simp add: conn_step_def)
  qed (use Some pv go in \<open>auto simp: conn_step_def split: option.split\<close>)
qed


lemma prov_step:
  assumes inv: "br_invar h" and pv: "prov br h"
  shows "prov br (br_step br e h)"
proof -
  obtain now ev where e: "e = (now, ev)" by (cases e)
  have pp: "conns h c = Some q \<Longrightarrow> peer_prov br h q" for c q by (rule provD(2) [OF pv])
  have new: "prov br (set_conn c p h)" if "conns h c = None" "written p = []" "send p = []" "plain (pe_pc p)" for c p
  proof -
    have fs: "from_session (set_conn c p h) K r raw" if "from_session h K r raw" for K r raw
      using that \<open>conns h c = None\<close> unfolding from_session_def by (metis fun_upd_other hub_fields(1,6) option.distinct(1))
    have got: "got_ok br (set_conn c p h) q raw" if "got_ok br h q raw" for q raw using that fs unfolding got_ok_def by blast
    have tgt: "t \<noteq> c" if "conns h d = Some q" "pe_pc q = Pc_Send t raw k" for d q t raw k
      using pc_targets [OF inv that(1), of t] that(2) \<open>conns h c = None\<close> by auto
    have "peer_prov br (set_conn c p h) q" if "conns h d = Some q" for d q
      using pp [OF that] got tgt [OF that] by (auto simp: peer_prov_def)
    moreover have "peer_prov br (set_conn c p h) p" using that plain_simple by (auto simp: peer_prov_def)
    ultimately have "peer_prov br (set_conn c p h) q" if "conns (set_conn c p h) d = Some q" for d q
      using that by (cases "d = c") auto
    moreover have "from_session (set_conn c p h) (b_key (heap h a)) r raw" if "raw \<in> buffered_raws (heap h a) r" for a r raw
      by (rule fs [OF provD(1) [OF pv that]])
    ultimately show ?thesis by (simp add: prov_def)
  qed
  show ?thesis
  proof (cases ev)
    case (Br_Open c path tok raw)
    with e pv new show ?thesis by (auto simp: accept_def split: option.split sum.split)
  next
    case (Br_Frame c raw)
    show ?thesis unfolding e Br_Frame br_step.simps by (rule prov_touch [OF pv]) (use pp in \<open>auto simp: peer_prov_def\<close>)
  next
    case (Br_Gone c)
    show ?thesis unfolding e Br_Gone br_step.simps by (rule prov_touch [OF pv]) (use pp in \<open>auto simp: peer_prov_def\<close>)
  next
    case (Br_Step c)
    with e prov_conn_step [OF inv pv] show ?thesis by simp
  next
    case (Br_Write c)
    have "prov br (set_conn c (p\<lparr>send := rest, written := written p @ [raw]\<rparr>) h)"
      if "conns h c = Some p" "send p = raw # rest" for p raw rest
      by (rule prov_conn [OF pv that(1)]) (use pp [OF that(1)] that(2) in \<open>auto simp: peer_prov_def\<close>)
    with e Br_Write pv show ?thesis by (auto simp: write_step_def split: option.split list.split)
  next
    case Br_Shutdown
    with e show ?thesis by (auto intro: prov_hub [OF pv])
  qed
qed

lemma prov_new: "prov br newHub"
  by (simp add: prov_def newHub_def new_session_b_def buffered_raws_def)

interpretation prov_machine: invariant_machine "\<lambda>h. h = newHub" "br_step br" "\<lambda>h. br_invar h \<and> prov br h" for br
  by unfold_locales (auto simp: br_invar_new br_invar_step prov_new prov_step)

section \<open>Tenants, sessions and places\<close>

lemma received_from_session:
  assumes "conns (fold (br_step br) es newHub) c = Some p" "raw \<in> set (written p) \<union> set (send p)"
  shows "got_ok br (fold (br_step br) es newHub) p raw"
proof -
  have "prov br (fold (br_step br) es newHub)" using prov_machine.invar_reached [of newHub br es] by simp
  from provD(2) [OF this assms(1)] assms(2) show ?thesis by (auto simp: peer_prov_def)
qed

text \<open>
  A connection is only ever sent what a connection of the same tenant, the same session and
  the other role had forwarded, or the broker's own notice that the other peer is absent. This
  covers messages sent on and messages replayed, in every run of the broker.
\<close>

theorem tenant_isolation:
  assumes "conns (fold (br_step br) es newHub) c = Some p" "raw \<in> set (written p) \<union> set (send p)"
  shows "advice br (pe_role p) = Some raw
    \<or> (\<exists>d ty q. (d, ty, raw) \<in> set (forwards (fold (br_step br) es newHub)) \<and> conns (fold (br_step br) es newHub) d = Some q
         \<and> pe_key q = pe_key p \<and> pe_role q = other (pe_role p))"
  using received_from_session [OF assms] by (auto simp: got_ok_def from_session_def)

text \<open>
  C14. The place of a role in a session object is held by a connection exactly while that connection has
  that role and that session and its goroutine is between joining and leaving: no two
  connections share a place, and no place outlives its connection. The buffers of a session
  hold at most 32 candidates for each sender and SDP of the three replayable types only, and
  no channel holds more than 32 messages.
\<close>

theorem broker_places:
  "(peers (heap (fold (br_step br) es newHub) a) r = Some c \<longleftrightarrow>
      (\<exists>p. conns (fold (br_step br) es newHub) c = Some p \<and> pe_role p = r \<and> pe_sess p = a \<and> holds (pe_pc p)))
   \<and> length (recentICE (heap (fold (br_step br) es newHub) a) r) \<le> 32
   \<and> dom (recent (heap (fold (br_step br) es newHub) a) r) \<subseteq> {''offer'', ''answer'', ''request_renegotiate''}
   \<and> (case conns (fold (br_step br) es newHub) c of None \<Rightarrow> True | Some p \<Rightarrow> length (send p) \<le> 32)"
proof -
  let ?h = "fold (br_step br) es newHub"
  have inv: "br_invar ?h" by (rule br_machine.invar_reached) simp
  have "peers (heap ?h a) r = Some c \<longleftrightarrow>
      (\<exists>p. conns ?h c = Some p \<and> pe_role p = r \<and> pe_sess p = a \<and> holds (pe_pc p))"
    using br_invarD(3) [OF inv, of a r] br_invarD(4) [OF inv, of c] by (auto simp: slot_ok_def peer_ok_def)
  moreover have "buffers_ok (heap ?h a)" by (rule br_invarD(2) [OF inv])
  moreover have "length (send p) \<le> 32" if "conns ?h c = Some p" for p
    using br_invarD(4) [OF inv that] by (simp add: peer_ok_def sendBuffer_def)
  ultimately show ?thesis
    by (simp add: buffers_ok_def iceReplayMaxPerSender_def replayableTypes_def split: option.split)
qed

section \<open>Runs\<close>

lemmas br_run_simps = conn_step_def Let_def accept_joins [OF demo_joins(1)] accept_joins [OF demo_joins(2)] getOrCreate_def
  register_def replay_sdp_def replay_ice_def try_send_def new_session_b_def peerPresent_def advice_def role_string_def
  validTypes_def replayableTypes_def isReplayable_def forward_def other_def sendBuffer_def unregister_def discardReplay_def
  dropIfEmpty_def newHub_def set_conn_def set_session_def read_frame_def rewritten_def second_def

definition meet_run :: "(int \<times> br_event) list" where
  "meet_run = [(0, Br_Open 1 ''/ws/s'' [] demo_offer), (0, Br_Open 2 ''/ws/s'' [] demo_hello)]
     @ replicate 6 (0, Br_Step 1) @ replicate 2 (1, Br_Step 2)"

definition split_run :: "(int \<times> br_event) list" where
  "split_run = (0, Br_Open 1 ''/ws/s'' [] demo_hello) # replicate 7 (0, Br_Step 1) @ (0, Br_Gone 1) # replicate 4 (0, Br_Step 1)
     @ [(0, Br_Open 2 ''/ws/s'' [] demo_offer), (0, Br_Step 2), (0, Br_Step 1)] @ replicate 7 (0, Br_Step 2)
     @ (0, Br_Open 3 ''/ws/s'' [] demo_hello) # replicate 7 (0, Br_Step 3)"

definition discard_run :: "(int \<times> br_event) list" where
  "discard_run = (0, Br_Open 1 ''/ws/s'' [] demo_offer) # replicate 7 (0, Br_Step 1) @ (0, Br_Gone 1) # replicate 2 (0, Br_Step 1)
     @ (0, Br_Open 2 ''/ws/s'' [] demo_offer) # replicate 7 (0, Br_Step 2) @ (0, Br_Step 1)
     # (0, Br_Open 3 ''/ws/s'' [] demo_hello) # replicate 7 (0, Br_Step 3)"

definition stale_run :: "(int \<times> br_event) list" where
  "stale_run = (0, Br_Open 1 ''/ws/s'' [] demo_offer) # replicate 7 (0, Br_Step 1) @ (0, Br_Open 2 ''/ws/s'' [] demo_hello)
     # replicate 7 (0, Br_Step 2) @ (0, Br_Frame 2 demo_answer) # replicate 3 (0, Br_Step 2) @ (0, Br_Gone 1)
     # replicate 6 (0, Br_Step 1) @ (0, Br_Open 3 ''/ws/s'' [] demo_offer) # replicate 2 (0, Br_Step 3)"

theorem tenant_isolation_witness:
  "\<exists>p. conns (fold (br_step demo_broker) meet_run newHub) 2 = Some p \<and> send p = [demo_offer]
    \<and> (advice demo_broker (pe_role p) = Some demo_offer
       \<or> (\<exists>d ty q. (d, ty, demo_offer) \<in> set (forwards (fold (br_step demo_broker) meet_run newHub))
            \<and> conns (fold (br_step demo_broker) meet_run newHub) d = Some q
            \<and> pe_key q = pe_key p \<and> pe_role q = other (pe_role p)))"
proof -
  obtain p where p: "conns (fold (br_step demo_broker) meet_run newHub) 2 = Some p" "send p = [demo_offer]"
    by (simp add: meet_run_def br_run_simps numeral_eq_Suc)
  show ?thesis by (intro exI [of _ p] conjI p tenant_isolation [OF p(1)]) (simp add: p(2))
qed




section \<open>Limits of the replay\<close>

text \<open>
  A session buffers up to 32 candidates besides the offer, and the channel of a connection
  holds 32 messages, which nothing drains while the connection joins: when all 33 are fresh, the
  last candidate is dropped.
\<close>

theorem full_replay_drops_last:
  assumes "peers s kClient = None" "recent s kBrowser = [''offer'' \<mapsto> (raw, ts)]" "now - ts \<le> age"
    "length (recentICE s kBrowser) = 32" "\<forall>e \<in> set (recentICE s kBrowser). now - snd e \<le> age"
  shows "map_option fst (register now age kClient c [] s) = Some (raw # butlast (map fst (recentICE s kBrowser)))"
proof -
  let ?es = "recentICE s kBrowser"
  have ne: "?es \<noteq> []" using assms(4) by auto
  have "fold (replay_ice now age) (butlast ?es) [raw] = raw # map fst (butlast ?es)"
    using assms(4,5) by (simp add: replay_all sendBuffer_def in_set_butlastD)
  moreover have "replay_ice now age e (raw # map fst (butlast ?es)) = raw # map fst (butlast ?es)" for e
    using assms(4) by (simp add: replay_ice_def try_send_def sendBuffer_def)
  ultimately have "fold (replay_ice now age) (butlast ?es @ [last ?es]) [raw] = raw # map fst (butlast ?es)" by simp
  then have "fold (replay_ice now age) ?es [raw] = raw # butlast (map fst ?es)" using ne by (simp add: map_butlast)
  then show ?thesis
    using assms(1-3) by (simp add: register_def other_def replayableTypes_def replay_sdp_def try_send_def sendBuffer_def)
qed

theorem full_replay_drops_last_witness:
  "map_option fst (register 0 300 kClient 1 [] \<lparr>b_key = (''t'', ''s''), peers = Map.empty,
      recent = (\<lambda>r. [''offer'' \<mapsto> (demo_offer, 0)]), recentICE = (\<lambda>r. replicate 32 (demo_ice, 0))\<rparr>)
    = Some (demo_offer # replicate 31 demo_ice)"
  using full_replay_drops_last [of "\<lparr>b_key = (''t'', ''s''), peers = Map.empty,
      recent = (\<lambda>r. [''offer'' \<mapsto> (demo_offer, 0)]), recentICE = (\<lambda>r. replicate 32 (demo_ice, 0))\<rparr>" demo_offer 0 0 300 1]
  by (simp add: butlast_conv_take)

lemma to_duration_small:
  assumes "0 \<le> secs" "secs \<le> 9223372036"
  shows "to_duration secs = secs * second"
proof -
  have "to_duration secs = sint (word_of_int (secs * second) :: 64 word)" by (simp add: to_duration_def)
  also have "\<dots> = signed_take_bit 63 (secs * second)" by (subst sint_sbintrunc') simp
  also have "\<dots> = secs * second" using assms by (intro signed_take_bit_int_eq_self) (simp_all add: second_def)
  finally show ?thesis .
qed

text \<open>
  C31. The age limit of the buffers is never above the ceiling of ten minutes. It is the default
  when the variable is unset, not a number or not positive, and the configured
  number of seconds cut at the ceiling up to 9223372036 seconds. Above that the conversion to a
  64-bit duration wraps around before the comparison: ten billion seconds give a negative
  limit, under which every buffered frame is too old.
\<close>

theorem replay_age_bounds:
  "resolveICEReplayMaxAge v \<le> 600 * second
   \<and> (case Atoi (TrimSpace v) of
        None \<Rightarrow> resolveICEReplayMaxAge v = 300 * second
      | Some secs \<Rightarrow>
          (secs \<le> 0 \<longrightarrow> resolveICEReplayMaxAge v = 300 * second)
          \<and> (0 < secs \<and> secs \<le> 9223372036 \<longrightarrow> resolveICEReplayMaxAge v = min (secs * second) (600 * second)))
   \<and> resolveICEReplayMaxAge ''10000000000'' < 0"
proof -
  have empty: "Atoi [] = None" by (simp add: Atoi_def all_digits_def)
  have "resolveICEReplayMaxAge ''10000000000'' < 0"
    by (simp add: resolveICEReplayMaxAge_def TrimSpace_def is_space_def Atoi_def all_digits_def digits_value_def to_duration_def
        second_def iceReplayMaxAgeCeiling_def)
  then show ?thesis
    using to_duration_small empty
    by (auto simp: resolveICEReplayMaxAge_def defaultICEReplayMaxAge_def iceReplayMaxAgeCeiling_def Let_def second_def
        split: option.split)
qed

theorem replay_age_bounds_witness:
  "Atoi (TrimSpace ''60'') = Some 60 \<and> resolveICEReplayMaxAge ''60'' = 60 * second"
proof -
  have a: "Atoi (TrimSpace ''60'') = Some 60"
    by (simp add: TrimSpace_def is_space_def Atoi_def all_digits_def digits_value_def)
  with replay_age_bounds [of "''60''"] show ?thesis by (simp add: second_def)
qed

section \<open>Who a connection is\<close>

text \<open>Nothing changes the tenant, the session or the role of a connection.\<close>

definition ident :: "Hub \<Rightarrow> nat \<Rightarrow> ((string \<times> string) \<times> PeerRole) option" where
  "ident h c = map_option (\<lambda>p. (pe_key p, pe_role p)) (conns h c)"

lemma ident_set_conn:
  "conns h c = Some p \<Longrightarrow> pe_key p' = pe_key p \<Longrightarrow> pe_role p' = pe_role p \<Longrightarrow> ident (set_conn c p' h) = ident h"
  by (auto simp: ident_def)

lemma ident_touch:
  assumes "\<And>q. pe_key (f q) = pe_key q \<and> pe_role (f q) = pe_role q"
  shows "ident (h\<lparr>conns := (conns h)(t := map_option f (conns h t))\<rparr>) = ident h"
  using assms by (auto simp: ident_def option.map_comp comp_def)

lemma ident_other [simp]:
  "ident (set_session a s h) = ident h" "ident (h\<lparr>forwards := l\<rparr>) = ident h" "ident (h\<lparr>shuttingDown := b\<rparr>) = ident h"
  "ident (dropIfEmpty k h) = ident h"
  by (auto simp: ident_def dropIfEmpty_def split: option.split)

lemma ident_conn_step: "ident (conn_step br now c h) = ident h"
proof (cases "conns h c")
  case (Some p)
  note go = ident_set_conn [OF Some]
  have go2: "ident (set_conn c p' (set_session a s h)) = ident h" if "pe_key p' = pe_key p" "pe_role p' = pe_role p" for p' a s
    using ident_set_conn [of "set_session a s h" c p p'] that Some by simp
  show ?thesis
  proof (cases "pe_pc p")
    case Pc_GetOrCreate
    obtain a h1 where g: "getOrCreate (pe_key p) h = (a, h1)" by (cases "getOrCreate (pe_key p) h")
    then have "conns h1 = conns h" by (auto simp: getOrCreate_def split: option.splits)
    then have "ident (set_conn c (p\<lparr>pe_sess := a, pe_pc := Pc_Register\<rparr>) h1) = ident h" using Some by (auto simp: ident_def)
    with Some g Pc_GetOrCreate show ?thesis by (simp add: conn_step_def)
  next
    case Pc_Read
    then show ?thesis using Some go read_frame_fields by (simp add: conn_step_def split: list.split)
  next
    case (Pc_Forward ty raw k)
    obtain s1 target where f: "forward now (other (pe_role p)) ty raw (heap h (pe_sess p)) = (s1, target)"
      by (cases "forward now (other (pe_role p)) ty raw (heap h (pe_sess p))")
    let ?h = "set_conn c (p\<lparr>pe_pc := (case target of None \<Rightarrow> k | Some t \<Rightarrow> Pc_Send t raw k)\<rparr>)
      ((set_session (pe_sess p) s1 h)\<lparr>forwards := forwards h @ [(c, ty, raw)]\<rparr>)"
    have "ident ?h = ident h" using go2 by (simp add: set_conn_forwards)
    moreover have "ident (?h\<lparr>conns := (conns ?h)(t := map_option (\<lambda>q. q\<lparr>byeReceived := True\<rparr>) (conns ?h t))\<rparr>) = ident ?h" for t
      by (rule ident_touch) simp
    ultimately show ?thesis using conn_step_forward [OF Some Pc_Forward f refl, of br] by presburger
  next
    case (Pc_Send t raw k)
    let ?h = "set_conn c (p\<lparr>pe_pc := k\<rparr>) h"
    have "ident ?h = ident h" by (rule go) simp_all
    moreover have "ident (?h\<lparr>conns := (conns ?h)(t := map_option (\<lambda>q. q\<lparr>send := try_send raw (send q)\<rparr>) (conns ?h t))\<rparr>) = ident ?h"
      by (rule ident_touch) simp
    ultimately show ?thesis using Some Pc_Send by (simp add: conn_step_def Let_def)
  next
    case Pc_Drop
    have "conns (dropIfEmpty (pe_key p) h) c = Some p" using Some by (simp add: dropIfEmpty_def split: option.split)
    from ident_set_conn [OF this, of "p\<lparr>pe_pc := Pc_Done\<rparr>"] Some Pc_Drop show ?thesis by (simp add: conn_step_def)
  qed (use Some go go2 in \<open>simp_all add: conn_step_def Let_def split: option.split prod.split\<close>)
qed (simp add: conn_step_def)

lemma ident_write: "ident (write_step c h) = ident h"
  using ident_set_conn [of h c] by (simp add: write_step_def split: option.split list.split)

text \<open>Every connection was let in by an event that opened it.\<close>

definition let_in :: "Broker \<Rightarrow> (int \<times> br_event) list \<Rightarrow> nat \<Rightarrow> string \<times> string \<Rightarrow> PeerRole \<Rightarrow> bool" where
  "let_in br es c K r \<longleftrightarrow>
     (\<exists>now path tok raw. (now, Br_Open c path tok raw) \<in> set es \<and> session_of_path path = Some (snd K)
        \<and> authorised br now tok (snd K) (role_string r) = Inr (fst K))"

lemma accept_let_in:
  assumes "conns h c = None" "ident (accept br now c path tok raw h) d = Some (K, r)"
  shows "ident h d = Some (K, r) \<or> d = c \<and> session_of_path path = Some (snd K)
    \<and> authorised br now tok (snd K) (role_string r) = Inr (fst K)"
proof -
  have "role_valid x = Some y \<Longrightarrow> role_string y = x" for x y
    by (auto simp: role_valid_def role_string_def split: if_splits)
  with assms show ?thesis
    by (cases "d = c") (auto simp: accept_def ident_def split: option.splits sum.splits)
qed

lemma all_let_in: "ident (fold (br_step br) es newHub) c = Some (K, r) \<Longrightarrow> let_in br es c K r"
proof (induction es arbitrary: c K r rule: rev_induct)
  case Nil
  then show ?case by (simp add: ident_def newHub_def)
next
  case (snoc e es)
  let ?h = "fold (br_step br) es newHub"
  obtain now ev where e: "e = (now, ev)" by (cases e)
  have keep: "let_in br (es @ [e]) c K r" if "ident ?h c = Some (K, r)"
    using snoc.IH [OF that] by (auto simp: let_in_def)
  show ?case
  proof (cases ev)
    case (Br_Open d path tok raw)
    show ?thesis
    proof (cases "conns ?h d")
      case None
      then have "ident ?h c = Some (K, r) \<or> c = d \<and> session_of_path path = Some (snd K)
          \<and> authorised br now tok (snd K) (role_string r) = Inr (fst K)"
        using snoc.prems e Br_Open accept_let_in [OF None] by simp
      then show ?thesis
      proof
        assume "c = d \<and> session_of_path path = Some (snd K) \<and> authorised br now tok (snd K) (role_string r) = Inr (fst K)"
        then show ?thesis using e Br_Open unfolding let_in_def by auto
      qed (rule keep)
    qed (use keep snoc.prems e Br_Open in simp)
  qed (use keep snoc.prems e in \<open>simp_all add: ident_conn_step ident_write ident_touch\<close>)
qed


text \<open>The broker as the process configures it: tokens, revocations as they stand at a time, and the age limit.\<close>

definition broker_of ::
  "(string \<Rightarrow> GoEnvelope option) \<Rightarrow> (GoEnvelope \<Rightarrow> string option) \<Rightarrow> Crypto \<Rightarrow> AuthConfig \<Rightarrow> string
   \<Rightarrow> ('s \<Rightarrow> string \<Rightarrow> string \<Rightarrow> string + bool) \<Rightarrow> (int \<Rightarrow> 's) \<Rightarrow> string \<Rightarrow> Broker" where
  "broker_of unm mar cr auth region Contains deny age_env =
     \<lparr>unmarshal = unm, marshal = mar,
      authorised = (\<lambda>now tok sid role. authorise cr auth region Contains (deny now) now tok sid role),
      max_age = resolveICEReplayMaxAge age_env\<rparr>"

end
