(* ===== verification/Spec2Isabelle.thy ===== *)
theory Spec2Isabelle
  imports Cb_Reconnect Cb_Offerer_Driver Cb_Config Cb_Cursor_Emitter Cb_File_Transfer Cb_Input Cb_Consent Cb_Clipboard Cb_Broker_Isolation
begin

text \<open>
  Verification of the protocol side of a cloud browser: a Chromium worker that streams a page
  over WebRTC, a viewer in another browser, and a broker that introduces the two.

  \<^bold>\<open>The program.\<close> The worker (C++ under \<^verbatim>\<open>src/capture\<close>) dials the broker (Go under
  \<^verbatim>\<open>src/signaling\<close>) over a WebSocket, sends an SDP offer and candidates, and re-arms for the next
  viewer. The broker pairs one worker and one viewer for each tenant and session, forwards their
  envelopes and replays what a late peer missed. Once connected, data channels carry cursor
  changes to the viewer (TypeScript under \<^verbatim>\<open>src/client\<close>), and uploaded files and input to the worker.

  \<^bold>\<open>Theories.\<close> Records stand for the classes, with a field for each member that matters;
  an operation takes the state and returns it updated, with the calls it makes on its observers
  appended to a log field; posted tasks and goroutine positions are part of the state, and a run
  is a list of events folded over the step function, so a theorem about all runs covers every
  interleaving.

  \<^item> \<open>Cb_Prelude\<close>: JSON values, strings, and the locales \<open>invariant_machine\<close> and
    \<open>absorbing_machine\<close> for properties of all runs.
  \<^item> \<open>Cb_Wire_Envelope\<close> (\<^verbatim>\<open>cb_wire_envelope.cc\<close>): tags, payloads, \<open>Encode\<close> and \<open>Decode\<close> with
    both dialects; round trip and accept list.
  \<^item> \<open>Cb_Transport\<close> (\<^verbatim>\<open>cb_signaling_transport.h\<close>): the sending interface as the locale
    \<open>signaling_transport\<close>, interpreted on the two theories that follow.
  \<^item> \<open>Cb_Ws_Client\<close> (\<^verbatim>\<open>cb_signaling_ws_client.cc\<close>): the WebSocket client; reassembly of inbound
    frames refines the list of messages, and the order of its observer calls.
  \<^item> \<open>Cb_Reconnect\<close> (\<^verbatim>\<open>cb_signaling_reconnect.cc\<close>): the supervisor around the client;
    backoff schedule, wire log, and how a disconnect can be undone.
  \<^item> \<open>Cb_Offerer_Driver\<close> (\<^verbatim>\<open>cb_offerer_driver.cc\<close>): the negotiation state machine with its
    generation-checked callbacks; completion of the dance, invariant, confluence, re-arm.
  \<^item> \<open>Cb_Dc_Host\<close> (\<^verbatim>\<open>cb_dc_host.cc\<close>) and \<open>Cb_Config\<close> (\<^verbatim>\<open>cb_ice_config.cc\<close>, \<^verbatim>\<open>cb_env_config.cc\<close>).
  \<^item> \<open>Cb_Cursor_Envelope\<close>, \<open>Cb_Cursor_Policy\<close>, \<open>Cb_Cursor_Emitter\<close>: from the
    cursor a page sets to the CSS value the viewer paints.
  \<^item> \<open>Cb_File_Upload\<close> (\<^verbatim>\<open>cb_file_upload_receiver.cc\<close>) and \<open>Cb_File_Transfer\<close>, which composes it with the
    sender in \<^verbatim>\<open>file-upload.ts\<close>.
  \<^item> \<open>Cb_Input_Channel\<close> (\<^verbatim>\<open>input.ts\<close>): the viewer's calls and DOM handlers, with coalescing and the phases of a
    wheel gesture; nothing but coalesced positions is lost. \<open>Cb_Input_Dispatch\<close> (\<^verbatim>\<open>cb_input_dispatch*.cc\<close>): the
    worker's decoder and its six device dispatchers. \<open>Cb_Input_Worker\<close>: what they forward under any frames, through
    the locale \<open>dispatcher_invariant\<close>. \<open>Cb_Input\<close>: both ends together, held buttons, fingers and scrolling.
  \<^item> \<open>Cb_Broker_Auth\<close> (\<^verbatim>\<open>token.go\<close>, \<^verbatim>\<open>auth.go\<close>, \<^verbatim>\<open>denylist.go\<close>, \<^verbatim>\<open>admin.go\<close>, \<^verbatim>\<open>dev-issuer.go\<close>): tokens, admission,
    revocation; the locale \<open>denylist\<close> holds what both backends promise.
  \<^item> \<open>Cb_Broker\<close> (\<^verbatim>\<open>server.go\<close>): the hub. Each connection's goroutine has a program point (\<open>pc\<close>), and one
    step of it is one critical section or one channel operation, so all races between
    goroutines are in the runs. \<open>br_invar\<close> ties places, goroutines and sessions together.
  \<^item> \<open>Cb_Broker_Replay\<close>: a viewer that joins at any time gets everything once and in order, whatever
    other sessions do. \<open>Cb_Broker_Isolation\<close>: where messages come from, and the runs in which leaving
    and joining connections lose an offer or are split.
  \<^item> This theory: the tokens and the hub together, and the broker's tags against the worker's.

  \<^bold>\<open>Parameters.\<close> The JSON text reader and writer, Base64, PNG, digests, signatures, Redis, clocks,
  libwebrtc results and the product of a duration and a floating-point factor are arguments of the
  definitions. What a theorem needs of them is a named hypothesis (\<open>reads_back\<close>, \<open>codec_ok\<close>, \<open>key_pair\<close>,
  \<open>redis_sets\<close>, \<open>reads_json\<close>, \<open>visits_each_once\<close>, \<open>floats_exact\<close>), and its witness instantiates them with concrete functions.

  \<^bold>\<open>Bounds.\<close> Loops are structural or have a measure, except the upload loop, a partial function whose end is a
  theorem; no definition uses fuel. Counters keep
  their width where they can wrap (\<open>to_duration\<close> is a 64-bit product). The theorem on the late viewer
  asks for at most 30 candidates, since an offer, 30 candidates and one notice are what a
  channel of 32 messages takes with room; 101 further turns are 8 for joining and 3 for each of up to
  31 frames.

  \<^bold>\<open>Not modelled.\<close> Start-up and wiring of Chromium objects, window-system shims, encoders, audio and frame
  capture are adapters whose behaviour is in the libraries they call. The control channel, the
  viewport controller, relays, rate adaptation, metrics, the bridges and the gateway services are
  separate components without a model here. Timeouts of sockets and pings of the broker only close connections,
  which the event \<open>Br_Gone\<close> covers.
\<close>

section \<open>Tokens and the hub\<close>

text \<open>
  C2. With a verifier key configured, every message a connection is sent, live or replayed, was
  forwarded by a connection that was opened with a token signed by that key, in time and not
  revoked at that moment, for the same tenant and session and the other role; the only other
  message is the broker's own notice that the peer is absent. Whatever other tenants open, send
  or time does not change this.
\<close>

theorem messages_stay_with_tenant:
  assumes on: "enabled auth" and br: "br = broker_of unm mar cr auth region Contains deny age_env"
    and p: "conns (fold (br_step br) es newHub) c = Some p" "raw \<in> set (written p) \<union> set (send p)"
  shows "advice br (pe_role p) = Some raw
    \<or> (\<exists>d ty now path tok first claims. (d, ty, raw) \<in> set (forwards (fold (br_step br) es newHub))
         \<and> (now, Br_Open d path tok first) \<in> set es \<and> session_of_path path = Some (snd (pe_key p))
         \<and> Parse cr (pubKey auth) tok = Inr claims \<and> Sub claims = fst (pe_key p) \<and> Sid claims = snd (pe_key p)
         \<and> Role claims = role_string (other (pe_role p)) \<and> (Exp claims = 0 \<or> now < Exp claims)
         \<and> regionPermitted (Aud claims) region \<and> Contains (deny now) (Sub claims) (Jti claims) \<noteq> Inr True)"
proof (cases "advice br (pe_role p) = Some raw")
  case False
  let ?h = "fold (br_step br) es newHub"
  from received_from_session [OF p] False obtain d ty q where d: "(d, ty, raw) \<in> set (forwards ?h)" "conns ?h d = Some q"
    "pe_key q = pe_key p" "pe_role q = other (pe_role p)"
    by (auto simp: got_ok_def from_session_def)
  from d(2-4) have "ident ?h d = Some (pe_key p, other (pe_role p))" by (simp add: ident_def)
  from all_let_in [OF this] obtain now path tok first where o: "(now, Br_Open d path tok first) \<in> set es"
    "session_of_path path = Some (snd (pe_key p))"
    "authorise cr auth region Contains (deny now) now tok (snd (pe_key p)) (role_string (other (pe_role p))) = Inr (fst (pe_key p))"
    by (auto simp: let_in_def br broker_of_def)
  from o(3) obtain claims where "verifyToken cr auth region now tok (snd (pe_key p)) (role_string (other (pe_role p))) = Inr claims"
    "Sub claims = fst (pe_key p)" "Contains (deny now) (Sub claims) (Jti claims) \<noteq> Inr True"
    by (auto simp: authorise_accepts [OF on])
  with d(1) o(1,2) show ?thesis unfolding verifyToken_accepts session_policy_def by blast
qed simp

text \<open>The sample library with a token for each side of a session.\<close>

definition pair_claims :: "PeerRole \<Rightarrow> Claims" where
  "pair_claims r = dev_claims 1000 ''j1'' ''dev'' ''s1'' (role_string r) []"

definition pair_crypto :: Crypto where
  "pair_crypto = sample_crypto\<lparr>
     read_json := (\<lambda>t. Some (JDict [(''sub'', JString ''dev''), (''sid'', JString ''s1''), (''role'', JString t),
        (''exp'', JInt 4600), (''iat'', JInt 1000), (''nbf'', JInt 970), (''jti'', JString ''j1'')])),
     write_claims := Role\<rparr>"

definition pair_token :: "PeerRole \<Rightarrow> string" where
  "pair_token r = Sign pair_crypto ''p'' (pair_claims r)"

definition pair_broker :: Broker where
  "pair_broker = broker_of (map_of demo_frames) (\<lambda>env. Some (ge_type env @ ge_from env)) pair_crypto sample_auth ''eu''
     st_Contains (\<lambda>now. NewStaticDenylist) []"

definition pair_run :: "(int \<times> br_event) list" where
  "pair_run = [(2000, Br_Open 1 ''/ws/s1'' (pair_token kBrowser) demo_offer), (2000, Br_Open 2 ''/ws/s1'' (pair_token kClient) demo_hello)]
     @ replicate 6 (2000, Br_Step 1) @ replicate 2 (2000, Br_Step 2)"

lemma pair_parse: "Parse pair_crypto ''k'' (pair_token r) = Inr (pair_claims r)"
proof -
  have "codec_ok pair_crypto" using sample_codec by (simp add: codec_ok_def pair_crypto_def)
  moreover have "key_pair pair_crypto ''p'' ''k''" using sample_keys by (simp add: key_pair_def pair_crypto_def)
  moreover have "read_claims pair_crypto (write_claims pair_crypto (pair_claims r)) = Some (pair_claims r)"
    by (cases r; code_simp)
  ultimately show ?thesis unfolding pair_token_def by (rule Parse_Sign)
qed

lemma pair_authorised: "authorised pair_broker 2000 (pair_token r) ''s1'' (role_string r) = Inr ''dev''"
proof -
  have "enabled sample_auth" "pubKey sample_auth = ''k''" by (simp_all add: sample_auth_def)
  moreover have "st_Contains NewStaticDenylist ''dev'' j = Inr False" for j by (simp add: st_Contains_def NewStaticDenylist_def)
  moreover have "session_policy ''eu'' 2000 ''s1'' (role_string r) (pair_claims r)"
    by (simp add: session_policy_def pair_claims_def dev_claims_def devTokenTTL_def regionPermitted_def sample_trim)
  ultimately show ?thesis
    by (simp add: pair_broker_def broker_of_def authorise_accepts verifyToken_accepts pair_parse) (simp add: pair_claims_def dev_claims_def)
qed

lemma pair_joins:
  "joins pair_broker 2000 ''/ws/s1'' (pair_token kBrowser) demo_offer ''offer'' kBrowser (''dev'', ''s1'')"
  "joins pair_broker 2000 ''/ws/s1'' (pair_token kClient) demo_hello ''ice'' kClient (''dev'', ''s1'')"
  using pair_authorised [of kBrowser] pair_authorised [of kClient]
  by (simp_all add: joins_def session_of_path_def role_string_def pair_broker_def broker_of_def demo_frames_def demo_frame_defs)

lemma pair_fields: "max_age pair_broker = 300 * second" "marshal pair_broker env = Some (ge_type env @ ge_from env)"
  by (simp_all add: pair_broker_def broker_of_def resolveICEReplayMaxAge_def sample_trim defaultICEReplayMaxAge_def)

theorem messages_stay_with_tenant_witness:
  "\<exists>p. conns (fold (br_step pair_broker) pair_run newHub) 2 = Some p \<and> send p = [demo_offer] \<and> advice pair_broker (pe_role p) \<noteq> Some demo_offer
     \<and> (\<exists>tok now path first claims d. (now, Br_Open d path tok first) \<in> set pair_run \<and> Parse pair_crypto ''k'' tok = Inr claims
          \<and> Sub claims = ''dev'' \<and> Role claims = ''browser'')"
proof -
  obtain p where p: "conns (fold (br_step pair_broker) pair_run newHub) 2 = Some p" "send p = [demo_offer]" "pe_role p = kClient"
    "pe_key p = (''dev'', ''s1'')"
    by (simp add: pair_run_def br_run_simps accept_joins [OF pair_joins(1)] accept_joins [OF pair_joins(2)] pair_fields numeral_eq_Suc)
  have on: "enabled sample_auth" and k: "pubKey sample_auth = ''k''" by (simp_all add: sample_auth_def)
  have a: "advice pair_broker (pe_role p) \<noteq> Some demo_offer" by (simp add: advice_def pair_fields p(3) role_string_def demo_offer_def)
  have "demo_offer \<in> set (written p) \<union> set (send p)" using p(2) by simp
  from messages_stay_with_tenant [OF on pair_broker_def p(1) this] a
  obtain d ty now path tok first claims where "(now, Br_Open d path tok first) \<in> set pair_run"
    "Parse pair_crypto ''k'' tok = Inr claims" "Sub claims = ''dev''" "Role claims = ''browser''"
    by (auto simp: k p(3,4) other_def role_string_def)
  with p(1,2) a show ?thesis by blast
qed



end
